(* ===== verification/Prelude.thy ===== *)
theory Prelude
  imports Main
begin

text \<open>
  Shared vocabulary of the development: the exceptions a request can end with, the result type of
  a fallible operation and its sequencing, the integer columns the models declare, Python's stable
  descending sort, and the generic lemmas the component theories rely on.
\<close>

section \<open>Exceptions and results\<close>

text \<open>
  A Python f-string message is kept as its template together with the numbers it interpolates, so
  that the model distinguishes every error the code distinguishes without printing numbers.
\<close>

type_synonym message = "string \<times> int list"

datatype exn =
    ValueError message
  | DoesNotExist
  | MultipleObjectsReturned
  | IntegrityError string
  | DataError
  | TypeError string | ArithmeticError string

type_synonym 'a result = "exn + 'a"

text \<open>Sequencing: an exception ends the block, a value is handed to the next statement.\<close>

definition bind_result :: "'a result \<Rightarrow> ('a \<Rightarrow> 'b result) \<Rightarrow> 'b result" where
  "bind_result r f = (case r of Inl e \<Rightarrow> Inl e | Inr x \<Rightarrow> f x)"

lemma bind_result_simps [simp]:
  "bind_result (Inl e) f = Inl e"
  "bind_result (Inr x) f = f x"
  by (simp_all add: bind_result_def)

lemma bind_result_Inr_iff:
  "bind_result r f = Inr y \<longleftrightarrow> (\<exists>x. r = Inr x \<and> f x = Inr y)"
  by (cases r) auto

lemma bind_result_Inl_iff:
  "bind_result r f = Inl e \<longleftrightarrow> r = Inl e \<or> (\<exists>x. r = Inr x \<and> f x = Inl e)"
  by (cases r) auto

lemma bind_result_cong [cong]:
  "r = r' \<Longrightarrow> (\<And>x. r' = Inr x \<Longrightarrow> f x = g x) \<Longrightarrow> bind_result r f = bind_result r' g"
  by (cases r') auto

definition guard_result :: "bool \<Rightarrow> exn \<Rightarrow> unit result" where
  "guard_result b e = (if b then Inr () else Inl e)"

lemma guard_result_Inr_iff [simp]: "guard_result b e = Inr u \<longleftrightarrow> b"
  by (simp add: guard_result_def)

lemma guard_result_Inl_iff [simp]: "guard_result b e = Inl e' \<longleftrightarrow> \<not> b \<and> e' = e"
  by (auto simp: guard_result_def)

lemma bind_guard [simp]:
  "bind_result (guard_result b e) f = (if b then f () else Inl e)"
  by (simp add: guard_result_def)

definition of_option :: "exn \<Rightarrow> 'a option \<Rightarrow> 'a result" where
  "of_option e v = (case v of None \<Rightarrow> Inl e | Some x \<Rightarrow> Inr x)"

lemma of_option_simps [simp]:
  "of_option e None = Inl e"
  "of_option e (Some x) = Inr x"
  by (simp_all add: of_option_def)

lemma of_option_Inr_iff [simp]: "of_option e v = Inr x \<longleftrightarrow> v = Some x"
  by (cases v) auto

lemma of_option_Inl_iff [simp]: "of_option e v = Inl e' \<longleftrightarrow> v = None \<and> e' = e"
  by (cases v) auto

section \<open>Integer columns\<close>

text \<open>
  The models declare their counters as \<open>PositiveIntegerField\<close> and \<open>IntegerField\<close>: 32-bit columns,
  the former with a non-negativity check. A save that leaves the range is refused by the database
  and the surrounding transaction is rolled back.
\<close>

definition int_max :: int where
  "int_max = 2147483647"

definition int_min :: int where
  "int_min = - 2147483648"

definition fits_positive_integer :: "int \<Rightarrow> bool" where
  "fits_positive_integer n \<longleftrightarrow> 0 \<le> n \<and> n \<le> int_max"

definition fits_integer :: "int \<Rightarrow> bool" where
  "fits_integer n \<longleftrightarrow> int_min \<le> n \<and> n \<le> int_max"

named_theorems column_defs "ranges of the integer columns"

lemmas [column_defs] = int_max_def int_min_def fits_positive_integer_def fits_integer_def

section \<open>Sums over a log\<close>

definition sum_where :: "('a \<Rightarrow> bool) \<Rightarrow> ('a \<Rightarrow> int) \<Rightarrow> 'a list \<Rightarrow> int" where
  "sum_where p f xs = sum_list (map f (filter p xs))"

lemma sum_where_simps [simp]:
  "sum_where p f [] = 0"
  "sum_where p f (x # xs) = (if p x then f x else 0) + sum_where p f xs"
  "sum_where p f (xs @ ys) = sum_where p f xs + sum_where p f ys"
  by (simp_all add: sum_where_def)

section \<open>Python's sort with a key and reverse set\<close>

text \<open>
  \<open>xs.sort(key=k, reverse=True)\<close> is stable: elements with equal keys keep their order. Insertion
  of an element in front of the first one whose key is not larger does exactly that.
\<close>

fun insert_desc :: "('a \<Rightarrow> 'k::linorder) \<Rightarrow> 'a \<Rightarrow> 'a list \<Rightarrow> 'a list" where
  "insert_desc k x [] = [x]"
| "insert_desc k x (y # ys) = (if k y \<le> k x then x # y # ys else y # insert_desc k x ys)"

fun sort_desc :: "('a \<Rightarrow> 'k::linorder) \<Rightarrow> 'a list \<Rightarrow> 'a list" where
  "sort_desc k [] = []"
| "sort_desc k (x # xs) = insert_desc k x (sort_desc k xs)"

lemma set_insert_desc [simp]: "set (insert_desc k x xs) = insert x (set xs)"
  by (induction xs) auto

lemma set_sort_desc [simp]: "set (sort_desc k xs) = set xs"
  by (induction xs) auto

lemma length_insert_desc [simp]: "length (insert_desc k x xs) = Suc (length xs)"
  by (induction xs) auto

lemma length_sort_desc [simp]: "length (sort_desc k xs) = length xs"
  by (induction xs) auto

definition descending :: "('a \<Rightarrow> 'k::linorder) \<Rightarrow> 'a list \<Rightarrow> bool" where
  "descending k xs \<longleftrightarrow> sorted_wrt (\<lambda>x y. k y \<le> k x) xs"

lemma descending_insert_desc: "descending k xs \<Longrightarrow> descending k (insert_desc k x xs)"
  unfolding descending_def by (induction xs) auto

lemma descending_sort_desc [simp]: "descending k (sort_desc k xs)"
  by (induction xs) (auto intro: descending_insert_desc simp: descending_def [of k "[]"])

lemma distinct_map_insert_desc:
  "distinct (map f (insert_desc k x xs)) \<longleftrightarrow> distinct (map f (x # xs))"
  by (induction xs) auto

lemma distinct_map_sort_desc [simp]:
  "distinct (map f (sort_desc k xs)) \<longleftrightarrow> distinct (map f xs)"
  by (induction xs) (auto simp: distinct_map_insert_desc)

lemma filter_insert_desc_same:
  "k x = v \<Longrightarrow> filter (\<lambda>y. k y = v) (insert_desc k x xs) = x # filter (\<lambda>y. k y = v) xs"
  by (induction xs) auto

lemma filter_insert_desc_other:
  "k x \<noteq> v \<Longrightarrow> filter (\<lambda>y. k y = v) (insert_desc k x xs) = filter (\<lambda>y. k y = v) xs"
  by (induction xs) auto

lemma sort_desc_stable:
  "filter (\<lambda>y. k y = v) (sort_desc k xs) = filter (\<lambda>y. k y = v) xs"
  by (induction xs) (auto simp: filter_insert_desc_same filter_insert_desc_other)

text \<open>The first \<open>n\<close> of a descending list dominate what is cut off.\<close>

lemma descending_take_drop:
  assumes "descending k xs" and "x \<in> set (take n xs)" and "y \<in> set (drop n xs)"
  shows "k y \<le> k x"
proof -
  have "sorted_wrt (\<lambda>x y. k y \<le> k x) (take n xs @ drop n xs)"
    using assms(1) by (simp add: descending_def)
  then have "\<forall>x \<in> set (take n xs). \<forall>y \<in> set (drop n xs). k y \<le> k x"
    unfolding sorted_wrt_append by blast
  then show ?thesis
    using assms(2,3) by blast
qed

text \<open>The position of the first row a query finds.\<close>

fun find_index :: "('a \<Rightarrow> bool) \<Rightarrow> 'a list \<Rightarrow> nat option" where
  "find_index P [] = None"
| "find_index P (x # xs) = (if P x then Some 0 else map_option Suc (find_index P xs))"

lemma find_index_Some: "find_index P xs = Some i \<Longrightarrow> i < length xs \<and> P (xs ! i)"
  by (induction xs arbitrary: i) (auto split: if_splits)

lemma find_index_None: "find_index P xs = None \<longleftrightarrow> (\<forall>x \<in> set xs. \<not> P x)"
  by (induction xs) auto

section \<open>Requests and ledgers\<close>

text \<open>
  A sequence of requests against one database: each is a transaction, so one that raises leaves
  the state as it was and the next one runs against it.
\<close>

fun run_requests :: "('op \<Rightarrow> 's \<Rightarrow> 's result) \<Rightarrow> 'op list \<Rightarrow> 's \<Rightarrow> 's" where
  "run_requests ex [] s = s"
| "run_requests ex (r # rs) s =
     run_requests ex rs (case ex r s of Inl _ \<Rightarrow> s | Inr s' \<Rightarrow> s')"

lemma run_requests_append [simp]:
  "run_requests ex (rs @ rs') s = run_requests ex rs' (run_requests ex rs s)"
  by (induction rs arbitrary: s) auto

lemma run_requests_invariant:
  assumes "\<And>r s s'. I s \<Longrightarrow> ex r s = Inr s' \<Longrightarrow> I s'" and "I s"
  shows "I (run_requests ex rs s)"
  using assms(2) by (induction rs arbitrary: s) (auto split: sum.splits intro: assms(1))

text \<open>
  The contract of an account with a ledger: every request that succeeds keeps the accounts
  well formed and non-negative, and moves an account by exactly what it adds to that account's
  log. What follows for whole request sequences is proved once.
\<close>

locale ledger =
  fixes exec :: "'op \<Rightarrow> 's \<Rightarrow> 's result"
    and bal :: "'s \<Rightarrow> nat \<Rightarrow> int"
    and logged :: "'s \<Rightarrow> nat \<Rightarrow> int"
    and wf :: "'s \<Rightarrow> bool"
  assumes exec_wf: "wf s \<Longrightarrow> exec r s = Inr s' \<Longrightarrow> wf s'"
    and wf_nonneg: "wf s \<Longrightarrow> 0 \<le> bal s u"
    and exec_balanced: "wf s \<Longrightarrow> exec r s = Inr s' \<Longrightarrow> bal s' u - bal s u = logged s' u - logged s u"
begin

lemma run_wf: "wf s \<Longrightarrow> wf (run_requests exec rs s)"
  by (rule run_requests_invariant) (auto intro: exec_wf)

lemma run_nonneg: "wf s \<Longrightarrow> 0 \<le> bal (run_requests exec rs s) u"
  by (rule wf_nonneg) (rule run_wf)

lemma run_balanced:
  "wf s \<Longrightarrow> bal (run_requests exec rs s) u - bal s u = logged (run_requests exec rs s) u - logged s u"
proof (induction rs arbitrary: s)
  case Nil
  then show ?case by simp
next
  case (Cons r rs)
  show ?case
  proof (cases "exec r s")
    case (Inl e)
    with Cons show ?thesis by simp
  next
    case (Inr s')
    with Cons.prems have "wf s'" by (rule exec_wf)
    with Cons.IH Inr exec_balanced [OF Cons.prems Inr, of u] show ?thesis by fastforce
  qed
qed

lemma run_reconciles:
  "wf s \<Longrightarrow> bal s u = logged s u \<Longrightarrow> bal (run_requests exec rs s) u = logged (run_requests exec rs s) u"
  using run_balanced [of s rs u] by simp

end

end
