(* ===== verification/Py_Strings.thy ===== *)
theory Py_Strings
  imports Prelude
begin

text \<open>
  The string operations of Python the code uses, on ASCII text: whitespace, \<open>strip\<close>, \<open>lower\<close>,
  \<open>upper\<close>, \<open>startswith\<close>, \<open>lstrip\<close> of a character, \<open>isdigit\<close>, and a matcher for the small class
  of regular expressions that appear in the sources (alternatives of sequences of literals,
  \<open>\s+\<close>, an optional space or dash, a word boundary).
\<close>

section \<open>Characters\<close>

definition code :: "char \<Rightarrow> nat" where
  "code c = of_char c"

definition is_space :: "char \<Rightarrow> bool" where
  "is_space c \<longleftrightarrow> code c \<in> {9, 10, 11, 12, 13, 28, 29, 30, 31, 32}"

definition is_digit :: "char \<Rightarrow> bool" where
  "is_digit c \<longleftrightarrow> 48 \<le> code c \<and> code c \<le> 57"

definition is_upper :: "char \<Rightarrow> bool" where
  "is_upper c \<longleftrightarrow> 65 \<le> code c \<and> code c \<le> 90"

definition is_lower :: "char \<Rightarrow> bool" where
  "is_lower c \<longleftrightarrow> 97 \<le> code c \<and> code c \<le> 122"

definition is_word :: "char \<Rightarrow> bool" where
  "is_word c \<longleftrightarrow> is_digit c \<or> is_upper c \<or> is_lower c \<or> code c = 95"

definition lower_char :: "char \<Rightarrow> char" where
  "lower_char c = (if is_upper c then char_of (code c + 32) else c)"

definition upper_char :: "char \<Rightarrow> char" where
  "upper_char c = (if is_lower c then char_of (code c - 32) else c)"

named_theorems char_defs "unfolding of the character predicates"

lemmas [char_defs] = code_def is_space_def is_digit_def is_upper_def is_lower_def is_word_def
  lower_char_def upper_char_def

lemma is_digit_not_space: "is_digit c \<Longrightarrow> \<not> is_space c"
  by (auto simp: is_digit_def is_space_def)

lemma code_char_of: "n < 256 \<Longrightarrow> code (char_of n) = n"
  by (simp add: code_def)

lemma code_bound: "code c < 256"
  by (simp add: code_def)

lemma upper_char_idem [simp]: "upper_char (upper_char c) = upper_char c"
  by (auto simp: upper_char_def is_lower_def code_char_of)

lemma lower_char_idem [simp]: "lower_char (lower_char c) = lower_char c"
  by (auto simp: lower_char_def is_upper_def code_char_of)

section \<open>Strings\<close>

definition lower :: "string \<Rightarrow> string" where
  "lower s = map lower_char s"

definition upper :: "string \<Rightarrow> string" where
  "upper s = map upper_char s"

definition lstrip :: "string \<Rightarrow> string" where
  "lstrip s = dropWhile is_space s"

definition rstrip :: "string \<Rightarrow> string" where
  "rstrip s = rev (dropWhile is_space (rev s))"

definition strip :: "string \<Rightarrow> string" where
  "strip s = rstrip (lstrip s)"

definition lstrip_char :: "char \<Rightarrow> string \<Rightarrow> string" where
  "lstrip_char c s = dropWhile (\<lambda>d. d = c) s"

definition startswith :: "string \<Rightarrow> string \<Rightarrow> bool" where
  "startswith p s \<longleftrightarrow> take (length p) s = p"

definition isdigit :: "string \<Rightarrow> bool" where
  "isdigit s \<longleftrightarrow> s \<noteq> [] \<and> list_all is_digit s"

lemma startswith_append [simp]: "startswith p (p @ s)"
  by (simp add: startswith_def)

lemma startswithE: "startswith p s \<Longrightarrow> (\<And>r. s = p @ r \<Longrightarrow> P) \<Longrightarrow> P"
  by (metis append_take_drop_id startswith_def)

lemma dropWhile_none: "list_all (\<lambda>c. \<not> P c) s \<Longrightarrow> dropWhile P s = s"
  by (cases s) auto

lemma strip_no_space: "list_all (\<lambda>c. \<not> is_space c) s \<Longrightarrow> strip s = s"
  by (simp add: strip_def lstrip_def rstrip_def dropWhile_none)

lemma strip_digits: "list_all is_digit s \<Longrightarrow> strip s = s"
  by (rule strip_no_space) (auto simp: list_all_iff is_digit_not_space)

section \<open>Regular expression search\<close>

text \<open>
  \<open>Lit\<close> is a literal character, \<open>Spaces\<close> is \<open>\s+\<close>, \<open>OptDash\<close> is \<open>[\s-]?\<close> and \<open>Boundary\<close> is
  \<open>\b\<close>. A pattern is a list of alternatives. \<open>match_here\<close> takes the character before the
  position (for the boundary) and asks whether the sequence matches a prefix; \<open>Spaces\<close> tries
  every number of whitespace characters, at least one.
\<close>

datatype rx = Lit char | Spaces | OptDash | Boundary

definition at_boundary :: "char option \<Rightarrow> string \<Rightarrow> bool" where
  "at_boundary prev s \<longleftrightarrow>
     ((case prev of None \<Rightarrow> False | Some c \<Rightarrow> is_word c) \<noteq>
      (case s of [] \<Rightarrow> False | c # _ \<Rightarrow> is_word c))"

fun match_here :: "rx list \<Rightarrow> char option \<Rightarrow> string \<Rightarrow> bool" where
  "match_here [] prev s = True"
| "match_here (Lit c # rs) prev s = (case s of [] \<Rightarrow> False | d # t \<Rightarrow> c = d \<and> match_here rs (Some d) t)"
| "match_here (Spaces # rs) prev s =
     (case s of [] \<Rightarrow> False
      | d # t \<Rightarrow> is_space d \<and> (match_here rs (Some d) t \<or> match_here (Spaces # rs) (Some d) t))"
| "match_here (OptDash # rs) prev s =
     ((case s of [] \<Rightarrow> False
       | d # t \<Rightarrow> (is_space d \<or> d = CHR ''-'') \<and> match_here rs (Some d) t) \<or> match_here rs prev s)"
| "match_here (Boundary # rs) prev s = (at_boundary prev s \<and> match_here rs prev s)"

fun search_from :: "rx list \<Rightarrow> char option \<Rightarrow> string \<Rightarrow> bool" where
  "search_from r prev [] = match_here r prev []"
| "search_from r prev (c # s) = (match_here r prev (c # s) \<or> search_from r (Some c) s)"

definition re_search :: "rx list list \<Rightarrow> string \<Rightarrow> bool" where
  "re_search alts s = list_ex (\<lambda>r. search_from r None s) alts"

definition lits :: "string \<Rightarrow> rx list" where
  "lits s = map Lit s"

lemma match_here_lits_append [simp]: "match_here (lits p) prev (p @ s)"
  by (induction p arbitrary: prev) (auto simp: lits_def)

lemma search_from_here: "match_here r prev s \<Longrightarrow> search_from r prev s"
  by (cases s) auto

lemma search_from_lits: "search_from (lits p) prev (a @ p @ b)"
  by (induction a arbitrary: prev) (simp_all add: search_from_here)

text \<open>A literal alternative that occurs in the text is found wherever it is.\<close>

lemma re_search_lits: "lits p \<in> set alts \<Longrightarrow> re_search alts (a @ p @ b)"
  unfolding re_search_def list_ex_iff by (blast intro: search_from_lits)

section \<open>Numerals\<close>

definition digit_char :: "nat \<Rightarrow> char" where
  "digit_char d = char_of (48 + d)"

definition digit_value :: "char \<Rightarrow> nat" where
  "digit_value c = code c - 48"

text \<open>\<open>str(n)\<close> and \<open>int(s)\<close> of a string of digits.\<close>

fun show_nat :: "nat \<Rightarrow> string" where
  "show_nat n = (if n < 10 then [digit_char n] else show_nat (n div 10) @ [digit_char (n mod 10)])"

declare show_nat.simps [simp del]

definition nat_of_digits :: "string \<Rightarrow> nat" where
  "nat_of_digits s = foldl (\<lambda>a c. 10 * a + digit_value c) 0 s"

lemma digit_char_simps [simp]:
  "d < 10 \<Longrightarrow> is_digit (digit_char d)" "d < 10 \<Longrightarrow> digit_value (digit_char d) = d"
  by (simp_all add: digit_char_def digit_value_def is_digit_def code_char_of)

lemma nat_of_digits_snoc [simp]: "nat_of_digits (s @ [c]) = 10 * nat_of_digits s + digit_value c"
  by (simp add: nat_of_digits_def)

lemma nat_of_digits_Nil [simp]: "nat_of_digits [] = 0"
  by (simp add: nat_of_digits_def)

lemma nat_of_digits_show [simp]: "nat_of_digits (show_nat n) = n"
proof (induction n rule: show_nat.induct)
  case (1 n)
  show ?case
  proof (cases "n < 10")
    case True
    then show ?thesis using nat_of_digits_snoc [of "[]" "digit_char n"] by (simp add: show_nat.simps [of n])
  next
    case False
    with 1 show ?thesis by (simp add: show_nat.simps [of n])
  qed
qed

lemma show_nat_inj: "show_nat m = show_nat n \<Longrightarrow> m = n"
  by (metis nat_of_digits_show)

lemma show_nat_digits: "list_all is_digit (show_nat n)"
proof (induction n rule: show_nat.induct)
  case (1 n)
  then show ?case by (cases "n < 10") (simp_all add: show_nat.simps [of n])
qed

lemma show_nat_nonempty [simp]: "show_nat n \<noteq> []"
  by (simp add: show_nat.simps [of n])

lemma takeWhile_digits: "list_all is_digit s \<Longrightarrow> r = [] \<or> \<not> is_digit (hd r) \<Longrightarrow>
   takeWhile is_digit (s @ r) = s \<and> dropWhile is_digit (s @ r) = r"
  by (induction s) (cases r, auto)+

end
