(* ===== verification/Payment_Status.thy ===== *)
theory Payment_Status
  imports Py_Strings
begin

text \<open>
  \<open>api/services/payment_status.py\<close>: the one vocabulary for what a payment's state is, and the maps
  from what the provider says (USSD result codes, H5 order and trade statuses, free-text
  descriptions) into it.
\<close>

section \<open>States and reasons\<close>

datatype payment_state = SUCCESS | FAILED | PENDING | CANCELLED

datatype pay_reason =
    INSUFFICIENT_BALANCE | WRONG_PIN | USER_CANCELLED | REJECTED | TIMEOUT | UNKNOWN

definition TERMINAL_STATES :: "payment_state list" where
  "TERMINAL_STATES = [SUCCESS, FAILED, CANCELLED]"

definition is_terminal :: "payment_state \<Rightarrow> bool" where
  "is_terminal state \<longleftrightarrow> state \<in> set TERMINAL_STATES"

definition grants_value :: "payment_state \<Rightarrow> bool" where
  "grants_value state \<longleftrightarrow> state = SUCCESS"

section \<open>Reading the provider's wording\<close>

definition REASON_PATTERNS :: "(pay_reason \<times> rx list list) list" where
  "REASON_PATTERNS =
    [(INSUFFICIENT_BALANCE,
        [lits ''insufficient'', lits ''not'' @ [Spaces] @ lits ''enough'',
         lits ''low'' @ [Spaces] @ lits ''balance'',
         lits ''balance'' @ [Spaces] @ lits ''is'' @ [Spaces] @ lits ''not'']),
     (WRONG_PIN,
        [[Boundary] @ lits ''pin'' @ [Boundary], lits ''password'', lits ''credential'']),
     (USER_CANCELLED,
        [lits ''cancel'', lits ''abort'', lits ''dismiss'',
         lits ''user'' @ [Spaces] @ lits ''decline'']),
     (TIMEOUT,
        [lits ''time'' @ [OptDash] @ lits ''out'', lits ''timed'' @ [Spaces] @ lits ''out'',
         lits ''expire'']),
     (REJECTED,
        [lits ''reject'', lits ''decline'', lits ''refus'', lits ''denied'',
         lits ''not'' @ [Spaces] @ lits ''permitted'', lits ''forbidden''])]"

fun first_match :: "(pay_reason \<times> rx list list) list \<Rightarrow> string \<Rightarrow> pay_reason" where
  "first_match [] text = UNKNOWN"
| "first_match ((reason, pattern) # ps) text =
     (if re_search pattern text then reason else first_match ps text)"

definition classify_reason :: "string option \<Rightarrow> pay_reason" where
  "classify_reason description =
     (let text = lower (case description of None \<Rightarrow> [] | Some d \<Rightarrow> d)
      in if strip text = [] then UNKNOWN else first_match REASON_PATTERNS text)"

section \<open>USSD push results\<close>

definition from_ussd_result ::
  "string option \<Rightarrow> string option \<Rightarrow> string option \<Rightarrow> payment_state \<times> pay_reason option" where
  "from_ussd_result result_code result_type description =
     (let code = (case result_code of None \<Rightarrow> [] | Some c \<Rightarrow> strip c);
          rtype = (case result_type of None \<Rightarrow> [] | Some t \<Rightarrow> strip t)
      in if code = ''0'' \<and> rtype = ''0'' then (SUCCESS, None)
         else (let reason = classify_reason description
               in if reason = USER_CANCELLED then (CANCELLED, Some reason)
                  else (FAILED, Some reason)))"

section \<open>H5 and SuperApp checkout orders\<close>

definition H5_ORDER_STATES :: "(string \<times> payment_state \<times> pay_reason option) list" where
  "H5_ORDER_STATES =
    [(''PAY_SUCCESS'', SUCCESS, None), (''SUCCESS'', SUCCESS, None), (''COMPLETED'', SUCCESS, None),
     (''PAY_FAILED'', FAILED, Some REJECTED), (''FAILED'', FAILED, Some REJECTED),
     (''CLOSED'', CANCELLED, Some USER_CANCELLED), (''CANCELLED'', CANCELLED, Some USER_CANCELLED),
     (''CANCELED'', CANCELLED, Some USER_CANCELLED), (''PAY_TIMEOUT'', FAILED, Some TIMEOUT),
     (''TIMEOUT'', FAILED, Some TIMEOUT), (''WAIT_PAY'', PENDING, None), (''PAYING'', PENDING, None),
     (''PENDING'', PENDING, None), (''INIT'', PENDING, None)]"

definition H5_TRADE_STATES :: "(string \<times> payment_state \<times> pay_reason option) list" where
  "H5_TRADE_STATES =
    [(''COMPLETED'', SUCCESS, None), (''SUCCESS'', SUCCESS, None), (''TRADE_SUCCESS'', SUCCESS, None),
     (''PAY_SUCCESS'', SUCCESS, None), (''FAILED'', FAILED, Some REJECTED),
     (''CLOSED'', CANCELLED, Some USER_CANCELLED), (''CANCELLED'', CANCELLED, Some USER_CANCELLED),
     (''TIMEOUT'', FAILED, Some TIMEOUT), (''WAITING'', PENDING, None), (''WAIT_PAY'', PENDING, None),
     (''PENDING'', PENDING, None)]"

definition status_key :: "string option \<Rightarrow> string" where
  "status_key s = upper (strip (case s of None \<Rightarrow> [] | Some t \<Rightarrow> t))"

definition refine_reason ::
  "payment_state \<Rightarrow> pay_reason option \<Rightarrow> string option \<Rightarrow> payment_state \<times> pay_reason option" where
  "refine_reason state reason description =
     (case description of
        None \<Rightarrow> (state, reason)
      | Some d \<Rightarrow>
          if state \<in> {FAILED, CANCELLED} \<and> d \<noteq> [] then
            (let from_text = classify_reason (Some d)
             in if from_text \<noteq> UNKNOWN then
                  (if from_text = USER_CANCELLED then (CANCELLED, Some from_text)
                   else (state, Some from_text))
                else (state, reason))
          else (state, reason))"

definition from_h5_order ::
  "string option \<Rightarrow> string option \<Rightarrow> string option \<Rightarrow> payment_state \<times> pay_reason option" where
  "from_h5_order order_status trade_status description =
     (case map_of H5_ORDER_STATES (status_key order_status) of
        Some (state, reason) \<Rightarrow> refine_reason state reason description
      | None \<Rightarrow>
          (case map_of H5_TRADE_STATES (status_key trade_status) of
             Some (state, reason) \<Rightarrow> refine_reason state reason description
           | None \<Rightarrow> (PENDING, None)))"

section \<open>The response body every flow shares\<close>

record payment_payload =
  pp_state :: payment_state
  pp_is_final :: bool
  pp_reason :: "pay_reason option"
  pp_message :: "pay_reason option" \<comment> \<open>which of \<open>REASON_MESSAGES\<close> is shown, if any\<close>

definition reason_message :: "pay_reason option \<Rightarrow> pay_reason" where
  "reason_message reason = (case reason of None \<Rightarrow> UNKNOWN | Some r \<Rightarrow> r)"

definition payload :: "payment_state \<Rightarrow> pay_reason option \<Rightarrow> payment_payload" where
  "payload state reason =
     \<lparr>pp_state = state, pp_is_final = is_terminal state, pp_reason = reason,
      pp_message = (if state \<noteq> SUCCESS then Some (reason_message reason) else None)\<rparr>"

section \<open>Properties\<close>

lemma refine_reason_success [simp]: "refine_reason SUCCESS r d = (SUCCESS, r)"
  by (simp add: refine_reason_def split: option.splits)

lemma refine_reason_pending [simp]: "refine_reason PENDING r d = (PENDING, r)"
  by (simp add: refine_reason_def split: option.splits)

lemma refine_reason_failure:
  "st \<in> {FAILED, CANCELLED} \<Longrightarrow> fst (refine_reason st r d) \<in> {FAILED, CANCELLED}"
  by (auto simp: refine_reason_def Let_def split: option.splits if_splits)

lemma refine_reason_SUCCESS_iff: "fst (refine_reason st r d) = SUCCESS \<longleftrightarrow> st = SUCCESS"
  using refine_reason_failure [of st r d] by (cases st) auto

lemma refine_reason_PENDING_iff: "fst (refine_reason st r d) = PENDING \<longleftrightarrow> st = PENDING"
  using refine_reason_failure [of st r d] by (cases st) auto

lemma first_match_listed: "first_match ps s = UNKNOWN \<or> first_match ps s \<in> fst ` set ps"
  by (induction ps s rule: first_match.induct) auto

text \<open>The statuses that pay out, in either table.\<close>

definition h5_order_paid :: "string \<Rightarrow> bool" where
  "h5_order_paid k \<longleftrightarrow> k \<in> {''PAY_SUCCESS'', ''SUCCESS'', ''COMPLETED''}"

definition h5_trade_paid :: "string \<Rightarrow> bool" where
  "h5_trade_paid k \<longleftrightarrow> k \<in> {''COMPLETED'', ''SUCCESS'', ''TRADE_SUCCESS'', ''PAY_SUCCESS''}"

lemma order_states_SUCCESS:
  "(\<exists>r. map_of H5_ORDER_STATES k = Some (SUCCESS, r)) \<longleftrightarrow> h5_order_paid k"
  unfolding H5_ORDER_STATES_def h5_order_paid_def by auto

lemma trade_states_SUCCESS:
  "(\<exists>r. map_of H5_TRADE_STATES k = Some (SUCCESS, r)) \<longleftrightarrow> h5_trade_paid k"
  unfolding H5_TRADE_STATES_def h5_trade_paid_def by auto

lemma from_h5_order_SUCCESS_iff:
  "fst (from_h5_order os ts d) = SUCCESS \<longleftrightarrow>
     h5_order_paid (status_key os) \<or>
     map_of H5_ORDER_STATES (status_key os) = None \<and> h5_trade_paid (status_key ts)"
  by (auto simp: from_h5_order_def refine_reason_SUCCESS_iff split: option.splits prod.splits
      simp flip: order_states_SUCCESS trade_states_SUCCESS)

text \<open>
  Only a paid order is ever reported as a success. A checkout order maps to SUCCESS exactly when
  its order status is a paying one, or the order status is unknown and the trade status is a paying
  one; no wording of the description can turn a failure into a success or an order in flight into
  a final state.
\<close>
theorem h5_success_only_if_paid:
  "(grants_value (fst (from_h5_order os ts d)) \<longleftrightarrow>
     h5_order_paid (status_key os) \<or>
     map_of H5_ORDER_STATES (status_key os) = None \<and> h5_trade_paid (status_key ts)) \<and>
   (is_terminal (fst (from_h5_order os ts d)) = is_terminal (fst (from_h5_order os ts None)))"
proof -
  have term_iff: "is_terminal st \<longleftrightarrow> st \<noteq> PENDING" for st
    by (cases st) (simp_all add: is_terminal_def TERMINAL_STATES_def)
  have "is_terminal (fst (from_h5_order os ts d)) = is_terminal (fst (from_h5_order os ts None))"
    by (simp add: term_iff from_h5_order_def refine_reason_PENDING_iff split: option.splits prod.splits)
  then show ?thesis by (simp add: grants_value_def from_h5_order_SUCCESS_iff)
qed

text \<open>
  A USSD push pays out exactly on result code 0 with result type 0; anything else is final and
  unpaid, cancelled when the wording says the customer cancelled and failed otherwise, always with
  a reason.
\<close>
theorem ussd_result_outcome:
  "(grants_value (fst (from_ussd_result c t d)) \<longleftrightarrow>
     map_option strip c = Some ''0'' \<and> map_option strip t = Some ''0'') \<and>
   is_terminal (fst (from_ussd_result c t d)) \<and>
   (fst (from_ussd_result c t d) = CANCELLED \<longleftrightarrow>
     snd (from_ussd_result c t d) = Some USER_CANCELLED) \<and>
   (fst (from_ussd_result c t d) = SUCCESS \<longleftrightarrow> snd (from_ussd_result c t d) = None)"
  by (auto simp: from_ussd_result_def Let_def grants_value_def is_terminal_def TERMINAL_STATES_def
      split: option.splits if_splits)

end
