(* ===== verification/Coin_Balance.thy ===== *)
theory Coin_Balance
  imports Payment_Status
begin

text \<open>
  The coin wallet: \<open>UserCoinBalance\<close>, \<open>CoinTransaction\<close> and \<open>CoinPackage\<close> of
  \<open>api/models/contest.py\<close>, with the code that credits a paid Telebirr order
  (\<open>api/views/wallet.py\<close>) and the welcome bonus (\<open>api/signals.py\<close>).

  The tables are cols of an extensible record, \<open>coin_db\<close>; the other components extend it with
  their own tables. A method that takes the row lock reads the row from the table, not from the
  caller's copy, and an exception leaves the database as it was: a method returns either the
  exception or the new database. The clock \<open>now\<close> is what \<open>timezone.now()\<close> returns.
\<close>

section \<open>Rows\<close>

record coin_package =
  pkg_name :: string
  price_etb :: int \<comment> \<open>in hundredths of a birr: a decimal column with two places\<close>
  coin_amount :: int
  bonus_coins :: int
  pkg_is_active :: bool

definition get_total_coins :: "coin_package \<Rightarrow> int" where
  "get_total_coins p = coin_amount p + bonus_coins p"

record coin_transaction =
  tx_user :: nat
  transaction_type :: string
  coins :: int
  package :: "nat option"
  payment_method :: string
  payment_reference :: string
  recipient :: "nat option"
  reel :: "nat option"
  quoted_coins :: "int option"
  amount_etb :: "int option"
  description :: message
  is_successful :: bool
  tx_payment_state :: payment_state
  payment_reason :: "pay_reason option"
  provider_conversation_id :: string
  tx_created_at :: int

text \<open>A row as \<open>objects.create\<close> makes it when only the mandatory columns are given.\<close>

definition new_transaction :: "nat \<Rightarrow> string \<Rightarrow> int \<Rightarrow> int \<Rightarrow> coin_transaction" where
  "new_transaction u ty c t =
     \<lparr>tx_user = u, transaction_type = ty, coins = c, package = None, payment_method = [],
      payment_reference = [], recipient = None, reel = None, quoted_coins = None,
      amount_etb = None, description = ([], []), is_successful = True,
      tx_payment_state = SUCCESS, payment_reason = None, provider_conversation_id = [],
      tx_created_at = t\<rparr>"

record user_coin_balance =
  balance :: int
  earned_balance :: int
  telebirr_purchased_balance :: int
  airtime_purchased_balance :: int
  bonus_balance :: int
  purchased_balance :: int
  total_earned :: int
  total_spent :: int
  total_purchased :: int
  total_telebirr_purchased :: int
  total_airtime_purchased :: int
  total_bonus_granted :: int
  total_withdrawn :: int

definition new_balance :: user_coin_balance where
  "new_balance =
     \<lparr>balance = 0, earned_balance = 0, telebirr_purchased_balance = 0,
      airtime_purchased_balance = 0, bonus_balance = 0, purchased_balance = 0, total_earned = 0,
      total_spent = 0, total_purchased = 0, total_telebirr_purchased = 0,
      total_airtime_purchased = 0, total_bonus_granted = 0, total_withdrawn = 0\<rparr>"

record coin_db =
  balances :: "nat \<Rightarrow> user_coin_balance option"
  coin_ledger :: "coin_transaction list"
  packages :: "nat \<Rightarrow> coin_package option"
  now :: int

section \<open>Columns and \<open>save(update_fields=...)\<close>\<close>

datatype balance_field =
    F_balance | F_earned_balance | F_telebirr_purchased_balance | F_airtime_purchased_balance
  | F_bonus_balance | F_purchased_balance | F_total_earned | F_total_spent | F_total_purchased
  | F_total_telebirr_purchased | F_total_airtime_purchased | F_total_bonus_granted
  | F_total_withdrawn

fun get_field :: "balance_field \<Rightarrow> user_coin_balance \<Rightarrow> int" where
  "get_field F_balance = balance"
| "get_field F_earned_balance = earned_balance"
| "get_field F_telebirr_purchased_balance = telebirr_purchased_balance"
| "get_field F_airtime_purchased_balance = airtime_purchased_balance"
| "get_field F_bonus_balance = bonus_balance"
| "get_field F_purchased_balance = purchased_balance"
| "get_field F_total_earned = total_earned"
| "get_field F_total_spent = total_spent"
| "get_field F_total_purchased = total_purchased"
| "get_field F_total_telebirr_purchased = total_telebirr_purchased"
| "get_field F_total_airtime_purchased = total_airtime_purchased"
| "get_field F_total_bonus_granted = total_bonus_granted"
| "get_field F_total_withdrawn = total_withdrawn"

fun set_field :: "balance_field \<Rightarrow> int \<Rightarrow> user_coin_balance \<Rightarrow> user_coin_balance" where
  "set_field F_balance v b = b\<lparr>balance := v\<rparr>"
| "set_field F_earned_balance v b = b\<lparr>earned_balance := v\<rparr>"
| "set_field F_telebirr_purchased_balance v b = b\<lparr>telebirr_purchased_balance := v\<rparr>"
| "set_field F_airtime_purchased_balance v b = b\<lparr>airtime_purchased_balance := v\<rparr>"
| "set_field F_bonus_balance v b = b\<lparr>bonus_balance := v\<rparr>"
| "set_field F_purchased_balance v b = b\<lparr>purchased_balance := v\<rparr>"
| "set_field F_total_earned v b = b\<lparr>total_earned := v\<rparr>"
| "set_field F_total_spent v b = b\<lparr>total_spent := v\<rparr>"
| "set_field F_total_purchased v b = b\<lparr>total_purchased := v\<rparr>"
| "set_field F_total_telebirr_purchased v b = b\<lparr>total_telebirr_purchased := v\<rparr>"
| "set_field F_total_airtime_purchased v b = b\<lparr>total_airtime_purchased := v\<rparr>"
| "set_field F_total_bonus_granted v b = b\<lparr>total_bonus_granted := v\<rparr>"
| "set_field F_total_withdrawn v b = b\<lparr>total_withdrawn := v\<rparr>"

fun write_fields ::
  "balance_field list \<Rightarrow> user_coin_balance \<Rightarrow> user_coin_balance \<Rightarrow> user_coin_balance" where
  "write_fields [] new old = old"
| "write_fields (f # fs) new old = write_fields fs new (set_field f (get_field f new) old)"

definition lock_balance :: "nat \<Rightarrow> 'a coin_db_scheme \<Rightarrow> user_coin_balance result" where
  "lock_balance uid db = of_option DoesNotExist (balances db uid)"

definition save_balance ::
  "nat \<Rightarrow> balance_field list \<Rightarrow> user_coin_balance \<Rightarrow> 'a coin_db_scheme \<Rightarrow> 'a coin_db_scheme result"
  where
  "save_balance uid cols new db =
     bind_result (lock_balance uid db) (\<lambda>old.
     bind_result (guard_result (list_all (\<lambda>f. fits_positive_integer (get_field f new)) cols) DataError)
       (\<lambda>_. Inr (db\<lparr>balances := (balances db)(uid \<mapsto> write_fields cols new old)\<rparr>)))"

definition get_or_create_balance :: "nat \<Rightarrow> 'a coin_db_scheme \<Rightarrow> 'a coin_db_scheme" where
  "get_or_create_balance uid db =
     (case balances db uid of
        None \<Rightarrow> db\<lparr>balances := (balances db)(uid \<mapsto> new_balance)\<rparr>
      | Some _ \<Rightarrow> db)"

section \<open>Creating a transaction row\<close>

definition same_pending_reference :: "coin_transaction \<Rightarrow> coin_transaction \<Rightarrow> bool" where
  "same_pending_reference t u \<longleftrightarrow>
     \<not> is_successful t \<and> \<not> is_successful u \<and> payment_reference t \<noteq> [] \<and>
     payment_method t = payment_method u \<and> payment_reference t = payment_reference u"

definition same_grant :: "string \<Rightarrow> coin_transaction \<Rightarrow> coin_transaction \<Rightarrow> bool" where
  "same_grant ty t u \<longleftrightarrow>
     transaction_type t = ty \<and> transaction_type u = ty \<and>
     payment_reference t = payment_reference u"

definition create_transaction ::
  "coin_transaction \<Rightarrow> 'a coin_db_scheme \<Rightarrow> (coin_transaction \<times> 'a coin_db_scheme) result" where
  "create_transaction t db =
     (if \<not> (fits_integer (coins t) \<and> length (transaction_type t) \<le> 20 \<and>
            length (payment_reference t) \<le> 100) then Inl DataError
      else if list_ex (same_pending_reference t) (coin_ledger db) then
        Inl (IntegrityError ''unique_pending_coin_transaction_payment_reference'')
      else if list_ex (same_grant ''subscription_gift'' t) (coin_ledger db) then
        Inl (IntegrityError ''one_subscription_gift_per_payment'')
      else if list_ex (same_grant ''ondemand_allocation'' t) (coin_ledger db) then
        Inl (IntegrityError ''one_ondemand_allocation_per_payment'')
      else Inr (t, db\<lparr>coin_ledger := coin_ledger db @ [t]\<rparr>))"

text \<open>The keyword arguments the callers pass through to \<open>CoinTransaction.objects.create\<close>.\<close>

datatype tx_kwarg =
    Kw_description message
  | Kw_payment_reference string
  | Kw_recipient nat
  | Kw_reel "nat option"
  | Kw_package nat
  | Kw_unexpected string

fun apply_kwargs :: "tx_kwarg list \<Rightarrow> coin_transaction \<Rightarrow> coin_transaction result" where
  "apply_kwargs [] t = Inr t"
| "apply_kwargs (Kw_description d # ks) t = apply_kwargs ks (t\<lparr>description := d\<rparr>)"
| "apply_kwargs (Kw_payment_reference r # ks) t = apply_kwargs ks (t\<lparr>payment_reference := r\<rparr>)"
| "apply_kwargs (Kw_recipient r # ks) t = apply_kwargs ks (t\<lparr>recipient := Some r\<rparr>)"
| "apply_kwargs (Kw_reel r # ks) t = apply_kwargs ks (t\<lparr>reel := r\<rparr>)"
| "apply_kwargs (Kw_package p # ks) t = apply_kwargs ks (t\<lparr>package := Some p\<rparr>)"
| "apply_kwargs (Kw_unexpected k # ks) t = Inl (TypeError k)"

section \<open>Balance arithmetic\<close>

definition sync_balance :: "user_coin_balance \<Rightarrow> user_coin_balance" where
  "sync_balance b =
     (let p = telebirr_purchased_balance b + airtime_purchased_balance b
      in b\<lparr>purchased_balance := p, balance := earned_balance b + bonus_balance b + p\<rparr>)"

definition giftable_balance :: "user_coin_balance \<Rightarrow> int" where
  "giftable_balance b = telebirr_purchased_balance b"

definition non_giftable_balance :: "user_coin_balance \<Rightarrow> int" where
  "non_giftable_balance b = earned_balance b + bonus_balance b + airtime_purchased_balance b"

definition copy_from :: "user_coin_balance \<Rightarrow> user_coin_balance \<Rightarrow> user_coin_balance" where
  "copy_from self other =
     write_fields
       [F_earned_balance, F_bonus_balance, F_telebirr_purchased_balance,
        F_airtime_purchased_balance, F_purchased_balance, F_balance, F_total_earned,
        F_total_purchased, F_total_telebirr_purchased, F_total_airtime_purchased,
        F_total_bonus_granted, F_total_spent, F_total_withdrawn] other self"

abbreviation amount_not_positive :: exn where
  "amount_not_positive \<equiv> ValueError (''Amount must be positive'', [])"

text \<open>
  The tail every method shares: save the named columns of the locked row, create the ledger row,
  leave the transaction, and copy the locked row's values onto the caller's instance. The result
  is the caller's refreshed instance, the created row and the database.
\<close>

type_synonym 'a method_result = "(user_coin_balance \<times> coin_transaction \<times> 'a coin_db_scheme) result"

definition save_and_log ::
  "user_coin_balance \<Rightarrow> nat \<Rightarrow> balance_field list \<Rightarrow> user_coin_balance \<Rightarrow> coin_transaction result \<Rightarrow>
   'a coin_db_scheme \<Rightarrow> 'a method_result" where
  "save_and_log self uid cols locked row db =
     bind_result (save_balance uid cols locked db) (\<lambda>db1.
     bind_result row (\<lambda>t.
     bind_result (create_transaction t db1) (\<lambda>(tx, db2).
     Inr (copy_from self locked, tx, db2))))"

section \<open>Credits\<close>

definition add_earned ::
  "user_coin_balance \<Rightarrow> nat \<Rightarrow> int \<Rightarrow> string \<Rightarrow> tx_kwarg list \<Rightarrow> 'a coin_db_scheme \<Rightarrow> 'a method_result"
  where
  "add_earned self uid amount ty kwargs db =
     (if amount \<le> 0 then Inl amount_not_positive
      else bind_result (lock_balance uid db) (\<lambda>row.
        let locked = sync_balance (row\<lparr>earned_balance := earned_balance row + amount,
                                       total_earned := total_earned row + amount\<rparr>)
        in save_and_log self uid [F_earned_balance, F_balance, F_total_earned] locked
             (apply_kwargs kwargs (new_transaction uid ty amount (now db))) db))"

definition add_bonus ::
  "user_coin_balance \<Rightarrow> nat \<Rightarrow> int \<Rightarrow> string \<Rightarrow> tx_kwarg list \<Rightarrow> 'a coin_db_scheme \<Rightarrow> 'a method_result"
  where
  "add_bonus self uid amount ty kwargs db =
     (if amount \<le> 0 then Inl amount_not_positive
      else bind_result (lock_balance uid db) (\<lambda>row.
        let locked = sync_balance (row\<lparr>bonus_balance := bonus_balance row + amount,
                                       total_bonus_granted := total_bonus_granted row + amount\<rparr>)
        in save_and_log self uid [F_bonus_balance, F_balance, F_total_bonus_granted] locked
             (apply_kwargs kwargs (new_transaction uid ty amount (now db))) db))"

definition add_purchased ::
  "user_coin_balance \<Rightarrow> nat \<Rightarrow> int \<Rightarrow> string \<Rightarrow> string \<Rightarrow> tx_kwarg list \<Rightarrow> 'a coin_db_scheme \<Rightarrow>
   'a method_result" where
  "add_purchased self uid amount ty pm kwargs db =
     (if amount \<le> 0 then Inl amount_not_positive
      else bind_result (lock_balance uid db) (\<lambda>row.
        let row1 = (if pm = ''airtime''
                    then row\<lparr>airtime_purchased_balance := airtime_purchased_balance row + amount,
                             total_airtime_purchased := total_airtime_purchased row + amount\<rparr>
                    else row\<lparr>telebirr_purchased_balance := telebirr_purchased_balance row + amount,
                             total_telebirr_purchased := total_telebirr_purchased row + amount\<rparr>);
            locked = sync_balance (row1\<lparr>total_purchased := total_purchased row1 + amount\<rparr>)
        in save_and_log self uid
             [F_telebirr_purchased_balance, F_airtime_purchased_balance, F_purchased_balance,
              F_balance, F_total_purchased, F_total_telebirr_purchased, F_total_airtime_purchased]
             locked
             (apply_kwargs kwargs
               ((new_transaction uid ty amount (now db))\<lparr>payment_method := pm\<rparr>)) db))"

definition add_coins ::
  "user_coin_balance \<Rightarrow> nat \<Rightarrow> int \<Rightarrow> string \<Rightarrow> tx_kwarg list \<Rightarrow> 'a coin_db_scheme \<Rightarrow> 'a method_result"
  where
  "add_coins self uid amount ty kwargs db =
     (if ty = ''purchase'' then add_purchased self uid amount ty ''telebirr'' kwargs db
      else add_earned self uid amount ty kwargs db)"

section \<open>Debits\<close>

abbreviation bonus_not_giftable :: "int \<Rightarrow> int \<Rightarrow> int \<Rightarrow> exn" where
  "bonus_not_giftable g b n \<equiv>
     ValueError (''Subscription bonus coins cannot be used to send gifts. You have {} giftable coins and {} bonus coins, and this gift costs {}. Please use purchased coins.'', [g, b, n])"

abbreviation insufficient_giftable :: "int \<Rightarrow> int \<Rightarrow> exn" where
  "insufficient_giftable g n \<equiv>
     ValueError (''Insufficient giftable coins. Have {} Telebirr coins, need {}. Reward and airtime-purchased coins cannot be used for gifting. Top up via Telebirr.'', [g, n])"

abbreviation insufficient_balance :: "int \<Rightarrow> int \<Rightarrow> exn" where
  "insufficient_balance t n \<equiv> ValueError (''Insufficient balance. Have {}, need {}'', [t, n])"

text \<open>The part of \<open>spend_coins\<close> between the lock and the save: which buckets pay.\<close>

definition charge_buckets :: "bool \<Rightarrow> int \<Rightarrow> user_coin_balance \<Rightarrow> user_coin_balance result" where
  "charge_buckets restrict_earned amount row =
     (if restrict_earned then
        (if giftable_balance row < amount then
           (if bonus_balance row > 0
            then Inl (bonus_not_giftable (giftable_balance row) (bonus_balance row) amount)
            else Inl (insufficient_giftable (giftable_balance row) amount))
         else Inr (row\<lparr>telebirr_purchased_balance := telebirr_purchased_balance row - amount\<rparr>))
      else
        (let total = bonus_balance row + earned_balance row + airtime_purchased_balance row
                     + telebirr_purchased_balance row
         in if total < amount then Inl (insufficient_balance total amount)
            else
              (let from_bonus = min (bonus_balance row) amount;
                   remaining1 = amount - from_bonus;
                   from_earned = min (earned_balance row) remaining1;
                   remaining2 = remaining1 - from_earned;
                   from_airtime = min (airtime_purchased_balance row) remaining2;
                   from_telebirr = remaining2 - from_airtime
               in Inr (row\<lparr>bonus_balance := bonus_balance row - from_bonus,
                            earned_balance := earned_balance row - from_earned,
                            airtime_purchased_balance := airtime_purchased_balance row - from_airtime,
                            telebirr_purchased_balance :=
                              telebirr_purchased_balance row - from_telebirr\<rparr>))))"

definition spend_coins ::
  "user_coin_balance \<Rightarrow> nat \<Rightarrow> int \<Rightarrow> string \<Rightarrow> bool \<Rightarrow> tx_kwarg list \<Rightarrow> 'a coin_db_scheme \<Rightarrow>
   'a method_result" where
  "spend_coins self uid amount ty restrict_earned kwargs db =
     (if amount \<le> 0 then Inl amount_not_positive
      else bind_result (lock_balance uid db) (\<lambda>row.
           bind_result (charge_buckets restrict_earned amount row) (\<lambda>row1.
             let locked = sync_balance (row1\<lparr>total_spent := total_spent row1 + amount\<rparr>)
             in save_and_log self uid
                  [F_earned_balance, F_bonus_balance, F_telebirr_purchased_balance,
                   F_airtime_purchased_balance, F_purchased_balance, F_balance, F_total_spent]
                  locked
                  (apply_kwargs kwargs (new_transaction uid ty (- amount) (now db))) db)))"

definition BUCKET_FIELDS :: "(string \<times> balance_field) list" where
  "BUCKET_FIELDS =
     [(''earned'', F_earned_balance), (''purchased'', F_telebirr_purchased_balance),
      (''telebirr'', F_telebirr_purchased_balance), (''airtime'', F_airtime_purchased_balance),
      (''bonus'', F_bonus_balance)]"

definition deduct_from_bucket ::
  "user_coin_balance \<Rightarrow> nat \<Rightarrow> string \<Rightarrow> int \<Rightarrow> string \<Rightarrow> tx_kwarg list \<Rightarrow> 'a coin_db_scheme \<Rightarrow>
   'a method_result" where
  "deduct_from_bucket self uid bucket amount ty kwargs db =
     (if amount \<le> 0 then Inl amount_not_positive
      else case map_of BUCKET_FIELDS bucket of
        None \<Rightarrow> Inl (ValueError (''bucket must be one of {}'', []))
      | Some field \<Rightarrow>
          bind_result (lock_balance uid db) (\<lambda>row.
            let current = get_field field row
            in if current < amount
               then Inl (ValueError (''Insufficient '' @ bucket @ '' balance. Have {}, need {}'',
                                     [current, amount]))
               else
                 (let row1 = set_field field (current - amount) row;
                      locked = sync_balance (row1\<lparr>total_spent := total_spent row1 + amount\<rparr>)
                  in save_and_log self uid [field, F_purchased_balance, F_balance, F_total_spent]
                       locked
                       (apply_kwargs kwargs (new_transaction uid ty (- amount) (now db))) db)))"

definition withdraw_to_birr ::
  "user_coin_balance \<Rightarrow> nat \<Rightarrow> int \<Rightarrow> 'a coin_db_scheme \<Rightarrow> 'a method_result" where
  "withdraw_to_birr self uid amount db =
     (if amount \<le> 0 then Inl amount_not_positive
      else bind_result (lock_balance uid db) (\<lambda>row.
        if earned_balance row < amount
        then Inl (ValueError (''Insufficient earned coins. Have {}, need {}'',
                              [earned_balance row, amount]))
        else
          (let locked = sync_balance (row\<lparr>earned_balance := earned_balance row - amount,
                                          total_withdrawn := total_withdrawn row + amount\<rparr>)
           in save_and_log self uid [F_earned_balance, F_balance, F_total_withdrawn] locked
                (apply_kwargs [Kw_description (''Withdrawal to Birr (pending review)'', [])]
                  (new_transaction uid ''withdrawal'' (- amount) (now db))) db)))"

section \<open>Well-formed balances\<close>

text \<open>What the class docstring promises of a row.\<close>

definition wf_balance :: "user_coin_balance \<Rightarrow> bool" where
  "wf_balance b \<longleftrightarrow>
     0 \<le> earned_balance b \<and> 0 \<le> bonus_balance b \<and>
     0 \<le> telebirr_purchased_balance b \<and> 0 \<le> airtime_purchased_balance b \<and>
     purchased_balance b = telebirr_purchased_balance b + airtime_purchased_balance b \<and>
     balance b = earned_balance b + bonus_balance b + purchased_balance b"

definition coin_inv :: "'a coin_db_scheme \<Rightarrow> bool" where
  "coin_inv db \<longleftrightarrow> (\<forall>uid row. balances db uid = Some row \<longrightarrow> wf_balance row)"

definition coin_balance_of :: "'a coin_db_scheme \<Rightarrow> nat \<Rightarrow> int" where
  "coin_balance_of db uid = (case balances db uid of None \<Rightarrow> 0 | Some b \<Rightarrow> balance b)"

definition coin_logged :: "'a coin_db_scheme \<Rightarrow> nat \<Rightarrow> int" where
  "coin_logged db uid = sum_where (\<lambda>t. tx_user t = uid \<and> is_successful t) coins (coin_ledger db)"

lemma coin_invD: "coin_inv db \<Longrightarrow> balances db uid = Some row \<Longrightarrow> wf_balance row"
  by (auto simp: coin_inv_def)

lemma wf_new_balance [simp]: "wf_balance new_balance"
  by (simp add: wf_balance_def new_balance_def)

lemma wf_balance_nonneg: "wf_balance b \<Longrightarrow> 0 \<le> balance b"
  by (simp add: wf_balance_def)

lemma wf_balance_split:
  "wf_balance b \<Longrightarrow> balance b = giftable_balance b + non_giftable_balance b"
  by (simp add: wf_balance_def giftable_balance_def non_giftable_balance_def)

lemma coin_balance_nonneg: "coin_inv db \<Longrightarrow> 0 \<le> coin_balance_of db uid"
  by (auto simp: coin_balance_of_def dest: coin_invD wf_balance_nonneg split: option.splits)

lemma copy_from_eq [simp]: "copy_from self other = other"
  by (simp add: copy_from_def)

section \<open>What a successful method does\<close>

lemma apply_kwargs_frame:
  assumes "apply_kwargs ks t = Inr t'"
  shows "tx_user t' = tx_user t" and "coins t' = coins t" and "is_successful t' = is_successful t"
    and "transaction_type t' = transaction_type t" and "payment_method t' = payment_method t"
    and "tx_payment_state t' = tx_payment_state t" and "quoted_coins t' = quoted_coins t"
    and "tx_created_at t' = tx_created_at t"
  using assms by (induction ks t rule: apply_kwargs.induct) auto

lemma new_transaction_simps [simp]:
  "tx_user (new_transaction u ty c t) = u"
  "transaction_type (new_transaction u ty c t) = ty"
  "coins (new_transaction u ty c t) = c"
  "is_successful (new_transaction u ty c t)"
  "tx_payment_state (new_transaction u ty c t) = SUCCESS"
  "payment_reference (new_transaction u ty c t) = []"
  "payment_method (new_transaction u ty c t) = []"
  "quoted_coins (new_transaction u ty c t) = None"
  "tx_created_at (new_transaction u ty c t) = t"
  by (simp_all add: new_transaction_def)

lemma create_transaction_Inr:
  "create_transaction t db = Inr (tx, db') \<Longrightarrow> tx = t \<and> db' = db\<lparr>coin_ledger := coin_ledger db @ [t]\<rparr>"
  by (auto simp: create_transaction_def split: if_splits)

lemma save_balance_Inr:
  "save_balance uid cols new db = Inr db' \<longleftrightarrow>
     (\<exists>old. balances db uid = Some old \<and> list_all (\<lambda>f. fits_positive_integer (get_field f new)) cols \<and>
            db' = db\<lparr>balances := (balances db)(uid \<mapsto> write_fields cols new old)\<rparr>)"
  by (auto simp: save_balance_def lock_balance_def bind_result_Inr_iff split: if_splits)

text \<open>
  A movement of \<open>d\<close> on the account \<open>uid\<close>: the account's row becomes \<open>row'\<close>, one successful ledger
  row of \<open>d\<close> coins for that user is appended, and nothing else changes.
\<close>

definition moves ::
  "nat \<Rightarrow> int \<Rightarrow> user_coin_balance \<Rightarrow> coin_transaction \<Rightarrow> 'a coin_db_scheme \<Rightarrow> 'a coin_db_scheme \<Rightarrow> bool"
  where
  "moves uid d row' tx db db' \<longleftrightarrow>
     db' = db\<lparr>balances := (balances db)(uid \<mapsto> row'), coin_ledger := coin_ledger db @ [tx]\<rparr> \<and>
     tx_user tx = uid \<and> coins tx = d \<and> is_successful tx \<and> tx_payment_state tx = SUCCESS"

lemma save_and_log_Inr:
  assumes "save_and_log self uid cols locked (apply_kwargs ks t) db = Inr (s, tx, db')"
    and "tx_user t = uid" and "is_successful t" and "tx_payment_state t = SUCCESS"
  obtains old where "balances db uid = Some old"
    and "list_all (\<lambda>f. fits_positive_integer (get_field f locked)) cols"
    and "s = locked" and "apply_kwargs ks t = Inr tx"
    and "moves uid (coins t) (write_fields cols locked old) tx db db'"
proof -
  from assms(1) obtain db1 where db1: "save_balance uid cols locked db = Inr db1"
    and tx: "apply_kwargs ks t = Inr tx"
    and cr: "create_transaction tx db1 = Inr (tx, db')" and s: "s = locked"
    by (auto simp: save_and_log_def bind_result_Inr_iff dest: create_transaction_Inr)
  from db1 obtain old where old: "balances db uid = Some old"
    and fit: "list_all (\<lambda>f. fits_positive_integer (get_field f locked)) cols"
    and db1': "db1 = db\<lparr>balances := (balances db)(uid \<mapsto> write_fields cols locked old)\<rparr>"
    by (auto simp: save_balance_Inr)
  have "moves uid (coins t) (write_fields cols locked old) tx db db'"
    using create_transaction_Inr [OF cr] db1' apply_kwargs_frame [OF tx] assms(2-4)
    by (simp add: moves_def)
  with old fit s tx show thesis by (rule that)
qed

lemma moves_balances: "moves uid d row' tx db db' \<Longrightarrow> balances db' = (balances db)(uid \<mapsto> row')"
  by (simp add: moves_def)

lemma moves_inv: "moves uid d row' tx db db' \<Longrightarrow> coin_inv db \<Longrightarrow> wf_balance row' \<Longrightarrow> coin_inv db'"
  by (auto simp: coin_inv_def moves_def)

lemma moves_logged:
  "moves uid d row' tx db db' \<Longrightarrow> coin_logged db' u = coin_logged db u + (if u = uid then d else 0)"
  by (auto simp: moves_def coin_logged_def)

lemma moves_balance_of:
  "moves uid d row' tx db db' \<Longrightarrow> balances db uid = Some row \<Longrightarrow> balance row' = balance row + d \<Longrightarrow>
   coin_balance_of db' u = coin_balance_of db u + (if u = uid then d else 0)"
  by (auto simp: moves_def coin_balance_of_def)

text \<open>
  \<open>steps uid d r db\<close>: the method result \<open>r\<close>, if it is a value, is a movement of \<open>d\<close> that keeps a
  well-formed row well formed and changes its total by \<open>d\<close>.
\<close>

definition steps :: "nat \<Rightarrow> int \<Rightarrow> 'a method_result \<Rightarrow> 'a coin_db_scheme \<Rightarrow> bool" where
  "steps uid d r db \<longleftrightarrow>
     (\<forall>s tx db'. r = Inr (s, tx, db') \<longrightarrow>
        (\<exists>row row'. balances db uid = Some row \<and> moves uid d row' tx db db' \<and>
           (wf_balance row \<longrightarrow> wf_balance row' \<and> balance row' = balance row + d)))"

lemma stepsI:
  assumes "\<And>row. balances db uid = Some row \<Longrightarrow> wf_balance row \<Longrightarrow>
      list_all (\<lambda>f. fits_positive_integer (get_field f locked)) cols \<Longrightarrow>
      wf_balance (write_fields cols locked row) \<and>
      balance (write_fields cols locked row) = balance row + coins t"
    and "tx_user t = uid" and "is_successful t" and "tx_payment_state t = SUCCESS"
    and "coins t = d"
  shows "steps uid d (save_and_log self uid cols locked (apply_kwargs ks t) db) db"
  unfolding steps_def using assms by (auto elim!: save_and_log_Inr)

lemma steps_error [simp]: "steps uid d (Inl e) db"
  by (simp add: steps_def)

lemma steps_lock:
  "(\<And>row. balances db uid = Some row \<Longrightarrow> steps uid d (f row) db) \<Longrightarrow>
   steps uid d (bind_result (lock_balance uid db) f) db"
  by (cases "balances db uid") (auto simp: lock_balance_def)

lemmas balance_simps = wf_balance_def sync_balance_def fits_positive_integer_def Let_def

lemma add_earned_steps: "steps uid amount (add_earned self uid amount ty ks db) db"
  unfolding add_earned_def
  by (auto intro!: steps_lock stepsI simp: balance_simps)

lemma add_bonus_steps: "steps uid amount (add_bonus self uid amount ty ks db) db"
  unfolding add_bonus_def
  by (auto intro!: steps_lock stepsI simp: balance_simps)

lemma add_purchased_steps: "steps uid amount (add_purchased self uid amount ty pm ks db) db"
  unfolding add_purchased_def Let_def
  by (auto intro!: steps_lock stepsI simp: balance_simps)

lemma add_coins_steps: "steps uid amount (add_coins self uid amount ty ks db) db"
  by (simp add: add_coins_def add_purchased_steps add_earned_steps)

lemma withdraw_to_birr_steps: "steps uid (- amount) (withdraw_to_birr self uid amount db) db"
  unfolding withdraw_to_birr_def Let_def
  by (auto intro!: steps_lock stepsI simp: balance_simps simp del: apply_kwargs.simps)

lemma map_of_BUCKET_FIELDS:
  "map_of BUCKET_FIELDS bucket = Some f \<Longrightarrow>
   f \<in> {F_earned_balance, F_telebirr_purchased_balance, F_airtime_purchased_balance, F_bonus_balance}"
  by (auto simp: BUCKET_FIELDS_def split: if_splits)

lemma deduct_from_bucket_steps:
  "steps uid (- amount) (deduct_from_bucket self uid bucket amount ty ks db) db"
proof (cases "map_of BUCKET_FIELDS bucket")
  case None
  then show ?thesis by (simp add: deduct_from_bucket_def)
next
  case (Some f)
  with map_of_BUCKET_FIELDS [OF Some] show ?thesis
    unfolding deduct_from_bucket_def Let_def
    by (auto intro!: steps_lock stepsI simp: balance_simps)
qed

section \<open>Spending: which buckets pay\<close>

text \<open>The reference description of the unrestricted order: drain the buckets one after the other.\<close>

fun drain :: "int \<Rightarrow> int list \<Rightarrow> int list" where
  "drain n [] = []"
| "drain n (x # xs) = (x - min x n) # drain (n - min x n) xs"

definition spend_order :: "user_coin_balance \<Rightarrow> int list" where
  "spend_order b =
     [bonus_balance b, earned_balance b, airtime_purchased_balance b, telebirr_purchased_balance b]"

lemma charge_unrestricted:
  "wf_balance row \<Longrightarrow> 0 < amount \<Longrightarrow> amount \<le> sum_list (spend_order row) \<Longrightarrow>
   \<exists>row'. charge_buckets False amount row = Inr row' \<and> spend_order row' = drain amount (spend_order row)"
  by (auto simp: charge_buckets_def spend_order_def wf_balance_def Let_def)

lemma charge_buckets_wf:
  assumes "charge_buckets r amount row = Inr row'" and "wf_balance row" and "0 < amount"
  shows "0 \<le> bonus_balance row'" and "0 \<le> earned_balance row'"
    and "0 \<le> airtime_purchased_balance row'" and "0 \<le> telebirr_purchased_balance row'"
    and "sum_list (spend_order row') = sum_list (spend_order row) - amount"
    and "total_spent row' = total_spent row"
  using assms
  by (auto simp: charge_buckets_def wf_balance_def giftable_balance_def spend_order_def Let_def
      split: if_splits)

lemma charge_buckets_pays_last:
  assumes "charge_buckets False amount row = Inr row'" and "wf_balance row" and "0 < amount"
    and "telebirr_purchased_balance row' < telebirr_purchased_balance row"
  shows "bonus_balance row' = 0" and "earned_balance row' = 0" and "airtime_purchased_balance row' = 0"
  using assms by (auto simp: charge_buckets_def wf_balance_def Let_def split: if_splits)

lemma spend_coins_steps: "steps uid (- amount) (spend_coins self uid amount ty r ks db) db"
proof (cases "amount \<le> 0")
  case True
  then show ?thesis by (simp add: spend_coins_def)
next
  case False
  have "steps uid (- amount) (bind_result (charge_buckets r amount row) (\<lambda>row1.
      let locked = sync_balance (row1\<lparr>total_spent := total_spent row1 + amount\<rparr>)
      in save_and_log self uid
           [F_earned_balance, F_bonus_balance, F_telebirr_purchased_balance,
            F_airtime_purchased_balance, F_purchased_balance, F_balance, F_total_spent] locked
           (apply_kwargs ks (new_transaction uid ty (- amount) (now db))) db)) db"
    if row: "balances db uid = Some row" for row
  proof (cases "charge_buckets r amount row")
    case (Inl e)
    then show ?thesis by simp
  next
    case (Inr row1)
    have "wf_balance row \<Longrightarrow> sum_list (spend_order row1) = balance row - amount"
      using charge_buckets_wf(5) [OF Inr] False by (simp add: spend_order_def wf_balance_def)
    with Inr row show ?thesis
      by (auto intro!: stepsI simp: balance_simps spend_order_def)
  qed
  with False show ?thesis unfolding spend_coins_def by (auto intro: steps_lock)
qed

lemmas method_steps = add_earned_steps add_bonus_steps add_purchased_steps add_coins_steps
  spend_coins_steps deduct_from_bucket_steps withdraw_to_birr_steps

lemma steps_wf:
  "steps uid d r db \<Longrightarrow> r = Inr (s, tx, db') \<Longrightarrow> coin_inv db \<Longrightarrow> coin_inv db'"
  unfolding steps_def by (blast intro: moves_inv dest: coin_invD)

lemma steps_balance:
  "steps uid d r db \<Longrightarrow> r = Inr (s, tx, db') \<Longrightarrow> coin_inv db \<Longrightarrow>
   coin_balance_of db' u = coin_balance_of db u + (if u = uid then d else 0)"
  unfolding steps_def by (blast intro: moves_balance_of dest: coin_invD)

lemma steps_logged:
  "steps uid d r db \<Longrightarrow> r = Inr (s, tx, db') \<Longrightarrow>
   coin_logged db' u = coin_logged db u + (if u = uid then d else 0)"
  unfolding steps_def by (blast intro: moves_logged)

lemma steps_exists: "steps uid d r db \<Longrightarrow> r = Inr (s, tx, db') \<Longrightarrow> balances db uid \<noteq> None"
  unfolding steps_def by blast

section \<open>When a spend succeeds\<close>

lemma create_transaction_ok:
  "fits_integer (coins t) \<Longrightarrow> length (transaction_type t) \<le> 20 \<Longrightarrow>
   payment_reference t = [] \<Longrightarrow> is_successful t \<Longrightarrow>
   transaction_type t \<noteq> ''subscription_gift'' \<Longrightarrow> transaction_type t \<noteq> ''ondemand_allocation'' \<Longrightarrow>
   create_transaction t db = Inr (t, db\<lparr>coin_ledger := coin_ledger db @ [t]\<rparr>)"
  by (auto simp: create_transaction_def list_ex_iff same_pending_reference_def same_grant_def)

definition affordable :: "bool \<Rightarrow> int \<Rightarrow> user_coin_balance \<Rightarrow> bool" where
  "affordable restrict_earned amount row \<longleftrightarrow>
     amount \<le> (if restrict_earned then giftable_balance row else sum_list (spend_order row))"

lemma charge_buckets_ok_iff: "(\<exists>row'. charge_buckets r amount row = Inr row') \<longleftrightarrow> affordable r amount row"
  by (auto simp: charge_buckets_def affordable_def spend_order_def Let_def)

lemma charge_buckets_error:
  "charge_buckets r amount row = Inl e \<Longrightarrow>
   e = (if r then (if bonus_balance row > 0
                   then bonus_not_giftable (giftable_balance row) (bonus_balance row) amount
                   else insufficient_giftable (giftable_balance row) amount)
        else insufficient_balance (sum_list (spend_order row)) amount)"
  by (auto simp: charge_buckets_def spend_order_def Let_def add.assoc split: if_splits)

lemma spend_coins_succeeds:
  assumes row: "balances db uid = Some row" and wf: "wf_balance row"
    and pos: "0 < amount" and aff: "affordable r amount row"
    and fit: "balance row \<le> int_max" "total_spent row + amount \<le> int_max" "0 \<le> total_spent row"
    and ty: "length ty \<le> 20" "ty \<noteq> ''subscription_gift''" "ty \<noteq> ''ondemand_allocation''"
  shows "\<exists>s tx db'. spend_coins self uid amount ty r [] db = Inr (s, tx, db')"
proof -
  from aff obtain row1 where row1: "charge_buckets r amount row = Inr row1"
    by (auto simp flip: charge_buckets_ok_iff)
  let ?locked = "sync_balance (row1\<lparr>total_spent := total_spent row1 + amount\<rparr>)"
  let ?cols = "[F_earned_balance, F_bonus_balance, F_telebirr_purchased_balance,
    F_airtime_purchased_balance, F_purchased_balance, F_balance, F_total_spent]"
  have sum: "sum_list (spend_order row1) = balance row - amount"
    using charge_buckets_wf(5) [OF row1 wf pos] wf by (simp add: spend_order_def wf_balance_def)
  have "list_all (\<lambda>f. fits_positive_integer (get_field f ?locked)) ?cols"
    using charge_buckets_wf [OF row1 wf pos] sum fit pos
    by (simp add: balance_simps spend_order_def)
  then have "\<exists>db1. save_balance uid ?cols ?locked db = Inr db1"
    using row by (auto simp: save_balance_Inr)
  moreover have "fits_integer (- amount)"
    using fit pos by (simp add: fits_integer_def int_min_def int_max_def)
  ultimately show ?thesis
    using row row1 pos ty
    by (auto simp: spend_coins_def lock_balance_def save_and_log_def create_transaction_ok)
qed

text \<open>Under the restriction only the telebirr bucket pays.\<close>

lemma spend_restricted:
  assumes "spend_coins self uid amount ty True ks db = Inr (s, tx, db')" and "balances db uid = Some row"
  shows "\<exists>row'. balances db' uid = Some row' \<and> bonus_balance row' = bonus_balance row \<and>
                earned_balance row' = earned_balance row \<and>
                airtime_purchased_balance row' = airtime_purchased_balance row \<and>
                telebirr_purchased_balance row' = telebirr_purchased_balance row - amount"
  using assms
  by (auto simp: spend_coins_def lock_balance_def bind_result_Inr_iff Let_def charge_buckets_def
      sync_balance_def elim!: save_and_log_Inr dest!: moves_balances split: if_splits)

section \<open>Requests on the coin wallet\<close>

datatype coin_op =
    Add_earned nat int string "tx_kwarg list"
  | Add_bonus nat int string "tx_kwarg list"
  | Add_purchased nat int string string "tx_kwarg list"
  | Add_coins nat int string "tx_kwarg list"
  | Spend_coins nat int string bool "tx_kwarg list"
  | Deduct_from_bucket nat string int string "tx_kwarg list"
  | Withdraw_to_birr nat int

definition db_of :: "'a method_result \<Rightarrow> 'a coin_db_scheme result" where
  "db_of r = bind_result r (\<lambda>(_, _, db). Inr db)"

fun exec_coin_op :: "coin_op \<Rightarrow> 'a coin_db_scheme \<Rightarrow> 'a coin_db_scheme result" where
  "exec_coin_op (Add_earned u n ty ks) db = db_of (add_earned new_balance u n ty ks db)"
| "exec_coin_op (Add_bonus u n ty ks) db = db_of (add_bonus new_balance u n ty ks db)"
| "exec_coin_op (Add_purchased u n ty pm ks) db = db_of (add_purchased new_balance u n ty pm ks db)"
| "exec_coin_op (Add_coins u n ty ks) db = db_of (add_coins new_balance u n ty ks db)"
| "exec_coin_op (Spend_coins u n ty r ks) db = db_of (spend_coins new_balance u n ty r ks db)"
| "exec_coin_op (Deduct_from_bucket u b n ty ks) db =
     db_of (deduct_from_bucket new_balance u b n ty ks db)"
| "exec_coin_op (Withdraw_to_birr u n) db = db_of (withdraw_to_birr new_balance u n db)"

lemma db_of_Inr: "db_of r = Inr db' \<longleftrightarrow> (\<exists>s tx. r = Inr (s, tx, db'))"
  by (auto simp: db_of_def bind_result_Inr_iff)

text \<open>Whose account a request touches, and by how much it moves it if it succeeds.\<close>

fun op_user :: "coin_op \<Rightarrow> nat" where
  "op_user (Add_earned u n ty ks) = u"
| "op_user (Add_bonus u n ty ks) = u"
| "op_user (Add_purchased u n ty pm ks) = u"
| "op_user (Add_coins u n ty ks) = u"
| "op_user (Spend_coins u n ty r ks) = u"
| "op_user (Deduct_from_bucket u b n ty ks) = u"
| "op_user (Withdraw_to_birr u n) = u"

fun op_delta :: "coin_op \<Rightarrow> int" where
  "op_delta (Add_earned u n ty ks) = n"
| "op_delta (Add_bonus u n ty ks) = n"
| "op_delta (Add_purchased u n ty pm ks) = n"
| "op_delta (Add_coins u n ty ks) = n"
| "op_delta (Spend_coins u n ty r ks) = - n"
| "op_delta (Deduct_from_bucket u b n ty ks) = - n"
| "op_delta (Withdraw_to_birr u n) = - n"

lemma exec_coin_op_method:
  "\<exists>r. exec_coin_op op db = db_of r \<and> steps (op_user op) (op_delta op) r db"
  by (cases op) (simp_all, (blast intro: method_steps)+)

lemma exec_coin_op_steps:
  assumes "exec_coin_op op db = Inr db'"
  obtains r s tx where "steps (op_user op) (op_delta op) r db" and "r = Inr (s, tx, db')"
proof -
  obtain r where "exec_coin_op op db = db_of r" and st: "steps (op_user op) (op_delta op) r db"
    using exec_coin_op_method by blast
  with assms obtain s tx where "r = Inr (s, tx, db')" by (auto simp: db_of_Inr)
  with st show thesis by (rule that)
qed

text \<open>The coin wallet is a ledger: the interface of the prelude, on the model's own operations.\<close>

interpretation coin_wallet: ledger exec_coin_op coin_balance_of coin_logged coin_inv
proof
  fix db db' :: "'a coin_db_scheme" and op u
  show "coin_inv db \<Longrightarrow> 0 \<le> coin_balance_of db u"
    by (rule coin_balance_nonneg)
  assume inv: "coin_inv db" and ex: "exec_coin_op op db = Inr db'"
  from ex obtain r s tx where st: "steps (op_user op) (op_delta op) r db" "r = Inr (s, tx, db')"
    by (rule exec_coin_op_steps)
  show "coin_inv db'"
    using st inv by (rule steps_wf)
  show "coin_balance_of db' u - coin_balance_of db u = coin_logged db' u - coin_logged db u"
    by (simp add: steps_balance [OF st inv] steps_logged [OF st])
qed

section \<open>A concrete store\<close>

definition example_coins :: coin_db where
  "example_coins =
     \<lparr>balances = (\<lambda>_. None)(1 \<mapsto> new_balance), coin_ledger = [], packages = (\<lambda>_. None), now = 0\<rparr>"

lemma example_coins_inv: "coin_inv example_coins"
  by (simp add: example_coins_def coin_inv_def wf_balance_def new_balance_def)

definition example_buckets :: user_coin_balance where
  "example_buckets =
     new_balance\<lparr>balance := 100, bonus_balance := 10, earned_balance := 20, purchased_balance := 70,
       airtime_purchased_balance := 30, telebirr_purchased_balance := 40\<rparr>"

section \<open>Properties\<close>

text \<open>
  C1. The coin ledger explains the coin balance. Whatever sequence of credits, purchases, spends,
  deductions and birr withdrawals is requested, failing requests being rolled back, every bucket
  stays non-negative, the balance equals the sum of the buckets, and the balance moves by exactly
  the sum of the ledger rows written.
\<close>
theorem coin_ledger_reconciles:
  assumes "coin_inv db"
  shows "coin_inv (run_requests exec_coin_op ops db) \<and>
         0 \<le> coin_balance_of (run_requests exec_coin_op ops db) u \<and>
         coin_balance_of (run_requests exec_coin_op ops db) u - coin_balance_of db u =
           coin_logged (run_requests exec_coin_op ops db) u - coin_logged db u"
  using coin_wallet.run_wf [OF assms] coin_wallet.run_nonneg [OF assms] coin_wallet.run_balanced [OF assms]
  by blast

theorem coin_ledger_reconciles_witness:
  "coin_inv example_coins \<and>
   coin_balance_of (run_requests exec_coin_op
      [Add_bonus 1 50 ''promo'' [], Spend_coins 1 70 ''spend'' False [], Spend_coins 1 20 ''spend'' False []]
      example_coins) 1 = 30 \<and>
   coin_balance_of (run_requests exec_coin_op
      [Add_bonus 1 50 ''promo'' [], Spend_coins 1 70 ''spend'' False [], Spend_coins 1 20 ''spend'' False []]
      example_coins) 1 =
   coin_logged (run_requests exec_coin_op
      [Add_bonus 1 50 ''promo'' [], Spend_coins 1 70 ''spend'' False [], Spend_coins 1 20 ''spend'' False []]
      example_coins) 1"
proof -
  have "coin_balance_of (run_requests exec_coin_op
      [Add_bonus 1 50 ''promo'' [], Spend_coins 1 70 ''spend'' False [], Spend_coins 1 20 ''spend'' False []]
      example_coins) 1 = 30" "coin_balance_of example_coins 1 = 0" "coin_logged example_coins 1 = 0"
    by code_simp+
  then show ?thesis
    using coin_ledger_reconciles [OF example_coins_inv] example_coins_inv by (metis diff_zero)
qed

text \<open>
  A spend drains the buckets in the documented order: bonus, earned, airtime-bought, then
  telebirr-bought coins, each emptied before the next is touched.
\<close>
theorem spend_order_is_sequential:
  assumes "wf_balance row" and "0 < amount" and "amount \<le> sum_list (spend_order row)"
  shows "\<exists>row'. charge_buckets False amount row = Inr row' \<and>
                spend_order row' = drain amount (spend_order row)"
  using assms by (rule charge_unrestricted)

theorem spend_order_is_sequential_witness:
  "\<exists>row'. charge_buckets False 45 example_buckets = Inr row' \<and> spend_order row' = [0, 0, 15, 40]"
proof -
  have "wf_balance example_buckets" "(45::int) \<le> sum_list (spend_order example_buckets)"
    "drain 45 (spend_order example_buckets) = [0, 0, 15, 40]"
    by (simp_all add: example_buckets_def new_balance_def wf_balance_def spend_order_def)
  with spend_order_is_sequential [of example_buckets 45] show ?thesis by simp
qed

text \<open>
  C5. Spending succeeds exactly when it is affordable. A positive spend that the chosen buckets
  cover is recorded (the columns and the type fitting their widths); otherwise the buckets refuse,
  and under the gifting restriction bonus coins never pay.
\<close>
theorem spend_coins_outcome:
  assumes "balances db uid = Some row" and "wf_balance row" and "0 < amount"
    and "balance row \<le> int_max" "total_spent row + amount \<le> int_max" "0 \<le> total_spent row"
    and "length ty \<le> 20" "ty \<noteq> ''subscription_gift''" "ty \<noteq> ''ondemand_allocation''"
  shows "(\<exists>s tx db'. spend_coins self uid amount ty r [] db = Inr (s, tx, db') \<and>
             (r \<longrightarrow> (\<exists>row'. balances db' uid = Some row' \<and> bonus_balance row' = bonus_balance row)))
         \<longleftrightarrow> affordable r amount row"
proof
  assume "affordable r amount row"
  with assms obtain s tx db' where sp: "spend_coins self uid amount ty r [] db = Inr (s, tx, db')"
    using spend_coins_succeeds by metis
  have "\<exists>row'. balances db' uid = Some row' \<and> bonus_balance row' = bonus_balance row" if r
    using spend_restricted [of self uid amount ty "[]"] sp assms(1) that by fastforce
  with sp show "\<exists>s tx db'. spend_coins self uid amount ty r [] db = Inr (s, tx, db') \<and>
             (r \<longrightarrow> (\<exists>row'. balances db' uid = Some row' \<and> bonus_balance row' = bonus_balance row))"
    by blast
next
  assume "\<exists>s tx db'. spend_coins self uid amount ty r [] db = Inr (s, tx, db') \<and>
             (r \<longrightarrow> (\<exists>row'. balances db' uid = Some row' \<and> bonus_balance row' = bonus_balance row))"
  then obtain s tx db' where "spend_coins self uid amount ty r [] db = Inr (s, tx, db')" by blast
  with assms(1,3) have "\<exists>row'. charge_buckets r amount row = Inr row'"
    by (auto simp: spend_coins_def lock_balance_def bind_result_Inr_iff)
  then show "affordable r amount row" by (simp only: charge_buckets_ok_iff)
qed

theorem spend_coins_outcome_witness:
  "\<not> (\<exists>s tx db'. spend_coins new_balance 1 95 ''gift'' True [] 
        (example_coins\<lparr>balances := (\<lambda>_. None)(1 \<mapsto> example_buckets)\<rparr>) = Inr (s, tx, db') \<and>
        (True \<longrightarrow> (\<exists>row'. balances db' 1 = Some row' \<and> bonus_balance row' = bonus_balance example_buckets)))"
proof -
  let ?db = "example_coins\<lparr>balances := (\<lambda>_. None)(1 \<mapsto> example_buckets)\<rparr>"
  have "balances ?db 1 = Some example_buckets" "wf_balance example_buckets" "(0::int) < 95"
    "balance example_buckets \<le> int_max" "total_spent example_buckets + 95 \<le> int_max"
    "0 \<le> total_spent example_buckets" "length ''gift'' \<le> 20" "''gift'' \<noteq> ''subscription_gift''"
    "''gift'' \<noteq> ''ondemand_allocation''" "\<not> affordable True 95 example_buckets"
    by (simp_all add: example_buckets_def new_balance_def wf_balance_def int_max_def affordable_def
        giftable_balance_def)
  with spend_coins_outcome [of ?db 1 example_buckets 95 "''gift''" new_balance True] show ?thesis
    by blast
qed

end
