(* ===== verification/Points.thy ===== *)
theory Points
  imports Coin_Balance
begin

text \<open>
  Creator points: the balance columns of \<open>UserProfile\<close> (\<open>api/models/core.py\<close>), the one routine
  every movement goes through (\<open>_apply_delta\<close>) and the ledger \<open>PointTransaction\<close>
  (\<open>api/models/wallet.py\<close>) it writes. Also the signal that creates a profile and pays the welcome
  bonus (\<open>api/signals.py\<close>).
\<close>

section \<open>Rows\<close>

record user_profile =
  points :: int
  points_earned_total :: int
  points_withdrawn_total :: int
  profile_coins :: int
  coins_earned_total :: int
  coins_spent_total :: int
  gifts_sent_total :: int
  gifts_received_total :: int
  last_login_date :: "int option"
  last_login :: "int option"
  phone_number :: "string option"

definition new_profile :: user_profile where
  "new_profile =
     \<lparr>points = 0, points_earned_total = 0, points_withdrawn_total = 0, profile_coins = 0,
      coins_earned_total = 0, coins_spent_total = 0, gifts_sent_total = 0,
      gifts_received_total = 0, last_login_date = None, last_login = None, phone_number = None\<rparr>"

record point_transaction =
  pt_user :: nat
  pt_type :: string
  pt_points :: int
  balance_after :: int
  pt_description :: message
  pt_created_at :: int

record point_db = coin_db +
  profiles :: "nat \<Rightarrow> user_profile option"
  point_ledger :: "point_transaction list"

section \<open>\<open>_apply_delta\<close>\<close>

datatype profile_field =
    P_points | P_coins
  | P_points_earned_total | P_points_withdrawn_total | P_coins_earned_total | P_coins_spent_total

fun get_pfield :: "profile_field \<Rightarrow> user_profile \<Rightarrow> int" where
  "get_pfield P_points = points"
| "get_pfield P_coins = profile_coins"
| "get_pfield P_points_earned_total = points_earned_total"
| "get_pfield P_points_withdrawn_total = points_withdrawn_total"
| "get_pfield P_coins_earned_total = coins_earned_total"
| "get_pfield P_coins_spent_total = coins_spent_total"

fun set_pfield :: "profile_field \<Rightarrow> int \<Rightarrow> user_profile \<Rightarrow> user_profile" where
  "set_pfield P_points v p = p\<lparr>points := v\<rparr>"
| "set_pfield P_coins v p = p\<lparr>profile_coins := v\<rparr>"
| "set_pfield P_points_earned_total v p = p\<lparr>points_earned_total := v\<rparr>"
| "set_pfield P_points_withdrawn_total v p = p\<lparr>points_withdrawn_total := v\<rparr>"
| "set_pfield P_coins_earned_total v p = p\<lparr>coins_earned_total := v\<rparr>"
| "set_pfield P_coins_spent_total v p = p\<lparr>coins_spent_total := v\<rparr>"

definition field_name :: "profile_field \<Rightarrow> string" where
  "field_name f = (if f = P_points then ''points'' else ''coins'')"

definition bump_total :: "profile_field option \<Rightarrow> int \<Rightarrow> user_profile \<Rightarrow> user_profile" where
  "bump_total tf delta p =
     (case tf of None \<Rightarrow> p | Some f \<Rightarrow> set_pfield f (get_pfield f p + \<bar>delta\<bar>) p)"

definition apply_delta ::
  "nat \<Rightarrow> profile_field \<Rightarrow> int \<Rightarrow> profile_field option \<Rightarrow> string option \<Rightarrow> message \<Rightarrow>
   'a point_db_scheme \<Rightarrow> 'a point_db_scheme result" where
  "apply_delta uid field delta total_field reason desc db =
     (if delta = 0 then Inl (ValueError (''delta must not be zero'', []))
      else bind_result (of_option DoesNotExist (profiles db uid)) (\<lambda>row.
        let current = get_pfield field row;
            new_value = current + delta;
            locked = bump_total total_field delta (set_pfield field new_value row)
        in if new_value < 0 then
             Inl (ValueError (''Insufficient '' @ field_name field @ ''. Have {}, need {}'',
                              [current, - delta]))
           else if \<not> (fits_integer new_value \<and>
                       (case total_field of None \<Rightarrow> True
                        | Some f \<Rightarrow> fits_integer (get_pfield f locked))) then Inl DataError
           else
             (let db1 = db\<lparr>profiles := (profiles db)(uid \<mapsto> locked)\<rparr>
              in if field = P_points then
                   Inr (db1\<lparr>point_ledger := point_ledger db1 @
                     [\<lparr>pt_user = uid,
                       pt_type = (case reason of None \<Rightarrow> ''admin_adjustment''
                                  | Some r \<Rightarrow> if r = [] then ''admin_adjustment'' else r),
                       pt_points = delta, balance_after = new_value, pt_description = desc,
                       pt_created_at = now db\<rparr>]\<rparr>)
                 else Inr db1)))"

definition add_points ::
  "nat \<Rightarrow> int \<Rightarrow> profile_field option \<Rightarrow> string option \<Rightarrow> message \<Rightarrow> 'a point_db_scheme \<Rightarrow>
   'a point_db_scheme result" where
  "add_points uid amount total_field reason desc db =
     (if amount \<le> 0 then Inl amount_not_positive
      else apply_delta uid P_points amount total_field reason desc db)"

definition deduct_points ::
  "nat \<Rightarrow> int \<Rightarrow> profile_field option \<Rightarrow> string option \<Rightarrow> message \<Rightarrow> 'a point_db_scheme \<Rightarrow>
   'a point_db_scheme result" where
  "deduct_points uid amount total_field reason desc db =
     (if amount \<le> 0 then Inl amount_not_positive
      else apply_delta uid P_points (- amount) total_field reason desc db)"

definition add_profile_coins ::
  "nat \<Rightarrow> int \<Rightarrow> profile_field option \<Rightarrow> 'a point_db_scheme \<Rightarrow> 'a point_db_scheme result" where
  "add_profile_coins uid amount total_field db =
     (if amount \<le> 0 then Inl amount_not_positive
      else apply_delta uid P_coins amount total_field None ([], []) db)"

definition deduct_profile_coins ::
  "nat \<Rightarrow> int \<Rightarrow> profile_field option \<Rightarrow> 'a point_db_scheme \<Rightarrow> 'a point_db_scheme result" where
  "deduct_profile_coins uid amount total_field db =
     (if amount \<le> 0 then Inl amount_not_positive
      else apply_delta uid P_coins (- amount) total_field None ([], []) db)"

section \<open>The profile signal and the welcome bonus\<close>

text \<open>
  \<open>create_user_profile\<close>: the profile is created; the bonus is then paid in a \<open>try\<close> whose handler
  only logs, statement by statement and outside any transaction, so whatever was written before an
  exception stays. The first two writes are the balance row (created empty if missing) and its
  new totals, the third is the ledger row.
\<close>

definition welcome_bonus_coins :: "nat \<Rightarrow> int \<Rightarrow> 'a coin_db_scheme \<Rightarrow> 'a coin_db_scheme" where
  "welcome_bonus_coins uid amount db =
     (if amount > 0 then
        (let db1 = get_or_create_balance uid db;
             row = (case balances db1 uid of None \<Rightarrow> new_balance | Some b \<Rightarrow> b);
             row1 = sync_balance (row\<lparr>earned_balance := earned_balance row + amount,
                                      total_earned := total_earned row + amount\<rparr>)
         in case save_balance uid
                   [F_balance, F_earned_balance, F_telebirr_purchased_balance,
                    F_airtime_purchased_balance, F_bonus_balance, F_purchased_balance,
                    F_total_earned, F_total_spent, F_total_purchased, F_total_telebirr_purchased,
                    F_total_airtime_purchased, F_total_bonus_granted, F_total_withdrawn]
                   row1 db1 of
              Inl e \<Rightarrow> db1
            | Inr db2 \<Rightarrow>
                (case create_transaction
                        ((new_transaction uid ''welcome_bonus'' amount (now db2))
                          \<lparr>description := (''Welcome bonus: {} coins'', [amount])\<rparr>) db2 of
                   Inl e \<Rightarrow> db2
                 | Inr (tx, db3) \<Rightarrow> db3))
      else db)"

definition create_user_profile :: "nat \<Rightarrow> int \<Rightarrow> 'a point_db_scheme \<Rightarrow> 'a point_db_scheme result" where
  "create_user_profile uid welcome_bonus db =
     (case profiles db uid of
        Some _ \<Rightarrow> Inl (IntegrityError ''api_userprofile_user_id_key'')
      | None \<Rightarrow>
          Inr (welcome_bonus_coins uid welcome_bonus
                 (db\<lparr>profiles := (profiles db)(uid \<mapsto> new_profile)\<rparr>)))"

section \<open>The ledger reconciles with the balance\<close>

definition points_of :: "'a point_db_scheme \<Rightarrow> nat \<Rightarrow> int" where
  "points_of db uid = (case profiles db uid of None \<Rightarrow> 0 | Some p \<Rightarrow> points p)"

definition points_logged :: "'a point_db_scheme \<Rightarrow> nat \<Rightarrow> int" where
  "points_logged db uid = sum_where (\<lambda>t. pt_user t = uid) pt_points (point_ledger db)"

definition points_inv :: "'a point_db_scheme \<Rightarrow> bool" where
  "points_inv db \<longleftrightarrow> (\<forall>uid p. profiles db uid = Some p \<longrightarrow> 0 \<le> points p)"

text \<open>
  A total is a different column from the balance it accompanies; the callers only ever name the
  lifetime counters.
\<close>

definition is_total :: "profile_field option \<Rightarrow> bool" where
  "is_total t \<longleftrightarrow> t \<notin> {Some P_points, Some P_coins}"

lemma is_total_simps [simp]:
  "is_total None" "is_total (Some P_points_earned_total)" "is_total (Some P_points_withdrawn_total)"
  "is_total (Some P_coins_earned_total)" "is_total (Some P_coins_spent_total)"
  by (simp_all add: is_total_def)

lemma bump_total_points [simp]: "is_total t \<Longrightarrow> points (bump_total t d p) = points p"
  unfolding bump_total_def is_total_def
  by (cases t; cases "the t") auto

lemma bump_total_profile_coins [simp]:
  "is_total t \<Longrightarrow> profile_coins (bump_total t d p) = profile_coins p"
  unfolding bump_total_def is_total_def
  by (cases t; cases "the t") auto

lemma set_pfield_points: "points (set_pfield f v p) = (if f = P_points then v else points p)"
  by (cases f) auto

lemma apply_delta_Inr:
  assumes "apply_delta uid f d t reason desc db = Inr db'" and "is_total t"
  obtains row locked where "profiles db uid = Some row"
    and "0 \<le> get_pfield f row + d" and "d \<noteq> 0"
    and "profiles db' = (profiles db)(uid \<mapsto> locked)"
    and "points locked = (if f = P_points then points row + d else points row)"
    and "f = P_points \<Longrightarrow> \<exists>ty. point_ledger db' = point_ledger db @
           [\<lparr>pt_user = uid, pt_type = ty, pt_points = d, balance_after = points row + d,
             pt_description = desc, pt_created_at = now db\<rparr>]"
    and "f \<noteq> P_points \<Longrightarrow> point_ledger db' = point_ledger db"
    and "balances db' = balances db" and "coin_ledger db' = coin_ledger db" and "now db' = now db"
  using assms
  by (auto simp: apply_delta_def bind_result_Inr_iff Let_def set_pfield_points split: if_splits)

lemma apply_delta_inv:
  assumes "apply_delta uid f d t reason desc db = Inr db'" and "is_total t" and "points_inv db"
  shows "points_inv db'"
proof -
  obtain row locked where "profiles db uid = Some row" "0 \<le> get_pfield f row + d"
    "profiles db' = (profiles db)(uid \<mapsto> locked)"
    "points locked = (if f = P_points then points row + d else points row)"
    using assms(1,2) by (rule apply_delta_Inr)
  with assms(3) show ?thesis by (auto simp: points_inv_def)
qed

lemma apply_delta_points:
  assumes "apply_delta uid P_points d t reason desc db = Inr db'" and "is_total t"
  shows "points_of db' u = points_of db u + (if u = uid then d else 0)"
    and "points_logged db' u = points_logged db u + (if u = uid then d else 0)"
proof -
  obtain row locked ty where "profiles db uid = Some row"
    "profiles db' = (profiles db)(uid \<mapsto> locked)" "points locked = points row + d"
    "point_ledger db' = point_ledger db @
       [\<lparr>pt_user = uid, pt_type = ty, pt_points = d, balance_after = points row + d,
         pt_description = desc, pt_created_at = now db\<rparr>]"
    using apply_delta_Inr [OF assms] by metis
  then show "points_of db' u = points_of db u + (if u = uid then d else 0)"
    and "points_logged db' u = points_logged db u + (if u = uid then d else 0)"
    by (auto simp: points_of_def points_logged_def)
qed

lemma apply_delta_coins:
  assumes "apply_delta uid P_coins d t reason desc db = Inr db'" and "is_total t"
  shows "points_of db' u = points_of db u" and "point_ledger db' = point_ledger db"
proof -
  obtain row locked where "profiles db uid = Some row"
    "profiles db' = (profiles db)(uid \<mapsto> locked)" "points locked = points row"
    "point_ledger db' = point_ledger db"
    using apply_delta_Inr [OF assms] by (metis profile_field.distinct(1))
  then show "points_of db' u = points_of db u" and "point_ledger db' = point_ledger db"
    by (auto simp: points_of_def)
qed

lemma apply_delta_coin_tables:
  assumes "apply_delta uid f d t reason desc db = Inr db'"
  shows "balances db' = balances db" and "coin_ledger db' = coin_ledger db"
    and "packages db' = packages db" and "now db' = now db"
  using assms by (auto simp: apply_delta_def bind_result_Inr_iff Let_def split: if_splits)

text \<open>Requests on the points of a profile.\<close>

datatype point_op =
    Add_points nat int "profile_field option" "string option" message
  | Deduct_points nat int "profile_field option" "string option" message
  | Add_profile_coins nat int "profile_field option"
  | Deduct_profile_coins nat int "profile_field option"

fun point_op_total :: "point_op \<Rightarrow> profile_field option" where
  "point_op_total (Add_points u n t r d) = t"
| "point_op_total (Deduct_points u n t r d) = t"
| "point_op_total (Add_profile_coins u n t) = t"
| "point_op_total (Deduct_profile_coins u n t) = t"

fun exec_point_op :: "point_op \<Rightarrow> 'a point_db_scheme \<Rightarrow> 'a point_db_scheme result" where
  "exec_point_op (Add_points u n t r d) db = add_points u n t r d db"
| "exec_point_op (Deduct_points u n t r d) db = deduct_points u n t r d db"
| "exec_point_op (Add_profile_coins u n t) db = add_profile_coins u n t db"
| "exec_point_op (Deduct_profile_coins u n t) db = deduct_profile_coins u n t db"

text \<open>The callers name lifetime counters only; a request that names a balance is not issued.\<close>

definition exec_point_request :: "point_op \<Rightarrow> 'a point_db_scheme \<Rightarrow> 'a point_db_scheme result" where
  "exec_point_request r db =
     (if is_total (point_op_total r) then exec_point_op r db else Inl (TypeError ''total_field''))"

lemma exec_point_request_cases:
  assumes "exec_point_request r db = Inr db'"
  shows "\<exists>uid f d t reason desc. is_total t \<and> f \<in> {P_points, P_coins} \<and>
    apply_delta uid f d t reason desc db = Inr db'"
proof -
  have t: "is_total (point_op_total r)" and ex: "exec_point_op r db = Inr db'"
    using assms by (auto simp: exec_point_request_def split: if_splits)
  show ?thesis
  proof (cases r)
    case (Add_points u n tf rs ds)
    with ex have "apply_delta u P_points n tf rs ds db = Inr db'"
      by (simp add: add_points_def split: if_splits)
    moreover from t Add_points have "is_total tf" by simp
    ultimately show ?thesis by blast
  next
    case (Deduct_points u n tf rs ds)
    with ex have "apply_delta u P_points (- n) tf rs ds db = Inr db'"
      by (simp add: deduct_points_def split: if_splits)
    moreover from t Deduct_points have "is_total tf" by simp
    ultimately show ?thesis by blast
  next
    case (Add_profile_coins u n tf)
    with ex have "apply_delta u P_coins n tf None ([], []) db = Inr db'"
      by (simp add: add_profile_coins_def split: if_splits)
    moreover from t Add_profile_coins have "is_total tf" by simp
    ultimately show ?thesis by blast
  next
    case (Deduct_profile_coins u n tf)
    with ex have "apply_delta u P_coins (- n) tf None ([], []) db = Inr db'"
      by (simp add: deduct_profile_coins_def split: if_splits)
    moreover from t Deduct_profile_coins have "is_total tf" by simp
    ultimately show ?thesis by blast
  qed
qed

interpretation point_wallet: ledger exec_point_request points_of points_logged points_inv
proof
  fix db db' :: "'a point_db_scheme" and r u
  show "points_inv db \<Longrightarrow> 0 \<le> points_of db u"
    by (auto simp: points_inv_def points_of_def split: option.splits)
  assume inv: "points_inv db" and "exec_point_request r db = Inr db'"
  then obtain uid f d t reason desc where t: "is_total t" and f: "f \<in> {P_points, P_coins}"
    and ap: "apply_delta uid f d t reason desc db = Inr db'"
    using exec_point_request_cases by blast
  show "points_inv db'"
    using ap t inv by (rule apply_delta_inv)
  show "points_of db' u - points_of db u = points_logged db' u - points_logged db u"
  proof (cases "f = P_points")
    case True
    with ap t show ?thesis by (simp add: apply_delta_points)
  next
    case False
    with f ap t show ?thesis by (simp add: apply_delta_coins points_logged_def)
  qed
qed

section \<open>Every row is readable on its own\<close>

text \<open>
  \<open>statement b ts\<close>: reading the rows \<open>ts\<close> from an opening balance \<open>b\<close>, every \<open>balance_after\<close> is
  the balance at that point and none is negative.
\<close>

fun statement :: "int \<Rightarrow> point_transaction list \<Rightarrow> bool" where
  "statement b [] = True"
| "statement b (t # ts) =
     (balance_after t = b + pt_points t \<and> 0 \<le> balance_after t \<and> statement (balance_after t) ts)"

definition rows_of :: "nat \<Rightarrow> 'a point_db_scheme \<Rightarrow> point_transaction list" where
  "rows_of uid db = filter (\<lambda>t. pt_user t = uid) (point_ledger db)"

lemma statement_append:
  "statement b (ts @ [t]) \<longleftrightarrow>
     statement b ts \<and> balance_after t = b + sum_list (map pt_points ts) + pt_points t \<and>
     0 \<le> balance_after t"
proof (induction ts arbitrary: b)
  case Nil
  then show ?case by auto
next
  case (Cons x xs)
  show ?case
  proof (cases "balance_after x = b + pt_points x")
    case True
    with Cons.IH [of "balance_after x"] show ?thesis by (auto simp: add.assoc)
  next
    case False
    then show ?thesis by simp
  qed
qed

definition statement_inv :: "(nat \<Rightarrow> int) \<Rightarrow> 'a point_db_scheme \<Rightarrow> bool" where
  "statement_inv opening db \<longleftrightarrow>
     (\<forall>uid p. profiles db uid = Some p \<longrightarrow>
        0 \<le> points p \<and> statement (opening uid) (rows_of uid db) \<and>
        points p = opening uid + sum_list (map pt_points (rows_of uid db)))"

lemma apply_delta_statement:
  assumes ap: "apply_delta uid P_points d t reason desc db = Inr db'" and t: "is_total t"
    and inv: "statement_inv opening db"
  shows "statement_inv opening db'"
proof -
  obtain row locked ty where row: "profiles db uid = Some row" and nonneg: "0 \<le> points row + d"
    and prof: "profiles db' = (profiles db)(uid \<mapsto> locked)" and lock: "points locked = points row + d"
    and "point_ledger db' = point_ledger db @
       [\<lparr>pt_user = uid, pt_type = ty, pt_points = d, balance_after = points row + d,
         pt_description = desc, pt_created_at = now db\<rparr>]"
    using apply_delta_Inr [OF ap t] by (metis get_pfield.simps(1))
  then have rows: "rows_of u db' = rows_of u db @ (if u = uid then
      [\<lparr>pt_user = uid, pt_type = ty, pt_points = d, balance_after = points row + d,
        pt_description = desc, pt_created_at = now db\<rparr>] else [])" for u
    by (simp add: rows_of_def)
  have "statement (opening uid) (rows_of uid db)"
    and "points row = opening uid + sum_list (map pt_points (rows_of uid db))"
    using inv row by (auto simp: statement_inv_def)
  with nonneg have "statement (opening uid) (rows_of uid db')"
    and "points row + d = opening uid + sum_list (map pt_points (rows_of uid db'))"
    by (simp_all add: rows statement_append)
  moreover have "rows_of u db' = rows_of u db" if "u \<noteq> uid" for u
    using that by (simp add: rows)
  ultimately show ?thesis
    using inv nonneg prof lock unfolding statement_inv_def by (metis fun_upd_apply option.inject)
qed

section \<open>Properties\<close>

definition example_points :: point_db where
  "example_points =
     \<lparr>balances = (\<lambda>_. None), coin_ledger = [], packages = (\<lambda>_. None), now = 0,
      profiles = (\<lambda>_. None)(1 \<mapsto> new_profile), point_ledger = []\<rparr>"

lemma statement_inv_request:
  assumes ex: "exec_point_request r db = Inr db'" and inv: "statement_inv opening db"
  shows "statement_inv opening db'"
proof -
  obtain uid f d t reason desc where t: "is_total t" and f: "f \<in> {P_points, P_coins}"
    and ap: "apply_delta uid f d t reason desc db = Inr db'"
    using exec_point_request_cases [OF ex] by blast
  show ?thesis
  proof (cases "f = P_points")
    case True
    with ap t inv show ?thesis by (auto intro: apply_delta_statement)
  next
    case False
    with f ap t have ap': "apply_delta uid P_coins d t reason desc db = Inr db'" by simp
    have led: "rows_of u db' = rows_of u db" for u
      using apply_delta_coins(2) [OF ap' t] by (simp add: rows_of_def)
    have "profiles db' u = Some p' \<Longrightarrow> \<exists>p. profiles db u = Some p \<and> points p' = points p" for u p'
      using apply_delta_Inr [OF ap' t] by (metis fun_upd_apply option.inject profile_field.distinct(1))
    with inv led show ?thesis unfolding statement_inv_def by metis
  qed
qed

text \<open>
  Every row of the points ledger can be read on its own. Reading a user's rows in order from
  the opening balance, each row's \<open>balance_after\<close> is the balance at that moment, it is never
  negative, and the last one is the balance on the profile; no sequence of requests breaks this.
\<close>
theorem points_statement_readable:
  assumes "statement_inv opening db"
  shows "statement_inv opening (run_requests exec_point_request rs db)"
  by (rule run_requests_invariant [of "statement_inv opening"]) (auto intro: statement_inv_request assms)

theorem points_statement_readable_witness:
  "statement_inv (\<lambda>_. 0) (run_requests exec_point_request
      [Add_points 1 50 (Some P_points_earned_total) None ([], []),
       Deduct_points 1 80 None None ([], []), Deduct_points 1 20 None None ([], [])] example_points) \<and>
   map balance_after (rows_of 1 (run_requests exec_point_request
      [Add_points 1 50 (Some P_points_earned_total) None ([], []),
       Deduct_points 1 80 None None ([], []), Deduct_points 1 20 None None ([], [])] example_points)) = [50, 30]"
proof
  have "statement_inv (\<lambda>_. 0) example_points"
    by (simp add: statement_inv_def example_points_def rows_of_def new_profile_def)
  then show "statement_inv (\<lambda>_. 0) (run_requests exec_point_request
      [Add_points 1 50 (Some P_points_earned_total) None ([], []),
       Deduct_points 1 80 None None ([], []), Deduct_points 1 20 None None ([], [])] example_points)"
    by (rule points_statement_readable)
qed code_simp

text \<open>
  The points ledger reconciles: for any sequence of requests on profile points and coins, a
  user's points stay non-negative and move by exactly the sum of that user's ledger rows.
\<close>
theorem points_ledger_reconciles:
  assumes "points_inv db"
  shows "points_inv (run_requests exec_point_request rs db) \<and>
         0 \<le> points_of (run_requests exec_point_request rs db) u \<and>
         points_of (run_requests exec_point_request rs db) u - points_of db u =
           points_logged (run_requests exec_point_request rs db) u - points_logged db u"
  using point_wallet.run_wf [OF assms] point_wallet.run_nonneg [OF assms]
    point_wallet.run_balanced [OF assms] by blast

theorem points_ledger_reconciles_witness:
  "points_inv example_points \<and>
   0 \<le> points_of (run_requests exec_point_request [Deduct_points 1 20 None None ([], [])] example_points) 1"
proof -
  have "points_inv example_points"
    by (simp add: points_inv_def example_points_def new_profile_def)
  then show ?thesis using points_ledger_reconciles by blast
qed

end
