(* ===== verification/Decimal28.thy ===== *)
theory Decimal28
  imports Complex_Main
begin

text \<open>
  Python's \<open>decimal\<close> arithmetic as the wallet uses it: a finite decimal is the rational it denotes,
  and the result of an operation is the exact result rounded to the 28 significant digits of the
  default context, ties to even. The rounding is monotone, keeps the sign and leaves every number
  with at most 28 digits alone; the money computations rest on those facts only.
\<close>

section \<open>Rounding to an integer, ties to even\<close>

definition half_even :: "rat \<Rightarrow> int" where
  "half_even q =
     (let f = \<lfloor>q\<rfloor>; r = q - of_int f
      in if r < 1 / 2 then f else if 1 / 2 < r then f + 1 else if even f then f else f + 1)"

lemma half_even_of_int [simp]: "half_even (of_int n) = n"
  by (simp add: half_even_def)

lemma half_even_bounds: "\<lfloor>q\<rfloor> \<le> half_even q" "half_even q \<le> \<lfloor>q\<rfloor> + 1"
  by (simp_all add: half_even_def Let_def)

lemma half_even_mono:
  assumes "p \<le> q"
  shows "half_even p \<le> half_even q"
proof (cases "\<lfloor>p\<rfloor> = \<lfloor>q\<rfloor>")
  case True
  with assms show ?thesis by (auto simp: half_even_def Let_def)
next
  case False
  with floor_mono [OF assms] have "\<lfloor>p\<rfloor> + 1 \<le> \<lfloor>q\<rfloor>" by linarith
  with half_even_bounds [of p] half_even_bounds [of q] show ?thesis by linarith
qed

section \<open>The exponent of the last kept digit\<close>

fun ndigits :: "nat \<Rightarrow> nat" where
  "ndigits n = (if n < 10 then 1 else Suc (ndigits (n div 10)))"

declare ndigits.simps [simp del]

lemma ndigits_pos: "0 < ndigits n"
  by (subst ndigits.simps) simp

lemma ndigits_bounds: "0 < n \<Longrightarrow> 10 ^ (ndigits n - 1) \<le> n \<and> n < 10 ^ ndigits n"
proof (induction n rule: ndigits.induct)
  case (1 n)
  show ?case
  proof (cases "n < 10")
    case True
    with "1.prems" show ?thesis by (simp add: ndigits.simps [of n])
  next
    case False
    then have "0 < n div 10" by simp
    with "1.IH" False have IH: "10 ^ (ndigits (n div 10) - 1) \<le> n div 10"
      "n div 10 < 10 ^ ndigits (n div 10)" by auto
    have "(10 :: nat) ^ ndigits (n div 10) = 10 * 10 ^ (ndigits (n div 10) - 1)"
      using ndigits_pos [of "n div 10"] by (cases "ndigits (n div 10)") auto
    with IH have "10 ^ ndigits (n div 10) \<le> n" "n < 10 * 10 ^ ndigits (n div 10)"
      by linarith+
    with False show ?thesis by (simp add: ndigits.simps [of n])
  qed
qed

definition ten_to :: "int \<Rightarrow> rat" where
  "ten_to e = 10 powi e"

lemma ten_to_pos [simp]: "0 < ten_to e"
  by (simp add: ten_to_def)

lemma ten_to_nonzero [simp]: "ten_to e \<noteq> 0"
  using ten_to_pos [of e] by linarith

lemma ten_to_add: "ten_to (a + b) = ten_to a * ten_to b"
  by (simp add: ten_to_def power_int_add)

lemma ten_to_nat: "0 \<le> e \<Longrightarrow> ten_to e = of_int (10 ^ nat e)"
  by (simp add: ten_to_def power_int_def)

lemma ten_to_strict_mono: "a < b \<Longrightarrow> ten_to a < ten_to b"
  unfolding ten_to_def by (rule power_int_strict_increasing) simp_all

lemma ten_to_less_iff: "ten_to a < ten_to b \<longleftrightarrow> a < b"
  using ten_to_strict_mono [of a b] ten_to_strict_mono [of b a] by (cases a b rule: linorder_cases) auto

lemma ten_to_le_iff: "ten_to a \<le> ten_to b \<longleftrightarrow> a \<le> b"
  by (simp add: ten_to_less_iff flip: not_less)

lemma ten_to_28: "ten_to 28 = 10 ^ 28" "ten_to 27 = 10 ^ 27"
  by (simp_all add: ten_to_def)

definition dec_exp :: "rat \<Rightarrow> int" where
  "dec_exp x =
     (let (n, d) = quotient_of x;
          e = int (ndigits (nat n)) - int (ndigits (nat d)) - 28
      in if x / ten_to e < 10 ^ 28 then e else e + 1)"

lemma quotient_of_pos:
  assumes "0 < x" and "quotient_of x = (n, d)"
  shows "0 < n" and "0 < d" and "x = of_int n / of_int d"
proof -
  show "0 < d" using quotient_of_denom_pos [OF assms(2)] .
  show x: "x = of_int n / of_int d" using quotient_of_div [OF assms(2)] .
  from \<open>0 < d\<close> assms(1) show "0 < n" unfolding x by (simp add: zero_less_divide_iff)
qed

lemma ndigits_ten_to:
  assumes "0 < n"
  shows "ten_to (int (ndigits (nat n)) - 1) \<le> of_int n" and "of_int n < ten_to (int (ndigits (nat n)))"
proof -
  have b: "10 ^ (ndigits (nat n) - 1) \<le> nat n" "nat n < 10 ^ ndigits (nat n)"
    using ndigits_bounds [of "nat n"] assms by auto
  have n: "of_int n = (of_nat (nat n) :: rat)" using assms by simp
  have e: "int (ndigits (nat n)) - 1 = int (ndigits (nat n) - 1)"
    using ndigits_pos [of "nat n"] by simp
  show "ten_to (int (ndigits (nat n)) - 1) \<le> of_int n"
    unfolding e n ten_to_def using b(1)
    by (metis of_nat_le_iff of_nat_numeral of_nat_power power_int_of_nat)
  show "of_int n < ten_to (int (ndigits (nat n)))"
    unfolding n ten_to_def using b(2)
    by (metis of_nat_less_iff of_nat_numeral of_nat_power power_int_of_nat)
qed

lemma dec_exp_bounds:
  assumes x: "0 < x"
  shows "10 ^ 27 \<le> x / ten_to (dec_exp x)" and "x / ten_to (dec_exp x) < 10 ^ 28"
proof -
  obtain n d where nd: "quotient_of x = (n, d)" by fastforce
  note pos = quotient_of_pos [OF x nd]
  define a b where "a = int (ndigits (nat n))" and "b = int (ndigits (nat d))"
  define e where "e = a - b - 28"
  note na = ndigits_ten_to [OF pos(1), folded a_def] and db = ndigits_ten_to [OF pos(2), folded b_def]
  have dpos: "(0::rat) < of_int d" using pos(2) by simp
  have lo: "10 ^ 27 < x / ten_to e"
  proof -
    have "ten_to 27 * ten_to e * of_int d < ten_to 27 * ten_to e * ten_to b"
      using db(2) by simp
    also have "\<dots> = ten_to (a - 1)"
      by (simp add: e_def flip: ten_to_add)
    also have "\<dots> \<le> of_int n" by (rule na(1))
    finally have "ten_to 27 * ten_to e < x"
      using dpos unfolding pos(3) by (simp add: pos_less_divide_eq)
    then show ?thesis by (simp add: pos_less_divide_eq ten_to_28)
  qed
  have hi: "x / ten_to e < 10 * 10 ^ 28"
  proof -
    have "(of_int n :: rat) < ten_to a" by (rule na(2))
    also have "\<dots> = ten_to 29 * ten_to e * ten_to (b - 1)"
      by (simp add: e_def flip: ten_to_add)
    also have "\<dots> \<le> ten_to 29 * ten_to e * of_int d"
      using db(1) by simp
    finally have "x < ten_to 29 * ten_to e"
      using dpos unfolding pos(3) by (simp add: pos_divide_less_eq)
    then show ?thesis by (simp add: pos_divide_less_eq) (simp add: ten_to_def)
  qed
  have de: "dec_exp x = (if x / ten_to e < 10 ^ 28 then e else e + 1)"
    by (simp add: dec_exp_def nd e_def a_def b_def)
  have "x / ten_to (e + 1) = x / ten_to e / 10"
    by (simp add: ten_to_add) (simp add: ten_to_def)
  with lo hi de show "10 ^ 27 \<le> x / ten_to (dec_exp x)" and "x / ten_to (dec_exp x) < 10 ^ 28"
    by (auto split: if_splits)
qed

lemma dec_exp_between:
  assumes "0 < x"
  shows "10 ^ 27 * ten_to (dec_exp x) \<le> x" and "x < 10 ^ 28 * ten_to (dec_exp x)"
  using dec_exp_bounds [OF assms] by (simp_all add: pos_le_divide_eq pos_divide_less_eq)

section \<open>Rounding to 28 significant digits\<close>

definition dec_round_pos :: "rat \<Rightarrow> rat" where
  "dec_round_pos x = of_int (half_even (x / ten_to (dec_exp x))) * ten_to (dec_exp x)"

definition dec_round :: "rat \<Rightarrow> rat" where
  "dec_round x = (if x = 0 then 0 else if x < 0 then - dec_round_pos (- x) else dec_round_pos x)"

lemma half_even_between:
  "of_int a \<le> q \<Longrightarrow> a \<le> half_even q" "q \<le> of_int b \<Longrightarrow> half_even q \<le> b"
  using half_even_mono [of "of_int a" q] half_even_mono [of q "of_int b"] by auto

lemma dec_round_pos_between:
  assumes "0 < x"
  shows "10 ^ 27 * ten_to (dec_exp x) \<le> dec_round_pos x"
    and "dec_round_pos x \<le> 10 ^ 28 * ten_to (dec_exp x)"
proof -
  have "10 ^ 27 \<le> half_even (x / ten_to (dec_exp x))" "half_even (x / ten_to (dec_exp x)) \<le> 10 ^ 28"
    using dec_exp_bounds [OF assms] half_even_between(1) [of "10 ^ 27" "x / ten_to (dec_exp x)"]
      half_even_between(2) [of "x / ten_to (dec_exp x)" "10 ^ 28"]
    by auto
  then have "(10 ^ 27 :: rat) \<le> of_int (half_even (x / ten_to (dec_exp x)))"
    "of_int (half_even (x / ten_to (dec_exp x))) \<le> (10 ^ 28 :: rat)"
    by (metis of_int_le_iff of_int_numeral of_int_power)+
  then show "10 ^ 27 * ten_to (dec_exp x) \<le> dec_round_pos x"
    and "dec_round_pos x \<le> 10 ^ 28 * ten_to (dec_exp x)"
    by (simp_all add: dec_round_pos_def)
qed

lemma dec_exp_mono:
  assumes "0 < x" and "x \<le> y"
  shows "dec_exp x \<le> dec_exp y"
proof (rule ccontr)
  assume "\<not> dec_exp x \<le> dec_exp y"
  then have "ten_to (dec_exp y + 1) \<le> ten_to (dec_exp x)"
    by (simp add: ten_to_le_iff)
  then have "10 * ten_to (dec_exp y) \<le> ten_to (dec_exp x)"
    by (simp add: ten_to_add) (simp add: ten_to_def)
  moreover have "y < 10 ^ 28 * ten_to (dec_exp y)"
    using assms by (intro dec_exp_between(2)) simp
  moreover have "10 ^ 27 * ten_to (dec_exp x) \<le> x"
    using assms(1) by (rule dec_exp_between(1))
  ultimately show False using assms(2) by simp
qed

lemma dec_round_pos_mono:
  assumes "0 < x" and "x \<le> y"
  shows "dec_round_pos x \<le> dec_round_pos y"
proof (cases "dec_exp x = dec_exp y")
  case True
  have "x / ten_to (dec_exp y) \<le> y / ten_to (dec_exp y)"
    using assms(2) by (simp add: divide_right_mono less_imp_le)
  then have "half_even (x / ten_to (dec_exp y)) \<le> half_even (y / ten_to (dec_exp y))"
    by (rule half_even_mono)
  with True show ?thesis by (simp add: dec_round_pos_def)
next
  case False
  with dec_exp_mono [OF assms] have "ten_to (dec_exp x + 1) \<le> ten_to (dec_exp y)"
    by (simp add: ten_to_le_iff)
  then have "10 * ten_to (dec_exp x) \<le> ten_to (dec_exp y)"
    by (simp add: ten_to_add) (simp add: ten_to_def)
  moreover have "10 ^ 27 * ten_to (dec_exp y) \<le> dec_round_pos y"
    using assms by (intro dec_round_pos_between(1)) simp
  moreover have "dec_round_pos x \<le> 10 ^ 28 * ten_to (dec_exp x)"
    using assms(1) by (rule dec_round_pos_between(2))
  ultimately show ?thesis by simp
qed

lemma dec_round_pos_positive:
  assumes "0 < x"
  shows "0 < dec_round_pos x"
proof -
  have "0 < 10 ^ 27 * ten_to (dec_exp x)" by simp
  also have "\<dots> \<le> dec_round_pos x" using assms by (rule dec_round_pos_between(1))
  finally show ?thesis .
qed

lemma dec_round_0 [simp]: "dec_round 0 = 0"
  by (simp add: dec_round_def)

lemma dec_round_nonneg: "0 \<le> x \<Longrightarrow> 0 \<le> dec_round x"
  using dec_round_pos_positive [of x] by (auto simp: dec_round_def)

lemma dec_round_mono: "x \<le> y \<Longrightarrow> dec_round x \<le> dec_round y"
  using dec_round_pos_mono [of x y] dec_round_pos_mono [of "- y" "- x"]
    dec_round_pos_positive [of "- x"] dec_round_pos_positive [of y]
  by (auto simp: dec_round_def)

text \<open>Numbers with at most 28 significant digits are left alone.\<close>

definition representable :: "rat \<Rightarrow> bool" where
  "representable x \<longleftrightarrow> (\<exists>m e. x = of_int m * ten_to e \<and> \<bar>m\<bar> < 10 ^ 28)"

lemma dec_round_pos_exact:
  assumes m: "0 < m" "m < 10 ^ 28" and x: "x = of_int m * ten_to e"
  shows "dec_round_pos x = x"
proof -
  have x0: "0 < x" using m(1) by (simp add: x)
  have "(of_int m :: rat) < 10 ^ 28"
    using m(2) by (metis of_int_less_iff of_int_numeral of_int_power)
  then have "x < 10 ^ 28 * ten_to e"
    by (simp add: x)
  with dec_exp_between(1) [OF x0] have "ten_to (dec_exp x) < 10 * ten_to e"
    by simp
  also have "\<dots> = ten_to (e + 1)"
    by (simp add: ten_to_add) (simp add: ten_to_def)
  finally have le: "dec_exp x \<le> e" by (simp add: ten_to_less_iff)
  have "x / ten_to (dec_exp x) = of_int m * ten_to (e - dec_exp x)"
    by (simp add: x field_simps flip: ten_to_add)
  also have "\<dots> = of_int (m * 10 ^ nat (e - dec_exp x))"
    using le by (simp add: ten_to_nat)
  finally have "half_even (x / ten_to (dec_exp x)) = m * 10 ^ nat (e - dec_exp x)"
    and "of_int (m * 10 ^ nat (e - dec_exp x)) = x / ten_to (dec_exp x)"
    by (metis half_even_of_int, metis)
  then show ?thesis by (simp add: dec_round_pos_def)
qed

lemma dec_round_representable: "representable x \<Longrightarrow> dec_round x = x"
proof -
  assume "representable x"
  then obtain m e where x: "x = of_int m * ten_to e" and m: "\<bar>m\<bar> < 10 ^ 28"
    by (auto simp: representable_def)
  have "- x = of_int (- m) * ten_to e" by (simp add: x)
  with x m dec_round_pos_exact [of m x e] dec_round_pos_exact [of "- m" "- x" e] show ?thesis
    using ten_to_pos [of e]
    by (auto simp: dec_round_def zero_less_mult_iff mult_less_0_iff simp del: ten_to_pos)
qed

lemma representable_of_int: "\<bar>n\<bar> < 10 ^ 28 \<Longrightarrow> representable (of_int n)"
  unfolding representable_def
  by (rule exI [of _ n], rule exI [of _ 0]) (simp add: ten_to_def)

lemma representable_hundredths: "\<bar>n\<bar> < 10 ^ 28 \<Longrightarrow> representable (of_int n / 100)"
  unfolding representable_def
  by (rule exI [of _ n], rule exI [of _ "- 2"]) (simp add: ten_to_def power_int_minus)

lemma representable_dec_round_pos:
  assumes "0 < x"
  shows "representable (dec_round_pos x)"
proof -
  let ?m = "half_even (x / ten_to (dec_exp x))"
  have le: "?m \<le> 10 ^ 28" and ge: "10 ^ 27 \<le> ?m"
    using dec_exp_bounds [OF assms] half_even_between(1) [of "10 ^ 27" "x / ten_to (dec_exp x)"]
      half_even_between(2) [of "x / ten_to (dec_exp x)" "10 ^ 28"]
    by auto
  show ?thesis
  proof (cases "?m = 10 ^ 28")
    case True
    then have "dec_round_pos x = of_int (10 ^ 27) * ten_to (dec_exp x + 1)"
      by (simp add: dec_round_pos_def ten_to_add) (simp add: ten_to_def)
    then show ?thesis unfolding representable_def by (intro exI conjI) (assumption, simp)
  next
    case False
    with le ge have "\<bar>?m\<bar> < 10 ^ 28" by simp
    then show ?thesis unfolding representable_def dec_round_pos_def by blast
  qed
qed

lemma representable_uminus: "representable x \<Longrightarrow> representable (- x)"
proof -
  assume "representable x"
  then obtain m e where "x = of_int m * ten_to e" "\<bar>m\<bar> < 10 ^ 28"
    by (auto simp: representable_def)
  then have "- x = of_int (- m) * ten_to e \<and> \<bar>- m\<bar> < 10 ^ 28" by simp
  then show ?thesis unfolding representable_def by blast
qed

lemma representable_dec_round: "representable (dec_round x)"
proof -
  have "representable 0" using representable_of_int [of 0] by simp
  then show ?thesis
    using representable_dec_round_pos [of x] representable_dec_round_pos [of "- x"]
    by (auto simp: dec_round_def intro: representable_uminus)
qed

lemma dec_round_idem [simp]: "dec_round (dec_round x) = dec_round x"
  by (rule dec_round_representable) (rule representable_dec_round)

section \<open>Operations\<close>

definition dec_div :: "rat \<Rightarrow> rat \<Rightarrow> rat" where
  "dec_div a b = dec_round (a / b)"

definition dec_mult :: "rat \<Rightarrow> rat \<Rightarrow> rat" where
  "dec_mult a b = dec_round (a * b)"

definition dec_sub :: "rat \<Rightarrow> rat \<Rightarrow> rat" where
  "dec_sub a b = dec_round (a - b)"

end
