(* ===== verification/Wallet_Config.thy ===== *)
theory Wallet_Config
  imports Decimal28
begin

text \<open>
  \<open>WalletConfig\<close> of \<open>api/models/wallet.py\<close>: the singleton with the admin-configurable settings of
  the coin economy, one record per section of the class, with the defaults its fields declare, and
  its conversion methods. A decimal column with two places is kept in hundredths.
\<close>

section \<open>The settings\<close>

text \<open>Earning rewards.\<close>

record earning_rewards =
  welcome_bonus :: int
  daily_login_day1 :: int
  daily_login_day2 :: int
  daily_login_day3 :: int
  daily_login_day4 :: int
  daily_login_day5 :: int
  daily_login_day6 :: int
  daily_login_day7 :: int
  daily_post_bonus :: int
  campaign_join_reward :: int
  receive_like_reward :: int
  receive_like_daily_cap :: int
  quality_comment_reward :: int
  quality_comment_daily_cap :: int
  profile_complete_reward :: int
  referral_reward :: int
  campaign_winner_reward :: int

definition default_earning_rewards :: earning_rewards where
  "default_earning_rewards =
     \<lparr>welcome_bonus = 100,
      daily_login_day1 = 5,
      daily_login_day2 = 10,
      daily_login_day3 = 15,
      daily_login_day4 = 20,
      daily_login_day5 = 25,
      daily_login_day6 = 30,
      daily_login_day7 = 50,
      daily_post_bonus = 20,
      campaign_join_reward = 30,
      receive_like_reward = 1,
      receive_like_daily_cap = 100,
      quality_comment_reward = 2,
      quality_comment_daily_cap = 20,
      profile_complete_reward = 50,
      referral_reward = 100,
      campaign_winner_reward = 500\<rparr>"

text \<open>Platform ceilings for organization coin configuration.\<close>

record platform_ceilings =
  max_like_reward :: int
  max_comment_reward :: int
  max_share_reward :: int
  max_gift_reward :: int

definition default_platform_ceilings :: platform_ceilings where
  "default_platform_ceilings =
     \<lparr>max_like_reward = 10,
      max_comment_reward = 20,
      max_share_reward = 50,
      max_gift_reward = 100\<rparr>"

text \<open>Action costs.\<close>

record action_costs =
  cost_post_create :: int
  cost_like :: int
  cost_comment :: int
  cost_share :: int
  cost_gift :: int
  cost_join_campaign :: int
  cost_extra_campaign_entry :: int
  cost_boost_1hr :: int
  cost_boost_2hr :: int
  cost_boost_24hr :: int
  cost_trending_1hr :: int
  cost_trending_24hr :: int
  cost_post_create_long_video :: int

definition default_action_costs :: action_costs where
  "default_action_costs =
     \<lparr>cost_post_create = 2,
      cost_like = 1,
      cost_comment = 2,
      cost_share = 5,
      cost_gift = 0,
      cost_join_campaign = 50,
      cost_extra_campaign_entry = 100,
      cost_boost_1hr = 100,
      cost_boost_2hr = 200,
      cost_boost_24hr = 800,
      cost_trending_1hr = 150,
      cost_trending_24hr = 1200,
      cost_post_create_long_video = 98\<rparr>"

text \<open>Non-campaign action costs.\<close>

record non_campaign_costs =
  cost_post_create_non_campaign :: int
  cost_like_non_campaign :: int
  cost_comment_non_campaign :: int
  cost_share_non_campaign :: int
  cost_gift_non_campaign :: int
  cost_boost_1hr_non_campaign :: int
  cost_boost_2hr_non_campaign :: int
  cost_boost_24hr_non_campaign :: int
  cost_trending_1hr_non_campaign :: int
  cost_trending_24hr_non_campaign :: int
  cost_post_create_long_video_non_campaign :: int

definition default_non_campaign_costs :: non_campaign_costs where
  "default_non_campaign_costs =
     \<lparr>cost_post_create_non_campaign = 2,
      cost_like_non_campaign = 1,
      cost_comment_non_campaign = 2,
      cost_share_non_campaign = 5,
      cost_gift_non_campaign = 0,
      cost_boost_1hr_non_campaign = 100,
      cost_boost_2hr_non_campaign = 200,
      cost_boost_24hr_non_campaign = 800,
      cost_trending_1hr_non_campaign = 150,
      cost_trending_24hr_non_campaign = 1200,
      cost_post_create_long_video_non_campaign = 98\<rparr>"

text \<open>Minimum balances and custom purchases (birr in hundredths).\<close>

record purchase_settings =
  min_balance_to_post :: int
  min_balance_to_join_campaign :: int
  custom_purchase_min_etb :: int
  custom_purchase_max_etb :: int

definition default_purchase_settings :: purchase_settings where
  "default_purchase_settings =
     \<lparr>min_balance_to_post = 0,
      min_balance_to_join_campaign = 50,
      custom_purchase_min_etb = 100,
      custom_purchase_max_etb = 100000\<rparr>"

text \<open>Withdrawal and points (fee percent in hundredths).\<close>

record withdrawal_settings =
  withdrawal_enabled :: bool
  withdrawal_min_coins :: int
  withdrawal_max_coins_per_request :: int
  coins_per_birr :: int
  withdrawal_fee_percent :: int
  withdrawal_processing_days :: int
  coins_to_points_conversion :: int
  points_per_birr :: int
  withdrawal_min_points :: int
  withdrawal_max_points_per_request :: int

definition default_withdrawal_settings :: withdrawal_settings where
  "default_withdrawal_settings =
     \<lparr>withdrawal_enabled = True,
      withdrawal_min_coins = 1000,
      withdrawal_max_coins_per_request = 100000,
      coins_per_birr = 100,
      withdrawal_fee_percent = 2000,
      withdrawal_processing_days = 3,
      coins_to_points_conversion = 1,
      points_per_birr = 10,
      withdrawal_min_points = 1000,
      withdrawal_max_points_per_request = 50000\<rparr>"

text \<open>Campaign winner point rewards.\<close>

record winner_points =
  daily_winner_points :: int
  weekly_winner_points :: int
  monthly_winner_points :: int
  grand_finalist_points :: int
  grand_winner_points :: int

definition default_winner_points :: winner_points where
  "default_winner_points =
     \<lparr>daily_winner_points = 500,
      weekly_winner_points = 2000,
      monthly_winner_points = 10000,
      grand_finalist_points = 5000,
      grand_winner_points = 50000\<rparr>"

text \<open>Gifting policy and restrictions.\<close>

record gift_settings =
  earned_coins_giftable :: bool
  purchased_coins_giftable :: bool
  earned_coins_withdrawable :: bool
  purchased_coins_withdrawable :: bool
  gift_min_points_per_transaction :: int
  gift_max_points_per_transaction :: int
  gift_max_points_to_recipient_per_day :: int
  gift_max_total_points_sent_per_day :: int
  earned_coins_expire_days :: int

definition default_gift_settings :: gift_settings where
  "default_gift_settings =
     \<lparr>earned_coins_giftable = False,
      purchased_coins_giftable = True,
      earned_coins_withdrawable = True,
      purchased_coins_withdrawable = False,
      gift_min_points_per_transaction = 10,
      gift_max_points_per_transaction = 5000,
      gift_max_points_to_recipient_per_day = 5000,
      gift_max_total_points_sent_per_day = 10000,
      earned_coins_expire_days = 0\<rparr>"

text \<open>The row itself.\<close>

record wallet_config =
  cfg_earning_rewards :: earning_rewards
  cfg_platform_ceilings :: platform_ceilings
  cfg_action_costs :: action_costs
  cfg_non_campaign_costs :: non_campaign_costs
  cfg_purchase_settings :: purchase_settings
  cfg_withdrawal_settings :: withdrawal_settings
  cfg_winner_points :: winner_points
  cfg_gift_settings :: gift_settings

definition default_config :: wallet_config where
  "default_config =
     \<lparr>cfg_earning_rewards = default_earning_rewards,
      cfg_platform_ceilings = default_platform_ceilings,
      cfg_action_costs = default_action_costs,
      cfg_non_campaign_costs = default_non_campaign_costs,
      cfg_purchase_settings = default_purchase_settings,
      cfg_withdrawal_settings = default_withdrawal_settings,
      cfg_winner_points = default_winner_points,
      cfg_gift_settings = default_gift_settings\<rparr>"

lemmas default_config_defs = default_config_def
  default_earning_rewards_def
  default_platform_ceilings_def
  default_action_costs_def
  default_non_campaign_costs_def
  default_purchase_settings_def
  default_withdrawal_settings_def
  default_winner_points_def
  default_gift_settings_def

section \<open>Conversions\<close>

definition coins_to_birr :: "wallet_config \<Rightarrow> int \<Rightarrow> rat" where
  "coins_to_birr c n =
     (let rate = coins_per_birr (cfg_withdrawal_settings c)
      in if rate \<le> 0 then 0 else dec_div (of_int n) (of_int rate))"

definition points_to_birr :: "wallet_config \<Rightarrow> int \<Rightarrow> rat" where
  "points_to_birr c n =
     (let rate = points_per_birr (cfg_withdrawal_settings c)
      in if rate \<le> 0 then 0 else dec_div (of_int n) (of_int rate))"

definition coins_to_points :: "wallet_config \<Rightarrow> int \<Rightarrow> int" where
  "coins_to_points c n =
     (let rate = coins_to_points_conversion (cfg_withdrawal_settings c)
      in if rate \<le> 0 then 0 else n div rate)"

record birr_breakdown =
  br_amount :: int
  br_gross :: rat
  br_fee :: rat
  br_net :: rat

text \<open>The fee and the net of a gross amount: each operation rounds to the decimal context.\<close>

definition net_of_fee :: "wallet_config \<Rightarrow> int \<Rightarrow> rat \<Rightarrow> birr_breakdown" where
  "net_of_fee c amount gross =
     (let percent = of_int (withdrawal_fee_percent (cfg_withdrawal_settings c)) / 100;
          fee = dec_mult gross (dec_div percent 100)
      in \<lparr>br_amount = amount, br_gross = gross, br_fee = fee, br_net = dec_sub gross fee\<rparr>)"

definition calculate_withdrawal :: "wallet_config \<Rightarrow> int \<Rightarrow> birr_breakdown" where
  "calculate_withdrawal c n = net_of_fee c n (coins_to_birr c n)"

definition calculate_points_withdrawal :: "wallet_config \<Rightarrow> int \<Rightarrow> birr_breakdown" where
  "calculate_points_withdrawal c n = net_of_fee c n (points_to_birr c n)"

section \<open>The fee never exceeds the gross\<close>

definition fee_valid :: "wallet_config \<Rightarrow> bool" where
  "fee_valid c \<longleftrightarrow> 0 \<le> withdrawal_fee_percent (cfg_withdrawal_settings c) \<and>
                  withdrawal_fee_percent (cfg_withdrawal_settings c) \<le> 10000"

lemma fee_fraction:
  assumes "fee_valid c"
  shows "0 \<le> dec_div (of_int (withdrawal_fee_percent (cfg_withdrawal_settings c)) / 100) 100"
    and "dec_div (of_int (withdrawal_fee_percent (cfg_withdrawal_settings c)) / 100) 100 \<le> 1"
proof -
  let ?p = "(of_int (withdrawal_fee_percent (cfg_withdrawal_settings c)) :: rat) / 100 / 100"
  have "0 \<le> ?p" "?p \<le> 1" using assms by (simp_all add: fee_valid_def)
  moreover have "dec_round 1 = 1"
    using dec_round_representable [OF representable_of_int, of 1] by simp
  ultimately show "0 \<le> dec_div (of_int (withdrawal_fee_percent (cfg_withdrawal_settings c)) / 100) 100"
    and "dec_div (of_int (withdrawal_fee_percent (cfg_withdrawal_settings c)) / 100) 100 \<le> 1"
    using dec_round_nonneg [of ?p] dec_round_mono [of ?p 1] by (simp_all add: dec_div_def)
qed

lemma net_of_fee_bounds:
  assumes "fee_valid c" and "0 \<le> g" and "dec_round g = g"
  shows "0 \<le> br_fee (net_of_fee c n g)" and "br_fee (net_of_fee c n g) \<le> g"
    and "0 \<le> br_net (net_of_fee c n g)" and "br_net (net_of_fee c n g) \<le> g"
proof -
  let ?r = "dec_div (of_int (withdrawal_fee_percent (cfg_withdrawal_settings c)) / 100) 100"
  let ?fee = "dec_mult g ?r"
  have "0 \<le> g * ?r" "g * ?r \<le> g"
    using fee_fraction [OF assms(1)] assms(2) by (simp_all add: mult_left_le)
  then have fee: "0 \<le> ?fee" "?fee \<le> g"
    using dec_round_nonneg [of "g * ?r"] dec_round_mono [of "g * ?r" g] assms(3)
    by (simp_all add: dec_mult_def)
  then have "0 \<le> dec_round (g - ?fee)" "dec_round (g - ?fee) \<le> dec_round g"
    by (simp_all add: dec_round_nonneg dec_round_mono)
  with fee assms(3) show "0 \<le> br_fee (net_of_fee c n g)" and "br_fee (net_of_fee c n g) \<le> g"
    and "0 \<le> br_net (net_of_fee c n g)" and "br_net (net_of_fee c n g) \<le> g"
    by (simp_all add: net_of_fee_def Let_def dec_sub_def)
qed

lemma points_to_birr_rounded [simp]: "dec_round (points_to_birr c n) = points_to_birr c n"
  by (simp add: points_to_birr_def dec_div_def Let_def)

lemma points_to_birr_nonneg: "0 \<le> n \<Longrightarrow> 0 \<le> points_to_birr c n"
  by (simp add: points_to_birr_def dec_div_def Let_def dec_round_nonneg)

lemma points_to_birr_mono: "m \<le> n \<Longrightarrow> points_to_birr c m \<le> points_to_birr c n"
  by (simp add: points_to_birr_def dec_div_def Let_def dec_round_mono divide_right_mono)

lemma coins_to_points_bounds:
  assumes "0 < coins_to_points_conversion (cfg_withdrawal_settings c)" and "0 \<le> n"
  shows "0 \<le> coins_to_points c n" and "coins_to_points c n \<le> n"
proof -
  let ?r = "coins_to_points_conversion (cfg_withdrawal_settings c)"
  show "0 \<le> coins_to_points c n"
    using assms by (simp add: coins_to_points_def Let_def pos_imp_zdiv_nonneg_iff)
  have "n div ?r \<le> n div 1"
    using assms by (intro zdiv_mono2) simp_all
  then show "coins_to_points c n \<le> n"
    using assms by (simp add: coins_to_points_def Let_def)
qed

text \<open>At the default settings every step is exact: ten points a birr, a fifth in fees.\<close>

lemma default_points_withdrawal:
  assumes "\<bar>n\<bar> < 10 ^ 20"
  shows "br_gross (calculate_points_withdrawal default_config n) = of_int n / 10"
    and "br_fee (calculate_points_withdrawal default_config n) = of_int n / 50"
    and "br_net (calculate_points_withdrawal default_config n) = 2 * of_int n / 25"
proof -
  have ex: "dec_round (of_int k / 100) = of_int k / 100" if "\<bar>k\<bar> < 10 ^ 28" for k
    using that by (intro dec_round_representable representable_hundredths)
  have g: "dec_round (of_int n / 10) = of_int n / 10"
    using ex [of "10 * n"] assms by simp
  have f: "dec_round (of_int n / 50) = of_int n / 50"
    using ex [of "2 * n"] assms by simp
  have t: "dec_round (2 * of_int n / 25) = 2 * of_int n / 25"
    using ex [of "8 * n"] assms by simp
  have r: "dec_round (1 / 5) = 1 / 5"
    using ex [of 20] by simp
  have d: "(of_int n / 10 - of_int n / 50 :: rat) = 2 * of_int n / 25"
    by simp
  have def: "calculate_points_withdrawal default_config n =
      (let g = dec_round (of_int n / 10); fee = dec_round (g * dec_round (1 / 5))
       in \<lparr>br_amount = n, br_gross = g, br_fee = fee, br_net = dec_round (g - fee)\<rparr>)"
    by (simp add: calculate_points_withdrawal_def net_of_fee_def points_to_birr_def dec_div_def
        dec_mult_def dec_sub_def Let_def default_config_def default_withdrawal_settings_def)
  have fee: "dec_round (of_int n / 10 * (1 / 5)) = of_int n / 50"
    unfolding times_divide_times_eq using f by simp
  show "br_gross (calculate_points_withdrawal default_config n) = of_int n / 10"
    and "br_fee (calculate_points_withdrawal default_config n) = of_int n / 50"
    and "br_net (calculate_points_withdrawal default_config n) = 2 * of_int n / 25"
    unfolding def Let_def g r fee d t by simp_all
qed

section \<open>Properties\<close>

text \<open>
  A points withdrawal never costs more than it is worth: with a fee of 0 to 100 percent, the fee
  and the net are each between zero and the gross amount, in the rounded decimal arithmetic the code
  uses, and a larger request has a gross at least as large.
\<close>
theorem points_withdrawal_bounds:
  assumes "fee_valid c" and "0 \<le> m" and "m \<le> n"
  shows "0 \<le> br_fee (calculate_points_withdrawal c n) \<and>
         br_fee (calculate_points_withdrawal c n) \<le> br_gross (calculate_points_withdrawal c n) \<and>
         0 \<le> br_net (calculate_points_withdrawal c n) \<and>
         br_net (calculate_points_withdrawal c n) \<le> br_gross (calculate_points_withdrawal c n) \<and>
         br_gross (calculate_points_withdrawal c m) \<le> br_gross (calculate_points_withdrawal c n)"
proof -
  have g: "br_gross (calculate_points_withdrawal c k) = points_to_birr c k" for k
    by (simp add: calculate_points_withdrawal_def net_of_fee_def Let_def)
  show ?thesis
    unfolding g unfolding calculate_points_withdrawal_def
    using net_of_fee_bounds [OF assms(1) points_to_birr_nonneg points_to_birr_rounded] assms(2,3)
      points_to_birr_mono [OF assms(3)] by simp
qed

theorem points_withdrawal_bounds_witness:
  "fee_valid default_config \<and>
   br_net (calculate_points_withdrawal default_config 2000) \<le>
     br_gross (calculate_points_withdrawal default_config 2000) \<and>
   br_net (calculate_points_withdrawal default_config 2000) = 160"
proof -
  have "fee_valid default_config"
    by (simp add: fee_valid_def default_config_def default_withdrawal_settings_def)
  moreover have "br_net (calculate_points_withdrawal default_config 2000) = 160"
    using default_points_withdrawal(3) [of 2000] by simp
  ultimately show ?thesis
    using points_withdrawal_bounds [of default_config 2000 2000] by simp
qed

end
