(* ===== verification/Withdrawal.thy ===== *)
theory Withdrawal
  imports Points Wallet_Config
begin

text \<open>
  Withdrawals of points to birr: \<open>WithdrawalRequest\<close> of \<open>api/models/wallet.py\<close> and the handlers
  that move it, \<open>request_withdrawal\<close>, \<open>cancel_withdrawal\<close>, \<open>admin_withdrawal_action\<close> and
  \<open>reinvest_points\<close> of \<open>api/views/wallet.py\<close> and the withdrawal path of \<open>telebirr_b2c_webhook\<close>
  (\<open>api/views/direct_debit.py\<close>).

  Every handler but \<open>request_withdrawal\<close> changes the database in one transaction that holds the
  row's lock, so it is one step here. \<open>request_withdrawal\<close> commits the pending row, calls the
  provider with no lock held, and settles the row in a second transaction: it is two steps,
  \<open>begin_withdrawal\<close> and \<open>finish_withdrawal\<close>, between which other requests may run. The answer of
  the provider is a parameter.
\<close>

section \<open>Rows\<close>

datatype withdrawal_status =
    W_pending | W_approved | W_processing | W_completed | W_rejected | W_cancelled | W_failed

definition STATUS_CHOICES :: "withdrawal_status list" where
  "STATUS_CHOICES = [W_pending, W_approved, W_processing, W_completed, W_rejected, W_cancelled]"

fun status_name :: "withdrawal_status \<Rightarrow> string" where
  "status_name W_pending = ''pending''"
| "status_name W_approved = ''approved''"
| "status_name W_processing = ''processing''"
| "status_name W_completed = ''completed''"
| "status_name W_rejected = ''rejected''"
| "status_name W_cancelled = ''cancelled''"
| "status_name W_failed = ''failed''"

definition PAYOUT_METHODS :: "string list" where
  "PAYOUT_METHODS = [''telebirr'', ''bank_transfer'', ''cbe_birr'', ''mpesa'']"

record withdrawal_request =
  w_user :: nat
  w_coin_amount :: int
  w_point_amount :: int
  w_gross :: rat
  w_fee :: rat
  w_net :: rat
  conversion_rate :: int
  payout_method :: string
  payout_account :: string
  payout_account_name :: string
  w_status :: withdrawal_status
  admin_notes :: string
  rejection_reason :: string
  payout_reference :: string
  originator_conversation_id :: string
  conversation_id :: string
  telebirr_transaction_id :: string
  w_created_at :: int
  reviewed_at :: "int option"
  reviewed_by :: "nat option"
  completed_at :: "int option"

record wallet_db = point_db +
  wallet_cfg :: wallet_config
  withdrawals :: "nat \<Rightarrow> withdrawal_request option"
  next_withdrawal :: nat

definition put_withdrawal ::
  "nat \<Rightarrow> withdrawal_request \<Rightarrow> 'a wallet_db_scheme \<Rightarrow> 'a wallet_db_scheme" where
  "put_withdrawal wid w db = db\<lparr>withdrawals := (withdrawals db)(wid \<mapsto> w)\<rparr>"

section \<open>Methods of the row\<close>

definition can_cancel :: "withdrawal_request \<Rightarrow> bool" where
  "can_cancel w \<longleftrightarrow> w_status w = W_pending"

definition refund_text :: "string \<Rightarrow> nat \<Rightarrow> message" where
  "refund_text reason wid = (''Refund for '' @ reason @ '' withdrawal #{}'', [int wid])"

definition refund_to_user ::
  "nat \<Rightarrow> withdrawal_request \<Rightarrow> string \<Rightarrow> 'a wallet_db_scheme \<Rightarrow>
   ((int \<times> int) \<times> 'a wallet_db_scheme) result" where
  "refund_to_user wid w reason db =
     bind_result
       (if w_point_amount w \<noteq> 0 then
          add_points (w_user w) (w_point_amount w) None (Some ''withdrawal_refund'')
            (refund_text reason wid) db
        else Inr db) (\<lambda>db1.
     bind_result
       (if w_coin_amount w \<noteq> 0 then
          db_of (add_earned new_balance (w_user w) (w_coin_amount w) ''refund''
                   [Kw_description (refund_text reason wid)]
                   (get_or_create_balance (w_user w) db1))
        else Inr db1) (\<lambda>db2.
     Inr ((w_point_amount w, w_coin_amount w), db2)))"

definition mark_completed ::
  "nat \<Rightarrow> string \<Rightarrow> int \<Rightarrow> withdrawal_request \<Rightarrow> withdrawal_request" where
  "mark_completed admin ref t w =
     (let w1 = w\<lparr>w_status := W_completed, completed_at := Some t, reviewed_by := Some admin\<rparr>
      in if ref \<noteq> [] then w1\<lparr>payout_reference := ref\<rparr> else w1)"

definition mark_rejected ::
  "nat \<Rightarrow> nat \<Rightarrow> string \<Rightarrow> withdrawal_request \<Rightarrow> 'a wallet_db_scheme \<Rightarrow>
   ((int \<times> int) \<times> 'a wallet_db_scheme) result" where
  "mark_rejected wid admin reason w db =
     (let w1 = w\<lparr>w_status := W_rejected, reviewed_at := Some (now db), reviewed_by := Some admin,
                 rejection_reason := reason\<rparr>
      in refund_to_user wid w1 ''rejected'' (put_withdrawal wid w1 db))"

section \<open>Requesting a withdrawal\<close>

datatype response =
    Bad_request message
  | Not_found message
  | Forbidden message
  | Ok message

record withdrawal_form =
  form_points :: "int option" \<comment> \<open>\<open>None\<close>: \<open>int(...)\<close> raised\<close>
  form_method :: string
  form_account :: string
  form_account_name :: string

text \<open>Telebirr payouts fall back to the number on the profile.\<close>

definition resolve_account :: "withdrawal_form \<Rightarrow> user_profile \<Rightarrow> string" where
  "resolve_account f p =
     (let account = strip (form_account f)
      in if form_method f = ''telebirr'' \<and> account = [] then
           (case phone_number p of None \<Rightarrow> account | Some ph \<Rightarrow> ph)
         else account)"

text \<open>The checks before anything is written, in the order the handler makes them.\<close>

definition check_withdrawal ::
  "wallet_config \<Rightarrow> user_profile \<Rightarrow> withdrawal_form \<Rightarrow> message option" where
  "check_withdrawal c p f =
     (let cfg = cfg_withdrawal_settings c
      in if \<not> withdrawal_enabled cfg then Some (''Withdrawals are currently disabled'', [])
         else case form_points f of
           None \<Rightarrow> Some (''Invalid point_amount'', [])
         | Some n \<Rightarrow>
             if n < withdrawal_min_points cfg then
               Some (''Minimum withdrawal is {} points'', [withdrawal_min_points cfg])
             else if n > withdrawal_max_points_per_request cfg then
               Some (''Maximum per request is {} points'', [withdrawal_max_points_per_request cfg])
             else if form_method f \<notin> set PAYOUT_METHODS then Some (''Invalid payout method'', [])
             else if resolve_account f p = [] then
               Some (''payout_account is required (phone or bank account number)'', [])
             else if points p < n then
               Some (''Insufficient points. You have {} points.'', [points p])
             else None)"

definition new_withdrawal ::
  "nat \<Rightarrow> int \<Rightarrow> wallet_config \<Rightarrow> string \<Rightarrow> string \<Rightarrow> string \<Rightarrow> int \<Rightarrow> withdrawal_request" where
  "new_withdrawal uid n c pm account name t =
     (let b = calculate_points_withdrawal c n
      in \<lparr>w_user = uid, w_coin_amount = 0, w_point_amount = n, w_gross = br_gross b,
          w_fee = br_fee b, w_net = br_net b,
          conversion_rate = points_per_birr (cfg_withdrawal_settings c),
          payout_method = pm, payout_account = account, payout_account_name = name,
          w_status = W_pending, admin_notes = [], rejection_reason = [], payout_reference = [],
          originator_conversation_id = [], conversation_id = [], telebirr_transaction_id = [],
          w_created_at = t, reviewed_at = None, reviewed_by = None, completed_at = None\<rparr>)"

text \<open>
  The first transaction: the checks, the deduction and the row. The result is a refusal (an error
  response, nothing written) or the id of the pending row.
\<close>

definition begin_withdrawal ::
  "nat \<Rightarrow> withdrawal_form \<Rightarrow> 'a wallet_db_scheme \<Rightarrow> ((response + nat) \<times> 'a wallet_db_scheme) result"
  where
  "begin_withdrawal uid f db =
     bind_result (of_option DoesNotExist (profiles db uid)) (\<lambda>p.
     case check_withdrawal (wallet_cfg db) p f of
       Some msg \<Rightarrow> Inr (Inl (Bad_request msg), db)
     | None \<Rightarrow>
         (let n = the (form_points f);
              account = resolve_account f p;
              name = strip (form_account_name f);
              wid = next_withdrawal db
          in case deduct_points uid n (Some P_points_withdrawn_total) (Some ''withdrawal'') ([], []) db of
               Inl (ValueError msg) \<Rightarrow> Inr (Inl (Bad_request msg), db)
             | Inl e \<Rightarrow> Inl e
             | Inr db1 \<Rightarrow>
                 if length account \<le> 100 \<and> length name \<le> 200 then
                   Inr (Inr wid,
                        (put_withdrawal wid
                          (new_withdrawal uid n (wallet_cfg db) (form_method f) account name (now db))
                          db1)\<lparr>next_withdrawal := Suc wid\<rparr>)
                 else Inl DataError))"

text \<open>The number the payout is addressed to.\<close>

definition receiver_msisdn :: "string \<Rightarrow> string" where
  "receiver_msisdn account =
     (if startswith ''251'' account then account else ''251'' @ lstrip_char (CHR ''0'') account)"

record b2c_result =
  b2c_success :: bool
  b2c_originator :: "string option"
  b2c_conversation :: "string option"
  b2c_error :: "string option"

definition or_empty :: "string option \<Rightarrow> string" where
  "or_empty s = (case s of None \<Rightarrow> [] | Some t \<Rightarrow> t)"

definition originator_taken :: "nat \<Rightarrow> string \<Rightarrow> 'a wallet_db_scheme \<Rightarrow> bool" where
  "originator_taken wid oid db \<longleftrightarrow>
     oid \<noteq> [] \<and>
     list_ex (\<lambda>i. i \<noteq> wid \<and>
        (case withdrawals db i of None \<Rightarrow> False | Some w \<Rightarrow> originator_conversation_id w = oid))
       [0..<next_withdrawal db]"

text \<open>How a payout that did not go through marks the row.\<close>

definition failed_row :: "string \<Rightarrow> withdrawal_request \<Rightarrow> withdrawal_request" where
  "failed_row err w =
     w\<lparr>w_status := W_failed, rejection_reason := ''B2C payment failed: '' @ err\<rparr>"

text \<open>The second transaction, with the provider's answer.\<close>

definition finish_withdrawal ::
  "nat \<Rightarrow> b2c_result \<Rightarrow> 'a wallet_db_scheme \<Rightarrow> 'a wallet_db_scheme result" where
  "finish_withdrawal wid r db =
     bind_result (of_option DoesNotExist (withdrawals db wid)) (\<lambda>w.
     if b2c_success r then
       (let w1 = w\<lparr>originator_conversation_id := or_empty (b2c_originator r),
                   conversation_id := or_empty (b2c_conversation r), w_status := W_processing\<rparr>
        in if originator_taken wid (originator_conversation_id w1) db
           then Inl (IntegrityError ''uniq_withdrawal_originator_conversation_id'')
           else Inr (put_withdrawal wid w1 db))
     else if w_status w = W_pending then
       (let w1 = failed_row (case b2c_error r of None \<Rightarrow> ''Unknown error'' | Some e \<Rightarrow> e) w
        in bind_result (refund_to_user wid w1 ''failed'' (put_withdrawal wid w1 db)) (\<lambda>(_, db1). Inr db1))
     else Inr db)"

text \<open>
  The whole handler when nothing runs in between. \<open>initiate_b2c_payment\<close> is the provider client:
  it gets the receiver and the net amount and answers with a result.
\<close>

definition request_withdrawal ::
  "(string \<Rightarrow> rat \<Rightarrow> b2c_result) \<Rightarrow> nat \<Rightarrow> withdrawal_form \<Rightarrow> 'a wallet_db_scheme \<Rightarrow>
   (response \<times> 'a wallet_db_scheme) result" where
  "request_withdrawal initiate_b2c_payment uid f db =
     bind_result (begin_withdrawal uid f db) (\<lambda>(r, db1).
     case r of
       Inl resp \<Rightarrow> Inr (resp, db1)
     | Inr wid \<Rightarrow>
         bind_result (of_option DoesNotExist (withdrawals db1 wid)) (\<lambda>w.
         if payout_method w = ''telebirr'' then
           (let res = initiate_b2c_payment (receiver_msisdn (payout_account w)) (w_net w)
            in bind_result (finish_withdrawal wid res db1) (\<lambda>db2.
               Inr (if b2c_success res then Ok (''Withdrawal request submitted successfully'', [])
                    else Bad_request (''B2C payment initiation failed'', []), db2)))
         else Inr (Ok (''Withdrawal request submitted successfully'', []), db1)))"

section \<open>Cancelling, reviewing, and the provider's callback\<close>

definition cancel_withdrawal ::
  "nat \<Rightarrow> nat \<Rightarrow> 'a wallet_db_scheme \<Rightarrow> (response \<times> 'a wallet_db_scheme) result" where
  "cancel_withdrawal uid wid db =
     (case withdrawals db wid of
        None \<Rightarrow> Inr (Not_found (''Withdrawal request not found'', []), db)
      | Some w \<Rightarrow>
          if w_user w \<noteq> uid then Inr (Not_found (''Withdrawal request not found'', []), db)
          else if \<not> can_cancel w then Inr (Bad_request (''Cannot cancel a '' @ status_name (w_status w) @ '' withdrawal'', []), db)
          else
            (let w1 = w\<lparr>w_status := W_cancelled\<rparr>
             in bind_result (refund_to_user wid w1 ''cancelled'' (put_withdrawal wid w1 db)) (\<lambda>(_, db1).
                Inr (Ok (''Withdrawal cancelled and your balance returned'', []),
                     get_or_create_balance uid db1))))"

datatype admin_action = A_approve | A_reject | A_mark_processing | A_mark_completed

definition parse_action :: "string \<Rightarrow> admin_action option" where
  "parse_action s =
     map_of [(''approve'', A_approve), (''reject'', A_reject),
             (''mark_processing'', A_mark_processing), (''mark_completed'', A_mark_completed)]
       (lower s)"

definition with_notes :: "string \<Rightarrow> withdrawal_request \<Rightarrow> withdrawal_request" where
  "with_notes notes w = (if notes \<noteq> [] then w\<lparr>admin_notes := notes\<rparr> else w)"

definition admin_withdrawal_action ::
  "nat \<Rightarrow> nat \<Rightarrow> string \<Rightarrow> string \<Rightarrow> string \<Rightarrow> 'a wallet_db_scheme \<Rightarrow>
   (response \<times> 'a wallet_db_scheme) result" where
  "admin_withdrawal_action admin wid action notes ref db =
     (case parse_action action of
        None \<Rightarrow> Inr (Bad_request (''Invalid action'', []), db)
      | Some a \<Rightarrow>
          (case withdrawals db wid of
             None \<Rightarrow> Inr (Not_found (''Withdrawal not found'', []), db)
           | Some w \<Rightarrow>
               (case a of
                  A_approve \<Rightarrow>
                    if w_status w \<noteq> W_pending
                    then Inr (Bad_request (''Cannot approve a '' @ status_name (w_status w) @ '' withdrawal'', []), db)
                    else Inr (Ok (''Withdrawal '' @ lower action @ '' successful'', []),
                              put_withdrawal wid
                                (with_notes notes (w\<lparr>w_status := W_approved, reviewed_at := Some (now db),
                                               reviewed_by := Some admin\<rparr>)) db)
                | A_reject \<Rightarrow>
                    if w_status w \<notin> {W_pending, W_approved}
                    then Inr (Bad_request (''Cannot reject a '' @ status_name (w_status w) @ '' withdrawal'', []), db)
                    else bind_result (mark_rejected wid admin notes w db) (\<lambda>(_, db1).
                         Inr (Ok (''Withdrawal '' @ lower action @ '' successful'', []), db1))
                | A_mark_processing \<Rightarrow>
                    if w_status w \<noteq> W_approved
                    then Inr (Bad_request (''Must be approved before processing'', []), db)
                    else Inr (Ok (''Withdrawal '' @ lower action @ '' successful'', []),
                              put_withdrawal wid (with_notes notes (w\<lparr>w_status := W_processing\<rparr>)) db)
                | A_mark_completed \<Rightarrow>
                    if w_status w \<notin> {W_approved, W_processing}
                    then Inr (Bad_request (''Must be approved/processing first'', []), db)
                    else if ref = [] then Inr (Bad_request (''payout_reference is required'', []), db)
                    else Inr (Ok (''Withdrawal '' @ lower action @ '' successful'', []),
                              put_withdrawal wid (with_notes notes (mark_completed admin ref (now db) w)) db))))"

record soap_result =
  soap_originator :: "string option"
  soap_code :: "string option"
  soap_type :: "string option"
  soap_desc :: "string option"
  soap_transaction :: "string option"

definition b2c_is_success :: "soap_result \<Rightarrow> bool" where
  "b2c_is_success s \<longleftrightarrow> soap_code s = Some ''0'' \<and> (soap_type s = Some ''0'' \<or> soap_type s = None)"

definition find_by_originator :: "string \<Rightarrow> 'a wallet_db_scheme \<Rightarrow> nat option" where
  "find_by_originator oid db =
     find (\<lambda>i. case withdrawals db i of None \<Rightarrow> False | Some w \<Rightarrow> originator_conversation_id w = oid)
       (rev [0..<next_withdrawal db])"

text \<open>
  The third correlation path of the webhook: no \<open>B2CPaymentTransaction\<close> and no winner gift carries
  the conversation id.
\<close>

definition b2c_webhook_withdrawal ::
  "soap_result \<Rightarrow> 'a wallet_db_scheme \<Rightarrow> 'a wallet_db_scheme result" where
  "b2c_webhook_withdrawal s db =
     (if or_empty (soap_originator s) = [] then Inr db
      else case find_by_originator (or_empty (soap_originator s)) db of
        None \<Rightarrow> Inr db
      | Some wid \<Rightarrow>
          bind_result (of_option DoesNotExist (withdrawals db wid)) (\<lambda>w.
          if w_status w \<noteq> W_processing then Inr db
          else if b2c_is_success s then
            Inr (put_withdrawal wid
                   (w\<lparr>w_status := W_completed, completed_at := Some (now db),
                      payout_reference := or_empty (soap_transaction s),
                      telebirr_transaction_id := or_empty (soap_transaction s)\<rparr>) db)
          else
            (let w1 = (failed_row
                         (if or_empty (soap_desc s) \<noteq> [] then or_empty (soap_desc s)
                          else ''ResultCode='' @ or_empty (soap_code s)) w)
                       \<lparr>telebirr_transaction_id :=
                          (if or_empty (soap_transaction s) \<noteq> [] then or_empty (soap_transaction s)
                           else telebirr_transaction_id w)\<rparr>
             in bind_result (refund_to_user wid w1 ''failed'' (put_withdrawal wid w1 db)) (\<lambda>(_, db1).
                Inr db1))))"

section \<open>Points back to coins\<close>

definition reinvest_points ::
  "nat \<Rightarrow> int option \<Rightarrow> 'a wallet_db_scheme \<Rightarrow> (response \<times> 'a wallet_db_scheme) result" where
  "reinvest_points uid amount db =
     (case amount of
        None \<Rightarrow> Inr (Bad_request (''Invalid points amount'', []), db)
      | Some n \<Rightarrow>
          if n < 1 then Inr (Bad_request (''Minimum 1 point required'', []), db)
          else bind_result (of_option DoesNotExist (profiles db uid)) (\<lambda>p.
            if points p < n then
              Inr (Bad_request (''Insufficient points. You have {} points.'', [points p]), db)
            else
              (let db0 = get_or_create_balance uid db
               in case bind_result (deduct_points uid n None (Some ''swap'') ([], []) db0) (\<lambda>db1.
                       db_of (add_earned new_balance uid n ''reinvest''
                         [Kw_description (''Converted {} points to coins'', [n])] db1)) of
                    Inl (ValueError msg) \<Rightarrow> Inr (Bad_request msg, db0)
                  | Inl e \<Rightarrow> Inl e
                  | Inr db2 \<Rightarrow> Inr (Ok (''Successfully converted points to coins'', []), db2))))"

definition admin_adjust_balance ::
  "nat \<Rightarrow> int \<Rightarrow> string \<Rightarrow> message \<Rightarrow> 'a wallet_db_scheme \<Rightarrow> (response \<times> 'a wallet_db_scheme) result"
  where
  "admin_adjust_balance uid amount bucket reason db =
     (if bucket \<notin> {''earned'', ''purchased'', ''points''} then
        Inr (Bad_request (''bucket must be earned, purchased, or points'', []), db)
      else if profiles db uid = None then Inr (Not_found (''User not found'', []), db)
      else if bucket = ''points'' then
        (case (if amount \<ge> 0 then
                 add_points uid amount (Some P_points_earned_total) (Some ''admin_adjustment'') ([], []) db
               else
                 deduct_points uid \<bar>amount\<bar> (Some P_points_withdrawn_total)
                   (Some ''admin_adjustment'') ([], []) db) of
           Inl (ValueError msg) \<Rightarrow> Inr (Bad_request msg, db)
         | Inl e \<Rightarrow> Inl e
         | Inr db1 \<Rightarrow> Inr (Ok (''Adjusted points by {}'', [amount]), db1))
      else
        (let db0 = get_or_create_balance uid db
         in case db_of (if amount \<ge> 0 then
                   (if bucket = ''earned''
                    then add_earned new_balance uid amount ''admin_adjustment'' [Kw_description reason] db0
                    else add_purchased new_balance uid amount ''admin_adjustment'' ''telebirr''
                           [Kw_description reason] db0)
                 else deduct_from_bucket new_balance uid bucket \<bar>amount\<bar> ''admin_adjustment''
                        [Kw_description reason] db0) of
              Inl (ValueError msg) \<Rightarrow> Inr (Bad_request msg, db0)
            | Inl e \<Rightarrow> Inl e
            | Inr db1 \<Rightarrow> Inr (Ok (''Adjusted balance by {}'', [amount]), db1)))"

section \<open>Steps of the withdrawal system\<close>

datatype withdrawal_event =
    Begin nat withdrawal_form
  | Finish nat b2c_result
  | Cancel nat nat
  | Admin nat nat string string string
  | Webhook soap_result

definition drop_response :: "('r \<times> 's) result \<Rightarrow> 's result" where
  "drop_response r = bind_result r (\<lambda>(_, db). Inr db)"

fun exec_withdrawal :: "withdrawal_event \<Rightarrow> 'a wallet_db_scheme \<Rightarrow> 'a wallet_db_scheme result" where
  "exec_withdrawal (Begin uid f) db = drop_response (begin_withdrawal uid f db)"
| "exec_withdrawal (Finish wid r) db = finish_withdrawal wid r db"
| "exec_withdrawal (Cancel uid wid) db = drop_response (cancel_withdrawal uid wid db)"
| "exec_withdrawal (Admin admin wid action notes ref) db =
     drop_response (admin_withdrawal_action admin wid action notes ref db)"
| "exec_withdrawal (Webhook s) db = b2c_webhook_withdrawal s db"

lemma drop_response_Inr: "drop_response r = Inr db \<longleftrightarrow> (\<exists>x. r = Inr (x, db))"
  by (auto simp: drop_response_def bind_result_Inr_iff)

text \<open>The table is filled from 0 upwards and never holds a negative amount.\<close>

definition withdrawals_inv :: "'a wallet_db_scheme \<Rightarrow> bool" where
  "withdrawals_inv db \<longleftrightarrow>
     (\<forall>i w. withdrawals db i = Some w \<longrightarrow> i < next_withdrawal db \<and> 0 \<le> w_point_amount w)"

text \<open>A row in one of these states has taken its points and not given them back.\<close>

definition holds_points :: "withdrawal_status \<Rightarrow> bool" where
  "holds_points st \<longleftrightarrow> st \<in> {W_pending, W_approved, W_processing, W_completed}"

definition held_row :: "withdrawal_request option \<Rightarrow> nat \<Rightarrow> int" where
  "held_row r u =
     (case r of None \<Rightarrow> 0
      | Some w \<Rightarrow> if w_user w = u \<and> holds_points (w_status w) then w_point_amount w else 0)"

definition held :: "'a wallet_db_scheme \<Rightarrow> nat \<Rightarrow> int" where
  "held db u = sum_list (map (\<lambda>i. held_row (withdrawals db i) u) [0..<next_withdrawal db])"

text \<open>What a user is owed in points, in hand or tied up in withdrawals.\<close>

definition claim :: "'a wallet_db_scheme \<Rightarrow> nat \<Rightarrow> int" where
  "claim db u = points_of db u + held db u"

lemma held_row_simps [simp]: "held_row None u = 0"
  by (simp add: held_row_def)

lemma sum_list_fun_upd:
  "i < n \<Longrightarrow> sum_list (map (\<lambda>j. g ((f(i := v)) j)) [0..<n]) =
     sum_list (map (\<lambda>j. g (f j)) [0..<n]) - g (f i) + (g v :: int)"
proof (induction n)
  case 0
  then show ?case by simp
next
  case (Suc n)
  show ?case
  proof (cases "i = n")
    case True
    have "sum_list (map (\<lambda>j. g (if j = n then v else f j)) [0..<n]) = sum_list (map (\<lambda>j. g (f j)) [0..<n])"
      by (intro arg_cong [where f = sum_list] map_cong) auto
    with True show ?thesis by simp
  next
    case False
    with Suc show ?thesis by simp
  qed
qed

lemma put_withdrawal_simps [simp]:
  "withdrawals (put_withdrawal i w db) = (withdrawals db)(i \<mapsto> w)"
  "next_withdrawal (put_withdrawal i w db) = next_withdrawal db"
  "profiles (put_withdrawal i w db) = profiles db"
  "point_ledger (put_withdrawal i w db) = point_ledger db"
  "balances (put_withdrawal i w db) = balances db"
  "points_of (put_withdrawal i w db) u = points_of db u"
  by (simp_all add: put_withdrawal_def points_of_def)

lemma held_put:
  assumes "withdrawals_inv db" and "withdrawals db i = Some w"
  shows "held (put_withdrawal i w1 db) u = held db u - held_row (Some w) u + held_row (Some w1) u"
proof -
  have "i < next_withdrawal db" using assms by (auto simp: withdrawals_inv_def)
  then have "sum_list (map (\<lambda>j. held_row (((withdrawals db)(i := Some w1)) j) u) [0..<next_withdrawal db]) =
      sum_list (map (\<lambda>j. held_row (withdrawals db j) u) [0..<next_withdrawal db])
      - held_row (withdrawals db i) u + held_row (Some w1) u"
    by (rule sum_list_fun_upd)
  then show ?thesis by (simp add: held_def assms(2))
qed

lemma held_cong:
  "withdrawals db' = withdrawals db \<Longrightarrow> next_withdrawal db' = next_withdrawal db \<Longrightarrow> held db' u = held db u"
  by (simp add: held_def)

section \<open>What a refund does\<close>

lemma get_or_create_balance_frame [simp]:
  "withdrawals (get_or_create_balance u db) = withdrawals db"
  "next_withdrawal (get_or_create_balance u db) = next_withdrawal db"
  "profiles (get_or_create_balance u db) = profiles db"
  "point_ledger (get_or_create_balance u db) = point_ledger db"
  "points_of (get_or_create_balance u db) v = points_of db v"
  by (simp_all add: get_or_create_balance_def points_of_def split: option.splits)

lemma apply_delta_frame:
  "apply_delta uid f d t reason desc db = Inr db' \<Longrightarrow>
   withdrawals db' = withdrawals db \<and> next_withdrawal db' = next_withdrawal db"
  by (auto simp: apply_delta_def bind_result_Inr_iff Let_def split: if_splits)

lemma add_earned_frame:
  assumes "db_of (add_earned self u n ty ks db) = Inr db'"
  shows "withdrawals db' = withdrawals db" and "next_withdrawal db' = next_withdrawal db"
    and "profiles db' = profiles db" and "point_ledger db' = point_ledger db"
  using assms add_earned_steps [of u n self ty ks db]
  by (auto simp: db_of_Inr steps_def moves_def)

lemma refund_to_user_Inr:
  assumes "refund_to_user wid w reason db = Inr (r, db')"
  shows "withdrawals db' = withdrawals db" and "next_withdrawal db' = next_withdrawal db"
    and "points_of db' u = points_of db u + (if u = w_user w then w_point_amount w else 0)"
    and "r = (w_point_amount w, w_coin_amount w)"
proof -
  from assms obtain db1 where
    pts: "(if w_point_amount w \<noteq> 0 then
             add_points (w_user w) (w_point_amount w) None (Some ''withdrawal_refund'')
               (refund_text reason wid) db else Inr db) = Inr db1"
    and cns: "(if w_coin_amount w \<noteq> 0 then
             db_of (add_earned new_balance (w_user w) (w_coin_amount w) ''refund''
               [Kw_description (refund_text reason wid)] (get_or_create_balance (w_user w) db1))
             else Inr db1) = Inr db'"
    and r: "r = (w_point_amount w, w_coin_amount w)"
    unfolding refund_to_user_def bind_result_Inr_iff by auto
  have 1: "withdrawals db1 = withdrawals db" "next_withdrawal db1 = next_withdrawal db"
    "points_of db1 u = points_of db u + (if u = w_user w then w_point_amount w else 0)"
    using pts
    by (auto simp: add_points_def apply_delta_points dest: apply_delta_frame split: if_splits)
  have 2: "withdrawals db' = withdrawals db1" "next_withdrawal db' = next_withdrawal db1"
    "points_of db' u = points_of db1 u"
    using cns by (auto dest: add_earned_frame simp: points_of_def split: if_splits)
  from 1 2 r show "withdrawals db' = withdrawals db" and "next_withdrawal db' = next_withdrawal db"
    and "points_of db' u = points_of db u + (if u = w_user w then w_point_amount w else 0)"
    and "r = (w_point_amount w, w_coin_amount w)"
    by simp_all
qed

lemma failed_row_simps [simp]:
  "w_status (failed_row e w) = W_failed"
  "w_user (failed_row e w) = w_user w"
  "w_point_amount (failed_row e w) = w_point_amount w"
  "w_coin_amount (failed_row e w) = w_coin_amount w"
  by (simp_all add: failed_row_def)

section \<open>Points are conserved\<close>

text \<open>
  A successful answer of the provider is in time if the row is still pending when the second
  transaction runs: nobody cancelled, rejected or reviewed it in the meantime.
\<close>

fun in_time :: "withdrawal_event \<Rightarrow> 'a wallet_db_scheme \<Rightarrow> bool" where
  "in_time (Finish wid r) db =
     (b2c_success r \<longrightarrow> (case withdrawals db wid of None \<Rightarrow> True | Some w \<Rightarrow> w_status w = W_pending))"
| "in_time _ db = True"

text \<open>A refund that moves the row out of a holding state keeps what the user is owed.\<close>

lemma refund_claim:
  assumes inv: "withdrawals_inv db" and w: "withdrawals db wid = Some w" and hold: "holds_points (w_status w)"
    and w1: "w_user w1 = w_user w" "w_point_amount w1 = w_point_amount w" "\<not> holds_points (w_status w1)"
    and ref: "refund_to_user wid w1 reason (put_withdrawal wid w1 db) = Inr (r, db')"
  shows "claim db' u = claim db u"
proof -
  have "held db' u = held (put_withdrawal wid w1 db) u"
    using refund_to_user_Inr(1,2) [OF ref] by (rule held_cong)
  then show ?thesis
    using refund_to_user_Inr(3) [OF ref, of u] held_put [OF inv w, of w1 u] hold w1
    by (simp add: claim_def held_row_def)
qed

lemma put_claim:
  assumes inv: "withdrawals_inv db" and w: "withdrawals db wid = Some w"
    and w1: "w_user w1 = w_user w" "w_point_amount w1 = w_point_amount w"
      "holds_points (w_status w1) = holds_points (w_status w)"
  shows "claim (put_withdrawal wid w1 db) u = claim db u"
  using held_put [OF inv w, of w1 u] w1 by (simp add: claim_def held_row_def)

text \<open>The first transaction writes nothing, or takes the points and files one pending row.\<close>

lemma begin_withdrawal_cases:
  assumes beg: "begin_withdrawal uid f db = Inr (r, db')"
  obtains (refused) resp where "r = Inl resp" "db' = db"
  | (filed) n account name db1 where "r = Inr (next_withdrawal db)" "form_points f = Some n"
      "apply_delta uid P_points (- n) (Some P_points_withdrawn_total) (Some ''withdrawal'') ([], []) db
         = Inr db1"
      "0 < n"
      "db' = (put_withdrawal (next_withdrawal db)
           (new_withdrawal uid n (wallet_cfg db) (form_method f) account name (now db)) db1)
           \<lparr>next_withdrawal := Suc (next_withdrawal db)\<rparr>"
proof -
  obtain p where p: "profiles db uid = Some p"
    using beg by (auto simp: begin_withdrawal_def bind_result_Inr_iff)
  show thesis
  proof (cases "check_withdrawal (wallet_cfg db) p f")
    case (Some m)
    with beg p show thesis by (intro refused) (auto simp: begin_withdrawal_def)
  next
    case None
    then obtain n where n: "form_points f = Some n"
      by (auto simp: check_withdrawal_def Let_def split: if_splits option.splits)
    have run: "(case deduct_points uid n (Some P_points_withdrawn_total) (Some ''withdrawal'') ([], []) db of
               Inl (ValueError msg) \<Rightarrow> Inr (Inl (Bad_request msg), db)
             | Inl e \<Rightarrow> Inl e
             | Inr db1 \<Rightarrow>
                 if length (resolve_account f p) \<le> 100 \<and> length (strip (form_account_name f)) \<le> 200 then
                   Inr (Inr (next_withdrawal db),
                        (put_withdrawal (next_withdrawal db)
                          (new_withdrawal uid n (wallet_cfg db) (form_method f) (resolve_account f p)
                            (strip (form_account_name f)) (now db))
                          db1)\<lparr>next_withdrawal := Suc (next_withdrawal db)\<rparr>)
                 else Inl DataError) = Inr (r, db')"
      using beg p None n by (simp add: begin_withdrawal_def Let_def)
    show thesis
    proof (cases "deduct_points uid n (Some P_points_withdrawn_total) (Some ''withdrawal'') ([], []) db")
      case (Inl e)
      with run show thesis by (cases e) (auto intro: refused)
    next
      case (Inr db1)
      with run n show thesis
        by (intro filed) (auto simp: deduct_points_def split: if_splits)
    qed
  qed
qed

lemma begin_claim:
  assumes inv: "withdrawals_inv db" and beg: "begin_withdrawal uid f db = Inr (r, db')"
  shows "claim db' u = claim db u"
  using beg
proof (cases rule: begin_withdrawal_cases)
  case refused
  then show ?thesis by simp
next
  case (filed n account name db1)
  let ?w = "new_withdrawal uid n (wallet_cfg db) (form_method f) account name (now db)"
  have pts: "points_of db' u = points_of db u - (if u = uid then n else 0)"
    using apply_delta_points(1) [OF filed(3), of u] filed(5) by (auto simp: points_of_def put_withdrawal_def)
  have wd: "withdrawals db' = (withdrawals db)(next_withdrawal db := Some ?w)"
    "next_withdrawal db' = Suc (next_withdrawal db)"
    using apply_delta_frame [OF filed(3)] filed(5) by simp_all
  have "held db' u = held db u + held_row (Some ?w) u"
    unfolding held_def wd by (simp cong: map_cong) (intro arg_cong [where f = sum_list] map_cong; simp)
  then show ?thesis
    using pts by (simp add: claim_def held_row_def new_withdrawal_def Let_def holds_points_def)
qed

lemmas status_defs = holds_points_def with_notes_def mark_completed_def Let_def

lemma finish_claim:
  assumes inv: "withdrawals_inv db" and fin: "finish_withdrawal wid r db = Inr db'"
    and tm: "in_time (Finish wid r) db"
  shows "claim db' u = claim db u"
proof -
  obtain w where w: "withdrawals db wid = Some w"
    using fin by (auto simp: finish_withdrawal_def bind_result_Inr_iff)
  show ?thesis
  proof (cases "b2c_success r")
    case True
    with fin w tm show ?thesis
      by (auto simp: finish_withdrawal_def Let_def status_defs split: if_splits
          intro!: put_claim [OF inv w])
  next
    case False
    show ?thesis
    proof (cases "w_status w = W_pending")
      case True
      with False fin w obtain x e where
        "refund_to_user wid (failed_row e w) ''failed'' (put_withdrawal wid (failed_row e w) db) = Inr (x, db')"
        by (auto simp: finish_withdrawal_def Let_def bind_result_Inr_iff)
      then show ?thesis using True by (intro refund_claim [OF inv w]) (auto simp: holds_points_def)
    next
      case other: False
      with False fin w show ?thesis by (simp add: finish_withdrawal_def)
    qed
  qed
qed

lemma claim_get_or_create [simp]: "claim (get_or_create_balance v db) u = claim db u"
  by (simp add: claim_def held_def)

lemma cancel_claim:
  assumes inv: "withdrawals_inv db" and can: "cancel_withdrawal uid wid db = Inr (resp, db')"
  shows "claim db' u = claim db u"
proof (cases "withdrawals db wid")
  case None
  with can show ?thesis by (simp add: cancel_withdrawal_def)
next
  case (Some w)
  show ?thesis
  proof (cases "w_user w = uid \<and> can_cancel w")
    case True
    with can Some obtain x db1 where
      ref: "refund_to_user wid (w\<lparr>w_status := W_cancelled\<rparr>) ''cancelled''
         (put_withdrawal wid (w\<lparr>w_status := W_cancelled\<rparr>) db) = Inr (x, db1)"
      and db': "db' = get_or_create_balance uid db1"
      by (auto simp: cancel_withdrawal_def Let_def bind_result_Inr_iff)
    have "claim db1 u = claim db u"
      using True by (intro refund_claim [OF inv Some _ _ _ _ ref]) (auto simp: holds_points_def can_cancel_def)
    with db' show ?thesis by simp
  next
    case False
    with can Some show ?thesis by (auto simp: cancel_withdrawal_def split: if_splits)
  qed
qed

lemma admin_claim:
  assumes inv: "withdrawals_inv db"
    and adm: "admin_withdrawal_action admin wid action notes ref db = Inr (resp, db')"
  shows "claim db' u = claim db u"
proof (cases "withdrawals db wid")
  case None
  with adm show ?thesis by (auto simp: admin_withdrawal_action_def split: option.splits)
next
  case (Some w)
  show ?thesis
  proof (cases "parse_action action")
    case None
    with adm show ?thesis by (simp add: admin_withdrawal_action_def)
  next
    case (Some a)
    note act = this and w = \<open>withdrawals db wid = Some w\<close>
    show ?thesis
    proof (cases "a = A_reject \<and> w_status w \<in> {W_pending, W_approved}")
      case True
      with adm act w obtain x where "mark_rejected wid admin notes w db = Inr (x, db')"
        by (auto simp: admin_withdrawal_action_def bind_result_Inr_iff)
      then show ?thesis
        unfolding mark_rejected_def Let_def using True
        by (intro refund_claim [OF inv w]) (auto simp: holds_points_def)
    next
      case False
      with adm act w show ?thesis
        by (cases a) (auto simp: admin_withdrawal_action_def status_defs split: if_splits
            intro!: put_claim [OF inv w])
    qed
  qed
qed

lemma webhook_claim:
  assumes inv: "withdrawals_inv db" and wh: "b2c_webhook_withdrawal s db = Inr db'"
  shows "claim db' u = claim db u"
proof (cases "or_empty (soap_originator s) = [] \<or> find_by_originator (or_empty (soap_originator s)) db = None")
  case True
  with wh show ?thesis by (auto simp: b2c_webhook_withdrawal_def split: if_splits)
next
  case False
  then obtain wid where wid: "find_by_originator (or_empty (soap_originator s)) db = Some wid" by auto
  with False wh obtain w where w: "withdrawals db wid = Some w"
    by (auto simp: b2c_webhook_withdrawal_def bind_result_Inr_iff)
  show ?thesis
  proof (cases "w_status w = W_processing \<and> \<not> b2c_is_success s")
    case True
    with False wid w wh obtain x w1 where
      "refund_to_user wid w1 ''failed'' (put_withdrawal wid w1 db) = Inr (x, db')"
      "w_user w1 = w_user w" "w_point_amount w1 = w_point_amount w" "w_status w1 = W_failed"
      by (auto simp: b2c_webhook_withdrawal_def Let_def bind_result_Inr_iff)
    then show ?thesis using True by (intro refund_claim [OF inv w]) (auto simp: holds_points_def)
  next
    case other: False
    with False wid w wh show ?thesis
      by (auto simp: b2c_webhook_withdrawal_def holds_points_def split: if_splits
          intro!: put_claim [OF inv w])
  qed
qed

lemma exec_claim:
  "withdrawals_inv db \<Longrightarrow> in_time e db \<Longrightarrow> exec_withdrawal e db = Inr db' \<Longrightarrow> claim db' u = claim db u"
  by (cases e) (auto simp: drop_response_Inr begin_claim finish_claim cancel_claim admin_claim webhook_claim)

section \<open>The status machine\<close>

text \<open>The transitions the handlers make on a row, answers of the provider in time.\<close>

inductive w_step :: "withdrawal_status \<Rightarrow> withdrawal_status \<Rightarrow> bool" where
  approve: "w_step W_pending W_approved"
| cancel: "w_step W_pending W_cancelled"
| reject: "st \<in> {W_pending, W_approved} \<Longrightarrow> w_step st W_rejected"
| start: "st \<in> {W_pending, W_approved} \<Longrightarrow> w_step st W_processing"
| pay: "st \<in> {W_approved, W_processing} \<Longrightarrow> w_step st W_completed"
| fail: "st \<in> {W_pending, W_processing} \<Longrightarrow> w_step st W_failed"

inductive_cases from_completed: "w_step W_completed st"
inductive_cases from_rejected: "w_step W_rejected st"
inductive_cases from_cancelled: "w_step W_cancelled st"
inductive_cases from_failed: "w_step W_failed st"

lemma w_step_simps [simp]:
  "w_step W_pending W_approved" "w_step W_pending W_cancelled" "w_step W_pending W_rejected"
  "w_step W_approved W_rejected" "w_step W_pending W_processing" "w_step W_approved W_processing"
  "w_step W_approved W_completed" "w_step W_processing W_completed" "w_step W_pending W_failed"
  "w_step W_processing W_failed"
  by (auto intro: w_step.intros)

definition settled :: "withdrawal_status \<Rightarrow> bool" where
  "settled st \<longleftrightarrow> st \<in> {W_completed, W_rejected, W_cancelled, W_failed}"

lemma settled_stuck: "settled st \<Longrightarrow> \<not> w_step st st'"
  by (auto simp: settled_def elim: from_completed from_rejected from_cancelled from_failed)

text \<open>
  What one event does to one row: nothing, or one transition, or (for a new id) its creation.
  Owner and amounts never change.
\<close>

definition row_step :: "withdrawal_request option \<Rightarrow> withdrawal_request option \<Rightarrow> bool" where
  "row_step r r' \<longleftrightarrow>
     (case r of
        None \<Rightarrow> (case r' of None \<Rightarrow> True
                 | Some w' \<Rightarrow> w_status w' = W_pending \<and> 0 < w_point_amount w' \<and> w_coin_amount w' = 0)
      | Some w \<Rightarrow> (case r' of None \<Rightarrow> False
                 | Some w' \<Rightarrow> w_user w' = w_user w \<and> w_point_amount w' = w_point_amount w \<and>
                     w_coin_amount w' = w_coin_amount w \<and> w_net w' = w_net w \<and>
                     (w_status w' = w_status w \<or> w_step (w_status w) (w_status w'))))"

lemma row_step_refl [simp]: "row_step r r"
  by (cases r) (auto simp: row_step_def)

lemma row_step_upd:
  "m i = Some w \<Longrightarrow> row_step (Some w) (Some w') \<Longrightarrow> row_step (m j) ((m(i \<mapsto> w')) j)"
  by auto

lemma row_step_Some:
  "w_user w' = w_user w \<Longrightarrow> w_point_amount w' = w_point_amount w \<Longrightarrow>
   w_coin_amount w' = w_coin_amount w \<Longrightarrow> w_net w' = w_net w \<Longrightarrow>
   w_status w' = w_status w \<or> w_step (w_status w) (w_status w') \<Longrightarrow> row_step (Some w) (Some w')"
  by (simp add: row_step_def)

lemma failed_row_net [simp]: "w_net (failed_row e w) = w_net w"
  by (simp add: failed_row_def)

text \<open>What a handler other than the first transaction does to the table.\<close>

definition table_step :: "'a wallet_db_scheme \<Rightarrow> 'a wallet_db_scheme \<Rightarrow> bool" where
  "table_step db db' \<longleftrightarrow>
     next_withdrawal db' = next_withdrawal db \<and>
     (withdrawals db' = withdrawals db \<or>
      (\<exists>i w w'. withdrawals db i = Some w \<and> withdrawals db' = (withdrawals db)(i \<mapsto> w') \<and>
                row_step (Some w) (Some w')))"

lemma table_step_refl [simp]: "table_step db db"
  by (simp add: table_step_def)

lemma table_step_put:
  "withdrawals db i = Some w \<Longrightarrow> row_step (Some w) (Some w') \<Longrightarrow> table_step db (put_withdrawal i w' db)"
  by (auto simp: table_step_def)

lemma table_step_refund:
  "refund_to_user wid w' reason (put_withdrawal wid w' db) = Inr (x, db') \<Longrightarrow>
   withdrawals db wid = Some w \<Longrightarrow> row_step (Some w) (Some w') \<Longrightarrow> table_step db db'"
  by (auto simp: table_step_def refund_to_user_Inr(1,2))

lemma table_step_balance [simp]: "table_step db (get_or_create_balance u db') = table_step db db'"
  by (simp add: table_step_def)

lemma table_step_row: "table_step db db' \<Longrightarrow> row_step (withdrawals db i) (withdrawals db' i)"
  by (auto simp: table_step_def)

lemma table_step_inv: "table_step db db' \<Longrightarrow> withdrawals_inv db \<Longrightarrow> withdrawals_inv db'"
  by (auto simp: table_step_def withdrawals_inv_def row_step_def split: if_splits)

lemma finish_table_step:
  assumes fin: "finish_withdrawal wid r db = Inr db'" and tm: "in_time (Finish wid r) db"
  shows "table_step db db'"
proof -
  obtain w where w: "withdrawals db wid = Some w"
    using fin by (auto simp: finish_withdrawal_def bind_result_Inr_iff)
  with fin tm show ?thesis
    by (auto simp: finish_withdrawal_def Let_def bind_result_Inr_iff split: if_splits
        intro!: row_step_Some table_step_put elim!: table_step_refund)
qed

lemma cancel_table_step:
  assumes "cancel_withdrawal uid wid db = Inr (resp, db')"
  shows "table_step db db'"
  using assms
  by (auto simp: cancel_withdrawal_def can_cancel_def Let_def bind_result_Inr_iff
      split: option.splits if_splits intro!: row_step_Some elim!: table_step_refund)

lemma admin_table_step:
  assumes adm: "admin_withdrawal_action admin wid action notes ref db = Inr (resp, db')"
  shows "table_step db db'"
proof (cases "parse_action action")
  case None
  with adm show ?thesis by (simp add: admin_withdrawal_action_def)
next
  case act: (Some a)
  show ?thesis
  proof (cases "withdrawals db wid")
    case None
    with adm act show ?thesis by (simp add: admin_withdrawal_action_def)
  next
    case (Some w)
    with adm act show ?thesis
      by (cases a) (auto simp: admin_withdrawal_action_def mark_rejected_def bind_result_Inr_iff status_defs
          split: if_splits intro!: row_step_Some table_step_put elim!: table_step_refund)
  qed
qed

lemma webhook_table_step:
  assumes wh: "b2c_webhook_withdrawal s db = Inr db'"
  shows "table_step db db'"
proof (cases "or_empty (soap_originator s) = [] \<or> find_by_originator (or_empty (soap_originator s)) db = None")
  case True
  with wh show ?thesis by (auto simp: b2c_webhook_withdrawal_def split: if_splits)
next
  case False
  then obtain wid where wid: "find_by_originator (or_empty (soap_originator s)) db = Some wid" by auto
  with False wh obtain w where w: "withdrawals db wid = Some w"
    by (auto simp: b2c_webhook_withdrawal_def bind_result_Inr_iff)
  show ?thesis
    using wh False wid w
    by (auto simp: b2c_webhook_withdrawal_def Let_def bind_result_Inr_iff
        split: if_splits intro!: row_step_Some table_step_put elim!: table_step_refund)
qed

lemma begin_next_free:
  "withdrawals_inv db \<Longrightarrow> withdrawals db (next_withdrawal db) = None"
  unfolding withdrawals_inv_def by (metis less_irrefl not_None_eq)

lemma begin_row_step:
  assumes inv: "withdrawals_inv db" and beg: "begin_withdrawal uid f db = Inr (r, db')"
  shows "row_step (withdrawals db i) (withdrawals db' i) \<and> withdrawals_inv db'"
  using beg
proof (cases rule: begin_withdrawal_cases)
  case refused
  with inv show ?thesis by simp
next
  case (filed n account name db1)
  let ?w = "new_withdrawal uid n (wallet_cfg db) (form_method f) account name (now db)"
  have wd: "withdrawals db' = (withdrawals db)(next_withdrawal db \<mapsto> ?w)"
      "next_withdrawal db' = Suc (next_withdrawal db)"
    using apply_delta_frame [OF filed(3)] filed(5) by simp_all
  have w: "w_status ?w = W_pending" "w_point_amount ?w = n" "w_coin_amount ?w = 0"
    by (simp_all add: new_withdrawal_def Let_def)
  have "row_step (withdrawals db i) (withdrawals db' i)"
    using filed(4) begin_next_free [OF inv] wd w
    by (cases "i = next_withdrawal db") (simp_all add: row_step_def)
  moreover have "withdrawals_inv db'"
    using inv filed(4) wd w by (auto simp: withdrawals_inv_def less_Suc_eq)
  ultimately show ?thesis ..
qed

lemma exec_row_step:
  assumes "withdrawals_inv db" "in_time e db" "exec_withdrawal e db = Inr db'"
  shows "row_step (withdrawals db i) (withdrawals db' i) \<and> withdrawals_inv db'"
proof (cases e)
  case Begin
  with assms show ?thesis by (auto simp: drop_response_Inr dest: begin_row_step)
next
  case Finish
  with assms have "table_step db db'" by (auto simp del: in_time.simps intro: finish_table_step)
  with assms(1) show ?thesis by (simp add: table_step_row table_step_inv)
next
  case Cancel
  with assms have "table_step db db'" by (auto simp: drop_response_Inr intro: cancel_table_step)
  with assms(1) show ?thesis by (simp add: table_step_row table_step_inv)
next
  case Admin
  with assms have "table_step db db'" by (auto simp: drop_response_Inr intro: admin_table_step)
  with assms(1) show ?thesis by (simp add: table_step_row table_step_inv)
next
  case Webhook
  with assms have "table_step db db'" by (auto intro: webhook_table_step)
  with assms(1) show ?thesis by (simp add: table_step_row table_step_inv)
qed

section \<open>Runs\<close>

text \<open>
  Any interleaving of the handlers on any number of withdrawals; a request that raises is rolled
  back and leaves no step.
\<close>

inductive wreach :: "'a wallet_db_scheme \<Rightarrow> 'a wallet_db_scheme \<Rightarrow> bool" for db where
  here: "wreach db db"
| step: "wreach db db1 \<Longrightarrow> in_time e db1 \<Longrightarrow> exec_withdrawal e db1 = Inr db2 \<Longrightarrow> wreach db db2"

lemma wreach_inv: "wreach db db' \<Longrightarrow> withdrawals_inv db \<Longrightarrow> withdrawals_inv db'"
  by (induction rule: wreach.induct) (auto dest: exec_row_step)

lemma row_step_settled:
  "row_step (Some w) r' \<Longrightarrow> settled (w_status w) \<Longrightarrow>
   \<exists>w'. r' = Some w' \<and> w_status w' = w_status w \<and> w_user w' = w_user w \<and>
        w_point_amount w' = w_point_amount w \<and> w_net w' = w_net w"
  by (auto simp: row_step_def settled_stuck split: option.splits)

fun timely :: "withdrawal_event list \<Rightarrow> 'a wallet_db_scheme \<Rightarrow> bool" where
  "timely [] db = True"
| "timely (e # es) db = (in_time e db \<and> timely es (run_requests exec_withdrawal [e] db))"

lemma timely_wreach:
  "timely es db1 \<Longrightarrow> wreach db db1 \<Longrightarrow> wreach db (run_requests exec_withdrawal es db1)"
proof (induction es arbitrary: db1)
  case (Cons e es)
  then show ?case by (cases "exec_withdrawal e db1") (auto intro: wreach.step)
qed simp

section \<open>A concrete store\<close>

definition example_profile :: user_profile where
  "example_profile = new_profile\<lparr>points := 5000, phone_number := Some ''251911223344''\<rparr>"

definition example_wallet :: wallet_db where
  "example_wallet =
     \<lparr>balances = (\<lambda>_. None), coin_ledger = [], packages = (\<lambda>_. None), now = 0,
      profiles = (\<lambda>_. None)(1 \<mapsto> example_profile), point_ledger = [],
      wallet_cfg = default_config, withdrawals = (\<lambda>_. None), next_withdrawal = 0\<rparr>"

definition example_withdrawal_form :: withdrawal_form where
  "example_withdrawal_form =
     \<lparr>form_points = Some 2000, form_method = ''telebirr'', form_account = [], form_account_name = []\<rparr>"

definition accepted :: b2c_result where
  "accepted = \<lparr>b2c_success = True, b2c_originator = Some ''oc1'', b2c_conversation = Some ''c1'', b2c_error = None\<rparr>"

definition refused_later :: soap_result where
  "refused_later = \<lparr>soap_originator = Some ''oc1'', soap_code = Some ''1'', soap_type = Some ''0'',
     soap_desc = None, soap_transaction = None\<rparr>"

section \<open>Properties\<close>





text \<open>
  The condition on the provider's acceptance is needed. The success branch of
  \<open>request_withdrawal\<close> overwrites the row's status without looking at it: a user who cancels
  while the provider call is in flight is refunded, the row becomes processing again, and a
  failure callback refunds it a second time. From 5000 points the user ends with 7000.
\<close>
theorem late_acceptance_refunds_twice:
  "let db = run_requests exec_withdrawal
              [Begin 1 example_withdrawal_form, Cancel 1 0, Finish 0 accepted, Webhook refused_later]
              example_wallet
   in points_of example_wallet 1 = 5000 \<and> points_of db 1 = 7000 \<and>
      sum_where (\<lambda>t. pt_type t = ''withdrawal_refund'') pt_points (point_ledger db) = 4000 \<and>
      sum_where (\<lambda>t. pt_type t = ''withdrawal'') pt_points (point_ledger db) = - 2000"
  by code_simp

text \<open>A number stored with its plus sign, as the profile keeps it, does not survive the prefixing.\<close>

lemma receiver_of_plus_number: "receiver_msisdn ''+251911223344'' = ''251+251911223344''"
  by code_simp

end
