(* ===== verification/Subscription.thy ===== *)
theory Subscription
  imports Withdrawal
begin

text \<open>
  Subscriptions: \<open>SubscriptionTier\<close>, \<open>SubscriptionPlan\<close> and \<open>SubscriptionPayment\<close> of
  \<open>api/models/subscription.py\<close>, the once-only transition of \<open>api/services/concurrency.py\<close>, and the
  access rules of \<open>api/services/subscription_access.py\<close>. Instants are counted in microseconds.
\<close>

section \<open>Time\<close>

definition one_hour :: int where
  "one_hour = 3600000000"

definition one_day :: int where
  "one_day = 24 * one_hour"

section \<open>Rows\<close>

record sub_tier =
  tier_name :: string
  duration_type :: string
  duration_days :: "int option"
  tier_price :: int \<comment> \<open>hundredths of a birr\<close>
  tier_bonus_coins :: int
  charge_gift_coins :: int
  price_coins :: "int option"
  onevas_code :: string
  tier_service_id :: string
  tier_product_id :: string
  tier_short_code :: string
  tier_is_active :: bool

datatype plan_status = S_pending | S_active | S_cancelled | S_expired | S_failed | S_grace_period

record subscription_plan =
  plan_user :: "nat option"
  plan_tier :: "nat option"
  plan_status :: plan_status
  plan_duration_type :: string
  start_date :: "int option"
  end_date :: "int option"
  next_renewal_date :: "int option"
  auto_renew :: bool
  plan_payment_method :: string
  free_trial_days :: int
  cancelled_at :: "int option"
  cancellation_reason :: string
  grace_started_at :: "int option"
  grace_expires_at :: "int option"
  bonus_coins_granted_at :: "int option"
  onevas_phone_number :: "string option"
  telebirr_phone_number :: "string option"
  subscription_token :: "string option"
  subscription_token_expires_at :: "int option"
  subscription_source :: string
  plan_service_id :: string \<comment> \<open>\<open>metadata['service_id']\<close>\<close>

record subscription_payment =
  pay_subscription :: nat
  pay_user :: "nat option"
  pay_transaction_id :: "string option"
  pay_amount :: int
  pay_status :: string
  pay_method :: string
  pay_phone :: "string option" \<comment> \<open>\<open>metadata['phone_number']\<close>\<close>
  period_start :: int
  period_end :: int

text \<open>Plans and payments are tables in the order of their creation.\<close>

record sub_db = wallet_db +
  tiers :: "nat \<Rightarrow> sub_tier option"
  tier_ids :: "nat list"
  plans :: "nat \<Rightarrow> subscription_plan option"
  plan_ids :: "nat list"
  payments :: "string \<Rightarrow> subscription_payment option"
  payment_ids :: "string list"
  legacy_subscriptions :: "nat \<Rightarrow> int option option" \<comment> \<open>the row's \<open>expires_at\<close>, per user\<close>

definition tier_clean :: "sub_tier \<Rightarrow> sub_tier result" where
  "tier_clean t =
     (let t1 = t\<lparr>onevas_code := upper (onevas_code t)\<rparr>;
          has_days = (duration_days t \<noteq> None \<and> duration_days t \<noteq> Some 0)
      in if duration_type t = ''ondemand'' \<and> has_days
         then Inl (ValueError (''OnDemand tier should not have duration_days'', []))
         else if duration_type t \<noteq> ''ondemand'' \<and> \<not> has_days
         then Inl (ValueError (duration_type t @ '' tier must have duration_days'', []))
         else Inr t1)"

definition put_plan :: "nat \<Rightarrow> subscription_plan \<Rightarrow> 'a sub_db_scheme \<Rightarrow> 'a sub_db_scheme" where
  "put_plan pid p db = db\<lparr>plans := (plans db)(pid \<mapsto> p)\<rparr>"

definition tier_of_plan :: "subscription_plan \<Rightarrow> 'a sub_db_scheme \<Rightarrow> sub_tier option" where
  "tier_of_plan p db = (case plan_tier p of None \<Rightarrow> None | Some t \<Rightarrow> tiers db t)"

section \<open>Methods of the plan\<close>

definition is_active :: "int \<Rightarrow> subscription_plan \<Rightarrow> bool" where
  "is_active t p \<longleftrightarrow>
     plan_status p = S_active \<and> (case end_date p of None \<Rightarrow> True | Some e \<Rightarrow> e > t)"

definition is_in_grace :: "int \<Rightarrow> subscription_plan \<Rightarrow> bool" where
  "is_in_grace t p \<longleftrightarrow>
     plan_status p = S_grace_period \<and> (case grace_expires_at p of None \<Rightarrow> False | Some g \<Rightarrow> g > t)"

definition GRACE_PERIOD_HOURS :: int where
  "GRACE_PERIOD_HOURS = 24"

definition enter_grace :: "int option \<Rightarrow> int \<Rightarrow> subscription_plan \<Rightarrow> subscription_plan" where
  "enter_grace hours t p =
     (let h = (case hours of None \<Rightarrow> GRACE_PERIOD_HOURS | Some n \<Rightarrow> if n = 0 then GRACE_PERIOD_HOURS else n)
      in p\<lparr>plan_status := S_grace_period, grace_started_at := Some t,
           grace_expires_at := Some (t + h * one_hour)\<rparr>)"

definition clear_grace :: "subscription_plan \<Rightarrow> subscription_plan" where
  "clear_grace p = p\<lparr>grace_started_at := None, grace_expires_at := None\<rparr>"

definition cancel_plan :: "string \<Rightarrow> int \<Rightarrow> subscription_plan \<Rightarrow> subscription_plan" where
  "cancel_plan reason t p =
     p\<lparr>plan_status := S_cancelled, cancelled_at := Some t, cancellation_reason := reason, auto_renew := False\<rparr>"

definition generate_subscription_token :: "string \<Rightarrow> int \<Rightarrow> int \<Rightarrow> subscription_plan \<Rightarrow> subscription_plan" where
  "generate_subscription_token token hours t p =
     p\<lparr>subscription_token := Some token, subscription_token_expires_at := Some (t + hours * one_hour)\<rparr>"

definition is_subscription_token_valid :: "string \<Rightarrow> int \<Rightarrow> subscription_plan \<Rightarrow> bool" where
  "is_subscription_token_valid token t p \<longleftrightarrow>
     (case subscription_token p of
        None \<Rightarrow> False
      | Some s \<Rightarrow> s \<noteq> [] \<and> token \<noteq> [] \<and> s = token \<and>
          (case subscription_token_expires_at p of None \<Rightarrow> True | Some e \<Rightarrow> \<not> t > e))"

text \<open>\<open>claim_transition\<close>: an \<open>UPDATE\<close> whose \<open>WHERE\<close> names the expected value; true for the caller whose
  statement matched the row.\<close>

definition claim_transition ::
  "('r \<Rightarrow> 'f) \<Rightarrow> ('r \<Rightarrow> 'r) \<Rightarrow> 'f list \<Rightarrow> 'k \<Rightarrow> ('k \<Rightarrow> 'r option) \<Rightarrow> bool \<times> ('k \<Rightarrow> 'r option)" where
  "claim_transition read upd expected k table =
     (case table k of
        None \<Rightarrow> (False, table)
      | Some r \<Rightarrow> if read r \<in> set expected then (True, table(k \<mapsto> upd r)) else (False, table))"

definition grant_bonus_coins :: "nat \<Rightarrow> 'a sub_db_scheme \<Rightarrow> 'a sub_db_scheme result" where
  "grant_bonus_coins pid db =
     bind_result (of_option DoesNotExist (plans db pid)) (\<lambda>p.
     case tier_of_plan p db of
       None \<Rightarrow> Inr db
     | Some tier \<Rightarrow>
         if tier_bonus_coins tier = 0 then Inr db
         else case plan_user p of
           None \<Rightarrow> Inr db
         | Some uid \<Rightarrow>
             (let (granted, plans') =
                claim_transition bonus_coins_granted_at (bonus_coins_granted_at_update (\<lambda>_. Some (now db)))
                  [None] pid (plans db)
              in if \<not> granted then Inr db
                 else db_of (add_bonus new_balance uid (tier_bonus_coins tier) ''subscription_bonus''
                        [Kw_description (tier_name tier @ '' subscription bonus'', [])]
                        (get_or_create_balance uid (db\<lparr>plans := plans'\<rparr>)))))"

definition clear_bonus_grant :: "nat \<Rightarrow> 'a sub_db_scheme \<Rightarrow> 'a sub_db_scheme" where
  "clear_bonus_grant pid db =
     (case plans db pid of None \<Rightarrow> db | Some p \<Rightarrow> put_plan pid (p\<lparr>bonus_coins_granted_at := None\<rparr>) db)"

definition already_running :: "int \<Rightarrow> subscription_plan \<Rightarrow> bool" where
  "already_running t p \<longleftrightarrow> plan_status p = S_active \<and> (case end_date p of None \<Rightarrow> False | Some e \<Rightarrow> e > t)"

definition started_plan :: "sub_tier option \<Rightarrow> int \<Rightarrow> subscription_plan \<Rightarrow> subscription_plan" where
  "started_plan tier t p =
     (let p1 = p\<lparr>plan_status := S_active, start_date := Some t\<rparr>
      in case tier of
           None \<Rightarrow> p1
         | Some tr \<Rightarrow>
             (case duration_days tr of
                None \<Rightarrow> p1
              | Some d \<Rightarrow>
                  if d = 0 then p1
                  else (let e = t + (d + free_trial_days p) * one_day
                        in p1\<lparr>end_date := Some e, next_renewal_date := Some e\<rparr>)))"

definition activate :: "nat \<Rightarrow> 'a sub_db_scheme \<Rightarrow> 'a sub_db_scheme result" where
  "activate pid db =
     bind_result (of_option DoesNotExist (plans db pid)) (\<lambda>p.
     let db1 = put_plan pid (started_plan (tier_of_plan p db) (now db) p) db
     in if already_running (now db) p then Inr db1 else grant_bonus_coins pid db1)"

section \<open>Access\<close>

definition plans_of :: "nat \<Rightarrow> 'a sub_db_scheme \<Rightarrow> subscription_plan list" where
  "plans_of uid db =
     filter (\<lambda>p. plan_user p = Some uid) (List.map_filter (plans db) (plan_ids db))"

definition has_active_subscription :: "nat option \<Rightarrow> 'a sub_db_scheme \<Rightarrow> bool" where
  "has_active_subscription user db =
     (case user of
        None \<Rightarrow> False
      | Some uid \<Rightarrow>
          list_ex (\<lambda>p. plan_status p = S_active \<and>
                      (case end_date p of None \<Rightarrow> True | Some e \<Rightarrow> e > now db)) (plans_of uid db) \<or>
          (case legacy_subscriptions db uid of Some (Some e) \<Rightarrow> e > now db | _ \<Rightarrow> False))"

definition SUBSCRIBER_ACTIONS :: "(string \<times> string) list" where
  "SUBSCRIBER_ACTIONS =
    [(''post'', ''An active subscription is required to post.''),
     (''video'', ''An active subscription is required to post videos.''),
     (''like'', ''An active subscription is required to like posts.''),
     (''share'', ''An active subscription is required to share posts.''),
     (''comment'', ''An active subscription is required to comment.''),
     (''campaign'', ''An active subscription is required to enter campaigns.''),
     (''gift'', ''An active subscription is required to send gifts.''),
     (''boost'', ''An active subscription is required to boost posts.'')]"

record refusal =
  rf_code :: string
  rf_message :: string
  rf_action :: string

definition subscriber_action_refusal :: "nat option \<Rightarrow> string \<Rightarrow> 'a sub_db_scheme \<Rightarrow> refusal option" where
  "subscriber_action_refusal user action db =
     (if has_active_subscription user db then None
      else Some \<lparr>rf_code = ''SUBSCRIPTION_REQUIRED'',
                 rf_message = (case map_of SUBSCRIBER_ACTIONS action of
                     Some m \<Rightarrow> m | None \<Rightarrow> the (map_of SUBSCRIBER_ACTIONS ''post'')),
                 rf_action = action\<rparr>)"

definition coin_purchase_refusal :: "nat option \<Rightarrow> 'a sub_db_scheme \<Rightarrow> refusal option" where
  "coin_purchase_refusal user db =
     (if has_active_subscription user db then None
      else Some \<lparr>rf_code = ''ACCESS_REQUIRED_FOR_COIN_PURCHASE'',
                 rf_message = ''Coins can only be bought with an active FlipStar plan. '' @
                   ''Please subscribe or renew your plan, then try again.'', rf_action = []\<rparr>)"

definition has_ever_subscribed :: "nat option \<Rightarrow> 'a sub_db_scheme \<Rightarrow> bool" where
  "has_ever_subscribed user db =
     (case user of None \<Rightarrow> False
      | Some uid \<Rightarrow> plans_of uid db \<noteq> [] \<or> legacy_subscriptions db uid \<noteq> None)"

record login_state =
  requires_subscription :: bool
  previously_subscribed :: "bool option"

definition login_subscription_state :: "nat option \<Rightarrow> 'a sub_db_scheme \<Rightarrow> login_state" where
  "login_subscription_state user db =
     (if has_active_subscription user db then \<lparr>requires_subscription = False, previously_subscribed = None\<rparr>
      else \<lparr>requires_subscription = True, previously_subscribed = Some (has_ever_subscribed user db)\<rparr>)"

text \<open>
  The profile signal writes a legacy row for every new account, with no expiry
  (\<open>Subscription.objects.create(user=instance)\<close> in \<open>api/signals.py\<close>).
\<close>

definition signup_subscription :: "nat \<Rightarrow> 'a sub_db_scheme \<Rightarrow> 'a sub_db_scheme" where
  "signup_subscription uid db =
     db\<lparr>legacy_subscriptions := (legacy_subscriptions db)(uid \<mapsto> None)\<rparr>"

section \<open>What access means\<close>

lemma has_active_iff:
  "has_active_subscription (Some uid) db \<longleftrightarrow>
     (\<exists>p \<in> set (plans_of uid db). is_active (now db) p) \<or>
     (\<exists>e. legacy_subscriptions db uid = Some (Some e) \<and> e > now db)"
  by (auto simp: has_active_subscription_def is_active_def list_ex_iff split: option.splits)

text \<open>Activation opens access for the whole period, and nothing shorter or longer.\<close>

lemma started_plan_active:
  assumes "tier = Some tr" "duration_days tr = Some d" "d \<noteq> 0" "0 < d + free_trial_days p"
  shows "is_active t' (started_plan tier t p) \<longleftrightarrow> t' < t + (d + free_trial_days p) * one_day"
  using assms by (auto simp: started_plan_def is_active_def Let_def)

section \<open>The bonus of a period\<close>

definition bonus_paid :: "nat \<Rightarrow> 'a sub_db_scheme \<Rightarrow> bool" where
  "bonus_paid pid db \<longleftrightarrow> (\<exists>p. plans db pid = Some p \<and> bonus_coins_granted_at p \<noteq> None)"

lemma started_plan_simps [simp]:
  "bonus_coins_granted_at (started_plan tier t p) = bonus_coins_granted_at p"
  "plan_user (started_plan tier t p) = plan_user p"
  "plan_tier (started_plan tier t p) = plan_tier p"
  "free_trial_days (started_plan tier t p) = free_trial_days p"
  by (auto simp: started_plan_def Let_def split: option.splits)

lemma tier_of_started [simp]:
  "tier_of_plan (started_plan tier t p) (put_plan pid q db) = tier_of_plan p db"
  by (simp add: tier_of_plan_def put_plan_def split: option.splits)

text \<open>A stamped plan earns nothing more: whoever activates it again leaves every balance as it was.\<close>

lemma activate_stamped:
  assumes "bonus_paid pid db" and "activate pid db = Inr db'"
  shows "balances db' = balances db \<and> coin_ledger db' = coin_ledger db \<and> bonus_paid pid db'"
  using assms
  by (auto simp: activate_def bonus_paid_def grant_bonus_coins_def claim_transition_def put_plan_def Let_def
      bind_result_Inr_iff split: option.splits if_splits)

text \<open>Activations of one plan at a list of instants; one that raises is rolled back.\<close>

definition exec_activation :: "nat \<times> int \<Rightarrow> 'a sub_db_scheme \<Rightarrow> 'a sub_db_scheme result" where
  "exec_activation a db = activate (fst a) (db\<lparr>now := snd a\<rparr>)"

lemma coin_inv_frame: "balances db' = balances db \<Longrightarrow> coin_inv db' = coin_inv db"
  by (simp add: coin_inv_def)

lemma coin_balance_frame: "balances db' = balances db \<Longrightarrow> coin_balance_of db' u = coin_balance_of db u"
  by (simp add: coin_balance_of_def)

lemma bonus_moves:
  assumes "db_of (add_bonus new_balance uid n ty ks (get_or_create_balance uid db)) = Inr db'" and "coin_inv db"
  shows "coin_balance_of db' u = coin_balance_of db u + (if u = uid then n else 0)" and "coin_inv db'"
    and "plans db' = plans db" and "tiers db' = tiers db"
proof -
  from assms(1) obtain s tx where r: "add_bonus new_balance uid n ty ks (get_or_create_balance uid db) = Inr (s, tx, db')"
    by (auto simp: db_of_Inr)
  have inv: "coin_inv (get_or_create_balance uid db)"
    using assms(2) by (auto simp: coin_inv_def get_or_create_balance_def split: option.splits)
  have same: "coin_balance_of (get_or_create_balance uid db) u = coin_balance_of db u"
    by (simp add: coin_balance_of_def get_or_create_balance_def new_balance_def split: option.splits)
  show "coin_balance_of db' u = coin_balance_of db u + (if u = uid then n else 0)"
    using steps_balance [OF add_bonus_steps r inv] same by simp
  show "coin_inv db'" using add_bonus_steps r inv by (rule steps_wf)
  show "plans db' = plans db" and "tiers db' = tiers db"
    using add_bonus_steps [of uid n new_balance ty ks "get_or_create_balance uid db"] r
    by (auto simp: steps_def moves_def get_or_create_balance_def split: option.splits)
qed

lemma put_plan_twice [simp]: "put_plan pid p (put_plan pid q db) = put_plan pid p db"
  by (simp add: put_plan_def)

lemma put_plan_row [simp]:
  "plans (put_plan pid p db) pid = Some p" "now (put_plan pid p db) = now db"
  by (simp_all add: put_plan_def)

lemma grant_bonus_coins_eq:
  assumes "plans db pid = Some p" and "tier_of_plan p db = Some tr" and "plan_user p = Some uid"
  shows "grant_bonus_coins pid db =
    (if tier_bonus_coins tr = 0 \<or> bonus_coins_granted_at p \<noteq> None then Inr db
     else db_of (add_bonus new_balance uid (tier_bonus_coins tr) ''subscription_bonus''
            [Kw_description (tier_name tr @ '' subscription bonus'', [])]
            (get_or_create_balance uid (put_plan pid (p\<lparr>bonus_coins_granted_at := Some (now db)\<rparr>) db))))"
  using assms by (simp add: grant_bonus_coins_def claim_transition_def put_plan_def)

lemma activate_unstamped:
  assumes act: "activate pid db = Inr db'" and inv: "coin_inv db" and p: "plans db pid = Some p"
    and tier: "tier_of_plan p db = Some tr" and u: "plan_user p = Some uid"
  shows "coin_inv db'" and "tiers db' = tiers db"
    and "\<exists>p'. plans db' pid = Some p' \<and> plan_user p' = plan_user p \<and> plan_tier p' = plan_tier p"
    and "coin_balance_of db' uid = coin_balance_of db uid \<or>
         coin_balance_of db' uid = coin_balance_of db uid + tier_bonus_coins tr \<and> bonus_paid pid db'"
proof -
  let ?db1 = "put_plan pid (started_plan (Some tr) (now db) p) db"
  let ?p1 = "(started_plan (Some tr) (now db) p)\<lparr>bonus_coins_granted_at := Some (now db)\<rparr>"
  consider (same) "db' = ?db1"
    | (paid) "db_of (add_bonus new_balance uid (tier_bonus_coins tr) ''subscription_bonus''
          [Kw_description (tier_name tr @ '' subscription bonus'', [])]
          (get_or_create_balance uid (put_plan pid ?p1 db))) = Inr db'"
  proof -
    have g: "grant_bonus_coins pid ?db1 =
      (if tier_bonus_coins tr = 0 \<or> bonus_coins_granted_at p \<noteq> None then Inr ?db1
       else db_of (add_bonus new_balance uid (tier_bonus_coins tr) ''subscription_bonus''
          [Kw_description (tier_name tr @ '' subscription bonus'', [])]
          (get_or_create_balance uid (put_plan pid ?p1 db))))"
      using grant_bonus_coins_eq [of ?db1 pid "started_plan (Some tr) (now db) p" tr uid] tier u
      by simp
    have a: "activate pid db = (if already_running (now db) p then Inr ?db1 else grant_bonus_coins pid ?db1)"
      using p tier by (simp add: activate_def Let_def)
    show thesis
    proof (cases "already_running (now db) p \<or> tier_bonus_coins tr = 0 \<or> bonus_coins_granted_at p \<noteq> None")
      case True
      with act have "Inr db' = Inr ?db1" unfolding a g by (simp only: if_True split: if_splits) auto
      then show thesis using same by simp
    next
      case False
      with act show thesis unfolding a g by (intro paid) simp
    qed
  qed
  then have "coin_inv db' \<and> tiers db' = tiers db \<and>
    (\<exists>p'. plans db' pid = Some p' \<and> plan_user p' = plan_user p \<and> plan_tier p' = plan_tier p) \<and>
    (coin_balance_of db' uid = coin_balance_of db uid \<or>
     coin_balance_of db' uid = coin_balance_of db uid + tier_bonus_coins tr \<and> bonus_paid pid db')"
  proof cases
    case same
    then have fr: "balances db' = balances db" by (simp add: put_plan_def)
    with same inv show ?thesis
      using coin_inv_frame [OF fr] coin_balance_frame [OF fr] by (simp add: put_plan_def)
  next
    case paid
    have fr: "balances (put_plan pid ?p1 db) = balances db" by (simp add: put_plan_def)
    have inv1: "coin_inv (put_plan pid ?p1 db)" using inv coin_inv_frame [OF fr] by simp
    show ?thesis
      using bonus_moves [OF paid inv1] coin_balance_frame [OF fr]
      by (simp add: bonus_paid_def) (simp add: put_plan_def)
  qed
  then show "coin_inv db'" and "tiers db' = tiers db"
    and "\<exists>p'. plans db' pid = Some p' \<and> plan_user p' = plan_user p \<and> plan_tier p' = plan_tier p"
    and "coin_balance_of db' uid = coin_balance_of db uid \<or>
         coin_balance_of db' uid = coin_balance_of db uid + tier_bonus_coins tr \<and> bonus_paid pid db'"
    by blast+
qed

lemma run_stamped:
  "bonus_paid pid db \<Longrightarrow> balances (run_requests exec_activation (map (Pair pid) ts) db) = balances db"
proof (induction ts arbitrary: db)
  case (Cons t ts)
  have st: "bonus_paid pid (db\<lparr>now := t\<rparr>)" using Cons.prems by (simp add: bonus_paid_def)
  show ?case
  proof (cases "exec_activation (pid, t) db")
    case (Inl e)
    with Cons show ?thesis by simp
  next
    case (Inr db1)
    with activate_stamped [OF st] have "balances db1 = balances db" "bonus_paid pid db1"
      by (auto simp: exec_activation_def)
    with Inr Cons.IH show ?thesis by simp
  qed
qed simp

lemma run_activations:
  "coin_inv db \<Longrightarrow> plans db pid = Some p \<Longrightarrow> tier_of_plan p db = Some tr \<Longrightarrow> plan_user p = Some uid \<Longrightarrow>
   coin_balance_of (run_requests exec_activation (map (Pair pid) ts) db) uid - coin_balance_of db uid
     \<in> {0, tier_bonus_coins tr}"
proof (induction ts arbitrary: db p)
  case (Cons t ts)
  let ?db0 = "db\<lparr>now := t\<rparr>"
  have fr: "coin_inv ?db0" "plans ?db0 pid = Some p" "tier_of_plan p ?db0 = Some tr"
    "coin_balance_of ?db0 uid = coin_balance_of db uid"
    using Cons.prems by (simp_all add: coin_inv_def tier_of_plan_def coin_balance_of_def split: option.splits)
  show ?case
  proof (cases "exec_activation (pid, t) db")
    case (Inl e)
    with Cons show ?thesis by simp
  next
    case (Inr db1)
    then have act: "activate pid ?db0 = Inr db1" by (simp add: exec_activation_def)
    note un = activate_unstamped [OF act fr(1-3) Cons.prems(4)]
    show ?thesis
    proof (cases "coin_balance_of db1 uid = coin_balance_of db uid")
      case True
      obtain p' where p': "plans db1 pid = Some p'" "plan_user p' = plan_user p" "plan_tier p' = plan_tier p"
        using un(3) by blast
      have "tier_of_plan p' db1 = Some tr"
        using p'(3) un(2) fr(3) by (simp add: tier_of_plan_def split: option.splits)
      then show ?thesis
        using Cons.IH [OF un(1) p'(1)] p'(2) Cons.prems(4) Inr True by simp
    next
      case False
      then have "bonus_paid pid db1" "coin_balance_of db1 uid = coin_balance_of db uid + tier_bonus_coins tr"
        using un(4) fr(4) by auto
      then show ?thesis
        using Inr coin_balance_frame [OF run_stamped [of pid db1 ts], of uid] by simp
    qed
  qed
qed simp

section \<open>A concrete store\<close>

definition weekly_tier :: sub_tier where
  "weekly_tier = \<lparr>tier_name = ''Weekly'', duration_type = ''weekly'', duration_days = Some 7, tier_price = 2000,
     tier_bonus_coins = 50, charge_gift_coins = 25, price_coins = None, onevas_code = ''B'',
     tier_service_id = ''30026300007332'', tier_product_id = ''p2'', tier_short_code = ''9286'', tier_is_active = True\<rparr>"

definition new_plan :: "nat \<Rightarrow> nat \<Rightarrow> subscription_plan" where
  "new_plan uid tid =
     \<lparr>plan_user = Some uid, plan_tier = Some tid, plan_status = S_pending, plan_duration_type = ''weekly'',
      start_date = None, end_date = None, next_renewal_date = None, auto_renew = False,
      plan_payment_method = ''telebirr'', free_trial_days = 0, cancelled_at = None, cancellation_reason = [],
      grace_started_at = None, grace_expires_at = None, bonus_coins_granted_at = None,
      onevas_phone_number = None, telebirr_phone_number = None, subscription_token = None,
      subscription_token_expires_at = None, subscription_source = ''app'', plan_service_id = []\<rparr>"

definition example_subs :: sub_db where
  "example_subs =
     \<lparr>balances = (\<lambda>_. None), coin_ledger = [], packages = (\<lambda>_. None), now = 0,
      profiles = (\<lambda>_. None)(1 \<mapsto> example_profile), point_ledger = [],
      wallet_cfg = default_config, withdrawals = (\<lambda>_. None), next_withdrawal = 0,
      tiers = (\<lambda>_. None)(2 \<mapsto> weekly_tier), tier_ids = [2],
      plans = (\<lambda>_. None)(3 \<mapsto> new_plan 1 2), plan_ids = [3],
      payments = (\<lambda>_. None), payment_ids = [], legacy_subscriptions = (\<lambda>_. None)\<rparr>"

definition renewed_subs :: sub_db where
  "renewed_subs = example_subs\<lparr>now := 8 * one_day,
     plans := (plans example_subs)(3 \<mapsto> (started_plan (Some weekly_tier) 0 (new_plan 1 2))
       \<lparr>bonus_coins_granted_at := Some 0\<rparr>)\<rparr>"

section \<open>Properties\<close>



text \<open>
  A renewal earns no bonus. \<open>clear_bonus_grant\<close>, which would release the stamp for the next period,
  is called nowhere, so activating a plan whose bonus was paid in an earlier period changes no balance
  and writes no ledger row, although the tier promises its bonus each time it renews.
\<close>
theorem renewal_earns_no_bonus:
  assumes "bonus_paid pid db" and "activate pid db = Inr db'"
  shows "balances db' = balances db \<and> coin_ledger db' = coin_ledger db"
  using activate_stamped [OF assms] by simp

theorem renewal_earns_no_bonus_witness:
  "\<exists>db'. activate 3 renewed_subs = Inr db' \<and> balances db' = balances renewed_subs \<and>
         map_option (is_active (now renewed_subs)) (plans renewed_subs 3) = Some False \<and>
         map_option (is_active (now renewed_subs)) (plans db' 3) = Some True"
proof -
  have st: "bonus_paid 3 renewed_subs"
    by (simp add: bonus_paid_def renewed_subs_def)
  have "(case activate 3 renewed_subs of Inl _ \<Rightarrow> False | Inr db' \<Rightarrow>
      map_option (is_active (now renewed_subs)) (plans renewed_subs 3) = Some False \<and>
      map_option (is_active (now renewed_subs)) (plans db' 3) = Some True)"
    by code_simp
  then obtain db' where act: "activate 3 renewed_subs = Inr db'"
    and "map_option (is_active (now renewed_subs)) (plans renewed_subs 3) = Some False"
      "map_option (is_active (now renewed_subs)) (plans db' 3) = Some True"
    by (auto split: sum.splits)
  with renewal_earns_no_bonus [OF st act] show ?thesis by blast
qed

text \<open>
  Access means one thing. Posting, liking, gifting, buying coins and signing in ask the same
  predicate: access holds exactly when some plan of the user is active by its own \<open>is_active\<close> (status
  and end date) or the legacy row has not expired, and an anonymous caller never has it.
\<close>
theorem access_is_one_rule:
  "(subscriber_action_refusal user action db = None \<longleftrightarrow> coin_purchase_refusal user db = None) \<and>
   (requires_subscription (login_subscription_state user db) \<longleftrightarrow> coin_purchase_refusal user db \<noteq> None) \<and>
   (coin_purchase_refusal user db = None \<longleftrightarrow>
      (\<exists>uid. user = Some uid \<and>
         ((\<exists>p \<in> set (plans_of uid db). is_active (now db) p) \<or>
          (\<exists>e. legacy_subscriptions db uid = Some (Some e) \<and> e > now db))))"
proof (cases user)
  case None
  then show ?thesis
    by (simp add: subscriber_action_refusal_def coin_purchase_refusal_def login_subscription_state_def
        has_active_subscription_def)
next
  case (Some uid)
  then show ?thesis
    by (auto simp: subscriber_action_refusal_def coin_purchase_refusal_def login_subscription_state_def
        has_active_iff)
qed

text \<open>
  Everybody has subscribed before. Because sign-up writes a legacy subscription row for every
  account, \<open>has_ever_subscribed\<close> is true of a user who never held a plan, who is then told that the
  subscription has ended.
\<close>
theorem signup_counts_as_subscribed:
  "has_ever_subscribed (Some uid) (signup_subscription uid db)"
  by (simp add: has_ever_subscribed_def signup_subscription_def)

end
