(* ===== verification/Subscription_Gift.thy ===== *)
theory Subscription_Gift
  imports Subscription
begin

text \<open>
  The coins a subscriber earns by paying: \<open>api/services/subscription_gift.py\<close> (the grant a completed
  payment triggers) and \<open>api/services/subscription_daily_gift.py\<close> (the same total paid a day at a time,
  by the daily sweep). Every grant is its own transaction keyed by the payment and the day; the
  unique constraint on the coin ledger refuses a second one.
\<close>

section \<open>The schedule\<close>

definition FALLBACK_DAYS :: "(string \<times> int) list" where
  "FALLBACK_DAYS = [(''daily'', 1), (''weekly'', 7), (''monthly'', 30)]"

definition plan_days :: "sub_tier option \<Rightarrow> nat" where
  "plan_days tier =
     (case tier of
        None \<Rightarrow> 0
      | Some t \<Rightarrow>
          if duration_type t = ''ondemand'' then 0
          else nat (case duration_days t of
                      Some d \<Rightarrow> d
                    | None \<Rightarrow> (case map_of FALLBACK_DAYS (duration_type t) of Some d \<Rightarrow> d | None \<Rightarrow> 0)))"

definition plan_total :: "sub_tier option \<Rightarrow> nat" where
  "plan_total tier = (case tier of None \<Rightarrow> 0 | Some t \<Rightarrow> nat (charge_gift_coins t))"

definition daily_schedule :: "nat \<Rightarrow> nat \<Rightarrow> nat list" where
  "daily_schedule tot days =
     (if tot = 0 \<or> days = 0 then []
      else map (\<lambda>day. if day < tot mod days then tot div days + 1 else tot div days) [0..<days])"

definition schedule_for :: "sub_tier option \<Rightarrow> nat list" where
  "schedule_for tier = daily_schedule (plan_total tier) (plan_days tier)"

definition coins_for_day :: "sub_tier option \<Rightarrow> nat \<Rightarrow> nat" where
  "coins_for_day tier day =
     (if day < 1 then 0
      else if day \<le> length (schedule_for tier) then schedule_for tier ! (day - 1) else 0)"

section \<open>Granting\<close>

definition tier_of_payment :: "subscription_payment \<Rightarrow> 'a sub_db_scheme \<Rightarrow> sub_tier option" where
  "tier_of_payment pay db =
     (case plans db (pay_subscription pay) of None \<Rightarrow> None | Some p \<Rightarrow> tier_of_plan p db)"

definition user_of_payment :: "subscription_payment \<Rightarrow> 'a sub_db_scheme \<Rightarrow> nat option" where
  "user_of_payment pay db =
     (case pay_user pay of
        Some u \<Rightarrow> Some u
      | None \<Rightarrow> (case plans db (pay_subscription pay) of None \<Rightarrow> None | Some p \<Rightarrow> plan_user p))"

definition day_index :: "subscription_payment \<Rightarrow> int \<Rightarrow> nat" where
  "day_index pay t = (if t - period_start pay < 0 then 0 else nat ((t - period_start pay) div one_day) + 1)"

definition reference_for :: "string \<Rightarrow> nat \<Rightarrow> string" where
  "reference_for pk day = ''sub-gift:'' @ pk @ '':day:'' @ show_nat day"

definition gift_exists :: "string \<Rightarrow> 'a coin_db_scheme \<Rightarrow> bool" where
  "gift_exists ref db \<longleftrightarrow>
     list_ex (\<lambda>t. transaction_type t = ''subscription_gift'' \<and> payment_reference t = ref) (coin_ledger db)"

definition already_granted :: "string \<Rightarrow> nat \<Rightarrow> 'a coin_db_scheme \<Rightarrow> bool" where
  "already_granted pk day db = gift_exists (reference_for pk day) db"

definition paid_in_full_by_the_old_rule :: "string \<Rightarrow> 'a coin_db_scheme \<Rightarrow> bool" where
  "paid_in_full_by_the_old_rule pk db = gift_exists pk db"

text \<open>
  A grant in a transaction of its own: an \<open>IntegrityError\<close> is rolled back and counts as nothing
  granted; any other exception is rolled back and propagates. Days committed earlier stay.
\<close>

definition settle_grant ::
  "int \<Rightarrow> 'a sub_db_scheme \<Rightarrow> 'a sub_db_scheme result \<Rightarrow> int result \<times> 'a sub_db_scheme" where
  "settle_grant n db r =
     (case r of
        Inl (IntegrityError _) \<Rightarrow> (Inr 0, db)
      | Inl e \<Rightarrow> (Inl e, db)
      | Inr db' \<Rightarrow> (Inr n, db'))"

definition grant_for_day ::
  "string \<Rightarrow> subscription_payment \<Rightarrow> nat \<Rightarrow> 'a sub_db_scheme \<Rightarrow> int result \<times> 'a sub_db_scheme" where
  "grant_for_day pk pay day db =
     (let tier = tier_of_payment pay db; coins = coins_for_day tier day
      in if coins = 0 then (Inr 0, db)
         else case user_of_payment pay db of
           None \<Rightarrow> (Inr 0, db)
         | Some uid \<Rightarrow>
             settle_grant (int coins) db
               (db_of (add_earned new_balance uid (int coins) ''subscription_gift''
                  [Kw_payment_reference (reference_for pk day),
                   Kw_description (tier_name (the tier) @ '' subscription gift (day {})'', [int day])]
                  (get_or_create_balance uid db))))"

fun grant_days ::
  "string \<Rightarrow> subscription_payment \<Rightarrow> nat list \<Rightarrow> 'a sub_db_scheme \<Rightarrow> int result \<times> 'a sub_db_scheme" where
  "grant_days pk pay [] db = (Inr 0, db)"
| "grant_days pk pay (d # ds) db =
     (case grant_for_day pk pay d db of
        (Inl e, db1) \<Rightarrow> (Inl e, db1)
      | (Inr n, db1) \<Rightarrow>
          (case grant_days pk pay ds db1 of
             (Inl e, db2) \<Rightarrow> (Inl e, db2)
           | (Inr m, db2) \<Rightarrow> (Inr (n + m), db2)))"

definition earning :: "plan_status \<Rightarrow> bool" where
  "earning st \<longleftrightarrow> st = S_active \<or> st = S_grace_period"

definition grant_due ::
  "string \<Rightarrow> subscription_payment \<Rightarrow> int \<Rightarrow> 'a sub_db_scheme \<Rightarrow> int result \<times> 'a sub_db_scheme" where
  "grant_due pk pay t db =
     (if pay_status pay \<noteq> ''completed'' then (Inr 0, db)
      else if (case plans db (pay_subscription pay) of None \<Rightarrow> False | Some p \<Rightarrow> \<not> earning (plan_status p))
      then (Inr 0, db)
      else if paid_in_full_by_the_old_rule pk db then (Inr 0, db)
      else if day_index pay t < 1 then (Inr 0, db)
      else grant_days pk pay
             [1..<min (day_index pay t) (length (schedule_for (tier_of_payment pay db))) + 1] db)"

text \<open>The daily sweep: every running period of a recurring plan; a failure skips one subscriber.\<close>

definition due_for_sweep :: "int \<Rightarrow> 'a sub_db_scheme \<Rightarrow> string \<Rightarrow> bool" where
  "due_for_sweep t db pk =
     (case payments db pk of
        None \<Rightarrow> False
      | Some pay \<Rightarrow>
          pay_status pay = ''completed'' \<and> period_start pay \<le> t \<and> t \<le> period_end pay \<and>
          (case plans db (pay_subscription pay) of None \<Rightarrow> False | Some p \<Rightarrow> earning (plan_status p)) \<and>
          (case tier_of_payment pay db of None \<Rightarrow> False | Some tr \<Rightarrow> duration_type tr \<noteq> ''ondemand''))"

fun sweep_payments ::
  "int \<Rightarrow> string list \<Rightarrow> 'a sub_db_scheme \<Rightarrow> (int \<times> int) \<times> 'a sub_db_scheme" where
  "sweep_payments t [] db = ((0, 0), db)"
| "sweep_payments t (pk # pks) db =
     (case payments db pk of
        None \<Rightarrow> sweep_payments t pks db
      | Some pay \<Rightarrow>
          (case grant_due pk pay t db of
             (Inl _, db1) \<Rightarrow> sweep_payments t pks db1
           | (Inr n, db1) \<Rightarrow>
               (case sweep_payments t pks db1 of
                  ((paid, sm), db2) \<Rightarrow> if n \<noteq> 0 then ((paid + 1, sm + n), db2) else ((paid, sm), db2))))"

definition sweep :: "int \<Rightarrow> 'a sub_db_scheme \<Rightarrow> (int \<times> int) \<times> 'a sub_db_scheme" where
  "sweep t db = sweep_payments t (filter (due_for_sweep t db) (payment_ids db)) db"

section \<open>The grant a payment triggers\<close>

definition ondemand_allocation :: "sub_tier option \<Rightarrow> nat" where
  "ondemand_allocation tier =
     (case tier of
        None \<Rightarrow> 0
      | Some t \<Rightarrow> if duration_type t \<noteq> ''ondemand'' then 0
                  else nat (case price_coins t of None \<Rightarrow> 0 | Some n \<Rightarrow> n))"

definition grant_ondemand_allocation ::
  "string \<Rightarrow> subscription_payment \<Rightarrow> 'a sub_db_scheme \<Rightarrow> int result \<times> 'a sub_db_scheme" where
  "grant_ondemand_allocation pk pay db =
     (let tier = tier_of_payment pay db; coins = ondemand_allocation tier
      in if coins = 0 then (Inr 0, db)
         else case user_of_payment pay db of
           None \<Rightarrow> (Inr 0, db)
         | Some uid \<Rightarrow>
             settle_grant (int coins) db
               (db_of (add_bonus new_balance uid (int coins) ''ondemand_allocation''
                  [Kw_payment_reference pk,
                   Kw_description (tier_name (the tier) @ '' package: {} coins'', [int coins])]
                  (get_or_create_balance uid db))))"

definition grant_for_payment ::
  "string \<Rightarrow> subscription_payment \<Rightarrow> 'a sub_db_scheme \<Rightarrow> int result \<times> 'a sub_db_scheme" where
  "grant_for_payment pk pay db =
     (let tier = tier_of_payment pay db
      in if pay_status pay \<noteq> ''completed'' then (Inr 0, db)
         else if map_option duration_type tier = Some ''ondemand'' then grant_ondemand_allocation pk pay db
         else if plan_days tier \<noteq> 0 then grant_due pk pay (now db) db
         else if gift_exists pk db then (Inr 0, db)
         else if plan_total tier = 0 then (Inr 0, db)
         else case user_of_payment pay db of
           None \<Rightarrow> (Inr 0, db)
         | Some uid \<Rightarrow>
             settle_grant (int (plan_total tier)) db
               (db_of (add_earned new_balance uid (int (plan_total tier)) ''subscription_gift''
                  [Kw_payment_reference pk, Kw_description (tier_name (the tier) @ '' subscription gift'', [])]
                  (get_or_create_balance uid db))))"

text \<open>The signal on a saved payment: nothing it raises reaches the caller.\<close>

definition grant_subscription_gift ::
  "string \<Rightarrow> subscription_payment \<Rightarrow> 'a sub_db_scheme \<Rightarrow> 'a sub_db_scheme" where
  "grant_subscription_gift pk pay db =
     (if pay_status pay \<noteq> ''completed'' then db else snd (grant_for_payment pk pay db))"

section \<open>The schedule pays the total, evenly\<close>

lemma sum_front_loaded:
  "(\<Sum>day\<leftarrow>[0..<n]. if day < k then b + 1 else b) = n * b + min k (n::nat)"
  by (induction n) auto

lemma sum_daily_schedule: "0 < days \<Longrightarrow> sum_list (daily_schedule tot days) = tot"
proof -
  assume d: "0 < days"
  show ?thesis
  proof (cases "tot = 0")
    case True
    then show ?thesis by (simp add: daily_schedule_def)
  next
    case False
    have "sum_list (daily_schedule tot days) = days * (tot div days) + min (tot mod days) days"
      using d False sum_front_loaded [of "tot mod days" "tot div days" days] by (simp add: daily_schedule_def)
    also have "min (tot mod days) days = tot mod days" using d by simp
    finally show ?thesis by simp
  qed
qed

lemma daily_schedule_even:
  "x \<in> set (daily_schedule tot days) \<Longrightarrow> x = tot div days \<or> x = tot div days + 1"
  by (auto simp: daily_schedule_def split: if_splits)

lemma daily_schedule_antimono:
  "i \<le> j \<Longrightarrow> j < length (daily_schedule tot days) \<Longrightarrow> daily_schedule tot days ! j \<le> daily_schedule tot days ! i"
  by (auto simp: daily_schedule_def split: if_splits)

lemma length_daily_schedule: "length (daily_schedule tot days) = (if tot = 0 then 0 else days)"
  by (simp add: daily_schedule_def)

section \<open>Keys\<close>

text \<open>Payment ids are UUIDs: 36 characters. Two grants share a key only if they are the same grant.\<close>

lemma reference_for_inj:
  assumes "length pk = 36" and "length pk' = 36"
  shows "reference_for pk d = reference_for pk' d' \<longleftrightarrow> pk = pk' \<and> d = d'"
  using assms by (auto simp: reference_for_def dest: show_nat_inj)

lemma reference_for_not_id: "length pk = 36 \<Longrightarrow> length pk' = 36 \<Longrightarrow> reference_for pk d \<noteq> pk'"
  by (auto simp: reference_for_def)

section \<open>One grant per day\<close>

definition gifts_of :: "string \<Rightarrow> 'a coin_db_scheme \<Rightarrow> coin_transaction list" where
  "gifts_of ref db =
     filter (\<lambda>t. transaction_type t = ''subscription_gift'' \<and> payment_reference t = ref) (coin_ledger db)"

text \<open>What a successful credit under a gift key leaves in the ledger.\<close>

lemma create_transaction_grant:
  assumes "create_transaction t db = Inr (tx, db')"
  shows "tx = t" and "db' = db\<lparr>coin_ledger := coin_ledger db @ [t]\<rparr>"
    and "transaction_type t = ''subscription_gift'' \<Longrightarrow> gifts_of (payment_reference t) db = []"
  using assms
  by (auto simp: create_transaction_def same_grant_def list_ex_iff gifts_of_def filter_empty_conv
      simp del: not_None_eq split: if_splits)

lemma save_and_log_row:
  assumes "save_and_log self uid cols locked (Inr t) db = Inr (s, tx, db')"
  shows "\<exists>b. db' = db\<lparr>balances := b, coin_ledger := coin_ledger db @ [t]\<rparr>"
    and "transaction_type t = ''subscription_gift'' \<Longrightarrow> gifts_of (payment_reference t) db = []"
proof -
  obtain db1 where sv: "save_balance uid cols locked db = Inr db1" and cr: "create_transaction t db1 = Inr (tx, db')"
    using assms by (auto simp: save_and_log_def bind_result_Inr_iff)
  obtain b where db1: "db1 = db\<lparr>balances := b\<rparr>" using sv by (auto simp: save_balance_Inr)
  show "\<exists>b. db' = db\<lparr>balances := b, coin_ledger := coin_ledger db @ [t]\<rparr>"
    using create_transaction_grant(2) [OF cr] db1 by auto
  show "transaction_type t = ''subscription_gift'' \<Longrightarrow> gifts_of (payment_reference t) db = []"
    using create_transaction_grant(3) [OF cr] db1 by (simp add: gifts_of_def)
qed

lemma get_or_create_form: "\<exists>b. get_or_create_balance uid db = db\<lparr>balances := b\<rparr>"
proof (cases "balances db uid")
  case (Some r)
  have "db = db\<lparr>balances := balances db\<rparr>" by simp
  with Some show ?thesis unfolding get_or_create_balance_def by (simp, blast)
qed (auto simp: get_or_create_balance_def)

lemma earned_gift_row:
  assumes "db_of (add_earned new_balance uid n ''subscription_gift''
      [Kw_payment_reference ref, Kw_description d] (get_or_create_balance uid db)) = Inr db'"
  obtains b t where "gifts_of ref db = []" and "db' = db\<lparr>balances := b, coin_ledger := coin_ledger db @ [t]\<rparr>"
    and "coins t = n" and "transaction_type t = ''subscription_gift''" and "payment_reference t = ref"
    and "tx_user t = uid"
proof -
  obtain b0 where db0: "get_or_create_balance uid db = db\<lparr>balances := b0\<rparr>" using get_or_create_form by blast
  let ?t = "(new_transaction uid ''subscription_gift'' n (now db))\<lparr>payment_reference := ref, description := d\<rparr>"
  obtain self cols locked s tx where
    sl: "save_and_log self uid cols locked (Inr ?t) (db\<lparr>balances := b0\<rparr>) = Inr (s, tx, db')"
    using assms unfolding db0 by (auto simp: db_of_Inr add_earned_def bind_result_Inr_iff Let_def split: if_splits)
  have t: "coins ?t = n" "transaction_type ?t = ''subscription_gift''" "payment_reference ?t = ref" "tx_user ?t = uid"
    by (simp_all add: new_transaction_def)
  have "gifts_of ref db = []"
    using save_and_log_row(2) [OF sl] t by (simp add: gifts_of_def)
  moreover obtain b where "db' = db\<lparr>balances := b, coin_ledger := coin_ledger db @ [?t]\<rparr>"
    using save_and_log_row(1) [OF sl] by auto
  ultimately show thesis using t by (rule that)
qed

text \<open>
  \<open>day_paid\<close>: the day's key is in the ledger exactly once, for the day's amount. \<open>gift_inv\<close>: every day
  of a payment is unpaid or paid in that sense.
\<close>

definition day_paid :: "string \<Rightarrow> sub_tier option \<Rightarrow> nat \<Rightarrow> 'a coin_db_scheme \<Rightarrow> bool" where
  "day_paid pk tier d db \<longleftrightarrow>
     (\<exists>t. gifts_of (reference_for pk d) db = [t] \<and> coins t = int (coins_for_day tier d))"

definition gift_inv :: "string \<Rightarrow> sub_tier option \<Rightarrow> 'a coin_db_scheme \<Rightarrow> bool" where
  "gift_inv pk tier db \<longleftrightarrow> (\<forall>d. gifts_of (reference_for pk d) db = [] \<or> day_paid pk tier d db)"

definition gifted :: "string \<Rightarrow> nat \<Rightarrow> 'a coin_db_scheme \<Rightarrow> int" where
  "gifted pk n db = (\<Sum>d\<leftarrow>[1..<Suc n]. sum_list (map coins (gifts_of (reference_for pk d) db)))"

text \<open>One grant of one day: nothing happens, or that day is paid and nothing else changes.\<close>

lemma grant_for_day_cases:
  assumes "grant_for_day pk pay d db = (r, db')"
  obtains (unchanged) "db' = db"
  | (paid) b t where "db' = db\<lparr>balances := b, coin_ledger := coin_ledger db @ [t]\<rparr>"
      "gifts_of (reference_for pk d) db = []" "transaction_type t = ''subscription_gift''"
      "payment_reference t = reference_for pk d" "coins t = int (coins_for_day (tier_of_payment pay db) d)"
proof (cases "coins_for_day (tier_of_payment pay db) d = 0 \<or> user_of_payment pay db = None")
  case True
  with assms show thesis by (intro unchanged) (auto simp: grant_for_day_def Let_def split: if_splits)
next
  case False
  then obtain uid where uid: "user_of_payment pay db = Some uid" by auto
  let ?n = "int (coins_for_day (tier_of_payment pay db) d)"
  let ?r = "db_of (add_earned new_balance uid ?n ''subscription_gift''
                  [Kw_payment_reference (reference_for pk d),
                   Kw_description (tier_name (the (tier_of_payment pay db)) @ '' subscription gift (day {})'', [int d])]
                  (get_or_create_balance uid db))"
  have g: "settle_grant ?n db ?r = (r, db')"
    using assms False uid by (simp add: grant_for_day_def Let_def)
  show thesis
  proof (cases ?r)
    case (Inl e)
    with g show thesis by (intro unchanged) (cases e; simp add: settle_grant_def)
  next
    case (Inr db1)
    with g have "db1 = db'" by (simp add: settle_grant_def)
    with Inr have "?r = Inr db'" by simp
    then show thesis by (rule earned_gift_row) (rule paid)
  qed
qed

lemma gifts_of_add:
  "gifts_of ref (db\<lparr>balances := b, coin_ledger := coin_ledger db @ [t]\<rparr>) =
   gifts_of ref db @ (if transaction_type t = ''subscription_gift'' \<and> payment_reference t = ref then [t] else [])"
  by (simp add: gifts_of_def)

lemma payment_frame:
  "plans db' = plans db \<Longrightarrow> tiers db' = tiers db \<Longrightarrow> tier_of_payment pay db' = tier_of_payment pay db"
  "plans db' = plans db \<Longrightarrow> user_of_payment pay db' = user_of_payment pay db"
  by (simp_all add: tier_of_payment_def tier_of_plan_def user_of_payment_def cong: option.case_cong)

text \<open>What every grant leaves alone, and that the books of every payment stay right.\<close>

definition same_tables :: "'a sub_db_scheme \<Rightarrow> 'a sub_db_scheme \<Rightarrow> bool" where
  "same_tables db db' \<longleftrightarrow> plans db' = plans db \<and> tiers db' = tiers db \<and> payments db' = payments db"

lemma same_tables_refl [simp]: "same_tables db db"
  by (simp add: same_tables_def)

lemma same_tables_trans: "same_tables a b \<Longrightarrow> same_tables b c \<Longrightarrow> same_tables a c"
  by (simp add: same_tables_def)

lemma same_tables_tier: "same_tables db db' \<Longrightarrow> tier_of_payment pay db' = tier_of_payment pay db"
  unfolding same_tables_def by (intro payment_frame(1)) simp_all

lemma same_tables_user: "same_tables db db' \<Longrightarrow> user_of_payment pay db' = user_of_payment pay db"
  unfolding same_tables_def by (intro payment_frame(2)) simp_all

lemma grant_for_day_frame: "grant_for_day pk pay d db = (r, db') \<Longrightarrow> same_tables db db'"
  by (erule grant_for_day_cases) (simp_all add: same_tables_def)

lemma grant_for_day_inv:
  assumes g: "grant_for_day pk' pay' d' db = (r, db')" and inv: "gift_inv pk tier db"
    and len: "length pk = 36" "length pk' = 36"
    and same: "pk' = pk \<Longrightarrow> tier_of_payment pay' db = tier"
  shows "gift_inv pk tier db'"
  using g
proof (cases rule: grant_for_day_cases)
  case unchanged
  with inv show ?thesis by simp
next
  case (paid b t)
  show ?thesis
    unfolding gift_inv_def
  proof
    fix d
    show "gifts_of (reference_for pk d) db' = [] \<or> day_paid pk tier d db'"
    proof (cases "pk' = pk \<and> d' = d")
      case True
      then have "gifts_of (reference_for pk d) db' = [t]" using paid by (simp add: gifts_of_add)
      then show ?thesis using paid(5) same True by (simp add: day_paid_def)
    next
      case False
      then have "reference_for pk' d' \<noteq> reference_for pk d" using len by (simp add: reference_for_inj)
      then have "gifts_of (reference_for pk d) db' = gifts_of (reference_for pk d) db"
        using paid by (simp add: gifts_of_add)
      then show ?thesis using inv by (simp add: gift_inv_def day_paid_def)
    qed
  qed
qed

lemma grant_for_day_keeps:
  assumes "grant_for_day pk' pay' d' db = (r, db')" and "day_paid pk tier d db"
    and "length pk = 36" "length pk' = 36"
  shows "day_paid pk tier d db'"
  using assms(1)
proof (cases rule: grant_for_day_cases)
  case unchanged
  with assms show ?thesis by simp
next
  case (paid b t)
  have "\<not> (pk' = pk \<and> d' = d)" using paid(2) assms(2) by (auto simp: day_paid_def)
  then have "reference_for pk' d' \<noteq> reference_for pk d" using assms(3,4) by (simp add: reference_for_inj)
  then show ?thesis using paid assms(2) by (simp add: day_paid_def gifts_of_add)
qed

lemma grant_days_frame:
  "grant_days pk' pay' ds db = (r, db') \<Longrightarrow> same_tables db db'"
proof (induction ds arbitrary: db r db')
  case (Cons d ds)
  then show ?case
    by (auto split: prod.splits sum.splits dest!: grant_for_day_frame intro: same_tables_trans)
qed simp

lemma grant_days_inv:
  assumes "length pk = 36" "length pk' = 36"
  shows "grant_days pk' pay' ds db = (r, db') \<Longrightarrow> gift_inv pk tier db \<Longrightarrow>
    (pk' = pk \<Longrightarrow> tier_of_payment pay' db = tier) \<Longrightarrow> gift_inv pk tier db'"
proof (induction ds arbitrary: db r db')
  case (Cons d ds)
  obtain r1 db1 where g: "grant_for_day pk' pay' d db = (r1, db1)" by force
  have inv: "gift_inv pk tier db1"
    using g Cons.prems(2) assms Cons.prems(3) by (rule grant_for_day_inv)
  have tier: "pk' = pk \<Longrightarrow> tier_of_payment pay' db1 = tier"
    using same_tables_tier [OF grant_for_day_frame [OF g]] Cons.prems(3) by simp
  show ?case
  proof (cases r1)
    case (Inl e)
    with g Cons.prems(1) inv show ?thesis by simp
  next
    case (Inr n)
    obtain r2 db2 where g2: "grant_days pk' pay' ds db1 = (r2, db2)" by force
    have "gift_inv pk tier db2" using Cons.IH [OF g2 inv tier] by blast
    with g Inr g2 Cons.prems(1) show ?thesis by (auto split: sum.splits)
  qed
qed simp

section \<open>Every due day is paid\<close>

text \<open>A refusal by the constraints means the day was paid before.\<close>

lemma save_balance_error:
  "save_balance uid cols new db = Inl e \<Longrightarrow> e = DoesNotExist \<or> e = DataError"
  by (auto simp: save_balance_def lock_balance_def bind_result_Inl_iff of_option_def split: option.splits if_splits)

lemma earned_gift_refused:
  assumes "db_of (add_earned new_balance uid n ''subscription_gift''
      [Kw_payment_reference ref, Kw_description d] (get_or_create_balance uid db)) = Inl (IntegrityError c)"
  shows "gifts_of ref db \<noteq> []"
proof -
  obtain b0 where db0: "get_or_create_balance uid db = db\<lparr>balances := b0\<rparr>" using get_or_create_form by blast
  let ?t = "(new_transaction uid ''subscription_gift'' n (now db))\<lparr>payment_reference := ref, description := d\<rparr>"
  obtain db1 b1 where cr: "create_transaction ?t db1 = Inl (IntegrityError c)" and db1: "db1 = db\<lparr>balances := b1\<rparr>"
    using assms unfolding db0
    by (auto simp: db_of_def add_earned_def save_and_log_def bind_result_Inl_iff lock_balance_def Let_def
        save_balance_Inr of_option_def split: option.splits if_splits dest: save_balance_error)
  have "is_successful ?t" "transaction_type ?t = ''subscription_gift''" "payment_reference ?t = ref"
    by (simp_all add: new_transaction_def)
  then show ?thesis
    using cr db1
    by (auto simp: create_transaction_def same_pending_reference_def same_grant_def list_ex_iff gifts_of_def
        filter_empty_conv split: if_splits)
qed

lemma grant_for_day_pays:
  assumes g: "grant_for_day pk pay d db = (Inr n, db')" and inv: "gift_inv pk (tier_of_payment pay db) db"
    and due: "coins_for_day (tier_of_payment pay db) d \<noteq> 0" "user_of_payment pay db = Some uid"
  shows "day_paid pk (tier_of_payment pay db) d db'"
proof -
  let ?n = "int (coins_for_day (tier_of_payment pay db) d)"
  let ?r = "db_of (add_earned new_balance uid ?n ''subscription_gift''
                  [Kw_payment_reference (reference_for pk d),
                   Kw_description (tier_name (the (tier_of_payment pay db)) @ '' subscription gift (day {})'', [int d])]
                  (get_or_create_balance uid db))"
  have s: "settle_grant ?n db ?r = (Inr n, db')"
    using g due by (simp add: grant_for_day_def Let_def)
  show ?thesis
  proof (cases ?r)
    case (Inl e)
    with s obtain c where e: "e = IntegrityError c" and "db' = db" by (cases e) (auto simp: settle_grant_def)
    have "?r = Inl (IntegrityError c)" using Inl e by simp
    then have "gifts_of (reference_for pk d) db \<noteq> []" by (rule earned_gift_refused)
    with inv \<open>db' = db\<close> show ?thesis by (auto simp: gift_inv_def)
  next
    case (Inr db1)
    with s have "?r = Inr db'" by (simp add: settle_grant_def)
    then show ?thesis
      by (rule earned_gift_row) (simp add: day_paid_def gifts_of_add)
  qed
qed

lemma grant_days_pays:
  assumes len: "length pk = 36"
  shows "grant_days pk pay ds db = (Inr n, db') \<Longrightarrow> gift_inv pk tier db \<Longrightarrow> tier_of_payment pay db = tier \<Longrightarrow>
    user_of_payment pay db = Some uid \<Longrightarrow>
    (\<forall>d\<in>set ds. coins_for_day tier d \<noteq> 0 \<longrightarrow> day_paid pk tier d db') \<and> (\<forall>d. day_paid pk tier d db \<longrightarrow> day_paid pk tier d db')"
proof (induction ds arbitrary: db n)
  case (Cons d ds)
  obtain m db1 k where g: "grant_for_day pk pay d db = (Inr m, db1)" and g2: "grant_days pk pay ds db1 = (Inr k, db')"
    using Cons.prems(1) by (auto split: prod.splits sum.splits)
  have fr: "same_tables db db1" using g by (rule grant_for_day_frame)
  have tier: "tier_of_payment pay db1 = tier" and user: "user_of_payment pay db1 = Some uid"
    using same_tables_tier [OF fr] same_tables_user [OF fr] Cons.prems(3,4) by simp_all
  have inv: "gift_inv pk tier db1"
    using g Cons.prems(2) len len Cons.prems(3) by (rule grant_for_day_inv)
  have d: "coins_for_day tier d \<noteq> 0 \<Longrightarrow> day_paid pk tier d db1"
    using grant_for_day_pays [OF g] Cons.prems by simp
  have keep: "day_paid pk tier e db \<Longrightarrow> day_paid pk tier e db1" for e
    using grant_for_day_keeps [OF g _ len len] by blast
  show ?case using Cons.IH [OF g2 inv tier user] d keep by auto
qed simp

lemma paid_sum:
  assumes "gift_inv pk tier db" and "\<forall>d\<in>set ds. coins_for_day tier d \<noteq> 0 \<longrightarrow> day_paid pk tier d db"
  shows "(\<Sum>d\<leftarrow>ds. sum_list (map coins (gifts_of (reference_for pk d) db))) = (\<Sum>d\<leftarrow>ds. int (coins_for_day tier d))"
  using assms(2)
proof (induction ds)
  case (Cons d ds)
  have "sum_list (map coins (gifts_of (reference_for pk d) db)) = int (coins_for_day tier d)"
  proof (cases "day_paid pk tier d db")
    case True
    then show ?thesis by (auto simp: day_paid_def)
  next
    case False
    then have "gifts_of (reference_for pk d) db = []" using assms(1) unfolding gift_inv_def by blast
    then show ?thesis using False Cons.prems by auto
  qed
  with Cons show ?case by simp
qed simp

lemma inv_sum_le:
  assumes "gift_inv pk tier db"
  shows "(\<Sum>d\<leftarrow>ds. sum_list (map coins (gifts_of (reference_for pk d) db))) \<le> (\<Sum>d\<leftarrow>ds. int (coins_for_day tier d))"
proof (induction ds)
  case (Cons d ds)
  have "sum_list (map coins (gifts_of (reference_for pk d) db)) \<le> int (coins_for_day tier d)"
    using assms by (auto simp: gift_inv_def day_paid_def dest: spec [of _ d])
  with Cons show ?case by simp
qed simp

lemma sum_coins_for_days:
  "k \<le> length (schedule_for tier) \<Longrightarrow>
   (\<Sum>d\<leftarrow>[1..<Suc k]. int (coins_for_day tier d)) = int (sum_list (take k (schedule_for tier)))"
proof (induction k)
  case (Suc k)
  then have "coins_for_day tier (Suc k) = schedule_for tier ! k" by (simp add: coins_for_day_def)
  with Suc show ?case by (simp add: take_Suc_conv_app_nth)
qed simp

lemma schedule_total: "0 < plan_days tier \<Longrightarrow> sum_list (schedule_for tier) = plan_total tier"
  by (simp add: schedule_for_def sum_daily_schedule)

section \<open>Sweeps and webhooks in any order\<close>

text \<open>A grant attempt for a payment at an instant, from the sweep or from the signal.\<close>

definition grant_event :: "string \<times> int \<Rightarrow> 'a sub_db_scheme \<Rightarrow> 'a sub_db_scheme" where
  "grant_event e db = (case payments db (fst e) of None \<Rightarrow> db | Some pay \<Rightarrow> snd (grant_due (fst e) pay (snd e) db))"

definition uuid_keys :: "'a sub_db_scheme \<Rightarrow> bool" where
  "uuid_keys db \<longleftrightarrow> (\<forall>pk. payments db pk \<noteq> None \<longrightarrow> length pk = 36)"

lemma grant_due_frame:
  assumes "grant_due pk pay t db = (r, db')"
  shows "same_tables db db'"
proof (cases "db' = db")
  case False
  with assms obtain ds where "grant_days pk pay ds db = (r, db')"
    by (auto simp: grant_due_def split: if_splits)
  then show ?thesis by (rule grant_days_frame)
qed simp

lemma grant_due_inv:
  assumes "grant_due pk' pay' t db = (r, db')" and "gift_inv pk tier db" and "length pk = 36" "length pk' = 36"
    and "pk' = pk \<Longrightarrow> tier_of_payment pay' db = tier"
  shows "gift_inv pk tier db'"
proof (cases "db' = db")
  case False
  with assms(1) obtain ds where "grant_days pk' pay' ds db = (r, db')"
    by (auto simp: grant_due_def split: if_splits)
  then show ?thesis using grant_days_inv [OF assms(3,4) _ assms(2) assms(5)] by blast
qed (use assms in simp)

lemma grant_events_inv:
  assumes "uuid_keys db" and "payments db pk = Some pay" and "tier_of_payment pay db = tier"
    and "gift_inv pk tier db"
  shows "gift_inv pk tier (fold grant_event es db) \<and> same_tables db (fold grant_event es db)"
  using assms
proof (induction es arbitrary: db)
  case (Cons e es)
  have "gift_inv pk tier (grant_event e db) \<and> same_tables db (grant_event e db)"
  proof (cases "payments db (fst e)")
    case (Some pay')
    obtain r db' where g: "grant_due (fst e) pay' (snd e) db = (r, db')" by force
    have len: "length pk = 36" "length (fst e) = 36"
      using Cons.prems Some by (auto simp: uuid_keys_def)
    have "gift_inv pk tier db'"
      using g Cons.prems(4) len by (rule grant_due_inv) (use Some Cons.prems in auto)
    then show ?thesis using g Some grant_due_frame [OF g] by (simp add: grant_event_def)
  qed (use Cons.prems in \<open>simp add: grant_event_def\<close>)
  moreover from this have "uuid_keys (grant_event e db)" "payments (grant_event e db) pk = Some pay"
    "tier_of_payment pay (grant_event e db) = tier"
    using Cons.prems by (auto simp: uuid_keys_def same_tables_def dest: same_tables_tier [of db])
      (metis same_tables_def same_tables_tier)
  ultimately show ?case using Cons.IH same_tables_trans by fastforce
qed simp

section \<open>A concrete store\<close>

definition example_uuid :: string where
  "example_uuid = ''123e4567-e89b-12d3-a456-426614174000''"

definition example_payment :: subscription_payment where
  "example_payment = \<lparr>pay_subscription = 3, pay_user = Some 1, pay_transaction_id = None, pay_amount = 2000,
     pay_status = ''completed'', pay_method = ''telebirr'', pay_phone = None, period_start = 0, period_end = 7 * one_day\<rparr>"

definition example_gifts :: sub_db where
  "example_gifts = example_subs
     \<lparr>plans := (plans example_subs)(3 \<mapsto> started_plan (Some weekly_tier) 0 (new_plan 1 2)),
      payments := (\<lambda>_. None)(example_uuid \<mapsto> example_payment), payment_ids := [example_uuid]\<rparr>"

lemma example_gifts_ok:
  "uuid_keys example_gifts" "payments example_gifts example_uuid = Some example_payment"
  "tier_of_payment example_payment example_gifts = Some weekly_tier" "gift_inv example_uuid (Some weekly_tier) example_gifts"
  "user_of_payment example_payment example_gifts = Some 1"
  by (simp_all add: example_gifts_def example_subs_def uuid_keys_def example_uuid_def tier_of_payment_def
      tier_of_plan_def example_payment_def gift_inv_def gifts_of_def user_of_payment_def)
    (simp add: new_plan_def)

section \<open>Properties\<close>

text \<open>
  The daily amounts are a fair split of the plan's total: one amount per day of the plan, summing to
  the total exactly, differing by at most one coin, larger amounts first.
\<close>
theorem daily_schedule_fair:
  assumes "0 < days" and "0 < tot"
  shows "length (daily_schedule tot days) = days \<and> sum_list (daily_schedule tot days) = tot \<and>
         (\<forall>x \<in> set (daily_schedule tot days). x = tot div days \<or> x = tot div days + 1) \<and>
         sorted (rev (daily_schedule tot days))"
proof -
  have "sorted_wrt (\<ge>) (daily_schedule tot days)"
    unfolding sorted_wrt_iff_nth_less by (auto intro: daily_schedule_antimono)
  then show ?thesis
    using assms by (auto simp: length_daily_schedule sum_daily_schedule sorted_wrt_rev dest: daily_schedule_even)
qed

theorem daily_schedule_fair_witness:
  "daily_schedule 25 7 = [4, 4, 4, 4, 3, 3, 3] \<and> sum_list (daily_schedule 25 7) = 25"
  using daily_schedule_fair [of 7 25] by (simp add: daily_schedule_def upt_rec)

text \<open>
  C6. Nobody is gifted twice for a day. Starting from clean books, however many sweeps, retries and
  webhook deliveries run, for this payment and for others, at whatever times, each day of the payment
  is in the ledger at most once and for its scheduled amount, and the whole never exceeds the plan's
  total.
\<close>
theorem daily_gifts_never_twice:
  assumes "uuid_keys db" and "payments db pk = Some pay" and "tier_of_payment pay db = tier"
    and "gift_inv pk tier db" and "0 < plan_days tier"
  shows "gift_inv pk tier (fold grant_event es db) \<and>
         gifted pk (length (schedule_for tier)) (fold grant_event es db) \<le> int (plan_total tier)"
proof -
  have inv: "gift_inv pk tier (fold grant_event es db)"
    using grant_events_inv [OF assms(1-4)] by blast
  have "gifted pk (length (schedule_for tier)) (fold grant_event es db) \<le>
      (\<Sum>d\<leftarrow>[1..<Suc (length (schedule_for tier))]. int (coins_for_day tier d))"
    unfolding gifted_def by (rule inv_sum_le [OF inv])
  also have "\<dots> = int (plan_total tier)"
    using sum_coins_for_days [of "length (schedule_for tier)" tier] schedule_total [OF assms(5)] by simp
  finally show ?thesis using inv by blast
qed

theorem daily_gifts_never_twice_witness:
  "gifted example_uuid (length (schedule_for (Some weekly_tier)))
     (fold grant_event [(example_uuid, 0), (example_uuid, 2 * one_day), (example_uuid, 2 * one_day)] example_gifts)
     \<le> int (plan_total (Some weekly_tier)) \<and> plan_total (Some weekly_tier) = 25"
proof -
  have "0 < plan_days (Some weekly_tier)" "plan_total (Some weekly_tier) = 25"
    by (simp_all add: plan_days_def plan_total_def weekly_tier_def)
  then show ?thesis using daily_gifts_never_twice [OF example_gifts_ok(1-4)] by blast
qed

text \<open>
  C7. Missed days are caught up. When a grant for a completed payment of a running plan returns, every
  day of the period up to today is in the ledger and the subscriber has been paid exactly the first
  that many amounts of the schedule; on the last day that is the plan's total.
\<close>
theorem grant_due_catches_up:
  assumes "length pk = 36" and "gift_inv pk tier db" and "tier_of_payment pay db = tier"
    and "user_of_payment pay db = Some uid" and "pay_status pay = ''completed''"
    and "plans db (pay_subscription pay) = Some p" "earning (plan_status p)"
    and "\<not> paid_in_full_by_the_old_rule pk db" and "1 \<le> day_index pay t"
    and "grant_due pk pay t db = (Inr n, db')"
  shows "gifted pk (min (day_index pay t) (length (schedule_for tier))) db' =
         int (sum_list (take (min (day_index pay t) (length (schedule_for tier))) (schedule_for tier)))"
proof -
  let ?k = "min (day_index pay t) (length (schedule_for tier))"
  have g: "grant_days pk pay [1..<Suc ?k] db = (Inr n, db')"
    using assms by (simp add: grant_due_def)
  have inv: "gift_inv pk tier db'"
    using grant_due_inv [OF assms(10,2,1,1)] assms(3) by blast
  have "\<forall>d\<in>set [1..<Suc ?k]. coins_for_day tier d \<noteq> 0 \<longrightarrow> day_paid pk tier d db'"
    using grant_days_pays [OF assms(1) g assms(2-4)] by blast
  from paid_sum [OF inv this] show ?thesis
    unfolding gifted_def using sum_coins_for_days [of ?k tier] by simp
qed

theorem grant_due_catches_up_witness:
  "\<exists>n db'. grant_due example_uuid example_payment (3 * one_day) example_gifts = (Inr n, db') \<and>
          gifted example_uuid 4 db' = 16"
proof -
  have sched: "schedule_for (Some weekly_tier) = [4, 4, 4, 4, 3, 3, 3]"
    by (simp add: schedule_for_def plan_total_def plan_days_def weekly_tier_def daily_schedule_def upt_rec)
  have day: "day_index example_payment (3 * one_day) = 4"
    by (simp add: day_index_def example_payment_def one_day_def one_hour_def)
  have "isl (fst (grant_due example_uuid example_payment (3 * one_day) example_gifts)) = False"
    by code_simp
  then obtain n db' where g: "grant_due example_uuid example_payment (3 * one_day) example_gifts = (Inr n, db')"
    by (metis prod.collapse sum.collapse(2))
  have pre: "length example_uuid = 36" "pay_status example_payment = ''completed''"
    "plans example_gifts (pay_subscription example_payment) = Some (started_plan (Some weekly_tier) 0 (new_plan 1 2))"
    "earning (plan_status (started_plan (Some weekly_tier) 0 (new_plan 1 2)))"
    "\<not> paid_in_full_by_the_old_rule example_uuid example_gifts" "1 \<le> day_index example_payment (3 * one_day)"
    by (simp_all add: example_uuid_def example_payment_def example_gifts_def example_subs_def earning_def
        started_plan_def Let_def weekly_tier_def paid_in_full_by_the_old_rule_def gift_exists_def day
        day_index_def one_day_def one_hour_def)
  have "gifted example_uuid 4 db' = 16"
    using grant_due_catches_up [OF pre(1) example_gifts_ok(4,3,5) pre(2-6) g]
    by (simp add: day sched eval_nat_numeral)
  with g show ?thesis by blast
qed

end
