(* ===== verification/Coin_Pricing.thy ===== *)
theory Coin_Pricing
  imports Coin_Balance Wallet_Config
begin

text \<open>
  What an amount of birr buys: \<open>api/services/coin_pricing.py\<close>, the package list of
  \<open>api/services/coin_packages.py\<close>, and the refusal bodies of \<open>api/services/coin_purchase.py\<close>.
  Money is counted in hundredths of a birr; the rate and the product with it are rounded decimals.
\<close>

section \<open>Decimal literals\<close>

text \<open>A \<open>decimal.Decimal\<close>: sign, coefficient and exponent, or a special value.\<close>

datatype decimal = Finite bool nat int | Infinite bool | Not_a_number

definition split_digits :: "string \<Rightarrow> string \<times> string" where
  "split_digits s = (takeWhile is_digit s, dropWhile is_digit s)"

definition split_sign :: "string \<Rightarrow> bool \<times> string" where
  "split_sign s = (case s of [] \<Rightarrow> (False, [])
     | c # r \<Rightarrow> if c = CHR ''-'' then (True, r) else if c = CHR ''+'' then (False, r) else (False, s))"

text \<open>The exponent part: nothing, or \<open>e\<close>, an optional sign and digits up to the end.\<close>

definition parse_exponent :: "string \<Rightarrow> int option" where
  "parse_exponent s =
     (case s of [] \<Rightarrow> Some 0
      | c # r \<Rightarrow>
          if c = CHR ''e'' \<or> c = CHR ''E'' then
            (let (neg, d) = split_sign r
             in if d \<noteq> [] \<and> list_all is_digit d
                then Some (if neg then - int (nat_of_digits d) else int (nat_of_digits d)) else None)
          else None)"

definition parse_unsigned :: "bool \<Rightarrow> string \<Rightarrow> decimal option" where
  "parse_unsigned neg s =
     (let (whole, r) = split_digits s;
          (frac, r') = (case r of [] \<Rightarrow> ([], []) | c # t \<Rightarrow> if c = CHR ''.'' then split_digits t else ([], r))
      in if whole = [] \<and> frac = [] then None
         else (case parse_exponent r' of
                 None \<Rightarrow> None
               | Some e \<Rightarrow> Some (Finite neg (nat_of_digits (whole @ frac)) (e - int (length frac)))))"

definition decimal_of_string :: "string \<Rightarrow> decimal option" where
  "decimal_of_string raw =
     (let (neg, s) = split_sign (filter (\<lambda>c. c \<noteq> CHR ''_'') (strip raw))
      in if lower s = ''inf'' \<or> lower s = ''infinity'' then Some (Infinite neg)
         else if startswith ''nan'' (lower s) \<and> list_all is_digit (drop 3 s) then Some Not_a_number
         else if startswith ''snan'' (lower s) \<and> list_all is_digit (drop 4 s) then Some Not_a_number
         else parse_unsigned neg s)"

section \<open>\<open>parse_amount\<close>\<close>

datatype pricing_error = CoinPricingError string message | InvalidOperation

definition pricing_error :: "string \<Rightarrow> string \<Rightarrow> pricing_error" where
  "pricing_error cd msg = CoinPricingError cd (msg, [])"

text \<open>
  The input is \<open>str(raw)\<close>, or nothing when the client sent none. Quantizing to two places signals
  \<open>InvalidOperation\<close> when the result needs more than 28 digits. The result is in hundredths.
\<close>

definition parse_amount :: "string option \<Rightarrow> pricing_error + int" where
  "parse_amount raw =
     (case raw of
        None \<Rightarrow> Inl (pricing_error ''amount_required'' ''Enter an amount in Birr.'')
      | Some s \<Rightarrow>
          if strip s = [] then Inl (pricing_error ''amount_required'' ''Enter an amount in Birr.'')
          else case decimal_of_string s of
            None \<Rightarrow> Inl (pricing_error ''amount_invalid'' ''Enter a valid amount in Birr.'')
          | Some (Infinite _) \<Rightarrow> Inl (pricing_error ''amount_invalid'' ''Enter a valid amount in Birr.'')
          | Some Not_a_number \<Rightarrow> Inl (pricing_error ''amount_invalid'' ''Enter a valid amount in Birr.'')
          | Some (Finite neg c e) \<Rightarrow>
              if neg \<or> c = 0 then Inl (pricing_error ''amount_not_positive'' ''Enter an amount greater than 0.'')
              else if e < - 2 then
                Inl (pricing_error ''amount_too_precise'' ''Amounts can have at most 2 decimal places.'')
              else if 28 < int (ndigits c) + (e + 2) then Inl InvalidOperation
              else Inr (int c * 10 ^ nat (e + 2)))"

text \<open>\<open>_money\<close>: two places, always.\<close>

definition money :: "int \<Rightarrow> string" where
  "money n = (if n < 0 then ''-'' else []) @ show_nat (nat \<bar>n\<bar> div 100) @ ''.'' @
     [digit_char (nat \<bar>n\<bar> div 10 mod 10), digit_char (nat \<bar>n\<bar> mod 10)]"

section \<open>Rates and quotes\<close>

type_synonym package_row = "nat \<times> coin_package"

definition active_packages :: "package_row list \<Rightarrow> package_row list" where
  "active_packages rows = filter (\<lambda>(_, p). pkg_is_active p \<and> \<not> price_etb p \<le> 0) rows"

definition package_rate :: "coin_package \<Rightarrow> rat" where
  "package_rate p = dec_div (of_int (coin_amount p)) (of_int (price_etb p) / 100)"

definition base_coins_per_birr :: "package_row list \<Rightarrow> rat option" where
  "base_coins_per_birr rows =
     (case map (package_rate \<circ> snd) (filter (\<lambda>(_, p). \<not> (price_etb p \<le> 0 \<or> coin_amount p = 0)) rows) of
        [] \<Rightarrow> None
      | r # rs \<Rightarrow> Some (foldl min r rs))"

definition limits :: "wallet_config \<Rightarrow> int \<times> int" where
  "limits c = (custom_purchase_min_etb (cfg_purchase_settings c),
               custom_purchase_max_etb (cfg_purchase_settings c))"

record quotation =
  q_amount :: int
  q_coins :: int
  q_package :: "nat option"
  q_bonus :: int

definition custom_coins :: "int \<Rightarrow> rat \<Rightarrow> int" where
  "custom_coins amount rate = \<lfloor>dec_mult (of_int amount / 100) rate\<rfloor>"

definition quote :: "wallet_config \<Rightarrow> package_row list \<Rightarrow> string option \<Rightarrow> pricing_error + quotation" where
  "quote c rows raw =
     (case parse_amount raw of
        Inl e \<Rightarrow> Inl e
      | Inr amount \<Rightarrow>
          if amount < fst (limits c) then
            Inl (pricing_error ''below_minimum'' (''The smallest purchase is '' @ money (fst (limits c)) @ '' Birr.''))
          else if amount > snd (limits c) then
            Inl (pricing_error ''above_maximum'' (''The largest purchase is '' @ money (snd (limits c)) @ '' Birr.''))
          else case find (\<lambda>(_, p). price_etb p = amount) rows of
            Some (i, p) \<Rightarrow>
              Inr \<lparr>q_amount = amount, q_coins = get_total_coins p, q_package = Some i, q_bonus = bonus_coins p\<rparr>
          | None \<Rightarrow>
              (case base_coins_per_birr rows of
                 None \<Rightarrow> Inl (pricing_error ''pricing_unavailable''
                           ''Coin pricing is unavailable right now. Please try again later.'')
               | Some rate \<Rightarrow>
                   if rate = 0 then Inl (pricing_error ''pricing_unavailable''
                           ''Coin pricing is unavailable right now. Please try again later.'')
                   else if custom_coins amount rate \<le> 0 then
                     Inl (pricing_error ''below_minimum'' (money amount @ '' Birr is too small to buy a coin.''))
                   else Inr \<lparr>q_amount = amount, q_coins = custom_coins amount rate, q_package = None, q_bonus = 0\<rparr>))"

record public_price_list =
  enabled :: bool
  public_rate :: "rat option"
  min_etb :: string
  max_etb :: string
  decimal_places :: nat

definition public_pricing :: "wallet_config \<Rightarrow> package_row list \<Rightarrow> public_price_list" where
  "public_pricing c rows =
     (let rate = base_coins_per_birr (active_packages rows)
      in \<lparr>enabled = (rate \<noteq> None), public_rate = rate, min_etb = money (fst (limits c)),
          max_etb = money (snd (limits c)), decimal_places = 2\<rparr>)"

section \<open>The packages offered\<close>

definition COINS_PER_ETB :: int where
  "COINS_PER_ETB = 10"

definition COIN_PACKAGES :: "coin_package list" where
  "COIN_PACKAGES =
    [\<lparr>pkg_name = ''Starter Pack'', price_etb = 1000, coin_amount = 100, bonus_coins = 0, pkg_is_active = True\<rparr>,
     \<lparr>pkg_name = ''Most Popular'', price_etb = 5000, coin_amount = 500, bonus_coins = 75, pkg_is_active = True\<rparr>,
     \<lparr>pkg_name = ''Best Deal'', price_etb = 10000, coin_amount = 1000, bonus_coins = 200, pkg_is_active = True\<rparr>,
     \<lparr>pkg_name = ''Premium Package'', price_etb = 25000, coin_amount = 2500, bonus_coins = 625, pkg_is_active = True\<rparr>,
     \<lparr>pkg_name = ''Ultimate Package'', price_etb = 50000, coin_amount = 5000, bonus_coins = 1500, pkg_is_active = True\<rparr>]"

definition SUPPORTED_PRICES :: "int list" where
  "SUPPORTED_PRICES = map price_etb COIN_PACKAGES"

definition seeded_rows :: "package_row list" where
  "seeded_rows = zip [0..<length COIN_PACKAGES] COIN_PACKAGES"

section \<open>Refusing for want of coins\<close>

record coins_payload =
  cp_code :: string
  required_coins :: int
  current_coins :: int
  shortfall :: int

definition insufficient_coins_payload :: "int option \<Rightarrow> int option \<Rightarrow> coins_payload" where
  "insufficient_coins_payload required bal =
     (let r = (case required of None \<Rightarrow> 0 | Some n \<Rightarrow> n); b = (case bal of None \<Rightarrow> 0 | Some n \<Rightarrow> n)
      in \<lparr>cp_code = ''INSUFFICIENT_COINS'', required_coins = r, current_coins = b, shortfall = max (r - b) 0\<rparr>)"

section \<open>Reading back what was printed\<close>

lemma digit_not_special:
  "is_digit c \<Longrightarrow> c \<noteq> CHR ''-'' \<and> c \<noteq> CHR ''+'' \<and> c \<noteq> CHR ''_'' \<and> c \<noteq> CHR ''.''"
  by (auto simp: is_digit_def code_def)

lemma lstrip_id: "s \<noteq> [] \<Longrightarrow> \<not> is_space (hd s) \<Longrightarrow> lstrip s = s"
  by (cases s) (auto simp: lstrip_def)

lemma rstrip_id: "s \<noteq> [] \<Longrightarrow> \<not> is_space (last s) \<Longrightarrow> rstrip s = s"
  by (cases s rule: rev_cases) (auto simp: rstrip_def)

lemma strip_id: "s \<noteq> [] \<Longrightarrow> \<not> is_space (hd s) \<Longrightarrow> \<not> is_space (last s) \<Longrightarrow> strip s = s"
  by (simp add: strip_def lstrip_id rstrip_id)

lemma parse_unsigned_fixed:
  assumes "list_all is_digit w" "w \<noteq> []" "list_all is_digit f"
  shows "parse_unsigned neg (w @ ''.'' @ f) = Some (Finite neg (nat_of_digits (w @ f)) (- int (length f)))"
proof -
  have dot: "\<not> is_digit (CHR ''.'')" by (simp add: is_digit_def code_def)
  have "split_digits (w @ CHR ''.'' # f) = (w, CHR ''.'' # f)"
    using takeWhile_digits [OF assms(1), of "CHR ''.'' # f"] dot by (simp add: split_digits_def)
  moreover have "split_digits f = (f, [])"
    using takeWhile_digits [OF assms(3), of "[]"] by (simp add: split_digits_def)
  ultimately show ?thesis
    using assms(2) by (simp add: parse_unsigned_def parse_exponent_def)
qed

lemma decimal_of_digits:
  assumes "list_all is_digit w" "w \<noteq> []" "list_all is_digit f" "f \<noteq> []"
  shows "decimal_of_string (w @ ''.'' @ f) = Some (Finite False (nat_of_digits (w @ f)) (- int (length f)))"
proof -
  let ?s = "w @ ''.'' @ f"
  obtain c w' where w: "w = c # w'" using assms(2) by (cases w) auto
  have c: "is_digit c" using assms(1) w by simp
  have last: "is_digit (last f)" using assms(3,4) by (simp add: list_all_iff)
  have strip: "strip ?s = ?s"
    using c last assms(4) w by (intro strip_id) (auto simp: is_digit_not_space)
  have "x \<noteq> CHR ''_''" if "x \<in> set ?s" for x
    using that assms(1,3) digit_not_special [of x] by (auto simp: list_all_iff)
  then have filt: "filter (\<lambda>c. c \<noteq> CHR ''_'') ?s = ?s" by (simp add: filter_id_conv)
  have sign: "split_sign ?s = (False, ?s)"
    using digit_not_special [OF c] w by (simp add: split_sign_def)
  have low: "lower_char c = c" using c by (auto simp: lower_char_def is_upper_def is_digit_def)
  have "c \<noteq> CHR ''i'' \<and> c \<noteq> CHR ''n'' \<and> c \<noteq> CHR ''s''"
    using c by (auto simp: is_digit_def code_def)
  then have "lower ?s \<noteq> ''inf''" "lower ?s \<noteq> ''infinity''" "\<not> startswith ''nan'' (lower ?s)"
    "\<not> startswith ''snan'' (lower ?s)"
    using low w by (auto simp: lower_def startswith_def)
  then show ?thesis
    using strip filt sign parse_unsigned_fixed [OF assms(1-3), of False]
    by (simp add: decimal_of_string_def)
qed

lemma ndigits_le: "0 < n \<Longrightarrow> n < 10 ^ k \<Longrightarrow> ndigits n \<le> k"
proof -
  assume n: "0 < n" "n < 10 ^ k"
  then have "(10::nat) ^ (ndigits n - 1) < 10 ^ k" using ndigits_bounds [of n] by linarith
  then show "ndigits n \<le> k" by (simp add: ndigits_pos Suc_leI)
qed

lemma money_nonempty: "money n \<noteq> []"
  by (simp add: money_def)

lemma parse_money:
  assumes "0 < n" and "n < 10 ^ 28"
  shows "parse_amount (Some (money n)) = Inr n"
proof -
  obtain k where k: "n = int k" using assms(1) by (metis zero_le_imp_eq_int less_imp_le)
  have k0: "0 < k" "k < 10 ^ 28" using assms k by (simp, simp flip: of_nat_less_iff)
  let ?w = "show_nat (k div 100)" and ?f = "[digit_char (k div 10 mod 10), digit_char (k mod 10)]"
  have money: "money n = ?w @ ''.'' @ ?f" using k by (simp add: money_def nat_abs_int_diff)
  have "nat_of_digits (?w @ ?f) = 10 * (10 * (k div 100) + k div 10 mod 10) + k mod 10"
    using nat_of_digits_snoc [of "?w @ [digit_char (k div 10 mod 10)]" "digit_char (k mod 10)"] by simp
  also have "\<dots> = k" using div_mult2_eq [of k 10 10] by simp
  finally have val: "nat_of_digits (?w @ ?f) = k" .
  have dec: "decimal_of_string (money n) = Some (Finite False k (- 2))"
    using decimal_of_digits [of ?w ?f] show_nat_digits val unfolding money by simp
  have "list_all is_digit (?w @ ?f)" by (simp add: show_nat_digits)
  then have "\<not> is_space (hd (money n))" "\<not> is_space (last (money n))"
    unfolding money by (cases ?w; simp add: is_digit_not_space)+
  then have "strip (money n) = money n" unfolding money by (intro strip_id) auto
  moreover have "ndigits k \<le> 28" using k0 by (rule ndigits_le)
  ultimately show ?thesis
    using dec k0 k by (simp add: parse_amount_def money_nonempty)
qed

section \<open>What a quote promises\<close>

lemma parse_amount_pos: "parse_amount raw = Inr n \<Longrightarrow> 0 < n"
  by (auto simp: parse_amount_def split: option.splits decimal.splits if_splits)

lemma foldl_min_mem: "foldl min (r::'a::linorder) rs \<in> set (r # rs) \<and> (\<forall>x\<in>set (r # rs). foldl min r rs \<le> x)"
proof (induction rs arbitrary: r)
  case (Cons a rs)
  from Cons.IH [of "min r a"] show ?case by (auto simp: min_def split: if_splits)
qed simp

lemma foldl_min_const: "(\<And>x. x \<in> set (r # rs) \<Longrightarrow> x = (a::'a::linorder)) \<Longrightarrow> foldl min r rs = a"
  using foldl_min_mem [of r rs] by blast

definition uniform_rate :: "int \<Rightarrow> package_row list \<Rightarrow> bool" where
  "uniform_rate k rows \<longleftrightarrow>
     rows \<noteq> [] \<and> list_all (\<lambda>(_, p). 0 < price_etb p \<and> 100 * coin_amount p = k * price_etb p) rows"

lemma base_rate_uniform:
  assumes k: "0 < k" "k < 10 ^ 28" and u: "uniform_rate k rows"
  shows "base_coins_per_birr rows = Some (of_int k)"
proof -
  have pos: "0 < price_etb p" "coin_amount p \<noteq> 0" "package_rate p = of_int k" if "(i, p) \<in> set rows" for i p
  proof -
    from u that have p: "0 < price_etb p" "100 * coin_amount p = k * price_etb p"
      by (auto simp: uniform_rate_def list_all_iff)
    then show "0 < price_etb p" "coin_amount p \<noteq> 0" using k by auto
    have "of_int (coin_amount p) / (of_int (price_etb p) / 100) = (of_int (100 * coin_amount p) :: rat) / of_int (price_etb p)"
      by simp
    also have "\<dots> = of_int k" unfolding p(2) using p(1) by simp
    finally show "package_rate p = of_int k"
      using k by (simp add: package_rate_def dec_div_def dec_round_representable representable_of_int)
  qed
  have filt: "filter (\<lambda>(_, p). \<not> (price_etb p \<le> 0 \<or> coin_amount p = 0)) rows = rows"
    using pos(1,2) by (force simp: filter_id_conv)
  have "x = of_int k" if "x \<in> set (map (package_rate \<circ> snd) rows)" for x
    using that pos(3) by auto
  then show ?thesis
    using u unfolding base_coins_per_birr_def filt
    by (auto simp: uniform_rate_def split: list.splits intro!: foldl_min_const)
qed

lemma custom_coins_exact:
  assumes "0 < k" and "0 \<le> n" and "n * k < 10 ^ 28"
  shows "custom_coins n (of_int k) = n * k div 100"
proof -
  have "representable (of_int (n * k) / 100)"
    using assms by (intro representable_hundredths) simp
  then have "dec_mult (of_int n / 100) (of_int k) = of_int (n * k) / 100"
    using dec_round_representable by (simp add: dec_mult_def)
  then show ?thesis
    unfolding custom_coins_def by (metis floor_divide_of_int_eq of_int_numeral)
qed

lemma custom_coins_mono: "m \<le> n \<Longrightarrow> 0 \<le> rate \<Longrightarrow> custom_coins m rate \<le> custom_coins n rate"
  unfolding custom_coins_def dec_mult_def
  by (intro floor_mono dec_round_mono mult_right_mono divide_right_mono) simp_all

lemma quote_Inr:
  assumes "quote c rows raw = Inr q"
  shows "parse_amount raw = Inr (q_amount q)" and "fst (limits c) \<le> q_amount q" and "q_amount q \<le> snd (limits c)"
    and "case q_package q of
           Some i \<Rightarrow> \<exists>p. (i, p) \<in> set rows \<and> price_etb p = q_amount q \<and> q_coins q = get_total_coins p
         | None \<Rightarrow> 0 < q_coins q \<and> (\<forall>(i, p) \<in> set rows. price_etb p \<noteq> q_amount q) \<and>
             (\<exists>rate. base_coins_per_birr rows = Some rate \<and> q_coins q = custom_coins (q_amount q) rate)"
  using assms
  by (auto simp: quote_def find_None_iff find_Some_iff split: sum.splits if_splits option.splits)
    (metis nth_mem)

section \<open>Properties\<close>

text \<open>
  C12. A printed price is read back as the same amount: parsing the two-place form of any amount of
  up to 26 whole digits gives that amount, to the cent.
\<close>
theorem parse_amount_money_roundtrip:
  assumes "0 < n" and "n < 10 ^ 28"
  shows "parse_amount (Some (money n)) = Inr n"
  using assms by (rule parse_money)

theorem parse_amount_money_roundtrip_witness:
  "money 3705 = ''37.05'' \<and> parse_amount (Some ''37.05'') = Inr 3705"
proof -
  have "money 3705 = ''37.05''" by code_simp
  with parse_amount_money_roundtrip [of 3705] show ?thesis by simp
qed



text \<open>
  Custom amounts are priced exactly at the seeded packages: ten coins a birr, rounded down to a
  whole coin and never up, for every amount in the limits that is not itself a package price.
\<close>
theorem seeded_quote_exact:
  assumes "100 \<le> n" and "n \<le> 100000" and "n \<notin> set SUPPORTED_PRICES"
  shows "quote default_config seeded_rows (Some (money n)) =
           Inr \<lparr>q_amount = n, q_coins = n * COINS_PER_ETB div 100, q_package = None, q_bonus = 0\<rparr>"
proof -
  have u: "uniform_rate 10 seeded_rows"
    by code_simp
  have rate: "base_coins_per_birr seeded_rows = Some (of_int 10)"
    using base_rate_uniform [OF _ _ u] by simp
  have coins: "custom_coins n (of_int 10) = n * 10 div 100"
    using custom_coins_exact [of 10 n] assms by simp
  have "find (\<lambda>(_, p). price_etb p = n) seeded_rows = None"
    using assms(3) by (simp add: seeded_rows_def SUPPORTED_PRICES_def COIN_PACKAGES_def upt_rec)
  moreover have "limits default_config = (100, 100000)"
    by (simp add: limits_def default_config_def default_purchase_settings_def)
  moreover have "parse_amount (Some (money n)) = Inr n"
    using assms by (intro parse_money) simp_all
  ultimately show ?thesis
    using rate coins assms by (simp add: quote_def COINS_PER_ETB_def)
qed

theorem seeded_quote_exact_witness:
  "quote default_config seeded_rows (Some ''5.55'') =
     Inr \<lparr>q_amount = 555, q_coins = 55, q_package = None, q_bonus = 0\<rparr>"
proof -
  have "money 555 = ''5.55''" "(555::int) \<notin> set SUPPORTED_PRICES" by code_simp+
  then show ?thesis using seeded_quote_exact [of 555] by (simp add: COINS_PER_ETB_def)
qed

text \<open>
  Not every malformed amount is refused politely: an amount too large to be written with two
  places in 28 digits escapes \<open>parse_amount\<close> as \<open>InvalidOperation\<close>, which no caller catches, instead
  of the \<open>above_maximum\<close> refusal that a slightly smaller one gets.
\<close>
theorem huge_amount_escapes:
  "quote default_config seeded_rows (Some ''1e27'') = Inl InvalidOperation \<and>
   (\<exists>m. quote default_config seeded_rows (Some ''1e20'') = Inl (CoinPricingError ''above_maximum'' m))"
proof -
  have "quote default_config seeded_rows (Some ''1e27'') = Inl InvalidOperation" by code_simp
  moreover have "decimal_of_string ''1e20'' = Some (Finite False 1 20)" "strip ''1e20'' \<noteq> []" "ndigits 1 = 1"
    by code_simp+
  then have "parse_amount (Some ''1e20'') = Inr (10 ^ 22)"
    by (simp add: parse_amount_def)
  then have "quote default_config seeded_rows (Some ''1e20'') =
      Inl (CoinPricingError ''above_maximum'' (''The largest purchase is '' @ money 100000 @ '' Birr.'', []))"
    by (simp add: quote_def limits_def default_config_def default_purchase_settings_def pricing_error_def)
  ultimately show ?thesis by blast
qed

end
