(* ===== verification/Validators.thy ===== *)
theory Validators
  imports Coin_Pricing
begin

text \<open>
  Input validation shared by the endpoints: Ethiopian phone numbers (\<open>common/validators/phone.py\<close>),
  payment methods (\<open>common/validators/payment.py\<close>) and the PIN policy
  (\<open>common/security/pin_policy.py\<close>), on ASCII text.
\<close>

section \<open>Phone numbers\<close>

definition COUNTRY_CODE :: string where
  "COUNTRY_CODE = ''251''"

definition is_separator :: "char \<Rightarrow> bool" where
  "is_separator c \<longleftrightarrow> is_space c \<or> c = CHR ''-'' \<or> c = CHR ''('' \<or> c = CHR '')''"

text \<open>Nine digits, the first a 7 or a 9.\<close>

definition is_mobile :: "string \<Rightarrow> bool" where
  "is_mobile s \<longleftrightarrow>
     length s = 9 \<and> list_all is_digit s \<and> (hd s = CHR ''7'' \<or> hd s = CHR ''9'')"

definition subscriber_part :: "string option \<Rightarrow> string option" where
  "subscriber_part raw =
     (case raw of
        None \<Rightarrow> None
      | Some r \<Rightarrow>
          (let s = filter (\<lambda>c. \<not> is_separator c) r
           in if s = [] then None
              else (let s1 = (if startswith ''+'' s then tl s else s)
                    in if CHR ''+'' \<in> set s1 then None
                       else (let s2 = (if startswith COUNTRY_CODE s1 then drop 3 s1
                                       else if startswith ''0'' s1 then tl s1 else s1)
                             in if is_mobile s2 then Some s2 else None))))"

definition is_valid_ethiopian_mobile :: "string option \<Rightarrow> bool" where
  "is_valid_ethiopian_mobile raw \<longleftrightarrow> subscriber_part raw \<noteq> None"

definition normalize_ethiopian_phone :: "string option \<Rightarrow> string option" where
  "normalize_ethiopian_phone raw = map_option (\<lambda>p. COUNTRY_CODE @ p) (subscriber_part raw)"

definition lookup_variants :: "string option \<Rightarrow> string list" where
  "lookup_variants raw =
     (case subscriber_part raw of
        None \<Rightarrow> []
      | Some p \<Rightarrow> [COUNTRY_CODE @ p, ''+'' @ COUNTRY_CODE @ p, ''0'' @ p, p])"

definition to_e164 :: "string option \<Rightarrow> string option" where
  "to_e164 raw = map_option (\<lambda>p. ''+'' @ COUNTRY_CODE @ p) (subscriber_part raw)"

definition to_local :: "string option \<Rightarrow> string option" where
  "to_local raw = map_option (\<lambda>p. ''0'' @ p) (subscriber_part raw)"

section \<open>Payment methods\<close>

definition AIRTIME_MAX_ETB :: rat where
  "AIRTIME_MAX_ETB = 10"

text \<open>\<open>None\<close> for a price that does not parse, or is not a number.\<close>

definition as_decimal :: "string \<Rightarrow> decimal option" where
  "as_decimal price = decimal_of_string price"

definition decimal_value :: "bool \<Rightarrow> nat \<Rightarrow> int \<Rightarrow> rat" where
  "decimal_value neg c e = (if neg then - (of_nat c * ten_to e) else of_nat c * ten_to e)"

datatype pay_error = ValidationError message | Comparison_with_NaN

text \<open>Ordering a \<open>Decimal('NaN')\<close> signals; the other special values compare as numbers do.\<close>

definition airtime_allowed :: "string \<Rightarrow> pay_error + bool" where
  "airtime_allowed price =
     (case as_decimal price of
        None \<Rightarrow> Inr False
      | Some Not_a_number \<Rightarrow> Inl Comparison_with_NaN
      | Some (Infinite _) \<Rightarrow> Inr False
      | Some (Finite neg c e) \<Rightarrow> Inr (0 < decimal_value neg c e \<and> decimal_value neg c e \<le> AIRTIME_MAX_ETB))"

definition allowed_pay_methods :: "string \<Rightarrow> pay_error + string list" where
  "allowed_pay_methods price =
     (case airtime_allowed price of
        Inl x \<Rightarrow> Inl x
      | Inr ok \<Rightarrow> Inr (if ok then [''telebirr'', ''airtime''] else [''telebirr'']))"

definition validate_pay_method :: "string option \<Rightarrow> string \<Rightarrow> pay_error + string" where
  "validate_pay_method pm price =
     (let normalised = lower (strip (case pm of None \<Rightarrow> [] | Some s \<Rightarrow> s))
      in if normalised \<notin> {''telebirr'', ''airtime''}
         then Inl (ValidationError (''Unsupported payment method. Choose telebirr or airtime.'', []))
         else case allowed_pay_methods price of
           Inl x \<Rightarrow> Inl x
         | Inr ms \<Rightarrow>
             if normalised \<notin> set ms
             then Inl (ValidationError (''Airtime can only be used for purchases of {} ETB or less. Please pay with telebirr.'', [10]))
             else Inr normalised)"

section \<open>PINs\<close>

definition EXPLICIT_BLOCKLIST :: "string list" where
  "EXPLICIT_BLOCKLIST =
    [''123456'', ''654321'', ''111111'', ''000000'', ''121212'', ''112233'',
     ''123123'', ''159753'', ''789456'', ''147258'', ''987654'', ''246810'',
     ''135790'', ''102030'', ''123321'', ''456789'', ''987456'']"

definition pin_diffs :: "string \<Rightarrow> int list" where
  "pin_diffs pin = map (\<lambda>i. int (digit_value (pin ! (i + 1))) - int (digit_value (pin ! i))) [0..<5]"

definition is_pin_too_weak :: "string \<Rightarrow> bool \<times> string" where
  "is_pin_too_weak pin =
     (if pin = [] \<or> length pin \<noteq> 6 \<or> \<not> list_all is_digit pin then (True, ''PIN must be exactly 6 digits.'')
      else if pin \<in> set EXPLICIT_BLOCKLIST
      then (True, ''This PIN is too common. Please choose a less predictable PIN.'')
      else if list_all (\<lambda>c. c = hd pin) pin then (True, ''PIN cannot be all the same digit.'')
      else if list_all (\<lambda>d. d = 1) (pin_diffs pin) \<or> list_all (\<lambda>d. d = - 1) (pin_diffs pin)
      then (True, ''PIN cannot be a sequential run of digits.'')
      else if pin = rev pin then (True, ''PIN cannot be a palindrome.'')
      else (False, []))"

section \<open>Lemmas\<close>

lemma digit_plain: "is_digit c \<Longrightarrow> \<not> is_separator c \<and> c \<noteq> CHR ''+''"
  by (auto simp: is_separator_def is_digit_not_space dest: digit_not_special)
    (auto simp: is_digit_def code_def)

lemma mobile_plain:
  assumes "is_mobile p"
  shows "filter (\<lambda>c. \<not> is_separator c) p = p" and "CHR ''+'' \<notin> set p" and "p \<noteq> []"
    and "\<not> startswith COUNTRY_CODE p" and "\<not> startswith ''0'' p" and "\<not> startswith ''+'' p"
proof -
  have d: "\<forall>c\<in>set p. is_digit c" using assms by (simp add: is_mobile_def list_all_iff)
  then show "filter (\<lambda>c. \<not> is_separator c) p = p" and "CHR ''+'' \<notin> set p"
    by (auto simp: filter_id_conv dest: digit_plain)
  obtain c r where p: "p = c # r" using assms by (cases p) (auto simp: is_mobile_def)
  then show "p \<noteq> []" by simp
  have "c = CHR ''7'' \<or> c = CHR ''9''" using assms p by (simp add: is_mobile_def)
  then show "\<not> startswith COUNTRY_CODE p" and "\<not> startswith ''0'' p" and "\<not> startswith ''+'' p"
    using p by (auto simp: startswith_def COUNTRY_CODE_def)
qed

lemma digits_plain: "\<not> is_separator (CHR ''2'')" "\<not> is_separator (CHR ''5'')" "\<not> is_separator (CHR ''1'')"
  "\<not> is_separator (CHR ''0'')" "\<not> is_separator (CHR ''+'')"
  by (simp_all add: is_separator_def is_space_def code_def)

text \<open>Every accepted spelling of a subscriber is read as that subscriber.\<close>

lemma spelled:
  assumes "is_mobile p"
  shows "subscriber_part (Some p) = Some p" and "subscriber_part (Some (''251'' @ p)) = Some p"
    and "subscriber_part (Some (''+251'' @ p)) = Some p" and "subscriber_part (Some (''0'' @ p)) = Some p"
  using mobile_plain [OF assms] assms
  by (simp_all add: subscriber_part_def digits_plain startswith_def COUNTRY_CODE_def)

lemma subscriber_part_mobile: "subscriber_part raw = Some p \<Longrightarrow> is_mobile p"
  by (auto simp: subscriber_part_def Let_def split: option.splits if_splits)

section \<open>Properties\<close>

text \<open>
  Phone numbers have one identity. All forms a number is stored or shown in (the stored form, E.164,
  local, and every lookup variant) are read back as the same subscriber, so normalising is idempotent and
  a lookup finds a number however it was written down.
\<close>
theorem phone_forms_agree:
  assumes "subscriber_part raw = Some p"
  shows "normalize_ethiopian_phone (normalize_ethiopian_phone raw) = normalize_ethiopian_phone raw \<and>
         normalize_ethiopian_phone (to_e164 raw) = normalize_ethiopian_phone raw \<and>
         normalize_ethiopian_phone (to_local raw) = normalize_ethiopian_phone raw \<and>
         the (normalize_ethiopian_phone raw) \<in> set (lookup_variants raw) \<and>
         distinct (lookup_variants raw) \<and>
         (\<forall>v \<in> set (lookup_variants raw). subscriber_part (Some v) = Some p \<and>
              set (lookup_variants (Some v)) = set (lookup_variants raw))"
proof -
  have p: "is_mobile p" using assms by (rule subscriber_part_mobile)
  note sp = spelled [OF p] mobile_plain(3-6) [OF p]
  have e: "subscriber_part (Some (CHR ''+'' # CHR ''2'' # CHR ''5'' # CHR ''1'' # p)) = Some p"
    "subscriber_part (Some (CHR ''2'' # CHR ''5'' # CHR ''1'' # p)) = Some p"
    "subscriber_part (Some (CHR ''0'' # p)) = Some p"
    using sp by simp_all
  have "distinct [''251'' @ p, ''+251'' @ p, ''0'' @ p, p]"
  proof -
    have "length p = 9" using p by (simp add: is_mobile_def)
    then show ?thesis by (auto dest: arg_cong [of _ _ length])
  qed
  then show ?thesis
    using assms e sp(1)
    by (auto simp: normalize_ethiopian_phone_def to_e164_def to_local_def lookup_variants_def COUNTRY_CODE_def)
qed

theorem phone_forms_agree_witness:
  "subscriber_part (Some ''+251 94-436 5493'') = Some ''944365493'' \<and>
   normalize_ethiopian_phone (to_local (Some ''+251 94-436 5493'')) = Some ''251944365493''"
proof -
  have p: "subscriber_part (Some ''+251 94-436 5493'') = Some ''944365493''"
    "normalize_ethiopian_phone (Some ''+251 94-436 5493'') = Some ''251944365493''"
    by code_simp+
  then show ?thesis using phone_forms_agree [OF p(1)] by simp
qed

text \<open>
  Airtime pays for small purchases only. A method is accepted exactly when it is telebirr (at
  any price that is not a NaN), or it is airtime and the price is a number above 0 and at most 10 birr;
  nothing that fails to parse as a number widens what is allowed.
\<close>
theorem airtime_only_up_to_ceiling:
  "(validate_pay_method (Some pm) price = Inr m) \<longleftrightarrow>
     m = lower (strip pm) \<and>
     (m = ''telebirr'' \<and> decimal_of_string price \<noteq> Some Not_a_number \<or>
      m = ''airtime'' \<and>
        (\<exists>neg c e. decimal_of_string price = Some (Finite neg c e) \<and>
            0 < decimal_value neg c e \<and> decimal_value neg c e \<le> 10))"
  by (auto simp: validate_pay_method_def Let_def allowed_pay_methods_def airtime_allowed_def as_decimal_def
      AIRTIME_MAX_ETB_def split: option.splits decimal.splits if_splits)

end
