(* ===== verification/Coin_Orders.thy ===== *)
theory Coin_Orders
  imports Subscription_Gift Coin_Pricing Validators
begin

text \<open>
  Buying coins through telebirr (\<open>api/views/wallet.py\<close>): the H5 checkout (\<open>telebirr_initiate_payment\<close>,
  \<open>telebirr_callback\<close>, \<open>telebirr_query_order\<close>, \<open>_credit_telebirr_order\<close>) and the USSD push
  (\<open>telebirr_ussd_purchase\<close>, \<open>telebirr_ussd_webhook\<close>, \<open>telebirr_ussd_status\<close>,
  \<open>_credit_telebirr_ussd_order\<close>), the duplicate guard of \<open>api/services/coin_packages.py\<close>, and the
  subscription payments that arrive on the same webhook (\<open>_activate_ussd_subscription_payment\<close> of
  \<open>api/views/subscription.py\<close>). The provider's client and the verification of its signature are
  parameters.
\<close>

section \<open>The store\<close>

record order_db = sub_db +
  package_ids :: "nat list"
  user_ids :: "nat list"
  usernames :: "nat \<Rightarrow> string"
  sub_history :: "(nat option \<times> nat \<times> string) list"

definition package_rows :: "'a order_db_scheme \<Rightarrow> package_row list" where
  "package_rows db = List.map_filter (\<lambda>i. map_option (Pair i) (packages db i)) (package_ids db)"

section \<open>Crediting a paid order\<close>

text \<open>The rows a confirmation may complete: \<open>get(payment_reference=..., payment_method=..., is_successful=False)\<close>.\<close>

definition open_order :: "string \<Rightarrow> string \<Rightarrow> coin_transaction \<Rightarrow> bool" where
  "open_order pm ref t \<longleftrightarrow> payment_reference t = ref \<and> payment_method t = pm \<and> \<not> is_successful t"

definition open_orders :: "string \<Rightarrow> string \<Rightarrow> 'a coin_db_scheme \<Rightarrow> nat list" where
  "open_orders pm ref db =
     filter (\<lambda>i. open_order pm ref (coin_ledger db ! i)) [0..<length (coin_ledger db)]"

definition order_coins :: "coin_transaction \<Rightarrow> 'a coin_db_scheme \<Rightarrow> int result" where
  "order_coins t db =
     (case package t of
        None \<Rightarrow> Inr (case quoted_coins t of None \<Rightarrow> 0 | Some n \<Rightarrow> n)
      | Some pid \<Rightarrow> bind_result (of_option DoesNotExist (packages db pid)) (\<lambda>p. Inr (get_total_coins p)))"

text \<open>Printing an optional value in an f-string, and the four states.\<close>

definition fmt_opt :: "string option \<Rightarrow> string" where
  "fmt_opt v = (case v of None \<Rightarrow> ''None'' | Some s \<Rightarrow> s)"

fun state_name :: "payment_state \<Rightarrow> string" where
  "state_name SUCCESS = ''SUCCESS''"
| "state_name FAILED = ''FAILED''"
| "state_name PENDING = ''PENDING''"
| "state_name CANCELLED = ''CANCELLED''"

definition package_label :: "coin_transaction \<Rightarrow> 'a coin_db_scheme \<Rightarrow> string option" where
  "package_label t db = map_option pkg_name (Option.bind (package t) (packages db))"

definition credited_row :: "int \<Rightarrow> string \<Rightarrow> message \<Rightarrow> coin_transaction \<Rightarrow> coin_transaction" where
  "credited_row n ref desc t =
     t\<lparr>coins := n, is_successful := True, tx_payment_state := SUCCESS, payment_reason := None,
       payment_reference := ref, description := desc\<rparr>"

definition purchase_columns :: "balance_field list" where
  "purchase_columns = [F_telebirr_purchased_balance, F_purchased_balance, F_balance, F_total_purchased,
     F_total_telebirr_purchased]"

definition add_paid_coins :: "int \<Rightarrow> user_coin_balance \<Rightarrow> user_coin_balance" where
  "add_paid_coins n b =
     sync_balance (b\<lparr>telebirr_purchased_balance := telebirr_purchased_balance b + n,
       total_telebirr_purchased := total_telebirr_purchased b + n, total_purchased := total_purchased b + n\<rparr>)"

definition credit_order ::
  "string \<Rightarrow> (string option \<Rightarrow> int \<Rightarrow> coin_transaction \<Rightarrow> message) \<Rightarrow> string \<Rightarrow> string option \<Rightarrow> 'a coin_db_scheme \<Rightarrow>
   ((bool \<times> int) \<times> 'a coin_db_scheme) result" where
  "credit_order pm desc ref pid db =
     (case open_orders pm ref db of
        [] \<Rightarrow> Inr ((False, 0), db)
      | [i] \<Rightarrow>
          (let t = coin_ledger db ! i; new_ref = (if or_empty pid \<noteq> [] then or_empty pid else ref)
           in bind_result (order_coins t db) (\<lambda>n.
              bind_result (lock_balance (tx_user t) db) (\<lambda>row.
              bind_result (save_balance (tx_user t) purchase_columns (add_paid_coins n row) db) (\<lambda>db1.
              bind_result (guard_result (fits_integer n \<and> length new_ref \<le> 100) DataError) (\<lambda>_.
              Inr ((True, n),
                   db1\<lparr>coin_ledger := (coin_ledger db1)[i := credited_row n new_ref (desc (package_label t db) n t) t]\<rparr>))))))
      | _ \<Rightarrow> Inl MultipleObjectsReturned)"

definition credit_telebirr_order ::
  "string \<Rightarrow> string option \<Rightarrow> 'a coin_db_scheme \<Rightarrow> ((bool \<times> int) \<times> 'a coin_db_scheme) result" where
  "credit_telebirr_order =
     credit_order ''telebirr'' (\<lambda>pkg n t. (''Successful Telebirr payment for '' @
       (case pkg of None \<Rightarrow> ''Unknown'' | Some name \<Rightarrow> name), []))"

definition credit_telebirr_ussd_order ::
  "string \<Rightarrow> string option \<Rightarrow> 'a coin_db_scheme \<Rightarrow> ((bool \<times> int) \<times> 'a coin_db_scheme) result" where
  "credit_telebirr_ussd_order =
     credit_order ''telebirr_ussd'' (\<lambda>pkg n t. case pkg of
       None \<Rightarrow> (case amount_etb t of
          None \<Rightarrow> (''Successful USSD Push payment for None ETB ({} coins)'', [n])
        | Some a \<Rightarrow> (''Successful USSD Push payment for '' @ money a @ '' ETB ({} coins)'', [n]))
     | Some name \<Rightarrow> (''Successful USSD Push payment for '' @ name, []))"

text \<open>A final refusal written on the rows a condition selects.\<close>

definition close_orders ::
  "(coin_transaction \<Rightarrow> bool) \<Rightarrow> payment_state \<Rightarrow> pay_reason option \<Rightarrow> message \<Rightarrow> 'a coin_db_scheme \<Rightarrow>
   'a coin_db_scheme" where
  "close_orders sel st reason desc db =
     db\<lparr>coin_ledger := map (\<lambda>t. if sel t then t\<lparr>description := desc, tx_payment_state := st, payment_reason := reason\<rparr>
                                 else t) (coin_ledger db)\<rparr>"

section \<open>Webhooks and queries\<close>

datatype hook_answer = H_refused message | H_received | H_already | H_credited int | H_delegated | H_subscription

record notify =
  nt_verified :: bool
  nt_merch_order_id :: "string option"
  nt_trade_status :: "string option"
  nt_payment_order_id :: "string option"

definition pending_h5 :: "string \<Rightarrow> coin_transaction \<Rightarrow> bool" where
  "pending_h5 ref t \<longleftrightarrow>
     payment_reference t = ref \<and> payment_method t = ''telebirr'' \<and> tx_payment_state t = PENDING"

definition telebirr_callback ::
  "notify \<Rightarrow> 'a coin_db_scheme \<Rightarrow> (hook_answer \<times> 'a coin_db_scheme) result" where
  "telebirr_callback n db =
     (if \<not> nt_verified n then Inr (H_refused (''Invalid signature'', []), db)
      else if or_empty (nt_merch_order_id n) = [] then Inr (H_refused (''Missing merch_order_id'', []), db)
      else (let ref = or_empty (nt_merch_order_id n);
                (st, reason) = from_h5_order None (nt_trade_status n) None
            in if startswith ''SUB'' ref then Inr (H_delegated, db)
               else if \<not> grants_value st then
                 Inr (H_received,
                      if is_terminal st
                      then close_orders (pending_h5 ref) st reason
                             (take 255 (''Failed Telebirr payment: '' @ fmt_opt (nt_trade_status n)), []) db
                      else db)
               else bind_result (credit_telebirr_order ref (nt_payment_order_id n) db) (\<lambda>((handled, added), db1).
                    Inr (if handled then H_credited added else H_already, db1))))"

record query_result =
  qr_success :: bool
  qr_order_status :: "string option"
  qr_trade_status :: "string option"
  qr_payment_order_id :: "string option"

definition telebirr_query_order ::
  "string \<Rightarrow> query_result \<Rightarrow> 'a coin_db_scheme \<Rightarrow> ((message + payment_payload \<times> int) \<times> 'a coin_db_scheme) result" where
  "telebirr_query_order ref q db =
     (if ref = [] then Inr (Inl (''merch_order_id is required'', []), db)
      else if \<not> qr_success q then Inr (Inl (''Query failed'', []), db)
      else (let (st, reason) = from_h5_order (qr_order_status q) (qr_trade_status q) None
            in if grants_value st then
                 bind_result (credit_telebirr_order ref (qr_payment_order_id q) db) (\<lambda>((_, added), db1).
                 Inr (Inr (payload st reason, added), db1))
               else Inr (Inr (payload st reason, 0),
                         if is_terminal st
                         then close_orders (pending_h5 ref) st reason
                                (take 255 (''Failed Telebirr payment: '' @
                                  (if or_empty (qr_order_status q) = [] then state_name st else or_empty (qr_order_status q))), []) db
                         else db)))"

definition waiting_ussd :: "string \<Rightarrow> coin_transaction \<Rightarrow> bool" where
  "waiting_ussd ref t \<longleftrightarrow>
     payment_reference t = ref \<and> payment_method t = ''telebirr_ussd'' \<and> \<not> is_successful t \<and>
     (tx_payment_state t = PENDING \<or> tx_payment_state t = SUCCESS)"

section \<open>Subscriptions paid over USSD\<close>

definition last_n :: "nat \<Rightarrow> 'a list \<Rightarrow> 'a list" where
  "last_n n xs = drop (length xs - n) xs"

definition find_profile :: "string \<Rightarrow> 'a order_db_scheme \<Rightarrow> nat option" where
  "find_profile phone db =
     find (\<lambda>u. case profiles db u of None \<Rightarrow> False | Some p \<Rightarrow> phone_number p = Some phone) (user_ids db)"

text \<open>\<open>create_user\<close> with the profile signal, then the number on the new profile.\<close>

definition create_phone_user :: "string \<Rightarrow> 'a order_db_scheme \<Rightarrow> (nat \<times> 'a order_db_scheme) result" where
  "create_phone_user phone db =
     (let name = ''user_'' @ last_n 8 phone; uid = Suc (Max (set (0 # user_ids db)))
      in if list_ex (\<lambda>u. usernames db u = name) (user_ids db) then Inl (IntegrityError ''auth_user_username_key'')
         else bind_result (create_user_profile uid (welcome_bonus (cfg_earning_rewards (wallet_cfg db)))
                (db\<lparr>user_ids := user_ids db @ [uid], usernames := (usernames db)(uid := name)\<rparr>)) (\<lambda>db1.
              bind_result (of_option DoesNotExist (profiles db1 uid)) (\<lambda>p.
              Inr (uid, signup_subscription uid
                          (db1\<lparr>profiles := (profiles db1)(uid \<mapsto> p\<lparr>phone_number := Some phone\<rparr>)\<rparr>)))))"

definition resolve_payment_user ::
  "string \<Rightarrow> subscription_payment \<Rightarrow> 'a order_db_scheme \<Rightarrow> (nat option \<times> 'a order_db_scheme) result" where
  "resolve_payment_user pk pay db =
     (if or_empty (pay_phone pay) = [] then Inr (None, db)
      else (let raw = or_empty (pay_phone pay);
                phone = (case normalize_ethiopian_phone (Some raw) of None \<Rightarrow> raw | Some s \<Rightarrow> s);
                stamp = (\<lambda>uid d. d\<lparr>payments := (payments d)(pk \<mapsto> pay\<lparr>pay_user := Some uid\<rparr>)\<rparr>)
            in case find_profile phone db of
                 Some uid \<Rightarrow> Inr (Some uid, stamp uid db)
               | None \<Rightarrow> bind_result (create_phone_user phone db) (\<lambda>(uid, db1). Inr (Some uid, stamp uid db1))))"

definition paid_period :: "sub_tier \<Rightarrow> int \<Rightarrow> int option \<Rightarrow> int option" where
  "paid_period tier t old =
     (case duration_days tier of None \<Rightarrow> old | Some d \<Rightarrow> if d = 0 then old else Some (t + d * one_day))"

definition ussd_plan :: "nat option \<Rightarrow> nat \<Rightarrow> sub_tier \<Rightarrow> int \<Rightarrow> subscription_plan" where
  "ussd_plan user tid tier t =
     \<lparr>plan_user = user, plan_tier = Some tid, plan_status = S_active, plan_duration_type = duration_type tier,
      start_date = Some t, end_date = paid_period tier t None, next_renewal_date = None, auto_renew = False,
      plan_payment_method = ''telebirr'', free_trial_days = 0, cancelled_at = None, cancellation_reason = [],
      grace_started_at = None, grace_expires_at = None, bonus_coins_granted_at = None,
      onevas_phone_number = None, telebirr_phone_number = None, subscription_token = None,
      subscription_token_expires_at = None, subscription_source = ''app'', plan_service_id = []\<rparr>"

text \<open>The plan the payment pays for, made ready and activated; the result is its id.\<close>

definition prepare_plan ::
  "nat option \<Rightarrow> subscription_payment \<Rightarrow> nat \<Rightarrow> sub_tier \<Rightarrow> 'a order_db_scheme \<Rightarrow> (nat \<times> 'a order_db_scheme) result" where
  "prepare_plan user pay tid tier db =
     (case plans db (pay_subscription pay) of
        Some p \<Rightarrow>
          if plan_status p = S_pending then
            Inr (pay_subscription pay,
                 put_plan (pay_subscription pay)
                   (p\<lparr>plan_tier := Some tid, plan_duration_type := duration_type tier,
                      plan_payment_method := ''telebirr'',
                      plan_user := (case plan_user p of None \<Rightarrow> user | Some u \<Rightarrow> Some u),
                      telebirr_phone_number :=
                        (case telebirr_phone_number p of None \<Rightarrow> pay_phone pay
                         | Some n \<Rightarrow> if n = [] then pay_phone pay else Some n)\<rparr>) db)
          else (case find (\<lambda>i. case plans db i of None \<Rightarrow> False
                             | Some q \<Rightarrow> plan_user q = user \<and> plan_status q = S_active) (rev (plan_ids db)) of
                  Some i \<Rightarrow>
                    (let q = the (plans db i)
                     in Inr (i, put_plan i (q\<lparr>start_date := Some (now db), end_date := paid_period tier (now db) (end_date q),
                          plan_tier := Some tid, plan_duration_type := duration_type tier,
                          plan_payment_method := ''telebirr''\<rparr>) db))
                | None \<Rightarrow>
                    (let i = Suc (Max (set (0 # plan_ids db)))
                     in Inr (i, (put_plan i (ussd_plan user tid tier (now db)) db)\<lparr>plan_ids := plan_ids db @ [i]\<rparr>)))
      | None \<Rightarrow> Inl DoesNotExist)"

definition activate_ussd_subscription_payment ::
  "string \<Rightarrow> subscription_payment \<Rightarrow> nat option \<Rightarrow> 'a order_db_scheme \<Rightarrow> 'a order_db_scheme result" where
  "activate_ussd_subscription_payment pk pay tid db =
     bind_result (case pay_user pay of Some u \<Rightarrow> Inr (Some u, db) | None \<Rightarrow> resolve_payment_user pk pay db) (\<lambda>(user, db1).
     bind_result (case tid of None \<Rightarrow> Inl (TypeError ''NoneType has no attribute duration_type'')
                  | Some i \<Rightarrow> of_option DoesNotExist (map_option (Pair i) (tiers db1 i))) (\<lambda>(i, tier).
     bind_result (prepare_plan user pay i tier db1) (\<lambda>(pid, db2).
     bind_result (activate pid db2) (\<lambda>db3.
     let pay' = pay\<lparr>pay_user := user, pay_subscription := pid, pay_status := ''completed''\<rparr>;
         db4 = grant_subscription_gift pk pay' (db3\<lparr>payments := (payments db3)(pk \<mapsto> pay')\<rparr>)
     in Inr (db4\<lparr>sub_history := sub_history db4 @ [(user, pid, ''created'')]\<rparr>)))))"

text \<open>
  \<open>filter(onevas_transaction_id=...)\<close>: with no conversation id in the envelope the filter asks for rows
  whose id is null.
\<close>

definition find_ussd_payment :: "string option \<Rightarrow> 'a sub_db_scheme \<Rightarrow> string option" where
  "find_ussd_payment ref db =
     find (\<lambda>pk. case payments db pk of None \<Rightarrow> False
              | Some p \<Rightarrow> pay_transaction_id p = ref \<and> pay_method p = ''telebirr'' \<and> pay_status p = ''pending'')
       (rev (payment_ids db))"

definition after_ussd_order ::
  "soap_result \<Rightarrow> bool \<Rightarrow> int \<Rightarrow> 'a order_db_scheme \<Rightarrow> (hook_answer \<times> 'a order_db_scheme) result" where
  "after_ussd_order s handled added db =
     (if handled then Inr (H_credited added, db)
      else case find_ussd_payment (soap_originator s) db of
        None \<Rightarrow> Inr (H_already, db)
      | Some pk \<Rightarrow>
          bind_result (of_option DoesNotExist (payments db pk)) (\<lambda>pay.
          bind_result (activate_ussd_subscription_payment pk pay
             (Option.bind (plans db (pay_subscription pay)) plan_tier) db) (\<lambda>db1.
          Inr (H_subscription, db1))))"

text \<open>The envelope carries no signature; \<open>refused\<close> is what the address allow list answered.\<close>

definition telebirr_ussd_webhook ::
  "bool \<Rightarrow> soap_result \<Rightarrow> 'a order_db_scheme \<Rightarrow> (hook_answer \<times> 'a order_db_scheme) result" where
  "telebirr_ussd_webhook refused s db =
     (let ref = or_empty (soap_originator s)
      in if refused then Inr (H_refused (''Not permitted'', []), db)
         else if \<not> (soap_code s = Some ''0'' \<and> soap_type s = Some ''0'') then
           (let (st, reason) = from_ussd_result (soap_code s) (soap_type s) (soap_desc s)
            in Inr (H_received,
                 if soap_originator s = None then db
                 else close_orders (waiting_ussd ref) st reason
                        (take 255 (''Failed USSD Push payment: '' @ fmt_opt (soap_desc s)), []) db))
         else bind_result (if soap_originator s = None then Inr ((False, 0), db)
                           else credit_telebirr_ussd_order ref (soap_transaction s) db) (\<lambda>((handled, added), db1).
              after_ussd_order s handled added db1))"

section \<open>Starting a purchase\<close>

record purchase_form =
  pf_package :: "nat option"
  pf_amount :: "string option"

text \<open>\<open>if package_id:\<close> a zero is no package.\<close>

definition given_package :: "purchase_form \<Rightarrow> nat option" where
  "given_package f = (if pf_package f = Some 0 then None else pf_package f)"

text \<open>What is bought: a package, or a quoted amount (with its package when the price is one).\<close>

record priced =
  pr_package :: "nat option"
  pr_quoted :: "int option"
  pr_amount :: "int option"

definition price_purchase :: "purchase_form \<Rightarrow> 'a order_db_scheme \<Rightarrow> (response + priced) result" where
  "price_purchase f db =
     (case given_package f of
        Some pid \<Rightarrow>
          (case packages db pid of
             None \<Rightarrow> Inr (Inl (Not_found (''Package not found or inactive'', [])))
           | Some p \<Rightarrow> if pkg_is_active p then Inr (Inr \<lparr>pr_package = Some pid, pr_quoted = None, pr_amount = None\<rparr>)
                       else Inr (Inl (Not_found (''Package not found or inactive'', []))))
      | None \<Rightarrow>
          (case pf_amount f of
             None \<Rightarrow> Inr (Inl (Bad_request (''package_id or amount_etb is required'', [])))
           | Some raw \<Rightarrow>
               (case quote (wallet_cfg db) (active_packages (package_rows db)) (Some raw) of
                  Inl (CoinPricingError cd m) \<Rightarrow> Inr (Inl (Bad_request m))
                | Inl InvalidOperation \<Rightarrow> Inl (ArithmeticError ''InvalidOperation'')
                | Inr q \<Rightarrow> Inr (Inr \<lparr>pr_package = q_package q, pr_quoted = Some (q_coins q), pr_amount = Some (q_amount q)\<rparr>))))"

definition priced_amount :: "priced \<Rightarrow> 'a coin_db_scheme \<Rightarrow> int" where
  "priced_amount pr db =
     (case pr_package pr of
        Some pid \<Rightarrow> price_etb (the (packages db pid))
      | None \<Rightarrow> the (pr_amount pr))"

definition priced_coins :: "priced \<Rightarrow> 'a coin_db_scheme \<Rightarrow> int" where
  "priced_coins pr db =
     (case pr_package pr of
        Some pid \<Rightarrow> get_total_coins (the (packages db pid))
      | None \<Rightarrow> the (pr_quoted pr))"

text \<open>How messages name what is bought: the package, or the amount.\<close>

definition priced_label :: "priced \<Rightarrow> 'a coin_db_scheme \<Rightarrow> string" where
  "priced_label pr db =
     (case pr_package pr of
        Some pid \<Rightarrow> pkg_name (the (packages db pid))
      | None \<Rightarrow> money (priced_amount pr db) @ '' ETB'')"

definition pending_row ::
  "nat \<Rightarrow> string \<Rightarrow> string \<Rightarrow> priced \<Rightarrow> message \<Rightarrow> int \<Rightarrow> coin_transaction" where
  "pending_row uid pm ref pr desc t =
     (new_transaction uid ''purchase'' 0 t)
       \<lparr>payment_method := pm, payment_reference := ref, provider_conversation_id := ref,
        package := pr_package pr, quoted_coins := pr_quoted pr, amount_etb := pr_amount pr,
        description := desc, is_successful := False, tx_payment_state := PENDING\<rparr>"

record order_answer =
  oa_success :: bool
  oa_reference :: "string option"
  oa_error :: "string option"
  oa_code :: "string option"

definition telebirr_initiate_payment ::
  "(string \<Rightarrow> string \<Rightarrow> order_answer) \<Rightarrow> nat \<Rightarrow> purchase_form \<Rightarrow> 'a order_db_scheme \<Rightarrow>
   (response \<times> 'a order_db_scheme) result" where
  "telebirr_initiate_payment create_order uid f db =
     (case coin_purchase_refusal (Some uid) db of
        Some r \<Rightarrow> Inr (Forbidden (rf_message r, []), db)
      | None \<Rightarrow>
          bind_result (price_purchase f db) (\<lambda>pr.
          case pr of
            Inl r \<Rightarrow> Inr (r, db)
          | Inr pr \<Rightarrow>
              (let title = (case pr_package pr of Some pid \<Rightarrow> pkg_name (the (packages db pid))
                            | None \<Rightarrow> show_nat (nat (priced_coins pr db)) @ '' FlipStar coins'');
                   r = create_order title (money (priced_amount pr db))
               in if \<not> oa_success r then
                    Inr (Bad_request (case oa_error r of None \<Rightarrow> ''Payment initiation failed'' | Some e \<Rightarrow> e, []), db)
                  else bind_result (of_option (IntegrityError ''payment_reference'') (oa_reference r)) (\<lambda>ref.
                       bind_result (create_transaction
                          (pending_row uid ''telebirr'' ref pr (''Pending Telebirr H5 payment for '' @ title, []) (now db)) db)
                         (\<lambda>(_, db1). Inr (Ok (''Order created. Call js_fun_start_pay with raw_request.'', []), db1))))))"

section \<open>The duplicate guard and the USSD push\<close>

definition PENDING_PURCHASE_WINDOW :: int where
  "PENDING_PURCHASE_WINDOW = 600 * 1000000"

definition pending_coin_purchase :: "nat \<Rightarrow> nat option \<Rightarrow> 'a coin_db_scheme \<Rightarrow> coin_transaction option" where
  "pending_coin_purchase uid pid db =
     find (\<lambda>t. tx_user t = uid \<and> transaction_type t = ''purchase'' \<and> payment_method t = ''telebirr_ussd'' \<and>
              \<not> is_successful t \<and> now db - PENDING_PURCHASE_WINDOW \<le> tx_created_at t \<and> payment_reference t \<noteq> [] \<and>
              (pid = None \<or> package t = pid))
       (rev (coin_ledger db))"

text \<open>Refusals that mean the customer has no telebirr account; the codes are configuration.\<close>

definition UNREGISTERED_DESC_PATTERNS :: "rx list list" where
  "UNREGISTERED_DESC_PATTERNS =
    [[Boundary] @ lits ''not'' @ [Spaces] @ lits ''regist'',
     [Boundary] @ lits ''unregistered'' @ [Boundary],
     [Boundary] @ lits ''no'' @ [Spaces] @ lits ''such'' @ [Spaces] @ lits ''customer'' @ [Boundary],
     [Boundary] @ lits ''no'' @ [Spaces] @ lits ''such'' @ [Spaces] @ lits ''subscriber'' @ [Boundary],
     [Boundary] @ lits ''no'' @ [Spaces] @ lits ''such'' @ [Spaces] @ lits ''user'' @ [Boundary],
     [Boundary] @ lits ''customer'' @ [Spaces] @ lits ''does'' @ [Spaces] @ lits ''not'' @ [Spaces] @ lits ''exist'' @ [Boundary],
     [Boundary] @ lits ''customer'' @ [Spaces] @ lits ''not'' @ [Spaces] @ lits ''found'' @ [Boundary],
     [Boundary] @ lits ''subscriber'' @ [Spaces] @ lits ''does'' @ [Spaces] @ lits ''not'' @ [Spaces] @ lits ''exist'' @ [Boundary],
     [Boundary] @ lits ''subscriber'' @ [Spaces] @ lits ''not'' @ [Spaces] @ lits ''found'' @ [Boundary]]"

definition is_unregistered_failure :: "string list \<Rightarrow> order_answer \<Rightarrow> bool" where
  "is_unregistered_failure codes r \<longleftrightarrow>
     \<not> oa_success r \<and>
     (let cd = strip (or_empty (oa_code r))
      in (cd \<noteq> [] \<and> cd \<in> set codes) \<or>
         re_search UNREGISTERED_DESC_PATTERNS (lower (or_empty (oa_error r))))"

datatype ussd_answer =
    U_refused response
  | U_pending string
  | U_not_registered
  | U_failed
  | U_started string

definition failed_initiation_row :: "nat \<Rightarrow> priced \<Rightarrow> string \<Rightarrow> string \<Rightarrow> int \<Rightarrow> coin_transaction" where
  "failed_initiation_row uid pr label err t =
     (new_transaction uid ''purchase'' 0 t)
       \<lparr>payment_method := ''telebirr_ussd'', package := pr_package pr, quoted_coins := pr_quoted pr,
        amount_etb := pr_amount pr, description := (take 255 (''Failed USSD Push initiation for '' @ label @ '': '' @ err), []),
        is_successful := False, tx_payment_state := FAILED, payment_reason := Some (classify_reason (Some err))\<rparr>"

definition push_phone :: "string \<Rightarrow> string" where
  "push_phone phone = (case normalize_ethiopian_phone (Some phone) of None \<Rightarrow> phone | Some s \<Rightarrow> s)"

definition start_ussd_push ::
  "string list \<Rightarrow> (string \<Rightarrow> string \<Rightarrow> int \<Rightarrow> order_answer) \<Rightarrow> nat \<Rightarrow> priced \<Rightarrow> string \<Rightarrow> 'a order_db_scheme \<Rightarrow>
   (ussd_answer \<times> 'a order_db_scheme) result" where
  "start_ussd_push codes push uid pr phone db =
     (let r = push (money (priced_amount pr db)) (push_phone phone) (priced_coins pr db)
      in if \<not> oa_success r then
           (let err = (case oa_error r of None \<Rightarrow> ''USSD Push payment initiation failed'' | Some e \<Rightarrow> e)
            in bind_result (create_transaction (failed_initiation_row uid pr (priced_label pr db) err (now db)) db) (\<lambda>(_, db1).
               Inr (if is_unregistered_failure codes r then U_not_registered else U_failed, db1)))
         else bind_result (of_option (IntegrityError ''payment_reference'') (oa_reference r)) (\<lambda>ref.
              bind_result (create_transaction
                 (pending_row uid ''telebirr_ussd'' ref pr
                    (if pr_package pr = None
                     then (''Pending USSD Push payment for '' @ priced_label pr db @ '' ({} coins)'', [priced_coins pr db])
                     else (''Pending USSD Push payment for '' @ priced_label pr db, [])) (now db)) db)
                (\<lambda>(_, db1). Inr (U_started ref, db1))))"

definition telebirr_ussd_purchase ::
  "string list \<Rightarrow> (string \<Rightarrow> string \<Rightarrow> int \<Rightarrow> order_answer) \<Rightarrow> nat \<Rightarrow> purchase_form \<Rightarrow> 'a order_db_scheme \<Rightarrow>
   (ussd_answer \<times> 'a order_db_scheme) result" where
  "telebirr_ussd_purchase codes push uid f db =
     (case coin_purchase_refusal (Some uid) db of
        Some r \<Rightarrow> Inr (U_refused (Forbidden (rf_message r, [])), db)
      | None \<Rightarrow>
          bind_result (price_purchase f db) (\<lambda>pr.
          case pr of
            Inl r \<Rightarrow> Inr (U_refused r, db)
          | Inr pr \<Rightarrow>
              (case profiles db uid of
                 None \<Rightarrow> Inr (U_refused (Not_found (''User profile not found'', [])), db)
               | Some p \<Rightarrow>
                   if or_empty (phone_number p) = [] then
                     Inr (U_refused (Bad_request (''Phone number not found in profile'', [])), db)
                   else case (if pr_package pr = None then None else pending_coin_purchase uid (pr_package pr) db) of
                     Some t \<Rightarrow> Inr (U_pending (payment_reference t), db)
                   | None \<Rightarrow> start_ussd_push codes push uid pr (or_empty (phone_number p)) db)))"

definition telebirr_ussd_status ::
  "nat \<Rightarrow> string option \<Rightarrow> 'a coin_db_scheme \<Rightarrow> response + payment_payload \<times> int" where
  "telebirr_ussd_status uid cid db =
     (if or_empty cid = [] then Inl (Bad_request (''originator_conversation_id is required'', []))
      else (let mine = (\<lambda>t. tx_user t = uid \<and> payment_method t = ''telebirr_ussd'');
                found = (case find (\<lambda>t. mine t \<and> provider_conversation_id t = or_empty cid) (rev (coin_ledger db)) of
                           Some t \<Rightarrow> Some t
                         | None \<Rightarrow> find (\<lambda>t. mine t \<and> payment_reference t = or_empty cid) (rev (coin_ledger db)))
            in case found of
                 None \<Rightarrow> Inl (Not_found (''Purchase not found'', []))
               | Some t \<Rightarrow> Inr (payload (tx_payment_state t) (payment_reason t),
                                if tx_payment_state t = SUCCESS then coins t else 0)))"

section \<open>Balanced steps\<close>

text \<open>
  What the ledger interface asks of one request, as a relation on stores: it composes, so each step of a
  long handler is shown balanced once.
\<close>

definition balanced :: "'a coin_db_scheme \<Rightarrow> 'a coin_db_scheme \<Rightarrow> bool" where
  "balanced db db' \<longleftrightarrow>
     (coin_inv db \<longrightarrow> coin_inv db' \<and>
        (\<forall>u. coin_balance_of db' u - coin_balance_of db u = coin_logged db' u - coin_logged db u))"

lemma balanced_refl [simp]: "balanced db db"
  by (simp add: balanced_def)

lemma balanced_trans: "balanced a b \<Longrightarrow> balanced b c \<Longrightarrow> balanced a c"
  unfolding balanced_def by (smt (verit))

lemma balanced_frame: "balances db' = balances db \<Longrightarrow> coin_ledger db' = coin_ledger db \<Longrightarrow> balanced db db'"
  by (simp add: balanced_def coin_inv_def coin_balance_of_def coin_logged_def)

lemma balanced_steps: "steps uid d r db \<Longrightarrow> r = Inr (s, tx, db') \<Longrightarrow> balanced db db'"
  using steps_wf [of uid d r db] steps_balance [of uid d r db] steps_logged [of uid d r db]
  by (simp add: balanced_def)

lemma balanced_get_or_create: "balanced db (get_or_create_balance uid db)"
  by (auto simp: balanced_def coin_inv_def coin_balance_of_def coin_logged_def get_or_create_balance_def
      new_balance_def wf_balance_def split: option.splits)

lemma balanced_method:
  assumes "\<And>d. steps uid n (f d) d" and "db_of (f (get_or_create_balance uid db)) = Inr db'"
  shows "balanced db db'"
  using assms balanced_trans [OF balanced_get_or_create balanced_steps [OF assms(1)]]
  by (auto simp: db_of_Inr)

text \<open>A column of ledger rows that is neither the user, the coins nor the success flag.\<close>

lemma coin_logged_map:
  assumes "\<And>t. tx_user (f t) = tx_user t \<and> coins (f t) = coins t \<and> is_successful (f t) = is_successful t"
  shows "sum_where (\<lambda>t. tx_user t = u \<and> is_successful t) coins (map f ts) =
         sum_where (\<lambda>t. tx_user t = u \<and> is_successful t) coins ts"
  using assms by (induction ts) auto

lemma balanced_close_orders: "balanced db (close_orders sel st reason desc db)"
proof -
  have "coin_logged (close_orders sel st reason desc db) u = coin_logged db u" for u
    unfolding coin_logged_def close_orders_def by simp (rule coin_logged_map, simp)
  then show ?thesis
    by (simp add: balanced_def close_orders_def coin_inv_def coin_balance_of_def)
qed

lemma sum_where_update:
  "i < length ts \<Longrightarrow>
   sum_where p f (ts[i := t]) =
     sum_where p f ts - (if p (ts ! i) then f (ts ! i) else 0) + (if p t then f t else 0)"
proof (induction ts arbitrary: i)
  case (Cons a ts)
  then show ?case by (cases i) auto
qed simp

lemma open_orders_mem:
  "i \<in> set (open_orders pm ref db) \<longleftrightarrow> i < length (coin_ledger db) \<and> open_order pm ref (coin_ledger db ! i)"
  by (auto simp: open_orders_def)

text \<open>A confirmation that finds its order: the row it completes, the coins, and the two writes.\<close>

lemma credit_order_cases:
  assumes "credit_order pm desc ref pid db = Inr ((handled, n), db')"
  obtains (none) "\<not> handled" "n = 0" "db' = db" "open_orders pm ref db = []"
    | (paid) i t row new_ref where "handled" "open_orders pm ref db = [i]" "t = coin_ledger db ! i"
        "order_coins t db = Inr n" "balances db (tx_user t) = Some row"
        "list_all (\<lambda>f. fits_positive_integer (get_field f (add_paid_coins n row))) purchase_columns"
        "db' = db\<lparr>balances := (balances db)(tx_user t \<mapsto> write_fields purchase_columns (add_paid_coins n row) row),
                  coin_ledger := (coin_ledger db)[i := credited_row n new_ref (desc (package_label t db) n t) t]\<rparr>"
proof (cases "open_orders pm ref db")
  case Nil
  with assms show thesis by (intro none) (simp_all add: credit_order_def)
next
  case (Cons i rest)
  show thesis
  proof (cases rest)
    case Nil
    define new_ref where "new_ref = (if or_empty pid \<noteq> [] then or_empty pid else ref)"
    from assms Cons Nil new_ref_def
    have "\<exists>row. handled \<and> order_coins (coin_ledger db ! i) db = Inr n \<and>
        balances db (tx_user (coin_ledger db ! i)) = Some row \<and>
        list_all (\<lambda>f. fits_positive_integer (get_field f (add_paid_coins n row))) purchase_columns \<and>
        db' = db\<lparr>balances := (balances db)(tx_user (coin_ledger db ! i) \<mapsto>
                   write_fields purchase_columns (add_paid_coins n row) row),
                 coin_ledger := (coin_ledger db)[i := credited_row n new_ref (desc (package_label (coin_ledger db ! i) db) n (coin_ledger db ! i)) (coin_ledger db ! i)]\<rparr>"
      unfolding credit_order_def
      by (auto simp: Let_def bind_result_Inr_iff lock_balance_def save_balance_Inr simp del: fun_upd_apply split: if_splits)
    with Cons Nil show thesis using paid by blast
  next
    case (Cons j js)
    with assms \<open>open_orders pm ref db = i # rest\<close> show thesis by (simp add: credit_order_def)
  qed
qed

lemma add_paid_wf:
  "wf_balance row \<Longrightarrow> list_all (\<lambda>f. fits_positive_integer (get_field f (add_paid_coins n row))) purchase_columns \<Longrightarrow>
   wf_balance (write_fields purchase_columns (add_paid_coins n row) row) \<and>
   balance (write_fields purchase_columns (add_paid_coins n row) row) = balance row + n"
  by (simp add: add_paid_coins_def purchase_columns_def balance_simps)

lemma balanced_credit_order:
  assumes "credit_order pm desc ref pid db = Inr ((handled, n), db')"
  shows "balanced db db'"
  using assms
proof (cases rule: credit_order_cases)
  case none
  then show ?thesis by simp
next
  case (paid i t row new_ref)
  have i: "i < length (coin_ledger db)" and op: "\<not> is_successful t"
    using open_orders_mem [of i pm ref db] paid by (auto simp: open_order_def)
  have "coin_logged db' u = coin_logged db u + (if u = tx_user t then n else 0)" for u
    using i op paid(3,7) by (simp add: coin_logged_def sum_where_update credited_row_def)
  moreover have "wf_balance row" if "coin_inv db" using paid that by (auto dest: coin_invD)
  ultimately show ?thesis
    using paid(5,6,7) add_paid_wf [of row n] by (auto simp: balanced_def coin_inv_def coin_balance_of_def)
qed

section \<open>Every provider event is balanced\<close>

lemma balanced_grant_bonus:
  assumes "grant_bonus_coins pid db = Inr db'"
  shows "balanced db db'"
proof -
  have add: "balanced db d" if "db_of (add_bonus new_balance uid n ty ks (get_or_create_balance uid (db\<lparr>plans := ps\<rparr>))) = Inr d"
    for uid n ty ks ps d
    using balanced_trans [OF balanced_frame balanced_method [OF add_bonus_steps that]] by simp
  obtain p where p: "plans db pid = Some p"
    using assms by (auto simp: grant_bonus_coins_def bind_result_Inr_iff)
  show ?thesis
  proof (cases "tier_of_plan p db = None \<or> plan_user p = None")
    case True
    with assms p show ?thesis by (auto simp: grant_bonus_coins_def split: option.splits if_splits)
  next
    case False
    then obtain tr uid where "tier_of_plan p db = Some tr" "plan_user p = Some uid" by auto
    with assms p add show ?thesis
      by (auto simp: grant_bonus_coins_eq put_plan_def split: if_splits)
  qed
qed

lemma balanced_activate:
  assumes "activate pid db = Inr db'"
  shows "balanced db db'"
proof -
  from assms obtain p where p: "plans db pid = Some p" by (auto simp: activate_def bind_result_Inr_iff)
  let ?db1 = "put_plan pid (started_plan (tier_of_plan p db) (now db) p) db"
  have b: "balanced db ?db1" by (rule balanced_frame) (simp_all add: put_plan_def)
  have "db' = ?db1 \<or> grant_bonus_coins pid ?db1 = Inr db'"
    using assms p by (auto simp: activate_def Let_def split: if_splits)
  then show ?thesis using b balanced_trans [OF b balanced_grant_bonus] by blast
qed

lemma balanced_settle:
  "settle_grant n db r = (x, db') \<Longrightarrow> (\<And>d. r = Inr d \<Longrightarrow> balanced db d) \<Longrightarrow> balanced db db'"
  by (auto simp: settle_grant_def split: sum.splits exn.splits)

lemma balanced_grant_for_day: "balanced db (snd (grant_for_day pk pay d db))"
proof (cases "grant_for_day pk pay d db")
  case (Pair r db')
  then show ?thesis
    by (auto simp: grant_for_day_def Let_def split: if_splits option.splits
        elim!: balanced_settle intro: balanced_method [OF add_earned_steps])
qed

lemma balanced_grant_days: "balanced db (snd (grant_days pk pay ds db))"
proof (induction ds arbitrary: db)
  case (Cons d ds)
  show ?case
    using balanced_grant_for_day [of db pk pay d] Cons.IH
    by (auto split: prod.splits sum.splits intro: balanced_trans) (metis balanced_trans snd_conv)+
qed simp

lemma balanced_grant_for_payment: "balanced db (snd (grant_for_payment pk pay db))"
proof -
  have due: "balanced db (snd (grant_due pk pay t db))" for t
    by (simp add: grant_due_def balanced_grant_days split: option.split)
  have dem: "balanced db (snd (grant_ondemand_allocation pk pay db))"
  proof (cases "grant_ondemand_allocation pk pay db")
    case (Pair r db')
    then show ?thesis
      by (auto simp: grant_ondemand_allocation_def Let_def split: if_splits option.splits
          elim!: balanced_settle intro: balanced_method [OF add_bonus_steps])
  qed
  have "balanced db (snd (settle_grant n db (db_of (add_earned new_balance uid n ty ks (get_or_create_balance uid db)))))"
    for n uid ty ks
    by (rule balanced_settle [OF prod.collapse [symmetric]]) (rule balanced_method [OF add_earned_steps])
  then show ?thesis by (simp add: grant_for_payment_def Let_def due dem split: option.split)
qed

lemma balanced_grant_subscription_gift: "balanced db (grant_subscription_gift pk pay db)"
  by (simp add: grant_subscription_gift_def balanced_grant_for_payment)

lemma balanced_welcome: "balanced db (welcome_bonus_coins uid n db)"
proof (cases "n > 0")
  case False
  then show ?thesis by (simp add: welcome_bonus_coins_def)
next
  case True
  let ?db1 = "get_or_create_balance uid db"
  obtain row where row: "balances ?db1 uid = Some row"
    by (cases "balances db uid") (auto simp: get_or_create_balance_def)
  let ?row1 = "sync_balance (row\<lparr>earned_balance := earned_balance row + n, total_earned := total_earned row + n\<rparr>)"
  let ?cols = "[F_balance, F_earned_balance, F_telebirr_purchased_balance, F_airtime_purchased_balance,
    F_bonus_balance, F_purchased_balance, F_total_earned, F_total_spent, F_total_purchased,
    F_total_telebirr_purchased, F_total_airtime_purchased, F_total_bonus_granted, F_total_withdrawn]"
  have b: "balanced db ?db1" by (rule balanced_get_or_create)
  show ?thesis
  proof (cases "save_balance uid ?cols ?row1 ?db1")
    case (Inl e)
    with True row b show ?thesis by (simp add: welcome_bonus_coins_def Let_def)
  next
    case (Inr db2)
    have all: "write_fields ?cols r old = r" for r old by simp
    from Inr have fit: "list_all (\<lambda>f. fits_positive_integer (get_field f ?row1)) ?cols"
      and db2: "db2 = ?db1\<lparr>balances := (balances ?db1)(uid \<mapsto> ?row1)\<rparr>"
      unfolding save_balance_Inr all by blast+
    let ?tx = "(new_transaction uid ''welcome_bonus'' n (now db2))\<lparr>description := (''Welcome bonus: {} coins'', [n])\<rparr>"
    have step: "balanced ?db1 (welcome_bonus_coins uid n db)"
      unfolding balanced_def
    proof
      assume inv: "coin_inv ?db1"
      then have wf: "wf_balance row" using row by (rule coin_invD)
      have "fits_integer n"
        using fit wf True by (simp add: column_defs sync_balance_def wf_balance_def Let_def)
      then have "create_transaction ?tx db2 = Inr (?tx, db2\<lparr>coin_ledger := coin_ledger db2 @ [?tx]\<rparr>)"
        by (intro create_transaction_ok) simp_all
      with True row Inr have eq: "welcome_bonus_coins uid n db = db2\<lparr>coin_ledger := coin_ledger db2 @ [?tx]\<rparr>"
        by (simp add: welcome_bonus_coins_def Let_def)
      have wf1: "wf_balance ?row1" and bal: "balance ?row1 = balance row + n"
        using wf True by (simp_all add: balance_simps)
      show "coin_inv (welcome_bonus_coins uid n db) \<and>
        (\<forall>u. coin_balance_of (welcome_bonus_coins uid n db) u - coin_balance_of ?db1 u =
             coin_logged (welcome_bonus_coins uid n db) u - coin_logged ?db1 u)"
        unfolding eq using inv wf1 bal row
        by (simp add: db2 coin_inv_def coin_balance_of_def coin_logged_def)
    qed
    show ?thesis by (rule balanced_trans [OF b step])
  qed
qed

lemma balanced_create_phone_user:
  assumes "create_phone_user phone db = Inr (uid, db')"
  shows "balanced db db'"
proof -
  define n where "n = welcome_bonus (cfg_earning_rewards (wallet_cfg db))"
  define d0 where "d0 = db\<lparr>user_ids := user_ids db @ [uid], usernames := (usernames db)(uid := ''user_'' @ last_n 8 phone),
    profiles := (profiles db)(uid \<mapsto> new_profile)\<rparr>"
  from assms obtain p where db': "db' = signup_subscription uid ((welcome_bonus_coins uid n d0)\<lparr>profiles := p\<rparr>)"
    unfolding d0_def n_def create_phone_user_def create_user_profile_def Let_def
    by (auto simp: bind_result_Inr_iff split: if_splits option.splits)
  have 1: "balanced db d0" by (rule balanced_frame) (simp_all add: d0_def)
  have 3: "balanced d (signup_subscription u (d\<lparr>profiles := q\<rparr>))" for d :: "'a order_db_scheme" and u q
    by (rule balanced_frame) (simp_all add: signup_subscription_def)
  show ?thesis unfolding db' using 1 by (rule balanced_trans) (rule balanced_trans [OF balanced_welcome 3])
qed

lemma balanced_resolve_payment_user:
  assumes "resolve_payment_user pk pay db = Inr (u, db')"
  shows "balanced db db'"
proof -
  have st: "balanced d (d\<lparr>payments := q\<rparr>)" for d :: "'a order_db_scheme" and q
    by (rule balanced_frame) simp_all
  then show ?thesis
    using assms by (auto simp: resolve_payment_user_def Let_def bind_result_Inr_iff
        intro: balanced_trans [OF balanced_create_phone_user] split: if_splits option.splits)
qed

lemma balanced_prepare_plan:
  assumes "prepare_plan user pay tid tier db = Inr (pid, db')"
  shows "balanced db db'"
  by (rule balanced_frame)
    (use assms in \<open>auto simp: prepare_plan_def Let_def put_plan_def split: option.splits if_splits\<close>)

lemma balanced_activate_payment:
  assumes "activate_ussd_subscription_payment pk pay tid db = Inr db'"
  shows "balanced db db'"
proof -
  from assms obtain user db1 i tier pid db2 db3 pay' where
      1: "(case pay_user pay of Some u \<Rightarrow> Inr (Some u, db) | None \<Rightarrow> resolve_payment_user pk pay db) = Inr (user, db1)"
    and 2: "prepare_plan user pay i tier db1 = Inr (pid, db2)" and 3: "activate pid db2 = Inr db3"
    and db': "db' = (let db4 = grant_subscription_gift pk pay' (db3\<lparr>payments := (payments db3)(pk \<mapsto> pay')\<rparr>)
                     in db4\<lparr>sub_history := sub_history db4 @ [(user, pid, ''created'')]\<rparr>)"
    unfolding activate_ussd_subscription_payment_def bind_result_Inr_iff
    by (auto simp: Let_def bind_result_Inr_iff)
  have b1: "balanced db db1" using 1 by (auto split: option.splits intro: balanced_resolve_payment_user)
  have b3: "balanced db1 db3" using balanced_prepare_plan [OF 2] balanced_activate [OF 3] by (rule balanced_trans)
  have b4: "balanced db3 (grant_subscription_gift pk pay' (db3\<lparr>payments := (payments db3)(pk \<mapsto> pay')\<rparr>))"
    by (rule balanced_trans [OF balanced_frame balanced_grant_subscription_gift]) simp_all
  have b5: "balanced d (d\<lparr>sub_history := h\<rparr>)" for d :: "'a order_db_scheme" and h
    by (rule balanced_frame) simp_all
  show ?thesis
    unfolding db' Let_def by (rule balanced_trans [OF b1 balanced_trans [OF b3 balanced_trans [OF b4 b5]]])
qed

lemmas credit_defs = credit_telebirr_order_def credit_telebirr_ussd_order_def

lemma balanced_callback: "telebirr_callback n db = Inr (a, db') \<Longrightarrow> balanced db db'"
  by (auto simp: telebirr_callback_def Let_def bind_result_Inr_iff credit_defs balanced_close_orders
      intro: balanced_credit_order split: if_splits prod.splits)

lemma balanced_query: "telebirr_query_order ref q db = Inr (a, db') \<Longrightarrow> balanced db db'"
  by (auto simp: telebirr_query_order_def Let_def bind_result_Inr_iff credit_defs balanced_close_orders
      intro: balanced_credit_order split: if_splits prod.splits)

lemma balanced_webhook:
  assumes "telebirr_ussd_webhook refused s db = Inr (a, db')"
  shows "balanced db db'"
proof (cases "soap_code s = Some ''0'' \<and> soap_type s = Some ''0''")
  case False
  with assms show ?thesis
    by (auto simp: telebirr_ussd_webhook_def Let_def balanced_close_orders split: if_splits prod.splits)
next
  case True
  show ?thesis
  proof (cases refused)
  case True
  with assms show ?thesis by (simp add: telebirr_ussd_webhook_def)
  next
  case False
  with True assms have run: "bind_result (if soap_originator s = None then Inr ((False, 0), db)
        else credit_telebirr_ussd_order (or_empty (soap_originator s)) (soap_transaction s) db)
      (\<lambda>((handled, added), db1). after_ussd_order s handled added db1) = Inr (a, db')"
    by (simp add: telebirr_ussd_webhook_def Let_def)
  then obtain handled added db1 where
      1: "(if soap_originator s = None then Inr ((False, 0), db)
           else credit_telebirr_ussd_order (or_empty (soap_originator s)) (soap_transaction s) db) = Inr ((handled, added), db1)"
    and after: "after_ussd_order s handled added db1 = Inr (a, db')"
    unfolding bind_result_Inr_iff by auto
  have 2: "db' = db1 \<or> (\<exists>pk pay tid. activate_ussd_subscription_payment pk pay tid db1 = Inr db')"
    using after unfolding after_ussd_order_def
    by (auto simp: bind_result_Inr_iff split: if_splits option.split_asm)
  have "balanced db db1" using 1 by (auto simp: credit_defs intro: balanced_credit_order split: if_splits)
  then show ?thesis using 2 balanced_activate_payment balanced_trans by blast
  qed
qed

datatype order_event =
    Callback notify
  | Query_order string query_result
  | Ussd_webhook bool soap_result

fun exec_order_event :: "order_event \<Rightarrow> 'a order_db_scheme \<Rightarrow> 'a order_db_scheme result" where
  "exec_order_event (Callback n) db = map_sum id snd (telebirr_callback n db)"
| "exec_order_event (Query_order ref q) db = map_sum id snd (telebirr_query_order ref q db)"
| "exec_order_event (Ussd_webhook refused s) db = map_sum id snd (telebirr_ussd_webhook refused s db)"

lemma map_sum_Inr: "map_sum id snd r = Inr y \<longleftrightarrow> (\<exists>a. r = Inr (a, y))"
  by (cases r) auto

lemma exec_order_event_balanced: "exec_order_event e db = Inr db' \<Longrightarrow> balanced db db'"
  by (cases e) (auto simp: map_sum_Inr intro: balanced_callback balanced_query balanced_webhook)

text \<open>The provider's events keep the coin ledger in step with the balances.\<close>

interpretation order_wallet: ledger exec_order_event coin_balance_of coin_logged coin_inv
  by unfold_locales (auto simp: balanced_def coin_balance_nonneg dest: exec_order_event_balanced)

section \<open>Each order is credited once, for its own price\<close>

definition order_value :: "'a coin_db_scheme \<Rightarrow> coin_transaction \<Rightarrow> int" where
  "order_value db t = (case order_coins t db of Inl _ \<Rightarrow> 0 | Inr n \<Rightarrow> n)"

text \<open>The value of the orders of \<open>u\<close> that were open in the first store and are paid in the second.\<close>

definition newly_paid :: "nat \<Rightarrow> 'a coin_db_scheme \<Rightarrow> 'a coin_db_scheme \<Rightarrow> nat \<Rightarrow> int" where
  "newly_paid u db db' i =
     (if tx_user (coin_ledger db ! i) = u \<and> \<not> is_successful (coin_ledger db ! i) \<and> is_successful (coin_ledger db' ! i)
      then order_value db (coin_ledger db ! i) else 0)"

definition paid_between :: "nat \<Rightarrow> 'a coin_db_scheme \<Rightarrow> 'a coin_db_scheme \<Rightarrow> int" where
  "paid_between u db db' = (\<Sum>i<length (coin_ledger db). newly_paid u db db' i)"

text \<open>What is kept: a paid row stays paid for the same coins, and no row changes its buyer or its price.\<close>

definition same_order :: "coin_transaction \<Rightarrow> coin_transaction \<Rightarrow> bool" where
  "same_order t t' \<longleftrightarrow>
     tx_user t' = tx_user t \<and> package t' = package t \<and> quoted_coins t' = quoted_coins t \<and>
     (is_successful t \<longrightarrow> is_successful t' \<and> coins t' = coins t)"

definition settles :: "'a coin_db_scheme \<Rightarrow> 'a coin_db_scheme \<Rightarrow> bool" where
  "settles db db' \<longleftrightarrow>
     length (coin_ledger db') = length (coin_ledger db) \<and> packages db' = packages db \<and>
     (\<forall>i<length (coin_ledger db). same_order (coin_ledger db ! i) (coin_ledger db' ! i)) \<and>
     (coin_inv db \<longrightarrow> coin_inv db' \<and> (\<forall>u. coin_balance_of db' u = coin_balance_of db u + paid_between u db db'))"

lemma same_order_trans: "same_order a b \<Longrightarrow> same_order b c \<Longrightarrow> same_order a c"
  by (auto simp: same_order_def split: if_splits)

lemma order_value_same:
  "same_order t t' \<Longrightarrow> packages db' = packages db \<Longrightarrow> order_value db' t' = order_value db t"
  by (cases "package t") (simp_all add: same_order_def order_value_def order_coins_def)

lemma newly_paid_trans:
  assumes "same_order (coin_ledger a ! i) (coin_ledger b ! i)" and "same_order (coin_ledger b ! i) (coin_ledger c ! i)"
    and "packages b = packages a"
  shows "newly_paid u a c i = newly_paid u a b i + newly_paid u b c i"
  using assms order_value_same [OF assms(1,3)] by (auto simp: newly_paid_def same_order_def split: if_splits)

lemma settles_refl: "settles db db"
  by (simp add: settles_def same_order_def paid_between_def newly_paid_def)

lemma settles_trans:
  assumes ab: "settles a b" and bc: "settles b c"
  shows "settles a c"
proof -
  have so: "same_order (coin_ledger a ! i) (coin_ledger b ! i)" "same_order (coin_ledger b ! i) (coin_ledger c ! i)"
    if "i < length (coin_ledger a)" for i
    using ab bc that by (simp_all add: settles_def)
  have "paid_between u a c = paid_between u a b + paid_between u b c" for u
  proof -
    have "paid_between u a c = (\<Sum>i<length (coin_ledger a). newly_paid u a b i + newly_paid u b c i)"
      unfolding paid_between_def using ab so by (intro sum.cong newly_paid_trans) (simp_all add: settles_def)
    then show ?thesis using ab by (simp add: paid_between_def sum.distrib settles_def)
  qed
  then show ?thesis
    using ab bc so same_order_trans unfolding settles_def by (simp, blast)
qed

lemma settles_close_orders: "settles db (close_orders sel st reason desc db)"
proof -
  let ?db' = "close_orders sel st reason desc db"
  have row: "same_order (coin_ledger db ! i) (coin_ledger ?db' ! i)"
       "is_successful (coin_ledger ?db' ! i) = is_successful (coin_ledger db ! i)" if "i < length (coin_ledger db)" for i
    using that by (simp_all add: close_orders_def same_order_def)
  have "paid_between u db ?db' = 0" for u
    unfolding paid_between_def using row by (intro sum.neutral) (auto simp: newly_paid_def)
  with row show ?thesis
    by (simp add: settles_def close_orders_def coin_inv_def coin_balance_of_def)
qed

lemma settles_credit_order:
  assumes "credit_order pm desc ref pid db = Inr ((handled, n), db')"
  shows "settles db db'"
  using assms
proof (cases rule: credit_order_cases)
  case none
  then show ?thesis by (simp add: settles_refl)
next
  case (paid i t row new_ref)
  have i: "i < length (coin_ledger db)" and op: "\<not> is_successful t"
    using open_orders_mem [of i pm ref db] paid by (auto simp: open_order_def)
  have rows: "same_order (coin_ledger db ! j) (coin_ledger db' ! j)" if "j < length (coin_ledger db)" for j
    using paid(3,7) op that by (cases "j = i") (simp_all add: same_order_def credited_row_def)
  have new: "newly_paid u db db' j = (if j = i \<and> u = tx_user t then n else 0)" if "j < length (coin_ledger db)" for j u
    using paid(3,4,7) op i that by (cases "j = i") (auto simp: newly_paid_def credited_row_def order_value_def)
  have sum: "paid_between u db db' = (if u = tx_user t then n else 0)" for u
  proof -
    have "paid_between u db db' = (\<Sum>j<length (coin_ledger db). if j = i then (if u = tx_user t then n else 0) else 0)"
      unfolding paid_between_def by (rule sum.cong) (auto simp: new)
    then show ?thesis using i by simp
  qed
  have "coin_inv db' \<and> (\<forall>u. coin_balance_of db' u = coin_balance_of db u + paid_between u db db')" if inv: "coin_inv db"
    unfolding sum using paid(5,6,7) add_paid_wf [of row n] inv coin_invD [OF inv paid(5)]
    by (auto simp: coin_inv_def coin_balance_of_def)
  then show ?thesis using rows paid(7) by (simp add: settles_def)
qed

text \<open>A store where no subscription payment waits on the shared webhook.\<close>

definition no_pending_payment :: "'a sub_db_scheme \<Rightarrow> bool" where
  "no_pending_payment db \<longleftrightarrow>
     list_all (\<lambda>pk. case payments db pk of None \<Rightarrow> True | Some p \<Rightarrow> pay_status p \<noteq> ''pending'') (payment_ids db)"

lemma no_pending_find: "no_pending_payment db \<Longrightarrow> find_ussd_payment ref db = None"
  by (auto simp: no_pending_payment_def find_ussd_payment_def find_None_iff list_all_iff split: option.splits)

lemma no_pending_frame:
  "payments db' = payments db \<Longrightarrow> payment_ids db' = payment_ids db \<Longrightarrow> no_pending_payment db' = no_pending_payment db"
  by (simp add: no_pending_payment_def)

lemma credit_order_payments:
  assumes "credit_order pm desc ref pid db = Inr ((handled, n), db')"
  shows "payments db' = payments db" and "payment_ids db' = payment_ids db"
  using assms by (auto elim!: credit_order_cases)

lemma close_orders_payments [simp]:
  "payments (close_orders sel st reason desc db) = payments db"
  "payment_ids (close_orders sel st reason desc db) = payment_ids db"
  by (simp_all add: close_orders_def)

lemma order_event_settles:
  assumes "exec_order_event e db = Inr db'" and quiet: "no_pending_payment db"
  shows "settles db db' \<and> no_pending_payment db'"
proof -
  have credit: "settles db d \<and> no_pending_payment d" if "credit_order pm desc ref pid db = Inr ((h, n), d)"
    for pm desc ref pid h n d
    using settles_credit_order [OF that] no_pending_frame [OF credit_order_payments [OF that]] quiet by simp
  have close: "settles db (close_orders sel st reason desc db) \<and> no_pending_payment (close_orders sel st reason desc db)"
    for sel st reason desc
    using settles_close_orders quiet no_pending_frame [of "close_orders sel st reason desc db" db] by simp
  have "settles db db" "no_pending_payment db" using settles_refl quiet by simp_all
  note facts = this credit close
  show ?thesis
  proof (cases e)
    case (Callback n)
    with assms(1) facts show ?thesis
      by (auto simp: map_sum_Inr telebirr_callback_def Let_def bind_result_Inr_iff credit_defs split: if_splits prod.splits)
  next
    case (Query_order ref q)
    with assms(1) facts show ?thesis
      by (auto simp: map_sum_Inr telebirr_query_order_def Let_def bind_result_Inr_iff credit_defs split: if_splits prod.splits)
  next
    case (Ussd_webhook refused s)
    have after: "d' = d" if "after_ussd_order s h n d = Inr (a, d')" "no_pending_payment d"
      for h n a and d d' :: "'a order_db_scheme"
      using that by (auto simp: after_ussd_order_def no_pending_find split: if_splits)
    from Ussd_webhook assms(1) facts show ?thesis
      by (auto simp: map_sum_Inr telebirr_ussd_webhook_def Let_def bind_result_Inr_iff credit_defs
          dest!: after split: if_splits prod.splits)
  qed
qed

lemma run_order_events_settle:
  "no_pending_payment db \<Longrightarrow> settles db (run_requests exec_order_event es db)"
proof (induction es arbitrary: db)
  case Nil
  then show ?case by (simp add: settles_refl)
next
  case (Cons e es)
  show ?case
  proof (cases "exec_order_event e db")
    case (Inl x)
    with Cons show ?thesis by simp
  next
    case (Inr db1)
    with order_event_settles [OF Inr Cons.prems] Cons.IH [of db1] show ?thesis
      by (auto intro: settles_trans)
  qed
qed

section \<open>From the quote to the credit\<close>

lemma open_orders_append:
  "open_orders pm ref (db\<lparr>coin_ledger := coin_ledger db @ [t]\<rparr>) =
     open_orders pm ref db @ (if open_order pm ref t then [length (coin_ledger db)] else [])"
  by (auto simp: open_orders_def nth_append intro!: filter_cong)

lemma pending_row_fresh:
  assumes "create_transaction (pending_row uid pm ref pr desc t) db = Inr (tx, db1)" and "ref \<noteq> []"
  shows "db1 = db\<lparr>coin_ledger := coin_ledger db @ [pending_row uid pm ref pr desc t]\<rparr>"
    and "open_orders pm ref db1 = [length (coin_ledger db)]" and "length ref \<le> 100"
proof -
  let ?t = "pending_row uid pm ref pr desc t"
  show db1: "db1 = db\<lparr>coin_ledger := coin_ledger db @ [?t]\<rparr>" using create_transaction_Inr [OF assms(1)] by simp
  have t: "payment_reference ?t = ref" "payment_method ?t = pm" "\<not> is_successful ?t"
    by (simp_all add: pending_row_def)
  have "\<not> list_ex (same_pending_reference ?t) (coin_ledger db)" and "length (payment_reference ?t) \<le> 100"
    using assms(1) by (auto simp: create_transaction_def split: if_splits)
  then have "\<forall>u\<in>set (coin_ledger db). \<not> open_order pm ref u" and "length ref \<le> 100"
    using t assms(2) by (auto simp: list_ex_iff same_pending_reference_def open_order_def)
  then have "open_orders pm ref db = []" by (auto simp: open_orders_def)
  then show "open_orders pm ref db1 = [length (coin_ledger db)]"
    unfolding db1 open_orders_append using t by (simp add: open_order_def)
  show "length ref \<le> 100" by fact
qed

lemma package_rows_mem: "(i, p) \<in> set (active_packages (package_rows db)) \<Longrightarrow> packages db i = Some p"
  by (auto simp: active_packages_def package_rows_def map_filter_def)

lemma pending_row_value:
  "price_purchase f db = Inr (Inr pr) \<Longrightarrow>
   order_coins (pending_row uid pm ref pr desc t) (db\<lparr>coin_ledger := l\<rparr>) = Inr (priced_coins pr db)"
  by (auto simp: price_purchase_def order_coins_def pending_row_def priced_coins_def new_transaction_def
      dest!: quote_Inr package_rows_mem split: option.splits if_splits sum.splits pricing_error.splits)

lemma start_ussd_push_started:
  assumes "start_ussd_push codes push uid pr phone db = Inr (U_started ref, db1)"
  shows "\<exists>desc tx. create_transaction (pending_row uid ''telebirr_ussd'' ref pr desc (now db)) db = Inr (tx, db1)"
  using assms
  by (auto simp: start_ussd_push_def Let_def bind_result_Inr_iff split: if_splits)

lemma ussd_started:
  assumes "telebirr_ussd_purchase codes push uid f db = Inr (U_started ref, db1)"
  obtains pr desc tx where "price_purchase f db = Inr (Inr pr)"
    and "create_transaction (pending_row uid ''telebirr_ussd'' ref pr desc (now db)) db = Inr (tx, db1)"
proof (cases "coin_purchase_refusal (Some uid) db")
  case (Some r)
  with assms show thesis by (simp add: telebirr_ussd_purchase_def)
next
  case None
  with assms obtain r where r: "price_purchase f db = Inr r"
    by (auto simp: telebirr_ussd_purchase_def bind_result_Inr_iff)
  show thesis
  proof (cases r)
    case (Inl x)
    with assms None r show thesis by (simp add: telebirr_ussd_purchase_def)
  next
    case (Inr pr)
    obtain p where p: "profiles db uid = Some p"
      using assms None r Inr by (cases "profiles db uid") (auto simp: telebirr_ussd_purchase_def)
    have "start_ussd_push codes push uid pr (or_empty (phone_number p)) db = Inr (U_started ref, db1)"
      using assms None r Inr p unfolding telebirr_ussd_purchase_def
      by (cases "pending_coin_purchase uid (pr_package pr) db") (auto split: if_splits)
    with r Inr show thesis using that start_ussd_push_started by blast
  qed
qed

text \<open>A wallet with room for \<open>n\<close> more coins.\<close>

definition room_for :: "int \<Rightarrow> user_coin_balance \<Rightarrow> bool" where
  "room_for n b \<longleftrightarrow>
     wf_balance b \<and> 0 \<le> n \<and> 0 \<le> total_purchased b \<and> 0 \<le> total_telebirr_purchased b \<and>
     balance b + n \<le> int_max \<and> total_purchased b + n \<le> int_max \<and> total_telebirr_purchased b + n \<le> int_max"

lemma room_for_fits:
  "room_for n b \<Longrightarrow> list_all (\<lambda>f. fits_positive_integer (get_field f (add_paid_coins n b))) purchase_columns"
  by (simp add: room_for_def add_paid_coins_def purchase_columns_def balance_simps)

lemma credit_order_pays:
  assumes one: "open_orders pm ref db = [i]" and n: "order_coins (coin_ledger db ! i) db = Inr n"
    and row: "balances db (tx_user (coin_ledger db ! i)) = Some row" and room: "room_for n row"
    and len: "length ref \<le> 100" "length (or_empty pid) \<le> 100"
  shows "\<exists>db'. credit_order pm desc ref pid db = Inr ((True, n), db') \<and>
               coin_balance_of db' (tx_user (coin_ledger db ! i)) = balance row + n \<and> open_orders pm ref db' = []"
proof -
  let ?t = "coin_ledger db ! i" and ?new = "if or_empty pid \<noteq> [] then or_empty pid else ref"
  let ?db' = "db\<lparr>balances := (balances db)(tx_user (coin_ledger db ! i) \<mapsto> write_fields purchase_columns (add_paid_coins n row) row),
    coin_ledger := (coin_ledger db)[i := credited_row n ?new (desc (package_label ?t db) n ?t) ?t]\<rparr>"
  have "fits_integer n" "wf_balance row"
    using room by (simp_all add: room_for_def column_defs wf_balance_def)
  moreover have "save_balance (tx_user ?t) purchase_columns (add_paid_coins n row) db =
      Inr (db\<lparr>balances := (balances db)(tx_user ?t \<mapsto> write_fields purchase_columns (add_paid_coins n row) row)\<rparr>)"
    unfolding save_balance_Inr using row room_for_fits [OF room] by simp
  ultimately have "credit_order pm desc ref pid db = Inr ((True, n), ?db')"
    using one n row len by (simp add: credit_order_def Let_def lock_balance_def)
  moreover have "coin_balance_of ?db' (tx_user ?t) = balance row + n"
    using add_paid_wf [OF \<open>wf_balance row\<close> room_for_fits [OF room]] by (simp add: coin_balance_of_def)
  moreover have "j \<notin> set (open_orders pm ref ?db')" for j
  proof (cases "j = i")
    case True
    then show ?thesis by (auto simp: open_orders_mem open_order_def credited_row_def)
  next
    case False
    then have "j \<in> set (open_orders pm ref ?db') \<Longrightarrow> j \<in> set (open_orders pm ref db)" by (simp add: open_orders_mem)
    with one False show ?thesis by auto
  qed
  then have "open_orders pm ref ?db' = []" by (metis list.set_intros(1) neq_Nil_conv)
  ultimately show ?thesis by blast
qed

lemma find_rev_map:
  "(\<And>t. P (f t) = P t) \<Longrightarrow> find P (rev (map f ts)) = None \<longleftrightarrow> find P (rev ts) = None"
  by (auto simp: find_None_iff)

section \<open>A concrete store\<close>

definition example_orders :: order_db where
  "example_orders =
     sub_db.extend example_subs
       \<lparr>package_ids = [7], user_ids = [1], usernames = (\<lambda>_. ''user_11223344''), sub_history = []\<rparr>
       \<lparr>balances := (\<lambda>_. None)(1 \<mapsto> new_balance),
        packages := (\<lambda>_. None)(7 \<mapsto> \<lparr>pkg_name = ''Starter'', price_etb = 1000, coin_amount = 100, bonus_coins = 5, pkg_is_active = True\<rparr>),
        plans := (\<lambda>_. None)(3 \<mapsto> (new_plan 1 2)\<lparr>plan_status := S_active, end_date := Some one_day\<rparr>),
        profiles := (\<lambda>_. None)(1 \<mapsto> example_profile\<lparr>phone_number := Some ''251911223344''\<rparr>)\<rparr>"

definition h5_order :: coin_transaction where
  "h5_order = pending_row 1 ''telebirr'' ''ORD1'' \<lparr>pr_package = None, pr_quoted = Some 50, pr_amount = Some 500\<rparr> ([], []) 0"

definition ussd_order :: coin_transaction where
  "ussd_order = pending_row 1 ''telebirr_ussd'' ''OC1'' \<lparr>pr_package = Some 7, pr_quoted = None, pr_amount = None\<rparr> ([], []) 0"

definition orphan_payment :: subscription_payment where
  "orphan_payment = example_payment\<lparr>pay_status := ''pending'', pay_transaction_id := None\<rparr>"

definition waiting_subscriber :: order_db where
  "waiting_subscriber = example_orders
     \<lparr>plans := (\<lambda>_. None)(3 \<mapsto> new_plan 1 2), payments := (\<lambda>_. None)(example_uuid \<mapsto> orphan_payment),
      payment_ids := [example_uuid]\<rparr>"

definition paid_notice :: notify where
  "paid_notice = \<lparr>nt_verified = True, nt_merch_order_id = Some ''ORD1'', nt_trade_status = Some ''Completed'',
     nt_payment_order_id = Some ''PAY1''\<rparr>"

definition ussd_result :: "string option \<Rightarrow> string \<Rightarrow> soap_result" where
  "ussd_result oid cd = \<lparr>soap_originator = oid, soap_code = Some cd, soap_type = Some ''0'', soap_desc = None,
     soap_transaction = None\<rparr>"

lemma example_orders_inv: "coin_inv (example_orders\<lparr>coin_ledger := l\<rparr>)"
  by (simp add: example_orders_def example_subs_def sub_db.defs coin_inv_def)

lemma example_orders_quiet: "no_pending_payment (example_orders\<lparr>coin_ledger := l\<rparr>)"
  by (simp add: example_orders_def example_subs_def sub_db.defs no_pending_payment_def)

section \<open>Properties\<close>



text \<open>
  The provider's events never unbalance the ledger. Whatever notifications, queries and USSD results
  arrive, including those that open an account and start its subscription with a welcome bonus, a bonus and
  a first gift, balances stay well formed and move by exactly the ledger rows that turn successful.
\<close>
theorem order_events_reconcile:
  assumes "coin_inv db"
  shows "coin_inv (run_requests exec_order_event es db) \<and>
         coin_balance_of (run_requests exec_order_event es db) u - coin_balance_of db u =
           coin_logged (run_requests exec_order_event es db) u - coin_logged db u"
  using order_wallet.run_wf [OF assms] order_wallet.run_balanced [OF assms] by blast

theorem order_events_reconcile_witness:
  "coin_inv (run_requests exec_order_event [Callback paid_notice] (example_orders\<lparr>coin_ledger := [h5_order]\<rparr>)) \<and>
   coin_logged (run_requests exec_order_event [Callback paid_notice] (example_orders\<lparr>coin_ledger := [h5_order]\<rparr>)) 1 = 50"
proof -
  have "coin_balance_of (run_requests exec_order_event [Callback paid_notice] (example_orders\<lparr>coin_ledger := [h5_order]\<rparr>)) 1 = 50"
    "coin_balance_of (example_orders\<lparr>coin_ledger := [h5_order]\<rparr>) 1 = 0"
    "coin_logged (example_orders\<lparr>coin_ledger := [h5_order]\<rparr>) 1 = 0"
    by code_simp+
  with order_events_reconcile [OF example_orders_inv [of "[h5_order]"], of "[Callback paid_notice]" 1] show ?thesis
    by linarith
qed

text \<open>
  A checkout notification credits coins only when its signature was verified and its trade status is one
  that pays; every other notification leaves all balances as they are.
\<close>
theorem callback_pays_only_if_paid:
  assumes "telebirr_callback n db = Inr (a, db')"
  shows "balances db' = balances db \<or>
         nt_verified n \<and> h5_trade_paid (status_key (nt_trade_status n)) \<and> (\<exists>k. a = H_credited k)"
proof -
  obtain st reason where st: "from_h5_order None (nt_trade_status n) None = (st, reason)" by fastforce
  have paid: "grants_value st \<Longrightarrow> h5_trade_paid (status_key (nt_trade_status n))"
    using from_h5_order_SUCCESS_iff [of None "nt_trade_status n" None] st
    by (auto simp: grants_value_def status_key_def h5_order_paid_def strip_def upper_def
        lstrip_def rstrip_def)
  have un: "db1 = db" if "credit_telebirr_order r pid db = Inr ((False, k), db1)" for r pid k db1
    using that by (auto simp: credit_telebirr_order_def elim!: credit_order_cases)
  show ?thesis
    using assms st paid
    by (auto simp: telebirr_callback_def Let_def bind_result_Inr_iff close_orders_def dest!: un split: if_splits)
qed

theorem callback_pays_only_if_paid_witness:
  "(\<exists>a db'. telebirr_callback (paid_notice\<lparr>nt_verified := False\<rparr>) (example_orders\<lparr>coin_ledger := [h5_order]\<rparr>) = Inr (a, db') \<and>
     balances db' = balances (example_orders\<lparr>coin_ledger := [h5_order]\<rparr>))"
proof -
  have r: "telebirr_callback (paid_notice\<lparr>nt_verified := False\<rparr>) (example_orders\<lparr>coin_ledger := [h5_order]\<rparr>) =
    Inr (H_refused (''Invalid signature'', []), example_orders\<lparr>coin_ledger := [h5_order]\<rparr>)"
    by (simp add: telebirr_callback_def)
  show ?thesis using callback_pays_only_if_paid [OF r] r by auto
qed

text \<open>
  What was quoted is what is credited. Once a USSD purchase has started under a reference, the provider's
  confirmation finds exactly that order and, the wallet having room, adds exactly the coins the purchase was
  priced at; a second confirmation finds nothing left to pay.
\<close>
theorem purchase_credits_its_quote:
  assumes start: "telebirr_ussd_purchase codes push uid f db = Inr (U_started ref, db1)" and ref: "ref \<noteq> []"
    and row: "balances db uid = Some row" and pr: "price_purchase f db = Inr (Inr pr)"
    and room: "room_for (priced_coins pr db) row" and tid: "length (or_empty tid) \<le> 100"
  shows "\<exists>db2. credit_telebirr_ussd_order ref tid db1 = Inr ((True, priced_coins pr db), db2) \<and>
               coin_balance_of db2 uid = coin_balance_of db uid + priced_coins pr db \<and>
               credit_telebirr_ussd_order ref tid db2 = Inr ((False, 0), db2)"
proof -
  obtain desc tx where cr: "create_transaction (pending_row uid ''telebirr_ussd'' ref pr desc (now db)) db = Inr (tx, db1)"
    using start pr by (auto elim!: ussd_started)
  let ?t = "pending_row uid ''telebirr_ussd'' ref pr desc (now db)" and ?i = "length (coin_ledger db)"
  note fresh = pending_row_fresh [OF cr ref]
  have t: "coin_ledger db1 ! ?i = ?t" and user: "tx_user ?t = uid" using fresh(1) by (simp_all add: pending_row_def)
  have val: "order_coins (coin_ledger db1 ! ?i) db1 = Inr (priced_coins pr db)"
    using pending_row_value [OF pr] fresh(1) t by simp
  have row1: "balances db1 (tx_user (coin_ledger db1 ! ?i)) = Some row" using fresh(1) row t user by simp
  from credit_order_pays [OF fresh(2) val row1 room fresh(3) tid] obtain db2 where
    "credit_telebirr_ussd_order ref tid db1 = Inr ((True, priced_coins pr db), db2)"
    "coin_balance_of db2 uid = balance row + priced_coins pr db" "open_orders ''telebirr_ussd'' ref db2 = []"
    unfolding credit_telebirr_ussd_order_def t user by blast
  then show ?thesis using row by (auto simp: coin_balance_of_def credit_telebirr_ussd_order_def credit_order_def)
qed

theorem purchase_credits_its_quote_witness:
  "\<exists>db1 db2. telebirr_ussd_purchase [] (\<lambda>_ _ _. \<lparr>oa_success = True, oa_reference = Some ''OC1'', oa_error = None, oa_code = None\<rparr>)
      1 \<lparr>pf_package = Some 7, pf_amount = None\<rparr> example_orders = Inr (U_started ''OC1'', db1) \<and>
     credit_telebirr_ussd_order ''OC1'' None db1 = Inr ((True, 105), db2) \<and> coin_balance_of db2 1 = 105"
proof -
  let ?f = "\<lparr>pf_package = Some 7, pf_amount = None\<rparr>" and ?pr = "\<lparr>pr_package = Some 7, pr_quoted = None, pr_amount = None\<rparr>"
  let ?run = "telebirr_ussd_purchase [] (\<lambda>_ _ _. \<lparr>oa_success = True, oa_reference = Some ''OC1'', oa_error = None, oa_code = None\<rparr>)
      1 ?f example_orders"
  have "case ?run of Inr (U_started r, _) \<Rightarrow> r = ''OC1'' | _ \<Rightarrow> False" by code_simp
  then obtain db1 where run: "?run = Inr (U_started ''OC1'', db1)"
    by (auto split: sum.splits ussd_answer.splits)
  have "price_purchase ?f example_orders = Inr (Inr ?pr)" "priced_coins ?pr example_orders = 105"
    "balances example_orders 1 = Some new_balance" "coin_balance_of example_orders 1 = 0"
    by (simp_all add: price_purchase_def given_package_def priced_coins_def example_orders_def example_subs_def sub_db.defs
        get_total_coins_def coin_balance_of_def new_balance_def)
  moreover have "room_for 105 new_balance" by (simp add: room_for_def new_balance_def wf_balance_def int_max_def)
  ultimately show ?thesis
    using purchase_credits_its_quote [OF run, of new_balance ?pr None] run by (auto simp: or_empty_def)
qed

text \<open>
  A refusal does not end the ten-minute wait. When the provider reports that a USSD purchase failed or
  was cancelled, the duplicate guard keeps answering as before: a package it blocked stays blocked.
\<close>
theorem refusal_keeps_duplicate_guard:
  assumes "telebirr_ussd_webhook refused s db = Inr (a, db')"
    and "\<not> (soap_code s = Some ''0'' \<and> soap_type s = Some ''0'')"
  shows "pending_coin_purchase uid pid db' = None \<longleftrightarrow> pending_coin_purchase uid pid db = None"
proof -
  have same: "pending_coin_purchase uid pid (close_orders sel st reason desc db) = None \<longleftrightarrow>
      pending_coin_purchase uid pid db = None" for sel st reason desc
    unfolding pending_coin_purchase_def close_orders_def by (simp add: find_rev_map)
  obtain st reason where "from_ussd_result (soap_code s) (soap_type s) (soap_desc s) = (st, reason)" by fastforce
  with assms same show ?thesis by (auto simp: telebirr_ussd_webhook_def Let_def split: if_splits)
qed

theorem refusal_keeps_duplicate_guard_witness:
  "\<exists>a db'. telebirr_ussd_webhook False (ussd_result (Some ''OC1'') ''1'') (example_orders\<lparr>coin_ledger := [ussd_order]\<rparr>) = Inr (a, db') \<and>
     map tx_payment_state (coin_ledger db') \<noteq> [PENDING] \<and> pending_coin_purchase 1 (Some 7) db' \<noteq> None"
proof -
  let ?db = "example_orders\<lparr>coin_ledger := [ussd_order]\<rparr>"
  have "case telebirr_ussd_webhook False (ussd_result (Some ''OC1'') ''1'') ?db of
      Inl _ \<Rightarrow> False | Inr (a, db') \<Rightarrow> map tx_payment_state (coin_ledger db') \<noteq> [PENDING]"
    by code_simp
  then obtain a db' where r: "telebirr_ussd_webhook False (ussd_result (Some ''OC1'') ''1'') ?db = Inr (a, db')"
    and st: "map tx_payment_state (coin_ledger db') \<noteq> [PENDING]"
    by (auto split: sum.splits)
  have p: "pending_coin_purchase 1 (Some 7) ?db \<noteq> None" by code_simp
  have f: "\<not> (soap_code (ussd_result (Some ''OC1'') ''1'') = Some ''0'' \<and> soap_type (ussd_result (Some ''OC1'') ''1'') = Some ''0'')"
    by (simp add: ussd_result_def)
  have "pending_coin_purchase 1 (Some 7) db' \<noteq> None"
    unfolding refusal_keeps_duplicate_guard [OF r f, of 1 "Some 7"] by (rule p)
  with r st show ?thesis by blast
qed

text \<open>
  A success envelope without a conversation id activates a waiting subscription: the lookup by a missing
  id matches a pending telebirr payment whose own id is still null, and the plan starts although nothing in
  the envelope names that payment.
\<close>
theorem nameless_result_activates:
  "\<not> is_active 0 (the (plans waiting_subscriber 3)) \<and>
   (\<exists>db'. telebirr_ussd_webhook False (ussd_result None ''0'') waiting_subscriber = Inr (H_subscription, db') \<and>
      is_active 0 (the (plans db' 3)) \<and> pay_status (the (payments db' example_uuid)) = ''completed'')"
proof -
  have "\<not> is_active 0 (the (plans waiting_subscriber 3))"
    "case telebirr_ussd_webhook False (ussd_result None ''0'') waiting_subscriber of
       Inr (a, db') \<Rightarrow> a = H_subscription \<and> is_active 0 (the (plans db' 3)) \<and> pay_status (the (payments db' example_uuid)) = ''completed''
     | _ \<Rightarrow> False"
    by code_simp+
  then show ?thesis by (auto split: sum.splits)
qed

end
