(* ===== verification/Points_Expiry.thy ===== *)
theory Points_Expiry
  imports Subscription
begin

text \<open>
  The 180-day points sweep: \<open>api/services/points_expiry.py\<close> and \<open>api/tasks/points.py\<close>. Activity is the
  latest of the user's coin transactions, withdrawals and logins. The deployment runs on Addis Ababa
  time, three hours ahead of UTC, with no daylight saving.
\<close>

section \<open>Activity\<close>

definition INACTIVITY_DAYS :: int where
  "INACTIVITY_DAYS = 180"

definition MINIMUM_TO_EXPIRE :: int where
  "MINIMUM_TO_EXPIRE = 1"

definition cutoff :: "int \<Rightarrow> int" where
  "cutoff t = t - INACTIVITY_DAYS * one_day"

text \<open>The last microsecond of a local calendar day, given as days since the epoch.\<close>

definition end_of_day :: "int \<Rightarrow> int" where
  "end_of_day d = (d + 1) * one_day - 1 - 3 * one_hour"

fun latest :: "int list \<Rightarrow> int option" where
  "latest [] = None"
| "latest (x # xs) = (case latest xs of None \<Rightarrow> Some x | Some y \<Rightarrow> Some (max x y))"

definition withdrawal_rows :: "'a wallet_db_scheme \<Rightarrow> withdrawal_request list" where
  "withdrawal_rows db = List.map_filter (withdrawals db) [0..<next_withdrawal db]"

definition activity_stamps :: "nat \<Rightarrow> 'a wallet_db_scheme \<Rightarrow> int list" where
  "activity_stamps uid db =
     (case latest (map tx_created_at (filter (\<lambda>t. tx_user t = uid) (coin_ledger db))) of
        None \<Rightarrow> [] | Some t \<Rightarrow> [t]) @
     (case latest (map w_created_at (filter (\<lambda>w. w_user w = uid) (withdrawal_rows db))) of
        None \<Rightarrow> [] | Some t \<Rightarrow> [t]) @
     (case profiles db uid of
        None \<Rightarrow> []
      | Some p \<Rightarrow>
          (case last_login_date p of None \<Rightarrow> [] | Some d \<Rightarrow> [end_of_day d]) @
          (case last_login p of None \<Rightarrow> [] | Some t \<Rightarrow> [t]))"

definition last_activity_at :: "nat \<Rightarrow> 'a wallet_db_scheme \<Rightarrow> int option" where
  "last_activity_at uid db = latest (activity_stamps uid db)"

definition is_inactive :: "int \<Rightarrow> nat \<Rightarrow> 'a wallet_db_scheme \<Rightarrow> bool" where
  "is_inactive t uid db = (case last_activity_at uid db of None \<Rightarrow> False | Some s \<Rightarrow> s < cutoff t)"

definition expirable_points :: "int \<Rightarrow> nat \<Rightarrow> 'a wallet_db_scheme \<Rightarrow> int" where
  "expirable_points t uid db =
     (case profiles db uid of
        None \<Rightarrow> 0
      | Some p \<Rightarrow>
          if points p < MINIMUM_TO_EXPIRE then 0
          else if \<not> is_inactive t uid db then 0
          else points p)"

section \<open>Expiry\<close>

definition expire_points_for :: "int \<Rightarrow> nat \<Rightarrow> 'a wallet_db_scheme \<Rightarrow> int \<times> 'a wallet_db_scheme" where
  "expire_points_for t uid db =
     (case profiles db uid of
        None \<Rightarrow> (0, db)
      | Some locked \<Rightarrow>
          if points locked < MINIMUM_TO_EXPIRE then (0, db)
          else if \<not> is_inactive t uid db then (0, db)
          else (points locked,
                db\<lparr>profiles := (profiles db)(uid \<mapsto> locked\<lparr>points := 0\<rparr>),
                   point_ledger := point_ledger db @
                     [\<lparr>pt_user = uid, pt_type = ''expiry'', pt_points = - points locked, balance_after = 0,
                       pt_description = (''Expired after {} days without activity'', [INACTIVITY_DAYS]),
                       pt_created_at = now db\<rparr>]\<rparr>))"

definition candidates :: "nat list \<Rightarrow> 'a wallet_db_scheme \<Rightarrow> nat list" where
  "candidates uids db =
     filter (\<lambda>u. case profiles db u of None \<Rightarrow> False | Some p \<Rightarrow> MINIMUM_TO_EXPIRE \<le> points p) uids"

definition BATCH_SIZE :: nat where
  "BATCH_SIZE = 500"

fun expire_all :: "int \<Rightarrow> nat list \<Rightarrow> 'a wallet_db_scheme \<Rightarrow> (int \<times> int \<times> int) \<times> 'a wallet_db_scheme" where
  "expire_all t [] db = ((0, 0, 0), db)"
| "expire_all t (u # us) db =
     (case expire_points_for t u db of
        (taken, db1) \<Rightarrow>
          (case expire_all t us db1 of
             ((examined, users, pts), db2) \<Rightarrow>
               ((examined + 1, users + (if taken \<noteq> 0 then 1 else 0), pts + taken), db2)))"

text \<open>The task: the profiles table is read in the order \<open>uids\<close>; at most a batch is examined.\<close>

definition expire_inactive_points ::
  "nat list \<Rightarrow> 'a wallet_db_scheme \<Rightarrow> (int \<times> int \<times> int) \<times> 'a wallet_db_scheme" where
  "expire_inactive_points uids db = expire_all (now db) (take BATCH_SIZE (candidates uids db)) db"

section \<open>Lemmas\<close>

lemma latest_None [simp]: "latest xs = None \<longleftrightarrow> xs = []"
  by (cases xs) (auto split: option.splits)

lemma latest_Some: "latest xs = Some m \<Longrightarrow> m \<in> set xs \<and> (\<forall>x\<in>set xs. x \<le> m)"
proof (induction xs arbitrary: m)
  case (Cons x xs)
  show ?case
  proof (cases "latest xs")
    case None
    with Cons.prems show ?thesis by auto
  next
    case (Some y)
    with Cons.IH [OF Some] Cons.prems show ?thesis by (auto simp: max_def split: if_splits)
  qed
qed simp

lemma stamp_protects:
  assumes "s \<in> set (activity_stamps uid db)" and "cutoff t \<le> s"
  shows "\<not> is_inactive t uid db"
proof -
  obtain m where m: "last_activity_at uid db = Some m"
    using assms(1) by (cases "last_activity_at uid db") (auto simp: last_activity_at_def)
  then have "s \<le> m" using assms(1) latest_Some unfolding last_activity_at_def by blast
  with m assms(2) show ?thesis by (simp add: is_inactive_def)
qed

lemma coin_stamp:
  assumes "tx \<in> set (coin_ledger db)" and "tx_user tx = uid"
  shows "\<exists>s\<in>set (activity_stamps uid db). tx_created_at tx \<le> s"
proof -
  let ?ts = "map tx_created_at (filter (\<lambda>t. tx_user t = uid) (coin_ledger db))"
  have mem: "tx_created_at tx \<in> set ?ts" using assms by auto
  then have "latest ?ts \<noteq> None" unfolding latest_None by (metis empty_iff list.set(1))
  then obtain m where m: "latest ?ts = Some m" by blast
  then have "tx_created_at tx \<le> m" using latest_Some mem by blast
  moreover have "m \<in> set (activity_stamps uid db)" using m by (simp add: activity_stamps_def)
  ultimately show ?thesis by blast
qed

lemma expire_cases:
  obtains (kept) "expire_points_for t uid db = (0, db)" "expirable_points t uid db = 0"
  | (taken) p where "profiles db uid = Some p" "0 < points p" "is_inactive t uid db"
      "expirable_points t uid db = points p"
      "expire_points_for t uid db =
        (points p, db\<lparr>profiles := (profiles db)(uid \<mapsto> p\<lparr>points := 0\<rparr>),
           point_ledger := point_ledger db @
             [\<lparr>pt_user = uid, pt_type = ''expiry'', pt_points = - points p, balance_after = 0,
               pt_description = (''Expired after {} days without activity'', [INACTIVITY_DAYS]),
               pt_created_at = now db\<rparr>]\<rparr>)"
proof (cases "\<exists>p. profiles db uid = Some p \<and> 0 < points p \<and> is_inactive t uid db")
  case True
  then obtain p where p: "profiles db uid = Some p" "0 < points p" "is_inactive t uid db" by blast
  then show thesis by (intro taken [OF p]) (simp_all add: expire_points_for_def expirable_points_def MINIMUM_TO_EXPIRE_def)
next
  case False
  then have "profiles db uid = Some p \<Longrightarrow> points p < 1 \<or> \<not> is_inactive t uid db" for p
    by (metis not_less zle_add1_eq_le add.left_neutral zless_imp_add1_zle linorder_not_le)
  then show thesis
    by (intro kept)
      (auto simp: expire_points_for_def expirable_points_def MINIMUM_TO_EXPIRE_def split: option.splits)
qed

lemma expire_statement:
  assumes "statement_inv opening db" and "expire_points_for t uid db = (n, db')"
  shows "statement_inv opening db'"
proof (cases rule: expire_cases [of t uid db])
  case kept
  with assms show ?thesis by simp
next
  case (taken p)
  let ?row = "\<lparr>pt_user = uid, pt_type = ''expiry'', pt_points = - points p, balance_after = 0,
               pt_description = (''Expired after {} days without activity'', [INACTIVITY_DAYS]),
               pt_created_at = now db\<rparr>"
  have db': "profiles db' = (profiles db)(uid \<mapsto> p\<lparr>points := 0\<rparr>)" "point_ledger db' = point_ledger db @ [?row]"
    using taken(5) assms(2) by auto
  have rows: "rows_of u db' = rows_of u db @ (if u = uid then [?row] else [])" for u
    by (simp add: rows_of_def db')
  have st: "statement (opening uid) (rows_of uid db)" "points p = opening uid + sum_list (map pt_points (rows_of uid db))"
    using assms(1) taken(1) by (auto simp: statement_inv_def)
  then have "statement (opening uid) (rows_of uid db')" "0 = opening uid + sum_list (map pt_points (rows_of uid db'))"
    by (simp_all add: rows statement_append)
  then show ?thesis
    unfolding statement_inv_def
  proof (intro allI impI)
    fix u q assume q: "profiles db' u = Some q"
    show "0 \<le> points q \<and> statement (opening u) (rows_of u db') \<and>
        points q = opening u + sum_list (map pt_points (rows_of u db'))"
    proof (cases "u = uid")
      case True
      then show ?thesis using q db'(1) \<open>statement (opening uid) (rows_of uid db')\<close>
          \<open>0 = opening uid + sum_list (map pt_points (rows_of uid db'))\<close> by auto
    next
      case False
      then have "profiles db u = Some q" "rows_of u db' = rows_of u db" using q db'(1) rows [of u] by simp_all
      then show ?thesis using assms(1) unfolding statement_inv_def by metis
    qed
  qed
qed

section \<open>Properties\<close>

definition stale_wallet :: wallet_db where
  "stale_wallet = example_wallet\<lparr>now := 181 * one_day,
     profiles := (\<lambda>_. None)(1 \<mapsto> example_profile\<lparr>last_login := Some 0\<rparr>)\<rparr>"

text \<open>
  Expiry takes all of a stale balance and nothing else. The number returned is what the preview
  promised; the user's points become zero and one ledger row records the loss; the points ledger stays
  readable row by row; every coin balance, the coin ledger and everybody else's profile are untouched.
\<close>
theorem expiry_takes_points_only:
  assumes "statement_inv opening db" and "expire_points_for t uid db = (n, db')"
  shows "n = expirable_points t uid db \<and> points_of db' uid = points_of db uid - n \<and>
         (n \<noteq> 0 \<longrightarrow> points_of db' uid = 0) \<and> statement_inv opening db' \<and>
         balances db' = balances db \<and> coin_ledger db' = coin_ledger db \<and>
         (\<forall>u. u \<noteq> uid \<longrightarrow> profiles db' u = profiles db u)"
  using expire_statement [OF assms] assms(2)
  by (cases rule: expire_cases [of t uid db]) (auto simp: points_of_def)

theorem expiry_takes_points_only_witness:
  "fst (expire_points_for (now stale_wallet) 1 stale_wallet) = 5000 \<and>
   points_of (snd (expire_points_for (now stale_wallet) 1 stale_wallet)) 1 = 0"
proof -
  have inv: "statement_inv (\<lambda>_. 5000) stale_wallet"
    by (simp add: statement_inv_def stale_wallet_def rows_of_def example_wallet_def example_profile_def)
  obtain n db' where e: "expire_points_for (now stale_wallet) 1 stale_wallet = (n, db')" by force
  have "expirable_points (now stale_wallet) 1 stale_wallet = 5000" by code_simp
  with expiry_takes_points_only [OF inv e] have "n = 5000" "points_of db' 1 = 0"
    by (metis, metis zero_neq_numeral)
  with e show ?thesis by (simp del: One_nat_def)
qed

text \<open>
  Recent activity protects points. A coin transaction, of whatever kind, within the last 180 days
  means that no sweep takes anything from that user, and an account with no recorded activity at all is
  left alone too.
\<close>
theorem recent_activity_protects:
  assumes "(\<exists>tx \<in> set (coin_ledger db). tx_user tx = uid \<and> cutoff t \<le> tx_created_at tx) \<or>
           last_activity_at uid db = None"
  shows "expire_points_for t uid db = (0, db)"
proof -
  have "\<not> is_inactive t uid db"
    using assms
  proof
    assume "\<exists>tx \<in> set (coin_ledger db). tx_user tx = uid \<and> cutoff t \<le> tx_created_at tx"
    then obtain tx where "tx \<in> set (coin_ledger db)" "tx_user tx = uid" "cutoff t \<le> tx_created_at tx" by blast
    then show ?thesis using coin_stamp stamp_protects by (metis order_trans)
  qed (simp add: is_inactive_def)
  then show ?thesis by (simp add: expire_points_for_def split: option.splits)
qed

theorem recent_activity_protects_witness:
  "expire_points_for 0 1 example_wallet = (0, example_wallet)"
  by (rule recent_activity_protects) code_simp

text \<open>
  Points movements are not activity. Points credited today (a prize, an adjustment) are written to
  the points ledger, which the sweep does not read: a user whose last login is 181 days old loses them
  the same day.
\<close>
theorem fresh_points_expire:
  "case add_points 1 700 (Some P_points_earned_total) (Some ''winner'') ([], []) stale_wallet of
     Inl _ \<Rightarrow> False
   | Inr db \<Rightarrow> points_of db 1 = 5700 \<and> fst (expire_points_for (now db) 1 db) = 5700 \<and>
       list_ex (\<lambda>r. pt_user r = 1 \<and> pt_created_at r = now db) (point_ledger db)"
  by code_simp

end
