(* ===== verification/Gifting.thy ===== *)
theory Gifting
  imports Subscription Coin_Pricing
begin

text \<open>
  Gifts between users: \<open>GiftTransactionViewSet.send_gift\<close> and \<open>update_gift_stats\<close> of
  \<open>api/views/gift.py\<close>, the rows of \<open>api/models/gift.py\<close>, and the per-creator limit of
  \<open>api/services/contribution_limits.py\<close>. The checks of the handler read the database before its
  transaction and hold no lock; \<open>gift_transfer\<close> is the transaction. Usernames in descriptions are
  written as user ids, and combo multipliers are counted in tenths.
\<close>

section \<open>Rows\<close>

record gift =
  gift_name :: string
  coin_value :: int
  gift_is_active :: bool
  xp_reward :: int

record gift_transaction =
  gt_sender :: nat
  gt_recipient :: nat
  gt_gift :: nat
  gt_reel :: "nat option"
  gt_quantity :: int
  gt_total_coins :: int
  gt_is_combo :: bool
  gt_multiplier :: int
  gt_message :: string
  gt_created_at :: int

record gift_combo =
  co_user :: nat
  co_reel :: nat
  co_gift :: nat
  co_count :: int
  co_total :: int
  co_last :: int
  co_active :: bool

record gift_to_creator =
  gc_sender :: nat
  gc_recipient :: nat
  gc_coins :: int
  gc_created_at :: int

record user_gift_stats =
  total_gifts_sent :: int
  total_coins_sent :: int
  unique_recipients :: nat
  favorite_gift_sent :: "nat option"
  total_gifts_received :: int
  total_coins_received :: int
  unique_senders :: nat
  favorite_gift_received :: "nat option"

record reel_info =
  reel_owner :: nat
  is_campaign_post :: bool

record gift_db = sub_db +
  gifts :: "nat \<Rightarrow> gift option"
  accounts :: "nat \<Rightarrow> bool"
  reels :: "nat \<Rightarrow> reel_info option"
  gift_log :: "gift_transaction list"
  creator_log :: "gift_to_creator list"
  combos :: "gift_combo list"
  gift_stats :: "nat \<Rightarrow> user_gift_stats option"
  xp :: "nat \<Rightarrow> int"

record gift_form =
  gf_gift :: nat
  gf_recipient :: nat
  gf_reel :: "nat option"
  gf_quantity :: int
  gf_message :: string

text \<open>\<open>SendGiftSerializer\<close>.\<close>

definition valid_form :: "gift_form \<Rightarrow> bool" where
  "valid_form f \<longleftrightarrow> 1 \<le> gf_quantity f \<and> gf_quantity f \<le> 999 \<and> length (gf_message f) \<le> 500"

section \<open>The limit per creator\<close>

definition DAILY_COIN_LIMIT :: int where
  "DAILY_COIN_LIMIT = 500"

definition POINTS_PER_COIN_GIFTED :: int where
  "POINTS_PER_COIN_GIFTED = 10"

definition DAILY_POINT_LIMIT :: int where
  "DAILY_POINT_LIMIT = DAILY_COIN_LIMIT * POINTS_PER_COIN_GIFTED"

definition window_start :: "int \<Rightarrow> int" where
  "window_start t = t - 24 * one_hour"

definition contributed_coins :: "nat \<Rightarrow> nat \<Rightarrow> 'a gift_db_scheme \<Rightarrow> int" where
  "contributed_coins s r db =
     sum_where (\<lambda>g. gc_sender g = s \<and> gc_recipient g = r \<and> window_start (now db) \<le> gc_created_at g)
       gc_coins (creator_log db)"

definition contributed_points :: "nat \<Rightarrow> nat \<Rightarrow> 'a gift_db_scheme \<Rightarrow> int" where
  "contributed_points s r db = contributed_coins s r db * POINTS_PER_COIN_GIFTED"

definition remaining_coins :: "nat \<Rightarrow> nat \<Rightarrow> 'a gift_db_scheme \<Rightarrow> int" where
  "remaining_coins s r db = max 0 (DAILY_COIN_LIMIT - contributed_coins s r db)"

definition would_exceed :: "nat \<Rightarrow> nat \<Rightarrow> int \<Rightarrow> 'a gift_db_scheme \<Rightarrow> bool" where
  "would_exceed s r n db \<longleftrightarrow> contributed_coins s r db + n > DAILY_COIN_LIMIT"

definition contribution_refusal :: "nat \<Rightarrow> nat \<Rightarrow> int \<Rightarrow> 'a gift_db_scheme \<Rightarrow> message option" where
  "contribution_refusal s r n db =
     (let already = contributed_coins s r db
      in if already + n \<le> DAILY_COIN_LIMIT then None
         else (let left = max 0 (DAILY_COIN_LIMIT - already)
               in Some (if left \<noteq> 0
                    then (''You can give {} coins to one creator in 24 hours. You have {} left for this creator today.'',
                          [DAILY_COIN_LIMIT, left])
                    else (''You can give {} coins to one creator in 24 hours. You have reached the limit for this creator today.'',
                          [DAILY_COIN_LIMIT]))))"

section \<open>Checks before the transaction\<close>

definition sent_since :: "(gift_transaction \<Rightarrow> bool) \<Rightarrow> 'a gift_db_scheme \<Rightarrow> int" where
  "sent_since sel db =
     sum_where (\<lambda>g. sel g \<and> now db - 24 * one_hour \<le> gt_created_at g) gt_total_coins (gift_log db)"

text \<open>Who may gift what to whom: the part that writes nothing.\<close>

definition check_parties ::
  "nat \<Rightarrow> gift_form \<Rightarrow> 'a gift_db_scheme \<Rightarrow> response + gift" where
  "check_parties uid f db =
     (case subscriber_action_refusal (Some uid) ''gift'' db of
        Some r \<Rightarrow> Inl (Forbidden (rf_message r, []))
      | None \<Rightarrow>
          (case gifts db (gf_gift f) of
             None \<Rightarrow> Inl (Not_found (''Gift not found or not active'', []))
           | Some g \<Rightarrow>
               if \<not> gift_is_active g then Inl (Not_found (''Gift not found or not active'', []))
               else if \<not> accounts db (gf_recipient f) then Inl (Not_found (''Recipient not found'', []))
               else if gf_recipient f = uid then Inl (Bad_request (''Cannot send gifts to yourself'', []))
               else case gf_reel f of
                 None \<Rightarrow> Inr g
               | Some rid \<Rightarrow> if reels db rid = None then Inl (Not_found (''Reel not found'', [])) else Inr g))"

text \<open>The policy checks, on the sender's balance row (created if missing).\<close>

definition check_policy ::
  "nat \<Rightarrow> gift_form \<Rightarrow> gift \<Rightarrow> user_coin_balance \<Rightarrow> 'a gift_db_scheme \<Rightarrow> response option" where
  "check_policy uid f g row db =
     (let cfg = wallet_cfg db; gs = cfg_gift_settings cfg;
          cost = coin_value g * gf_quantity f;
          pts = coins_to_points cfg cost;
          to_recipient = coins_to_points cfg
            (sent_since (\<lambda>t. gt_sender t = uid \<and> gt_recipient t = gf_recipient f) db);
          sent = coins_to_points cfg (sent_since (\<lambda>t. gt_sender t = uid) db)
      in if pts < gift_min_points_per_transaction gs then
           Some (Bad_request (''Minimum {} points required per gift transaction'', [gift_min_points_per_transaction gs]))
         else if pts > gift_max_points_per_transaction gs then
           Some (Bad_request (''Maximum {} points allowed per gift transaction'', [gift_max_points_per_transaction gs]))
         else if to_recipient + pts > gift_max_points_to_recipient_per_day gs then
           Some (Bad_request (''Maximum {} points can be sent to one recipient per day'', [gift_max_points_to_recipient_per_day gs]))
         else if sent + pts > gift_max_total_points_sent_per_day gs then
           Some (Bad_request (''Maximum {} points can be sent per day total'', [gift_max_total_points_sent_per_day gs]))
         else if \<not> purchased_coins_giftable gs then
           Some (Bad_request (''Purchased coins cannot be used for gifting at this time.'', []))
         else if giftable_balance row < cost then
           (if bonus_balance row > 0 then
              Some (Bad_request (''Subscription bonus coins cannot be used to send gifts. Please use purchased coins.'', []))
            else Some (Bad_request (''You need {} purchased coins to send this gift and have {}.'', [cost, giftable_balance row])))
         else None)"

section \<open>Combos\<close>

definition combo_window :: int where
  "combo_window = 5000000"

definition new_combo :: "nat \<Rightarrow> nat \<Rightarrow> nat \<Rightarrow> int \<Rightarrow> int \<Rightarrow> int \<Rightarrow> gift_combo" where
  "new_combo u r g q cost t =
     \<lparr>co_user = u, co_reel = r, co_gift = g, co_count = q, co_total = cost, co_last = t, co_active = True\<rparr>"

text \<open>The result is whether the gift is part of a combo, its multiplier in tenths, and the table.\<close>

definition update_combo ::
  "nat \<Rightarrow> nat \<Rightarrow> nat \<Rightarrow> int \<Rightarrow> int \<Rightarrow> int \<Rightarrow> gift_combo list \<Rightarrow> (bool \<times> int) \<times> gift_combo list" where
  "update_combo u r g q cost t cs =
     (let matches = (\<lambda>i. let c = cs ! i in co_user c = u \<and> co_reel c = r \<and> co_gift c = g \<and> co_active c);
          fresh = (\<lambda>cs'. ((1 < q, if 1 < q then 10 + q else 10), cs' @ [new_combo u r g q cost t]))
      in case find matches (rev [0..<length cs]) of
           None \<Rightarrow> fresh cs
         | Some i \<Rightarrow>
             (let c = cs ! i
              in if t - co_last c \<le> combo_window then
                   (let c' = c\<lparr>co_count := co_count c + q, co_total := co_total c + cost, co_last := t\<rparr>
                    in ((True, 10 + co_count c'), cs[i := c']))
                 else fresh (cs[i := c\<lparr>co_active := False, co_last := t\<rparr>])))"

section \<open>The transaction\<close>

text \<open>\<open>UserProfile.objects.filter(pk=...).update(...=F(...) + n)\<close> on lifetime counters.\<close>

definition bump_profile ::
  "nat \<Rightarrow> (user_profile \<Rightarrow> user_profile) \<Rightarrow> 'a gift_db_scheme \<Rightarrow> 'a gift_db_scheme result" where
  "bump_profile uid upd db =
     bind_result (of_option DoesNotExist (profiles db uid)) (\<lambda>p.
     Inr (db\<lparr>profiles := (profiles db)(uid \<mapsto> upd p)\<rparr>))"

definition sender_counters :: "int \<Rightarrow> user_profile \<Rightarrow> user_profile" where
  "sender_counters cost p =
     p\<lparr>coins_spent_total := coins_spent_total p + cost, gifts_sent_total := gifts_sent_total p + 1\<rparr>"

definition recipient_counters :: "user_profile \<Rightarrow> user_profile" where
  "recipient_counters p = p\<lparr>gifts_received_total := gifts_received_total p + 1\<rparr>"

definition gift_row ::
  "nat \<Rightarrow> gift_form \<Rightarrow> int \<Rightarrow> (bool \<times> int) \<Rightarrow> int \<Rightarrow> gift_transaction" where
  "gift_row uid f cost combo t =
     \<lparr>gt_sender = uid, gt_recipient = gf_recipient f, gt_gift = gf_gift f, gt_reel = gf_reel f,
      gt_quantity = gf_quantity f, gt_total_coins = cost, gt_is_combo = fst combo, gt_multiplier = snd combo,
      gt_message = gf_message f, gt_created_at = t\<rparr>"

definition record_gift :: "nat \<Rightarrow> gift_form \<Rightarrow> int \<Rightarrow> 'a gift_db_scheme \<Rightarrow> 'a gift_db_scheme" where
  "record_gift uid f cost db =
     (case gf_reel f of
        None \<Rightarrow> db\<lparr>gift_log := gift_log db @ [gift_row uid f cost (False, 10) (now db)]\<rparr>
      | Some rid \<Rightarrow>
          (let (combo, cs) = update_combo uid rid (gf_gift f) (gf_quantity f) cost (now db) (combos db)
           in db\<lparr>combos := cs, gift_log := gift_log db @ [gift_row uid f cost combo (now db)]\<rparr>))"

definition received_row :: "nat \<Rightarrow> gift_form \<Rightarrow> gift \<Rightarrow> int \<Rightarrow> int \<Rightarrow> coin_transaction" where
  "received_row uid f g pts t =
     (new_transaction (gf_recipient f) ''gift_received'' pts t)
       \<lparr>recipient := Some uid, reel := gf_reel f,
        description := (''Received '' @ gift_name g @ '' from @'' @ ''{}'', [int uid])\<rparr>"

definition gift_transfer ::
  "nat \<Rightarrow> gift_form \<Rightarrow> gift \<Rightarrow> 'a gift_db_scheme \<Rightarrow> (message option \<times> 'a gift_db_scheme) result" where
  "gift_transfer uid f g db =
     (let cost = coin_value g * gf_quantity f; pts = coins_to_points (wallet_cfg db) cost
      in case contribution_refusal uid (gf_recipient f) cost db of
           Some m \<Rightarrow> Inr (Some m, db)
         | None \<Rightarrow>
             bind_result (db_of (spend_coins new_balance uid cost ''gift_sent'' True
                [Kw_recipient (gf_recipient f), Kw_reel (gf_reel f),
                 Kw_description (''Sent '' @ gift_name g @ '' to @'' @ ''{}'', [int (gf_recipient f)])] db)) (\<lambda>db1.
             bind_result (bump_profile uid (sender_counters cost) db1) (\<lambda>db2.
             bind_result (add_points (gf_recipient f) pts (Some P_points_earned_total) (Some ''gift_received'')
                ([], []) db2) (\<lambda>db3.
             bind_result (bump_profile (gf_recipient f) recipient_counters db3) (\<lambda>db4.
             bind_result (create_transaction (received_row uid f g pts (now db4)) db4) (\<lambda>(_, db5).
             Inr (None, record_gift uid f cost db5)))))))"

section \<open>Statistics and the rest of the handler\<close>

definition no_stats :: user_gift_stats where
  "no_stats = \<lparr>total_gifts_sent = 0, total_coins_sent = 0, unique_recipients = 0, favorite_gift_sent = None,
     total_gifts_received = 0, total_coins_received = 0, unique_senders = 0, favorite_gift_received = None\<rparr>"

definition count_gifts :: "(gift_transaction \<Rightarrow> bool) \<Rightarrow> 'a gift_db_scheme \<Rightarrow> nat" where
  "count_gifts sel db = length (filter sel (gift_log db))"

definition update_sender_stats :: "nat \<Rightarrow> nat \<Rightarrow> int \<Rightarrow> 'a gift_db_scheme \<Rightarrow> 'a gift_db_scheme" where
  "update_sender_stats s gid n db =
     (let st = (case gift_stats db s of None \<Rightarrow> no_stats | Some x \<Rightarrow> x);
          mine = (\<lambda>t. gt_sender t = s);
          fav = (case favorite_gift_sent st of
                   None \<Rightarrow> Some gid
                 | Some h \<Rightarrow> if count_gifts (\<lambda>t. mine t \<and> gt_gift t = gid) db > count_gifts (\<lambda>t. mine t \<and> gt_gift t = h) db
                            then Some gid else Some h)
      in db\<lparr>gift_stats := (gift_stats db)(s \<mapsto> st
           \<lparr>total_gifts_sent := total_gifts_sent st + 1, total_coins_sent := total_coins_sent st + n,
            unique_recipients := length (remdups (map gt_recipient (filter mine (gift_log db)))),
            favorite_gift_sent := fav\<rparr>)\<rparr>)"

definition update_recipient_stats :: "nat \<Rightarrow> nat \<Rightarrow> int \<Rightarrow> 'a gift_db_scheme \<Rightarrow> 'a gift_db_scheme" where
  "update_recipient_stats r gid n db =
     (let st = (case gift_stats db r of None \<Rightarrow> no_stats | Some x \<Rightarrow> x);
          mine = (\<lambda>t. gt_recipient t = r);
          fav = (case favorite_gift_received st of
                   None \<Rightarrow> Some gid
                 | Some h \<Rightarrow> if count_gifts (\<lambda>t. mine t \<and> gt_gift t = gid) db > count_gifts (\<lambda>t. mine t \<and> gt_gift t = h) db
                            then Some gid else Some h)
      in db\<lparr>gift_stats := (gift_stats db)(r \<mapsto> st
           \<lparr>total_gifts_received := total_gifts_received st + 1, total_coins_received := total_coins_received st + n,
            unique_senders := length (remdups (map gt_sender (filter mine (gift_log db)))),
            favorite_gift_received := fav\<rparr>)\<rparr>)"

definition update_gift_stats :: "nat \<Rightarrow> nat \<Rightarrow> nat \<Rightarrow> int \<Rightarrow> 'a gift_db_scheme \<Rightarrow> 'a gift_db_scheme" where
  "update_gift_stats s r gid n db = update_recipient_stats r gid n (update_sender_stats s gid n db)"

definition campaign_gift_fee :: "nat \<Rightarrow> gift_form \<Rightarrow> 'a gift_db_scheme \<Rightarrow> 'a gift_db_scheme result" where
  "campaign_gift_fee uid f db =
     (case gf_reel f of
        None \<Rightarrow> Inr db
      | Some rid \<Rightarrow>
          (case reels db rid of
             None \<Rightarrow> Inr db
           | Some ri \<Rightarrow>
               if is_campaign_post ri \<and> reel_owner ri \<noteq> uid \<and> cost_gift (cfg_action_costs (wallet_cfg db)) > 0 then
                 (case db_of (spend_coins new_balance uid (cost_gift (cfg_action_costs (wallet_cfg db))) ''campaign_gift_fee''
                         False [Kw_reel (Some rid), Kw_description (''Campaign gift fee on post #{}'', [int rid])] db) of
                    Inl (ValueError _) \<Rightarrow> Inr db
                  | Inl e \<Rightarrow> Inl e
                  | Inr db1 \<Rightarrow> Inr db1)
               else Inr db))"

definition after_gift :: "nat \<Rightarrow> gift_form \<Rightarrow> gift \<Rightarrow> 'a gift_db_scheme \<Rightarrow> 'a gift_db_scheme result" where
  "after_gift uid f g db =
     (let db1 = update_gift_stats uid (gf_recipient f) (gf_gift f) (coin_value g * gf_quantity f) db;
          reward = xp_reward g * gf_quantity f;
          db2 = (if reward > 0 then db1\<lparr>xp := (xp db1)(uid := xp db1 uid + reward)\<rparr> else db1)
      in campaign_gift_fee uid f db2)"

text \<open>The handler. A \<open>ValueError\<close> in the transaction is answered after the rollback.\<close>

definition send_gift ::
  "nat \<Rightarrow> gift_form \<Rightarrow> 'a gift_db_scheme \<Rightarrow> (response \<times> 'a gift_db_scheme) result" where
  "send_gift uid f db =
     (case check_parties uid f db of
        Inl r \<Rightarrow> Inr (r, db)
      | Inr g \<Rightarrow>
          (let db0 = get_or_create_balance uid db;
               row = the (balances db0 uid)
           in case check_policy uid f g row db0 of
                Some r \<Rightarrow> Inr (r, db0)
              | None \<Rightarrow>
                  (case gift_transfer uid f g db0 of
                     Inl (ValueError m) \<Rightarrow> Inr (Bad_request m, db0)
                   | Inl e \<Rightarrow> Inl e
                   | Inr (Some m, _) \<Rightarrow> Inr (Bad_request m, db0)
                   | Inr (None, db1) \<Rightarrow>
                       bind_result (after_gift uid f g db1) (\<lambda>db2. Inr (Ok ([], []), db2)))))"

section \<open>What the transaction moves\<close>

lemma spend_form:
  assumes "db_of (spend_coins self uid n ty r ks db) = Inr db'"
  obtains row row' t where "balances db uid = Some row" "coins t = - n" "tx_user t = uid"
    "db' = db\<lparr>balances := (balances db)(uid \<mapsto> row'), coin_ledger := coin_ledger db @ [t]\<rparr>"
    "wf_balance row \<Longrightarrow> wf_balance row' \<and> balance row' = balance row - n"
  using assms spend_coins_steps [of uid n self ty r ks db]
  by (force simp: db_of_Inr steps_def moves_def)

lemma record_gift_frame [simp]:
  "balances (record_gift uid f c db) = balances db" "profiles (record_gift uid f c db) = profiles db"
  "coin_ledger (record_gift uid f c db) = coin_ledger db" "creator_log (record_gift uid f c db) = creator_log db"
  "now (record_gift uid f c db) = now db" "wallet_cfg (record_gift uid f c db) = wallet_cfg db"
  by (simp_all add: record_gift_def split: option.splits prod.splits)

lemma record_gift_log:
  "\<exists>t. gift_log (record_gift uid f c db) = gift_log db @ [t] \<and> gt_sender t = uid \<and>
       gt_recipient t = gf_recipient f \<and> gt_total_coins t = c \<and> gt_created_at t = now db"
  by (auto simp: record_gift_def gift_row_def split: option.splits prod.splits)

lemma apply_delta_gift_frame:
  "apply_delta u fl d t reason desc db = Inr db' \<Longrightarrow>
   gift_log db' = gift_log db \<and> creator_log db' = creator_log db \<and> wallet_cfg db' = wallet_cfg db"
  by (auto simp: apply_delta_def bind_result_Inr_iff Let_def split: if_splits)

lemma points_of_counters [simp]:
  "points (sender_counters c p) = points p" "points (recipient_counters p) = points p"
  by (simp_all add: sender_counters_def recipient_counters_def)

lemma bump_profile_Inr:
  assumes "bump_profile uid upd db = Inr db'" and "\<And>p. points (upd p) = points p"
  shows "points_of db' u = points_of db u" and "balances db' = balances db" and "gift_log db' = gift_log db"
    and "creator_log db' = creator_log db" and "now db' = now db" and "coin_ledger db' = coin_ledger db"
    and "wallet_cfg db' = wallet_cfg db"
  using assms by (auto simp: bump_profile_def bind_result_Inr_iff points_of_def)

text \<open>The steps of a transfer that goes through.\<close>

lemma gift_transfer_steps:
  assumes "gift_transfer uid f g db = Inr (None, db')"
  obtains db1 db2 db3 db4 db5 tx where
    "db_of (spend_coins new_balance uid (coin_value g * gf_quantity f) ''gift_sent'' True
        [Kw_recipient (gf_recipient f), Kw_reel (gf_reel f),
         Kw_description (''Sent '' @ gift_name g @ '' to @'' @ ''{}'', [int (gf_recipient f)])] db) = Inr db1"
    "bump_profile uid (sender_counters (coin_value g * gf_quantity f)) db1 = Inr db2"
    "apply_delta (gf_recipient f) P_points (coins_to_points (wallet_cfg db) (coin_value g * gf_quantity f))
       (Some P_points_earned_total) (Some ''gift_received'') ([], []) db2 = Inr db3"
    "bump_profile (gf_recipient f) recipient_counters db3 = Inr db4"
    "db5 = db4\<lparr>coin_ledger := coin_ledger db4 @
       [received_row uid f g (coins_to_points (wallet_cfg db) (coin_value g * gf_quantity f)) (now db4)]\<rparr>"
    "db' = record_gift uid f (coin_value g * gf_quantity f) db5"
    "contribution_refusal uid (gf_recipient f) (coin_value g * gf_quantity f) db = None"
proof -
  let ?c = "coin_value g * gf_quantity f"
  have ref: "contribution_refusal uid (gf_recipient f) ?c db = None"
    using assms by (auto simp: gift_transfer_def Let_def split: option.splits)
  then obtain db1 db2 db3 db4 db5 tx where
    st: "db_of (spend_coins new_balance uid ?c ''gift_sent'' True
        [Kw_recipient (gf_recipient f), Kw_reel (gf_reel f),
         Kw_description (''Sent '' @ gift_name g @ '' to @'' @ ''{}'', [int (gf_recipient f)])] db) = Inr db1"
    "bump_profile uid (sender_counters ?c) db1 = Inr db2"
    "add_points (gf_recipient f) (coins_to_points (wallet_cfg db) ?c)
       (Some P_points_earned_total) (Some ''gift_received'') ([], []) db2 = Inr db3"
    "bump_profile (gf_recipient f) recipient_counters db3 = Inr db4"
    "create_transaction (received_row uid f g (coins_to_points (wallet_cfg db) ?c) (now db4)) db4 = Inr (tx, db5)"
    "db' = record_gift uid f ?c db5"
    using assms unfolding gift_transfer_def Let_def by (auto simp: bind_result_Inr_iff)
  have "apply_delta (gf_recipient f) P_points (coins_to_points (wallet_cfg db) ?c)
       (Some P_points_earned_total) (Some ''gift_received'') ([], []) db2 = Inr db3"
    using st(3) by (simp add: add_points_def split: if_splits)
  then show thesis
    using that st ref create_transaction_Inr [OF st(5)] by blast
qed

lemma gift_transfer_moves:
  assumes tr: "gift_transfer uid f g db = Inr (None, db')" and inv: "coin_inv db"
  shows "coin_inv db'"
    and "coin_balance_of db' u = coin_balance_of db u - (if u = uid then coin_value g * gf_quantity f else 0)"
    and "points_of db' u = points_of db u +
           (if u = gf_recipient f then coins_to_points (wallet_cfg db) (coin_value g * gf_quantity f) else 0)"
    and "\<exists>t. gift_log db' = gift_log db @ [t] \<and> gt_sender t = uid \<and> gt_recipient t = gf_recipient f \<and>
             gt_total_coins t = coin_value g * gf_quantity f \<and> gt_created_at t = now db"
    and "creator_log db' = creator_log db" and "now db' = now db" and "wallet_cfg db' = wallet_cfg db"
proof -
  let ?c = "coin_value g * gf_quantity f"
  from tr obtain db1 db2 db3 db4 db5 where
    s1: "db_of (spend_coins new_balance uid ?c ''gift_sent'' True
        [Kw_recipient (gf_recipient f), Kw_reel (gf_reel f),
         Kw_description (''Sent '' @ gift_name g @ '' to @'' @ ''{}'', [int (gf_recipient f)])] db) = Inr db1"
    and s2: "bump_profile uid (sender_counters ?c) db1 = Inr db2"
    and s3: "apply_delta (gf_recipient f) P_points (coins_to_points (wallet_cfg db) ?c)
       (Some P_points_earned_total) (Some ''gift_received'') ([], []) db2 = Inr db3"
    and s4: "bump_profile (gf_recipient f) recipient_counters db3 = Inr db4"
    and s5: "db5 = db4\<lparr>coin_ledger := coin_ledger db4 @
       [received_row uid f g (coins_to_points (wallet_cfg db) ?c) (now db4)]\<rparr>"
    and s6: "db' = record_gift uid f ?c db5"
    by (rule gift_transfer_steps)
  obtain row row' t where f1: "balances db uid = Some row"
    "db1 = db\<lparr>balances := (balances db)(uid \<mapsto> row'), coin_ledger := coin_ledger db @ [t]\<rparr>"
    "wf_balance row \<Longrightarrow> wf_balance row' \<and> balance row' = balance row - ?c"
    using spend_form [OF s1] by metis
  note f2 = bump_profile_Inr [OF s2 points_of_counters(1)]
  note f3 = apply_delta_points(1) [OF s3] apply_delta_coin_tables [OF s3] apply_delta_gift_frame [OF s3]
  note f4 = bump_profile_Inr [OF s4 points_of_counters(2)]
  have bal: "balances db' = (balances db)(uid \<mapsto> row')"
    using f1(2) f2 f3 f4 s5 s6 by simp
  have wf: "wf_balance row" using inv f1(1) by (auto simp: coin_inv_def)
  show "coin_inv db'" using inv bal f1(3) [OF wf] by (auto simp: coin_inv_def)
  show "coin_balance_of db' u = coin_balance_of db u - (if u = uid then ?c else 0)"
    using bal f1(1) f1(3) [OF wf] by (auto simp: coin_balance_of_def)
  have "points_of db' u = points_of db5 u" "points_of db5 u = points_of db4 u" "points_of db1 u = points_of db u"
    using s6 s5 f1(2) by (simp_all add: points_of_def)
  then show "points_of db' u = points_of db u + (if u = gf_recipient f then coins_to_points (wallet_cfg db) ?c else 0)"
    using f2(1) [of u] f3(1) [of u] f4(1) [of u] by simp
  have log: "gift_log db5 = gift_log db" "now db5 = now db" "creator_log db5 = creator_log db" "wallet_cfg db5 = wallet_cfg db"
    using f1(2) f2 f3 f4 s5 by simp_all
  show "\<exists>t. gift_log db' = gift_log db @ [t] \<and> gt_sender t = uid \<and> gt_recipient t = gf_recipient f \<and>
             gt_total_coins t = ?c \<and> gt_created_at t = now db"
    using record_gift_log [of uid f ?c db5] s6 log by simp
  show "creator_log db' = creator_log db" and "now db' = now db" and "wallet_cfg db' = wallet_cfg db"
    using s6 log by simp_all
qed

section \<open>Windows\<close>

lemma coins_to_points_add:
  "coins_to_points c (a + b) \<le> coins_to_points c a + coins_to_points c b + 1"
proof (cases "coins_to_points_conversion (cfg_withdrawal_settings c) \<le> 0")
  case False
  let ?r = "coins_to_points_conversion (cfg_withdrawal_settings c)"
  have r: "0 < ?r" using False by simp
  have "(a + b) div ?r = a div ?r + b div ?r + (a mod ?r + b mod ?r) div ?r" by (rule div_add1_eq)
  moreover have "(a mod ?r + b mod ?r) div ?r \<le> 1"
  proof -
    have "a mod ?r < ?r" "b mod ?r < ?r" using r by simp_all
    then have "a mod ?r + b mod ?r < 2 * ?r" by linarith
    moreover have "(a mod ?r + b mod ?r) div ?r * ?r \<le> a mod ?r + b mod ?r"
      using r by (simp add: div_mult_mod_eq [symmetric] minus_mod_eq_div_mult [symmetric])
    ultimately have "(a mod ?r + b mod ?r) div ?r * ?r < 2 * ?r" by linarith
    then show ?thesis using r by (simp add: mult_less_cancel_right)
  qed
  ultimately show ?thesis using False by (simp add: coins_to_points_def Let_def)
qed (simp add: coins_to_points_def Let_def)

lemma coins_to_points_unit:
  "coins_to_points_conversion (cfg_withdrawal_settings c) = 1 \<Longrightarrow> coins_to_points c a = a"
  by (simp add: coins_to_points_def)

lemma sent_since_add:
  assumes "gift_log db' = gift_log db @ [t]" and "now db' = now db" and "gt_created_at t = now db" and "sel t"
  shows "sent_since sel db' = sent_since sel db + gt_total_coins t"
  using assms by (simp add: sent_since_def one_hour_def)

section \<open>A concrete store\<close>

definition example_gift :: gift where
  "example_gift = \<lparr>gift_name = ''Crown'', coin_value = 400, gift_is_active = True, xp_reward = 3\<rparr>"

definition example_gift_form :: gift_form where
  "example_gift_form = \<lparr>gf_gift = 7, gf_recipient = 2, gf_reel = None, gf_quantity = 1, gf_message = []\<rparr>"

definition rich_balance :: user_coin_balance where
  "rich_balance = new_balance\<lparr>balance := 9000, purchased_balance := 9000, telebirr_purchased_balance := 9000\<rparr>"

definition example_gift_db :: gift_db where
  "example_gift_db =
     \<lparr>balances = (\<lambda>_. None)(1 \<mapsto> rich_balance), coin_ledger = [], packages = (\<lambda>_. None), now = 0,
      profiles = (\<lambda>_. None)(1 \<mapsto> new_profile, 2 \<mapsto> new_profile), point_ledger = [],
      wallet_cfg = default_config, withdrawals = (\<lambda>_. None), next_withdrawal = 0,
      tiers = (\<lambda>_. None)(2 \<mapsto> weekly_tier), tier_ids = [2],
      plans = (\<lambda>_. None)(3 \<mapsto> started_plan (Some weekly_tier) 0 (new_plan 1 2)), plan_ids = [3],
      payments = (\<lambda>_. None), payment_ids = [], legacy_subscriptions = (\<lambda>_. None),
      gifts = (\<lambda>_. None)(7 \<mapsto> example_gift), accounts = (\<lambda>u. u = 1 \<or> u = 2), reels = (\<lambda>_. None),
      gift_log = [], creator_log = [], combos = [], gift_stats = (\<lambda>_. None), xp = (\<lambda>_. 0)\<rparr>"

lemma example_gift_db_inv: "coin_inv example_gift_db"
  by (simp add: example_gift_db_def coin_inv_def wf_balance_def rich_balance_def new_balance_def)

definition state_of :: "'s \<Rightarrow> ('r \<times> 's) result \<Rightarrow> 's" where
  "state_of s r = (case r of Inl _ \<Rightarrow> s | Inr (_, s') \<Rightarrow> s')"

section \<open>Properties\<close>





text \<open>
  The 500-coin limit does not bind. The limit counts \<open>GiftToCreator\<close> rows, which the gift endpoint
  never writes: a gift that goes through leaves what counts as contributed, what remains, and every
  later decision of the limit as they were, so gifts below 500 coins can follow each other without end.
\<close>
theorem contribution_limit_not_binding:
  assumes "gift_transfer uid f g db = Inr (None, db')" and "coin_inv db"
  shows "contributed_coins s r db' = contributed_coins s r db \<and>
         remaining_coins s r db' = remaining_coins s r db \<and>
         contribution_refusal s r n db' = contribution_refusal s r n db"
proof -
  have "contributed_coins s r db' = contributed_coins s r db"
    using gift_transfer_moves(5,6) [OF assms] by (simp add: contributed_coins_def)
  then show ?thesis by (simp add: remaining_coins_def contribution_refusal_def)
qed

theorem contribution_limit_not_binding_witness:
  "\<exists>db'. gift_transfer 1 example_gift_form example_gift example_gift_db = Inr (None, db') \<and>
         coin_value example_gift = 400 \<and> remaining_coins 1 2 db' = 500 \<and>
         contribution_refusal 1 2 400 db' = None"
proof -
  have "(case gift_transfer 1 example_gift_form example_gift example_gift_db of
      Inr (None, db') \<Rightarrow> True | _ \<Rightarrow> False)" by code_simp
  then obtain db' where tr: "gift_transfer 1 example_gift_form example_gift example_gift_db = Inr (None, db')"
    by (auto split: sum.splits prod.splits option.splits)
  have "remaining_coins 1 2 example_gift_db = 500" "contribution_refusal 1 2 400 example_gift_db = None"
    by code_simp+
  with contribution_limit_not_binding [OF tr example_gift_db_inv] tr show ?thesis
    by (simp add: example_gift_def)
qed

text \<open>
  A received gift unbalances the coin ledger. The recipient's \<open>gift_received\<close> row is a successful
  coin transaction whose \<open>coins\<close> are points, and no coin balance moves with it: after one gift the
  recipient's coin ledger sums to 400 over a balance of 0.
\<close>
theorem received_gift_unbalances_ledger:
  "let db = state_of example_gift_db (send_gift 1 example_gift_form example_gift_db)
   in coin_logged db 2 = 400 \<and> coin_balance_of db 2 = 0"
  by code_simp

text \<open>
  The daily caps can be overrun by two requests at once. The caps are read before the transaction and
  without a lock: two gifts of 450 points that are both checked before either commits both go through,
  and the recipient gets 900 points under a cap of 500.
\<close>
theorem concurrent_gifts_overrun_cap:
  "let f = example_gift_form\<lparr>gf_quantity := 1\<rparr>; g = example_gift\<lparr>coin_value := 450\<rparr>;
       db0 = example_gift_db\<lparr>wallet_cfg := default_config\<lparr>cfg_gift_settings :=
               default_gift_settings\<lparr>gift_max_points_to_recipient_per_day := 500\<rparr>\<rparr>\<rparr>
   in check_policy 1 f g rich_balance db0 = None \<and>
      (case gift_transfer 1 f g db0 of
         Inr (None, db1) \<Rightarrow>
           (case gift_transfer 1 f g db1 of
              Inr (None, db2) \<Rightarrow> coins_to_points (wallet_cfg db2)
                (sent_since (\<lambda>t. gt_sender t = 1 \<and> gt_recipient t = 2) db2) = 900
            | _ \<Rightarrow> False)
       | _ \<Rightarrow> False)"
  by code_simp

end
