(* ===== verification/Media_Serving.thy ===== *)
theory Media_Serving
  imports Py_Strings
begin

text \<open>
  Byte-serving of uploaded media: \<open>common/http/ranges.py\<close> (parsing a \<open>Range\<close> header, streaming a file in
  chunks) and \<open>api/views/media.py\<close> (turning the requested path into a name below the media root, and the
  handler). The storage backend is a parameter; headers that only decorate a response (content type,
  disposition, dates) are not part of the model. Paths are ASCII, on which \<open>unicodedata.normalize\<close> is the
  identity.
\<close>

section \<open>Splitting and joining\<close>

fun split_on :: "char \<Rightarrow> string \<Rightarrow> string list" where
  "split_on c [] = [[]]"
| "split_on c (d # s) =
     (if d = c then [] # split_on c s
      else case split_on c s of [] \<Rightarrow> [[d]] | w # ws \<Rightarrow> (d # w) # ws)"

fun join_with :: "char \<Rightarrow> string list \<Rightarrow> string" where
  "join_with c [] = []"
| "join_with c [w] = w"
| "join_with c (w # v # ws) = w @ c # join_with c (v # ws)"

lemma split_on_nonempty [simp]: "split_on c s \<noteq> []"
  by (induction s) (auto split: list.splits)

lemma join_split [simp]: "join_with c (split_on c s) = s"
proof (induction s)
  case (Cons d s)
  then show ?case
    by (cases "split_on c s") (auto split: list.splits, (metis append_Cons join_with.simps(2,3) neq_Nil_conv)+)
qed simp

lemma split_on_parts: "w \<in> set (split_on c s) \<Longrightarrow> c \<notin> set w"
proof (induction s arbitrary: w)
  case (Cons d s)
  then show ?case by (cases "split_on c s") (auto split: if_splits)
qed simp

lemma split_word: "c \<notin> set w \<Longrightarrow> split_on c w = [w]"
  by (induction w) auto

lemma split_word_append: "c \<notin> set w \<Longrightarrow> split_on c (w @ c # s) = w # split_on c s"
  by (induction w) auto

lemma split_join [simp]:
  "ws \<noteq> [] \<Longrightarrow> (\<And>w. w \<in> set ws \<Longrightarrow> c \<notin> set w) \<Longrightarrow> split_on c (join_with c ws) = ws"
  by (induction c ws rule: join_with.induct) (auto simp: split_word split_word_append)

section \<open>Ranges\<close>

record range_spec =
  rs_start :: nat
  rs_end :: nat
  rs_size :: nat

definition rs_length :: "range_spec \<Rightarrow> nat" where
  "rs_length r = rs_end r - rs_start r + 1"

definition content_range :: "range_spec \<Rightarrow> string" where
  "content_range r = ''bytes '' @ show_nat (rs_start r) @ ''-'' @ show_nat (rs_end r) @ ''/'' @ show_nat (rs_size r)"

definition is_whole_file :: "range_spec \<Rightarrow> bool" where
  "is_whole_file r \<longleftrightarrow> rs_start r = 0 \<and> int (rs_end r) = int (rs_size r) - 1"

datatype range_error = RangeNotSatisfiable

text \<open>\<open>^bytes=(\d*)-(\d*)$\<close> on a stripped header: the two digit strings.\<close>

definition match_range :: "string \<Rightarrow> (string \<times> string) option" where
  "match_range h =
     (if \<not> startswith ''bytes='' h then None
      else (let r = drop 6 h; a = takeWhile is_digit r; r1 = dropWhile is_digit r
            in case r1 of
                 [] \<Rightarrow> None
               | c # b \<Rightarrow> if c = CHR ''-'' \<and> list_all is_digit b then Some (a, b) else None))"

definition parse_range_header :: "string option \<Rightarrow> nat \<Rightarrow> range_error + range_spec option" where
  "parse_range_header header fsize =
     (case header of
        None \<Rightarrow> Inr None
      | Some h \<Rightarrow>
          if h = [] then Inr None
          else if CHR '','' \<in> set (strip h) then Inr None
          else case match_range (strip h) of
            None \<Rightarrow> Inr None
          | Some (raw_start, raw_end) \<Rightarrow>
              if fsize = 0 then Inl RangeNotSatisfiable
              else if raw_start = [] then
                (if raw_end = [] then Inr None
                 else if nat_of_digits raw_end = 0 then Inl RangeNotSatisfiable
                 else (let start = fsize - nat_of_digits raw_end; last_byte = fsize - 1
                       in if last_byte < start then Inl RangeNotSatisfiable
                          else Inr (Some \<lparr>rs_start = start, rs_end = last_byte, rs_size = fsize\<rparr>)))
              else
                (let start = nat_of_digits raw_start
                 in if fsize \<le> start then Inl RangeNotSatisfiable
                    else (let last_byte = (if raw_end \<noteq> [] then min (nat_of_digits raw_end) (fsize - 1) else fsize - 1)
                          in if last_byte < start then Inl RangeNotSatisfiable
                             else Inr (Some \<lparr>rs_start = start, rs_end = last_byte, rs_size = fsize\<rparr>))))"

section \<open>Streaming a file\<close>

definition DEFAULT_CHUNK_SIZE :: nat where
  "DEFAULT_CHUNK_SIZE = 64 * 1024"

text \<open>The loop of \<open>file_chunks\<close>: a short read takes what is left, an empty one ends it.\<close>

function read_chunks :: "nat \<Rightarrow> nat \<Rightarrow> 'b list \<Rightarrow> 'b list list" where
  "read_chunks chunk_size remaining rest =
     (if remaining = 0 then []
      else (let d = take (min chunk_size remaining) rest
            in if d = [] then []
               else d # read_chunks chunk_size (remaining - length d) (drop (length d) rest)))"
  by pat_completeness auto
termination
  by (relation "measure (\<lambda>(_, _, rest). length rest)") (auto split: if_splits)

declare read_chunks.simps [simp del]

definition file_chunks :: "'b list \<Rightarrow> nat \<Rightarrow> nat \<Rightarrow> nat \<Rightarrow> 'b list list" where
  "file_chunks content start len chunk_size = read_chunks chunk_size len (drop start content)"

section \<open>Names below the media root\<close>

text \<open>\<open>posixpath.normpath\<close>; the components are collected in reverse.\<close>

definition initial_slashes :: "string \<Rightarrow> nat" where
  "initial_slashes p =
     (if \<not> startswith ''/'' p then 0
      else if startswith ''//'' p \<and> \<not> startswith ''///'' p then 2 else 1)"

fun norm_comps :: "bool \<Rightarrow> string list \<Rightarrow> string list \<Rightarrow> string list" where
  "norm_comps rooted acc [] = acc"
| "norm_comps rooted acc (cmp # comps) =
     (if cmp = [] \<or> cmp = ''.'' then norm_comps rooted acc comps
      else if cmp \<noteq> ''..'' \<or> (\<not> rooted \<and> acc = []) \<or> (acc \<noteq> [] \<and> hd acc = ''..'')
      then norm_comps rooted (cmp # acc) comps
      else norm_comps rooted (tl acc) comps)"

definition normpath :: "string \<Rightarrow> string" where
  "normpath p =
     (if p = [] then ''.''
      else (let n = initial_slashes p;
                q = replicate n (CHR ''/'') @ join_with (CHR ''/'') (rev (norm_comps (n \<noteq> 0) [] (split_on (CHR ''/'') p)))
            in if q = [] then ''.'' else q))"

definition safe_relative_name :: "string \<Rightarrow> string option" where
  "safe_relative_name p =
     (if p = [] then None
      else if char_of (0::nat) \<in> set p then None
      else if startswith ''/'' p \<or> startswith [char_of (92::nat)] p \<or> char_of (92::nat) \<in> set p then None
      else if CHR '':'' \<in> set (hd (split_on (CHR ''/'') p)) then None
      else (let n = normpath p
            in if startswith ''..'' n \<or> startswith ''/'' n \<or> n = ''.'' then None
               else if list_ex (\<lambda>part. part = ''..'') (split_on (CHR ''/'') n) then None
               else Some n))"

section \<open>The handler\<close>

text \<open>
  What the storage answers: whether a name exists, whether the backend serves its own URLs, the URL, and
  a local file's content and modification time in whole seconds (none when the file cannot be read).
\<close>

record 'b storage =
  st_exists :: "string \<Rightarrow> bool"
  st_remote :: bool
  st_url :: "string \<Rightarrow> string option"
  st_file :: "string \<Rightarrow> ('b list \<times> nat) option"

record media_request =
  rq_path :: string
  rq_head :: bool
  rq_range :: "string option"
  rq_if_none_match :: "string option"

datatype 'b media_response =
    Http_status nat
  | Redirect_to string
  | Accel_redirect string
  | Not_modified
  | Unsatisfiable nat
  | Head_only nat
  | Whole_file "'b list"
  | Partial_content range_spec "'b list list"

definition etag :: "nat \<Rightarrow> nat \<Rightarrow> string" where
  "etag mtime fsize = ''W/'' @ [char_of (34::nat)] @ show_nat mtime @ ''-'' @ show_nat fsize @ [char_of (34::nat)]"

definition rstrip_slash :: "string \<Rightarrow> string" where
  "rstrip_slash s = rev (dropWhile (\<lambda>c. c = CHR ''/'') (rev s))"

definition serve_media :: "'b storage \<Rightarrow> string \<Rightarrow> media_request \<Rightarrow> 'b media_response" where
  "serve_media st internal_location rq =
     (case safe_relative_name (rq_path rq) of
        None \<Rightarrow> Http_status 404
      | Some name \<Rightarrow>
          if \<not> st_exists st name then Http_status 404
          else if st_remote st then
            (case st_url st name of
               Some url \<Rightarrow> if url \<noteq> [] then Redirect_to url else Http_status 502
             | None \<Rightarrow> Http_status 502)
          else if internal_location \<noteq> [] then Accel_redirect (rstrip_slash internal_location @ ''/'' @ name)
          else case st_file st name of
            None \<Rightarrow> Http_status 404
          | Some (content, mtime) \<Rightarrow>
              if rq_if_none_match rq = Some (etag mtime (length content)) then Not_modified
              else case parse_range_header (rq_range rq) (length content) of
                Inl _ \<Rightarrow> Unsatisfiable (length content)
              | Inr spec \<Rightarrow>
                  if rq_head rq then Head_only (length content)
                  else case spec of
                    None \<Rightarrow> Whole_file content
                  | Some r \<Rightarrow>
                      Partial_content r (file_chunks content (rs_start r) (rs_length r) DEFAULT_CHUNK_SIZE))"

section \<open>Ranges lie in the file\<close>

definition wf_range :: "nat \<Rightarrow> range_spec \<Rightarrow> bool" where
  "wf_range fsize r \<longleftrightarrow> rs_size r = fsize \<and> rs_start r \<le> rs_end r \<and> rs_end r < fsize"

lemma parse_range_wf: "parse_range_header h fsize = Inr (Some r) \<Longrightarrow> wf_range fsize r"
  by (auto simp: parse_range_header_def wf_range_def Let_def split: option.splits if_splits prod.splits)

lemma strip_bytes:
  assumes "list_all is_digit a" and "list_all is_digit b"
  shows "strip (''bytes='' @ a @ ''-'' @ b) = ''bytes='' @ a @ ''-'' @ b"
proof (rule strip_no_space)
  have "list_all (\<lambda>c. \<not> is_space c) s" if "list_all is_digit s" for s
    using that by (auto simp: list_all_iff is_digit_not_space)
  moreover have "list_all (\<lambda>c. \<not> is_space c) (''bytes='')" "list_all (\<lambda>c. \<not> is_space c) ''-''"
    by (simp_all add: is_space_def code_def)
  ultimately show "list_all (\<lambda>c. \<not> is_space c) (''bytes='' @ a @ ''-'' @ b)"
    using assms unfolding list_all_append by blast
qed

lemma match_range_written:
  assumes "list_all is_digit a" and "list_all is_digit b"
  shows "match_range (''bytes='' @ a @ ''-'' @ b) = Some (a, b)"
proof -
  have "\<not> is_digit (CHR ''-'')" by (simp add: is_digit_def code_def)
  then have "takeWhile is_digit (a @ ''-'' @ b) = a \<and> dropWhile is_digit (a @ ''-'' @ b) = ''-'' @ b"
    using takeWhile_digits [OF assms(1), of "''-'' @ b"] by simp
  with assms show ?thesis by (simp add: match_range_def startswith_def Let_def)
qed

lemma digits_no_comma: "list_all is_digit s \<Longrightarrow> CHR '','' \<notin> set s"
  by (auto simp: list_all_iff is_digit_def code_def)

lemma read_chunks_step:
  "read_chunks c n rest =
     (if n = 0 \<or> take (min c n) rest = [] then []
      else take (min c n) rest #
           read_chunks c (n - length (take (min c n) rest)) (drop (length (take (min c n) rest)) rest))"
  by (subst read_chunks.simps) (auto simp: Let_def min_def)

lemma take_chunk: "take (min c n) rest @ take (n - length (take (min c n) rest)) (drop (length (take (min c n) rest)) rest) = take n rest"
proof -
  let ?k = "length (take (min c n) rest)"
  have "take (min c n) rest = take ?k rest" by (cases "length rest \<le> min c n") (simp_all add: min_def)
  moreover have "?k \<le> n" by simp
  ultimately have "take (min c n) rest @ take (n - ?k) (drop ?k rest) = take (?k + (n - ?k)) rest"
    by (simp only: take_add)
  with \<open>?k \<le> n\<close> show ?thesis by simp
qed

lemma read_chunks_concat: "0 < c \<Longrightarrow> concat (read_chunks c n rest) = take n rest"
proof (induction c n rest rule: read_chunks.induct)
  case (1 c n rest)
  let ?d = "take (min c n) rest"
  show ?case
  proof (cases "n = 0 \<or> ?d = []")
    case True
    with 1(2) show ?thesis by (subst read_chunks_step) auto
  next
    case False
    then have "concat (read_chunks c (n - length ?d) (drop (length ?d) rest)) = take (n - length ?d) (drop (length ?d) rest)"
      using 1 by blast
    with False show ?thesis
      unfolding read_chunks_step [of c n rest] by (simp only: if_False concat.simps take_chunk)
  qed
qed

lemma read_chunks_sizes: "d \<in> set (read_chunks c n rest) \<Longrightarrow> d \<noteq> [] \<and> length d \<le> c"
proof (induction c n rest rule: read_chunks.induct)
  case (1 c n rest)
  let ?d = "take (min c n) rest"
  from 1(2) have "\<not> (n = 0 \<or> ?d = [])"
    and "d = ?d \<or> d \<in> set (read_chunks c (n - length ?d) (drop (length ?d) rest))"
    by (subst (asm) read_chunks_step, simp split: if_splits)+
  with 1(1) show ?case by auto
qed

section \<open>Names stay below the root\<close>

text \<open>
  The specification: walking a relative path down from the root. An empty or dot component stays, a double
  dot goes up one level and is impossible at the root; the position is kept innermost first.
\<close>

fun walk :: "string list \<Rightarrow> string list \<Rightarrow> string list option" where
  "walk pos [] = Some pos"
| "walk pos (c # cs) =
     (if c = [] \<or> c = ''.'' then walk pos cs
      else if c = ''..'' then (case pos of [] \<Rightarrow> None | _ # up \<Rightarrow> walk up cs)
      else walk (c # pos) cs)"

text \<open>A collected path that has left the root keeps a double dot at its outer end.\<close>

lemma norm_comps_escaped:
  "''..'' \<notin> set inner \<Longrightarrow> 0 < k \<Longrightarrow>
   \<exists>inner' k'. norm_comps False (inner @ replicate k ''..'') cs = inner' @ replicate k' ''..'' \<and>
               ''..'' \<notin> set inner' \<and> 0 < k'"
proof (induction cs arbitrary: inner k)
  case Nil
  then show ?case by auto
next
  case (Cons c cs)
  consider "c = [] \<or> c = ''.''" | "c = ''..''" "inner = []" | x xs where "c = ''..''" "inner = x # xs"
    | "c \<noteq> []" "c \<noteq> ''.''" "c \<noteq> ''..''"
    by (cases inner) auto
  then show ?case
  proof cases
    case 1
    with Cons show ?thesis by auto
  next
    case 2
    with Cons.IH [of "[]" "Suc k"] Cons.prems show ?thesis by (cases k) auto
  next
    case 3
    with Cons.IH [of xs k] Cons.prems show ?thesis by auto
  next
    case 4
    with Cons.IH [of "c # inner" k] Cons.prems show ?thesis by auto
  qed
qed

lemma norm_comps_walk:
  "''..'' \<notin> set acc \<Longrightarrow>
   (\<forall>pos. walk acc cs = Some pos \<longrightarrow> norm_comps False acc cs = pos \<and> ''..'' \<notin> set pos) \<and>
   (walk acc cs = None \<longrightarrow> norm_comps False acc cs \<noteq> [] \<and> last (norm_comps False acc cs) = ''..'')"
proof (induction cs arbitrary: acc)
  case (Cons c cs)
  consider "c = [] \<or> c = ''.''" | "c = ''..''" "acc = []" | x xs where "c = ''..''" "acc = x # xs"
    | "c \<noteq> []" "c \<noteq> ''.''" "c \<noteq> ''..''"
    by (cases acc) auto
  then show ?case
  proof cases
    case 1
    with Cons.IH [OF Cons.prems] show ?thesis by auto
  next
    case 2
    with norm_comps_escaped [of "[]" 1 cs] show ?thesis by (auto simp: last_append)
  next
    case 3
    with Cons.IH [of xs] Cons.prems show ?thesis by auto
  next
    case 4
    with Cons.IH [of "c # acc"] Cons.prems show ?thesis by auto
  qed
qed simp

lemma walk_parts:
  "walk acc cs = Some pos \<Longrightarrow> w \<in> set pos \<Longrightarrow> w \<in> set acc \<or> w \<in> set cs \<and> w \<noteq> [] \<and> w \<noteq> ''.''"
  by (induction acc cs rule: walk.induct) (auto split: if_splits list.splits)

lemma startswith_join:
  assumes "ws \<noteq> []" and "\<And>w. w \<in> set ws \<Longrightarrow> w \<noteq> [] \<and> w \<noteq> ''.'' \<and> CHR ''/'' \<notin> set w"
  shows "startswith ''..'' (join_with (CHR ''/'') ws) \<longleftrightarrow> startswith ''..'' (hd ws)"
    and "\<not> startswith ''/'' (join_with (CHR ''/'') ws)"
    and "join_with (CHR ''/'') ws \<noteq> ''.''" and "join_with (CHR ''/'') ws \<noteq> []"
proof -
  obtain w vs where ws: "ws = w # vs" using assms(1) by (cases ws) auto
  with assms(2) have w: "w \<noteq> []" "w \<noteq> ''.''" "CHR ''/'' \<notin> set w" by auto
  then obtain c w' where c: "w = c # w'" "c \<noteq> CHR ''/''" by (cases w) auto
  have j: "join_with (CHR ''/'') ws = w \<or> (\<exists>r. join_with (CHR ''/'') ws = w @ CHR ''/'' # r)"
    by (cases vs) (auto simp: ws)
  show "startswith ''..'' (join_with (CHR ''/'') ws) \<longleftrightarrow> startswith ''..'' (hd ws)"
    using j w c ws by (cases w') (auto simp: startswith_def)
  show "\<not> startswith ''/'' (join_with (CHR ''/'') ws)" "join_with (CHR ''/'') ws \<noteq> ''.''" "join_with (CHR ''/'') ws \<noteq> []"
    using j w c by (auto simp: startswith_def)
qed

text \<open>What the caller must not write at all.\<close>

definition plain_path :: "string \<Rightarrow> bool" where
  "plain_path p \<longleftrightarrow> p \<noteq> [] \<and> char_of (0::nat) \<notin> set p \<and> char_of (92::nat) \<notin> set p \<and> \<not> startswith ''/'' p \<and>
     CHR '':'' \<notin> set (hd (split_on (CHR ''/'') p))"

lemma normpath_relative:
  "p \<noteq> [] \<Longrightarrow> \<not> startswith ''/'' p \<Longrightarrow>
   normpath p = (let q = join_with (CHR ''/'') (rev (norm_comps False [] (split_on (CHR ''/'') p))) in if q = [] then ''.'' else q)"
  by (simp add: normpath_def initial_slashes_def Let_def)

lemma safe_name_walk:
  "safe_relative_name p = Some n \<longleftrightarrow>
     plain_path p \<and>
     (\<exists>pos. walk [] (split_on (CHR ''/'') p) = Some pos \<and> pos \<noteq> [] \<and> \<not> startswith ''..'' (last pos) \<and>
            n = join_with (CHR ''/'') (rev pos))"
proof (cases "plain_path p")
  case False
  then show ?thesis by (auto simp: safe_relative_name_def plain_path_def startswith_def)
next
  case plain: True
  let ?cs = "split_on (CHR ''/'') p"
  have bs: "\<not> startswith [char_of (92::nat)] p" using plain by (cases p) (auto simp: plain_path_def startswith_def)
  have np: "normpath p = (let q = join_with (CHR ''/'') (rev (norm_comps False [] ?cs)) in if q = [] then ''.'' else q)"
    using plain by (intro normpath_relative) (simp_all add: plain_path_def)
  show ?thesis
  proof (cases "walk [] ?cs")
    case None
    define ws where "ws = rev (norm_comps False [] ?cs)"
    have "ws \<noteq> []" "hd ws = ''..''" using norm_comps_walk [of "[]" ?cs] None by (auto simp: ws_def hd_rev)
    then have "startswith ''..'' (join_with (CHR ''/'') ws)" by (cases "(CHR ''/'', ws)" rule: join_with.cases) (auto simp: startswith_def)
    then have "startswith ''..'' (normpath p)" unfolding np ws_def [symmetric] by (auto simp: Let_def startswith_def)
    with None show ?thesis by (simp add: safe_relative_name_def Let_def)
  next
    case (Some pos)
    have nc: "norm_comps False [] ?cs = pos" "''..'' \<notin> set pos" using norm_comps_walk [of "[]" ?cs] Some by auto
    have parts: "w \<noteq> [] \<and> w \<noteq> ''.'' \<and> CHR ''/'' \<notin> set w" if "w \<in> set (rev pos)" for w
      using walk_parts [OF Some, of w] split_on_parts [of w "CHR ''/''" p] that by auto
    show ?thesis
    proof (cases "pos = []")
      case True
      then show ?thesis using Some nc by (simp add: safe_relative_name_def np startswith_def)
    next
      case False
      have rv: "rev pos \<noteq> []" using False by simp
      note sj = startswith_join [OF rv parts] and ne = False
      have np': "normpath p = join_with (CHR ''/'') (rev pos)"
        unfolding np nc using sj(4) ne by (simp add: Let_def)
      have sp: "split_on (CHR ''/'') (normpath p) = rev pos"
        unfolding np' using ne parts by (intro split_join) auto
      have "\<not> list_ex (\<lambda>part. part = ''..'') (split_on (CHR ''/'') (normpath p))"
        unfolding sp using nc(2) by (simp add: list_ex_iff)
      then show ?thesis
        using plain bs Some ne sj(1-3) np' unfolding safe_relative_name_def plain_path_def
        by (auto simp: Let_def hd_rev)
    qed
  qed
qed

lemma file_chunks_exact:
  assumes "wf_range (length content) r" and "0 < c"
  shows "concat (file_chunks content (rs_start r) (rs_length r) c) = take (rs_length r) (drop (rs_start r) content)"
    and "length (concat (file_chunks content (rs_start r) (rs_length r) c)) = rs_length r"
  using assms by (auto simp: file_chunks_def read_chunks_concat wf_range_def rs_length_def)

lemma file_chunks_sizes: "list_all (\<lambda>d. d \<noteq> [] \<and> length d \<le> c) (file_chunks content start n c)"
  unfolding list_all_iff file_chunks_def using read_chunks_sizes by blast

lemma serve_media_partial:
  assumes "serve_media st loc rq = Partial_content r chunks"
  obtains name content mtime where "safe_relative_name (rq_path rq) = Some name"
    and "st_file st name = Some (content, mtime)" and "parse_range_header (rq_range rq) (length content) = Inr (Some r)"
    and "chunks = file_chunks content (rs_start r) (rs_length r) DEFAULT_CHUNK_SIZE"
  using assms
  by (auto simp: serve_media_def split: option.splits if_splits sum.splits prod.splits)

section \<open>A concrete store\<close>

definition example_storage :: "nat storage" where
  "example_storage = \<lparr>st_exists = (\<lambda>n. n = ''clips/a.mp4''), st_remote = False, st_url = (\<lambda>_. None),
     st_file = (\<lambda>n. if n = ''clips/a.mp4'' then Some ([0..<10], 7) else None)\<rparr>"

definition tail_request :: media_request where
  "tail_request = \<lparr>rq_path = ''clips/./b/../a.mp4'', rq_head = False, rq_range = Some ''bytes=-4'', rq_if_none_match = None\<rparr>"

section \<open>Properties\<close>

text \<open>
  C39. A requested path never leaves the media root. The name the handler opens is exactly the place reached by
  walking the path down from the root, with no step above it at any point: the path is accepted if and only if
  it is written without the forbidden characters, the walk succeeds, ends below the root and does not enter
  through a name beginning with two dots.
\<close>
theorem media_name_stays_below_root:
  "safe_relative_name p = Some n \<longleftrightarrow>
     plain_path p \<and>
     (\<exists>pos. walk [] (split_on (CHR ''/'') p) = Some pos \<and> pos \<noteq> [] \<and> \<not> startswith ''..'' (last pos) \<and>
            n = join_with (CHR ''/'') (rev pos))"
  by (rule safe_name_walk)

text \<open>
  C40. A partial answer carries exactly the bytes it announces. The range lies inside the file, the streamed
  chunks end, are never empty or longer than 64 KiB, and put together are the announced slice of the stored file.
\<close>
theorem partial_content_exact:
  assumes "serve_media st loc rq = Partial_content r chunks"
  shows "\<exists>name content mtime. safe_relative_name (rq_path rq) = Some name \<and> st_file st name = Some (content, mtime) \<and>
           wf_range (length content) r \<and> concat chunks = take (rs_length r) (drop (rs_start r) content) \<and>
           length (concat chunks) = rs_length r \<and> list_all (\<lambda>d. d \<noteq> [] \<and> length d \<le> DEFAULT_CHUNK_SIZE) chunks"
proof -
  from assms obtain name content mtime where name: "safe_relative_name (rq_path rq) = Some name"
    and fil: "st_file st name = Some (content, mtime)"
    and r: "parse_range_header (rq_range rq) (length content) = Inr (Some r)"
    and chunks: "chunks = file_chunks content (rs_start r) (rs_length r) DEFAULT_CHUNK_SIZE"
    by (rule serve_media_partial)
  have "0 < DEFAULT_CHUNK_SIZE" by (simp add: DEFAULT_CHUNK_SIZE_def)
  then show ?thesis
    using name fil parse_range_wf [OF r] file_chunks_exact [OF parse_range_wf [OF r]] file_chunks_sizes
    unfolding chunks by blast
qed

theorem partial_content_exact_witness:
  "\<exists>r chunks. serve_media example_storage [] tail_request = Partial_content r chunks \<and> concat chunks = [6, 7, 8, 9]"
proof -
  have run: "serve_media example_storage [] tail_request =
    Partial_content \<lparr>rs_start = 6, rs_end = 9, rs_size = 10\<rparr> (file_chunks [0..<10] 6 4 DEFAULT_CHUNK_SIZE)"
  proof -
    have "safe_relative_name (rq_path tail_request) = Some ''clips/a.mp4''" by code_simp
    moreover have "parse_range_header (Some ''bytes=-4'') 10 = Inr (Some \<lparr>rs_start = 6, rs_end = 9, rs_size = 10\<rparr>)" by code_simp
    ultimately show ?thesis
      by (simp add: serve_media_def example_storage_def tail_request_def rs_length_def)
  qed
  with partial_content_exact [OF run] show ?thesis
    by (auto simp: example_storage_def rs_length_def upt_rec split: if_splits)
qed

text \<open>
  A range is read as it is written: for a file longer than the first byte asked for, the header made of two
  numbers is resolved to those bytes, an end past the file being cut to its last byte.
\<close>
theorem written_range_is_parsed:
  assumes "a < n" and "a \<le> b"
  shows "parse_range_header (Some (''bytes='' @ show_nat a @ ''-'' @ show_nat b)) n =
           Inr (Some \<lparr>rs_start = a, rs_end = min b (n - 1), rs_size = n\<rparr>)"
proof -
  let ?h = "''bytes='' @ show_nat a @ ''-'' @ show_nat b"
  have "strip ?h = ?h" "match_range ?h = Some (show_nat a, show_nat b)"
    using strip_bytes match_range_written show_nat_digits by blast+
  moreover have "CHR '','' \<notin> set ?h" using digits_no_comma [OF show_nat_digits] by auto
  ultimately show ?thesis using assms unfolding parse_range_header_def by (auto simp: Let_def)
qed

theorem written_range_is_parsed_witness:
  "parse_range_header (Some (''bytes='' @ show_nat 2 @ ''-'' @ show_nat 99)) 10 =
     Inr (Some \<lparr>rs_start = 2, rs_end = 9, rs_size = 10\<rparr>)"
  using written_range_is_parsed [of 2 10 99] by simp

end
