(* ===== verification/Otp.thy ===== *)
theory Otp
  imports Validators
begin

text \<open>
  One-time codes. \<open>OTPService\<close> of \<open>api/services/otp.py\<close> (login and registration codes, kept in the cache),
  and the payment verification of \<open>api/services/payment_otp.py\<close> with its row
  \<open>api/models/payment_verification.py\<close> and endpoints \<open>api/views/payment_verification.py\<close>: a code sent to a
  handset opens a session that may authorise one USSD push.

  The random code, the outcome of queueing the message, \<open>hashlib.sha256\<close> and Django's password hasher are
  parameters. Times are microseconds. A session id is either not a UUID or names a row; new rows get ids
  never used before.
\<close>

section \<open>The cache\<close>

type_synonym 'v cache = "string \<Rightarrow> ('v \<times> int) option"

definition seconds :: "int \<Rightarrow> int" where
  "seconds n = n * 1000000"

definition cache_get :: "int \<Rightarrow> string \<Rightarrow> 'v cache \<Rightarrow> 'v option" where
  "cache_get t k c = (case c k of None \<Rightarrow> None | Some (v, e) \<Rightarrow> if e \<le> t then None else Some v)"

definition cache_set :: "int \<Rightarrow> string \<Rightarrow> 'v \<Rightarrow> int \<Rightarrow> 'v cache \<Rightarrow> 'v cache" where
  "cache_set t k v timeout c = c(k \<mapsto> (v, t + timeout))"

definition cache_add :: "int \<Rightarrow> string \<Rightarrow> 'v \<Rightarrow> int \<Rightarrow> 'v cache \<Rightarrow> 'v cache" where
  "cache_add t k v timeout c = (if cache_get t k c = None then cache_set t k v timeout c else c)"

definition cache_delete :: "string \<Rightarrow> 'v cache \<Rightarrow> 'v cache" where
  "cache_delete k c = c(k := None)"

text \<open>\<open>incr\<close> keeps the expiry; on a missing key it raises.\<close>

definition cache_incr :: "int \<Rightarrow> string \<Rightarrow> nat cache \<Rightarrow> nat cache option" where
  "cache_incr t k c = (case c k of None \<Rightarrow> None | Some (v, e) \<Rightarrow> if e \<le> t then None else Some (c(k \<mapsto> (v + 1, e))))"

text \<open>What a client of an expiring store relies on, and what follows for a marker written with a timeout.\<close>

locale expiring_store =
  fixes get :: "int \<Rightarrow> 'k \<Rightarrow> 's \<Rightarrow> 'v option"
    and put :: "int \<Rightarrow> 'k \<Rightarrow> 'v \<Rightarrow> int \<Rightarrow> 's \<Rightarrow> 's"
    and del :: "'k \<Rightarrow> 's \<Rightarrow> 's"
  assumes get_put: "get t' k (put t k v d s) = (if t + d \<le> t' then None else Some v)"
    and get_put_other: "k \<noteq> k' \<Longrightarrow> get t' k (put t k' v d s) = get t' k s"
    and get_del: "get t k (del k' s) = (if k = k' then None else get t k s)"
begin

lemma marker_window: "get t' k (put t k v d s) \<noteq> None \<longleftrightarrow> t' < t + d"
  by (simp add: get_put)

lemma marker_spent: "get t k (del k s) = None"
  by (simp add: get_del)

end

interpretation code_cache: expiring_store cache_get cache_set cache_delete
  by unfold_locales (auto simp: cache_get_def cache_set_def cache_delete_def)

section \<open>Login and registration codes\<close>

definition OTP_LENGTH :: nat where
  "OTP_LENGTH = 6"

definition OTP_EXPIRY :: int where
  "OTP_EXPIRY = seconds (5 * 60)"

definition MAX_ATTEMPTS :: nat where
  "MAX_ATTEMPTS = 3"

definition RATE_LIMIT :: int where
  "RATE_LIMIT = seconds 60"

definition VERIFIED_TTL :: int where
  "VERIFIED_TTL = seconds (15 * 60)"

record otp_data =
  od_code :: string
  od_expires_at :: int
  od_attempts :: nat

text \<open>The three key families the service uses, each a store of its own.\<close>

record otp_state =
  otp_codes :: "otp_data cache"
  otp_rate :: "int cache"
  phone_verified :: "int cache"

definition can_send_otp :: "int \<Rightarrow> string \<Rightarrow> otp_state \<Rightarrow> bool" where
  "can_send_otp t phone st \<longleftrightarrow> cache_get t phone (otp_rate st) = None"

definition send_otp :: "string \<Rightarrow> bool \<Rightarrow> int \<Rightarrow> string \<Rightarrow> otp_state \<Rightarrow> (bool \<times> string) \<times> otp_state" where
  "send_otp otp_code queued t phone st =
     (if \<not> can_send_otp t phone st then ((False, ''Please wait before requesting another OTP''), st)
      else ((True, if queued then ''OTP sent to '' @ phone else ''OTP generated (SMS not queued)''),
            st\<lparr>otp_codes := cache_set t phone \<lparr>od_code = otp_code, od_expires_at = t + OTP_EXPIRY, od_attempts = 0\<rparr>
                             OTP_EXPIRY (otp_codes st),
               otp_rate := cache_set t phone t RATE_LIMIT (otp_rate st)\<rparr>))"

definition mark_verified :: "int \<Rightarrow> string \<Rightarrow> otp_state \<Rightarrow> otp_state" where
  "mark_verified t phone st = st\<lparr>phone_verified := cache_set t phone t VERIFIED_TTL (phone_verified st)\<rparr>"

definition is_verified :: "int \<Rightarrow> string \<Rightarrow> otp_state \<Rightarrow> bool" where
  "is_verified t phone st \<longleftrightarrow> cache_get t phone (phone_verified st) \<noteq> None"

definition consume_verification :: "int \<Rightarrow> string \<Rightarrow> otp_state \<Rightarrow> bool \<times> otp_state" where
  "consume_verification t phone st =
     (if cache_get t phone (phone_verified st) = None then (False, st)
      else (True, st\<lparr>phone_verified := cache_delete phone (phone_verified st)\<rparr>))"

datatype otp_answer = Otp_missing | Otp_expired | Otp_exhausted | Otp_invalid nat | Otp_verified

definition verify_otp :: "int \<Rightarrow> string \<Rightarrow> string \<Rightarrow> otp_state \<Rightarrow> otp_answer \<times> otp_state" where
  "verify_otp t phone otp_code st =
     (case cache_get t phone (otp_codes st) of
        None \<Rightarrow> (Otp_missing, st)
      | Some d \<Rightarrow>
          if t > od_expires_at d then (Otp_expired, st\<lparr>otp_codes := cache_delete phone (otp_codes st)\<rparr>)
          else if od_attempts d \<ge> MAX_ATTEMPTS then
            (Otp_exhausted, st\<lparr>otp_codes := cache_delete phone (otp_codes st)\<rparr>)
          else if od_code d \<noteq> otp_code then
            (Otp_invalid (MAX_ATTEMPTS - od_attempts d - 1),
             st\<lparr>otp_codes := cache_set t phone (d\<lparr>od_attempts := od_attempts d + 1\<rparr>) OTP_EXPIRY (otp_codes st)\<rparr>)
          else (Otp_verified,
                mark_verified t phone (st\<lparr>otp_codes := cache_delete phone (otp_codes st)\<rparr>)))"

definition reset_otp :: "string \<Rightarrow> otp_state \<Rightarrow> otp_state" where
  "reset_otp phone st = st\<lparr>otp_codes := cache_delete phone (otp_codes st)\<rparr>"

section \<open>Payment verification sessions\<close>

datatype pv_status = V_pending | V_verified | V_consumed | V_blocked

record pv_session =
  ps_user :: "nat option"
  ps_phone :: string
  ps_purpose :: string
  ps_fingerprint :: string
  ps_otp_hash :: string
  ps_otp_expires_at :: int
  ps_attempts :: nat
  ps_send_count :: nat
  ps_last_sent_at :: "int option"
  ps_status :: pv_status
  ps_verified_at :: "int option"
  ps_session_expires_at :: "int option"
  ps_consumed_at :: "int option"

record pv_db =
  sessions :: "nat \<Rightarrow> pv_session option"
  next_session :: nat
  hour_sends :: "nat cache"

definition OTP_TTL :: int where
  "OTP_TTL = seconds (5 * 60)"

definition SESSION_TTL :: int where
  "SESSION_TTL = seconds (10 * 60)"

definition PAYMENT_MAX_ATTEMPTS :: nat where
  "PAYMENT_MAX_ATTEMPTS = 5"

definition MAX_SENDS_PER_SESSION :: nat where
  "MAX_SENDS_PER_SESSION = 3"

definition RESEND_COOLDOWN :: int where
  "RESEND_COOLDOWN = seconds 60"

definition MAX_SENDS_PER_PHONE_PER_HOUR :: nat where
  "MAX_SENDS_PER_PHONE_PER_HOUR = 5"

definition otp_is_expired :: "int \<Rightarrow> pv_session \<Rightarrow> bool" where
  "otp_is_expired t s \<longleftrightarrow> t \<ge> ps_otp_expires_at s"

definition session_is_expired :: "int \<Rightarrow> pv_session \<Rightarrow> bool" where
  "session_is_expired t s \<longleftrightarrow> (case ps_session_expires_at s of None \<Rightarrow> False | Some e \<Rightarrow> t \<ge> e)"

definition attempts_remaining :: "pv_session \<Rightarrow> nat" where
  "attempts_remaining s = PAYMENT_MAX_ATTEMPTS - ps_attempts s"

definition mask_phone :: "string \<Rightarrow> string" where
  "mask_phone phone = (if length phone > 6 then take 5 phone @ ''****'' @ drop (length phone - 3) phone else phone)"

text \<open>What a payment is: the purpose, the account if there is one, the number and the tier.\<close>

record payment_details =
  pd_purpose :: string
  pd_user :: "nat option"
  pd_phone :: string
  pd_tier :: "string option"

definition tier_text :: "payment_details \<Rightarrow> string" where
  "tier_text p = (case pd_tier p of None \<Rightarrow> [] | Some s \<Rightarrow> s)"

definition fingerprint_text :: "payment_details \<Rightarrow> string" where
  "fingerprint_text p =
     pd_purpose p @ ''|'' @ (case pd_user p of None \<Rightarrow> [] | Some u \<Rightarrow> if u = 0 then [] else show_nat u) @ ''|'' @
     pd_phone p @ ''|'' @ tier_text p"

definition fingerprint :: "(string \<Rightarrow> string) \<Rightarrow> payment_details \<Rightarrow> string" where
  "fingerprint sha256 p = sha256 (fingerprint_text p)"

definition sends_this_hour :: "int \<Rightarrow> string \<Rightarrow> pv_db \<Rightarrow> nat" where
  "sends_this_hour t phone db = (case cache_get t phone (hour_sends db) of None \<Rightarrow> 0 | Some n \<Rightarrow> n)"

definition count_send :: "int \<Rightarrow> string \<Rightarrow> pv_db \<Rightarrow> pv_db" where
  "count_send t phone db =
     (let c = cache_add t phone 0 (seconds 3600) (hour_sends db)
      in db\<lparr>hour_sends := (case cache_incr t phone c of Some c' \<Rightarrow> c' | None \<Rightarrow> cache_set t phone 1 (seconds 3600) c)\<rparr>)"

datatype session_ref = Malformed_id | Session_id nat

datatype pv_outcome =
    Sent nat string
  | Send_refused string "int option"
  | Send_raised string
  | Verified nat
  | Wrong_code nat nat
  | Verify_refused string
  | Authorised nat string
  | Push_refused string

definition new_session :: "payment_details \<Rightarrow> string \<Rightarrow> pv_session" where
  "new_session p digest =
     \<lparr>ps_user = pd_user p, ps_phone = pd_phone p, ps_purpose = pd_purpose p, ps_fingerprint = digest,
      ps_otp_hash = [], ps_otp_expires_at = 0, ps_attempts = 0, ps_send_count = 0, ps_last_sent_at = None,
      ps_status = V_pending, ps_verified_at = None, ps_session_expires_at = None, ps_consumed_at = None\<rparr>"

definition sent_session :: "string \<Rightarrow> int \<Rightarrow> pv_session \<Rightarrow> pv_session" where
  "sent_session hashed t s =
     s\<lparr>ps_otp_hash := hashed, ps_otp_expires_at := t + OTP_TTL, ps_attempts := 0,
       ps_send_count := ps_send_count s + 1, ps_last_sent_at := Some t, ps_status := V_pending\<rparr>"

text \<open>The open session a resend continues; anything else starts a new one.\<close>

definition resumable :: "payment_details \<Rightarrow> string \<Rightarrow> nat \<Rightarrow> pv_db \<Rightarrow> pv_session option" where
  "resumable p digest i db =
     (case sessions db i of
        None \<Rightarrow> None
      | Some s \<Rightarrow> if ps_fingerprint s = digest \<and> ps_status s = V_pending \<and> ps_user s = pd_user p then Some s else None)"

definition cooling_down :: "int \<Rightarrow> pv_session \<Rightarrow> int option" where
  "cooling_down t s =
     (case ps_last_sent_at s of
        None \<Rightarrow> None
      | Some l \<Rightarrow> if t - l < RESEND_COOLDOWN then Some (60 - (t - l) div seconds 1) else None)"

definition issue_code ::
  "string \<Rightarrow> bool \<Rightarrow> int \<Rightarrow> payment_details \<Rightarrow> nat \<Rightarrow> pv_session \<Rightarrow> pv_db \<Rightarrow> pv_outcome \<times> pv_db" where
  "issue_code hashed queued t p i s db =
     (if sends_this_hour t (pd_phone p) db \<ge> MAX_SENDS_PER_PHONE_PER_HOUR then (Send_refused ''HOURLY_LIMIT'' None, db)
      else (let s1 = sent_session hashed t s;
                db1 = db\<lparr>sessions := (sessions db)(i \<mapsto> s1), next_session := max (next_session db) (Suc i)\<rparr>
            in if queued then (Sent i (ps_fingerprint s1), count_send t (pd_phone p) db1)
               else (Send_refused ''SMS_FAILED'' None, db1\<lparr>sessions := (sessions db1)(i := None)\<rparr>)))"

definition request_otp ::
  "(string \<Rightarrow> string) \<Rightarrow> string \<Rightarrow> bool \<Rightarrow> int \<Rightarrow> payment_details \<Rightarrow> session_ref option \<Rightarrow> pv_db \<Rightarrow> pv_outcome \<times> pv_db" where
  "request_otp sha256 hashed queued t p sid db =
     (let digest = fingerprint sha256 p; fresh = issue_code hashed queued t p (next_session db) (new_session p digest) db
      in case sid of
           None \<Rightarrow> fresh
         | Some Malformed_id \<Rightarrow> (Send_raised ''ValidationError'', db)
         | Some (Session_id i) \<Rightarrow>
             (case resumable p digest i db of
                None \<Rightarrow> fresh
              | Some s \<Rightarrow>
                  (case cooling_down t s of
                     Some wait \<Rightarrow> (Send_refused ''RESEND_COOLDOWN'' (Some wait), db)
                   | None \<Rightarrow>
                       if ps_send_count s \<ge> MAX_SENDS_PER_SESSION then (Send_refused ''TOO_MANY_SENDS'' None, db)
                       else issue_code hashed queued t p i s db)))"

definition put_session :: "nat \<Rightarrow> pv_session \<Rightarrow> pv_db \<Rightarrow> pv_db" where
  "put_session i s db = db\<lparr>sessions := (sessions db)(i \<mapsto> s)\<rparr>"

definition verify_payment_otp ::
  "(string \<Rightarrow> string \<Rightarrow> bool) \<Rightarrow> int \<Rightarrow> session_ref \<Rightarrow> string \<Rightarrow> string option \<Rightarrow> nat option \<Rightarrow> pv_db \<Rightarrow> pv_outcome \<times> pv_db" where
  "verify_payment_otp check_password t sid entered phone user db =
     (case sid of
        Malformed_id \<Rightarrow> (Verify_refused ''SESSION_NOT_FOUND'', db)
      | Session_id i \<Rightarrow>
          (case sessions db i of
             None \<Rightarrow> (Verify_refused ''SESSION_NOT_FOUND'', db)
           | Some s \<Rightarrow>
               if Some (ps_phone s) \<noteq> phone \<or> ps_user s \<noteq> user then (Verify_refused ''SESSION_MISMATCH'', db)
               else if ps_status s = V_blocked then (Verify_refused ''TOO_MANY_ATTEMPTS'', db)
               else if ps_status s \<noteq> V_pending then (Verify_refused ''ALREADY_USED'', db)
               else if otp_is_expired t s then (Verify_refused ''OTP_EXPIRED'', db)
               else if \<not> check_password entered (ps_otp_hash s) then
                 (let s1 = s\<lparr>ps_attempts := ps_attempts s + 1\<rparr>
                  in if ps_attempts s1 \<ge> PAYMENT_MAX_ATTEMPTS
                     then (Wrong_code i 0, put_session i (s1\<lparr>ps_status := V_blocked\<rparr>) db)
                     else (Wrong_code i (attempts_remaining s1), put_session i s1 db))
               else (Verified i,
                     put_session i (s\<lparr>ps_status := V_verified, ps_verified_at := Some t,
                       ps_session_expires_at := Some (t + SESSION_TTL), ps_otp_hash := []\<rparr>) db)))"

definition explain_refusal :: "pv_session option \<Rightarrow> string \<Rightarrow> int \<Rightarrow> string" where
  "explain_refusal row digest t =
     (case row of
        None \<Rightarrow> ''VERIFICATION_REQUIRED''
      | Some s \<Rightarrow>
          if ps_status s = V_consumed then ''VERIFICATION_ALREADY_USED''
          else if ps_status s = V_pending then ''VERIFICATION_REQUIRED''
          else if ps_status s = V_blocked then ''TOO_MANY_ATTEMPTS''
          else if session_is_expired t s then ''VERIFICATION_EXPIRED''
          else if ps_fingerprint s \<noteq> digest then ''VERIFICATION_MISMATCH''
          else ''VERIFICATION_REQUIRED'')"

definition claimable :: "payment_details \<Rightarrow> string \<Rightarrow> int \<Rightarrow> pv_session \<Rightarrow> bool" where
  "claimable p digest t s \<longleftrightarrow>
     ps_status s = V_verified \<and> ps_fingerprint s = digest \<and> ps_phone s = pd_phone p \<and> ps_user s = pd_user p \<and>
     (case ps_session_expires_at s of None \<Rightarrow> False | Some e \<Rightarrow> e > t)"

definition consume_verified_session ::
  "(string \<Rightarrow> string) \<Rightarrow> int \<Rightarrow> session_ref \<Rightarrow> payment_details \<Rightarrow> pv_db \<Rightarrow> pv_outcome \<times> pv_db" where
  "consume_verified_session sha256 t sid p db =
     (case sid of
        Malformed_id \<Rightarrow> (Push_refused ''VERIFICATION_REQUIRED'', db)
      | Session_id i \<Rightarrow>
          (let digest = fingerprint sha256 p
           in case sessions db i of
                Some s \<Rightarrow>
                  if claimable p digest t s
                  then (Authorised i digest, put_session i (s\<lparr>ps_status := V_consumed, ps_consumed_at := Some t\<rparr>) db)
                  else (Push_refused (explain_refusal (Some s) digest t), db)
              | None \<Rightarrow> (Push_refused (explain_refusal None digest t), db)))"

section \<open>Endpoints\<close>

definition PURPOSES :: "string list" where
  "PURPOSES = [''subscription'']"

text \<open>The number that will be charged: the one given, else the profile's, normalised when it can be.\<close>

definition phone_for_payment :: "string option \<Rightarrow> string option \<Rightarrow> string option" where
  "phone_for_payment profile_phone provided =
     (let nonempty = (\<lambda>v. case v of None \<Rightarrow> None | Some s \<Rightarrow> if s = [] then None else Some s)
      in case (case nonempty provided of Some s \<Rightarrow> Some s | None \<Rightarrow> nonempty profile_phone) of
           None \<Rightarrow> None
         | Some raw \<Rightarrow> (case normalize_ethiopian_phone (Some raw) of None \<Rightarrow> Some raw | Some s \<Rightarrow> Some s))"

record otp_form =
  of_purpose :: "string option"
  of_tier :: "string option"
  of_phone :: "string option"
  of_session :: "session_ref option"
  of_code :: "string option"

definition request_ussd_push_otp ::
  "(string \<Rightarrow> string) \<Rightarrow> string \<Rightarrow> bool \<Rightarrow> int \<Rightarrow> nat option \<Rightarrow> string option \<Rightarrow> otp_form \<Rightarrow> pv_db \<Rightarrow>
   (string + pv_outcome) \<times> pv_db" where
  "request_ussd_push_otp sha256 hashed queued t user profile_phone f db =
     (let purpose = strip (case of_purpose f of None \<Rightarrow> [] | Some s \<Rightarrow> s)
      in if purpose \<notin> set PURPOSES then (Inl ''INVALID_PURPOSE'', db)
         else if of_tier f = None \<or> of_tier f = Some [] then (Inl ''TIER_REQUIRED'', db)
         else case phone_for_payment profile_phone (of_phone f) of
           None \<Rightarrow> (Inl ''PHONE_REQUIRED'', db)
         | Some phone \<Rightarrow>
             (case request_otp sha256 hashed queued t
                     \<lparr>pd_purpose = purpose, pd_user = user, pd_phone = phone, pd_tier = of_tier f\<rparr> (of_session f) db of
                (out, db1) \<Rightarrow> (Inr out, db1)))"

definition verify_ussd_push_otp ::
  "(string \<Rightarrow> string \<Rightarrow> bool) \<Rightarrow> int \<Rightarrow> nat option \<Rightarrow> string option \<Rightarrow> otp_form \<Rightarrow> pv_db \<Rightarrow>
   (string + pv_outcome) \<times> pv_db" where
  "verify_ussd_push_otp check_password t user profile_phone f db =
     (case (of_session f, of_code f) of
        (Some sid, Some entered) \<Rightarrow>
          if entered = [] then (Inl ''OTP_REQUIRED'', db)
          else (case verify_payment_otp check_password t sid entered (phone_for_payment profile_phone (of_phone f)) user db of
                  (out, db1) \<Rightarrow> (Inr out, db1))
      | _ \<Rightarrow> (Inl ''OTP_REQUIRED'', db))"

section \<open>Sessions and their history\<close>

datatype pv_event =
    Ask_code string bool int payment_details "session_ref option"
  | Enter_code int session_ref string "string option" "nat option"
  | Use_session int session_ref payment_details

fun exec_pv :: "(string \<Rightarrow> string) \<Rightarrow> (string \<Rightarrow> string \<Rightarrow> bool) \<Rightarrow> pv_event \<Rightarrow> pv_db \<Rightarrow> pv_outcome \<times> pv_db" where
  "exec_pv sha256 check_password (Ask_code hashed queued t p sid) db = request_otp sha256 hashed queued t p sid db"
| "exec_pv sha256 check_password (Enter_code t sid entered phone user) db =
     verify_payment_otp check_password t sid entered phone user db"
| "exec_pv sha256 check_password (Use_session t sid p) db = consume_verified_session sha256 t sid p db"

text \<open>A run answers each request in turn; the answers are its history.\<close>

fun run_pv ::
  "(string \<Rightarrow> string) \<Rightarrow> (string \<Rightarrow> string \<Rightarrow> bool) \<Rightarrow> pv_event list \<Rightarrow> pv_db \<Rightarrow> pv_outcome list \<times> pv_db" where
  "run_pv sha256 check_password [] db = ([], db)"
| "run_pv sha256 check_password (e # es) db =
     (let (out, db1) = exec_pv sha256 check_password e db; (outs, db2) = run_pv sha256 check_password es db1
      in (out # outs, db2))"

definition no_sessions :: pv_db where
  "no_sessions = \<lparr>sessions = (\<lambda>_. None), next_session = 0, hour_sends = (\<lambda>_. None)\<rparr>"

fun wrong_for :: "nat \<Rightarrow> pv_outcome \<Rightarrow> bool" where
  "wrong_for i (Wrong_code j r) \<longleftrightarrow> i = j"
| "wrong_for i _ \<longleftrightarrow> False"

fun authorises :: "nat \<Rightarrow> pv_outcome \<Rightarrow> bool" where
  "authorises i (Authorised j d) \<longleftrightarrow> i = j"
| "authorises i _ \<longleftrightarrow> False"

definition tally :: "(pv_outcome \<Rightarrow> bool) \<Rightarrow> pv_outcome list \<Rightarrow> nat" where
  "tally P h = length (filter P h)"

lemma tally_simps [simp]: "tally P [] = 0" "tally P (h @ [out]) = tally P h + (if P out then 1 else 0)"
  by (simp_all add: tally_def)

text \<open>
  What the history says of a session. Wrong codes: up to four for each code sent before the current one, and
  the attempts counted on the current one.
\<close>

definition row_ok :: "pv_outcome list \<Rightarrow> nat \<Rightarrow> pv_session \<Rightarrow> bool" where
  "row_ok h i s \<longleftrightarrow>
     Sent i (ps_fingerprint s) \<in> set h \<and> 1 \<le> ps_send_count s \<and> ps_send_count s \<le> MAX_SENDS_PER_SESSION \<and>
     ps_attempts s \<le> PAYMENT_MAX_ATTEMPTS \<and> (ps_status s = V_pending \<longrightarrow> ps_attempts s < PAYMENT_MAX_ATTEMPTS) \<and>
     tally (wrong_for i) h \<le> (PAYMENT_MAX_ATTEMPTS - 1) * (ps_send_count s - 1) + ps_attempts s \<and>
     tally (authorises i) h = (if ps_status s = V_consumed then 1 else 0) \<and>
     (ps_status s = V_verified \<or> ps_status s = V_consumed \<longrightarrow> Verified i \<in> set h)"

definition wrong_bound :: nat where
  "wrong_bound = (PAYMENT_MAX_ATTEMPTS - 1) * (MAX_SENDS_PER_SESSION - 1) + PAYMENT_MAX_ATTEMPTS"

definition session_ok :: "pv_outcome list \<Rightarrow> pv_db \<Rightarrow> nat \<Rightarrow> bool" where
  "session_ok h db i \<longleftrightarrow>
     (\<forall>s. sessions db i = Some s \<longrightarrow> i < next_session db \<and> row_ok h i s) \<and>
     tally (wrong_for i) h \<le> wrong_bound \<and> tally (authorises i) h \<le> 1 \<and>
     (next_session db \<le> i \<longrightarrow> tally (wrong_for i) h = 0 \<and> tally (authorises i) h = 0) \<and>
     (\<forall>d. Authorised i d \<in> set h \<longrightarrow> Sent i d \<in> set h \<and> Verified i \<in> set h)"

lemmas limit_defs = MAX_SENDS_PER_SESSION_def PAYMENT_MAX_ATTEMPTS_def wrong_bound_def

text \<open>An answer that concerns another session leaves this one's record as it was.\<close>

definition concerns :: "nat \<Rightarrow> pv_outcome \<Rightarrow> bool" where
  "concerns i out \<longleftrightarrow> wrong_for i out \<or> authorises i out"

lemma session_ok_frame:
  assumes "session_ok h db i" and "sessions db' i = sessions db i" and "next_session db \<le> next_session db'" and "\<not> concerns i out"
  shows "session_ok (h @ [out]) db' i"
proof -
  have "\<not> wrong_for i out" "\<not> authorises i out" "\<And>d. out \<noteq> Authorised i d"
    using assms(4) by (auto simp: concerns_def)
  with assms(1-3) show ?thesis by (auto simp: session_ok_def row_ok_def)
qed

lemma row_ok_frame: "row_ok h i s \<Longrightarrow> \<not> concerns i out \<Longrightarrow> row_ok (h @ [out]) i s"
  by (auto simp: row_ok_def concerns_def)

lemma count_send_frame [simp]:
  "sessions (count_send t phone db) = sessions db" "next_session (count_send t phone db) = next_session db"
  by (simp_all add: count_send_def Let_def)

lemma row_ok_sent:
  assumes "row_ok h i s" and "ps_status s = V_pending" and "\<not> MAX_SENDS_PER_SESSION \<le> ps_send_count s"
  shows "row_ok (h @ [Sent i (ps_fingerprint s)]) i (sent_session hashed t s)"
proof -
  have "tally (wrong_for i) h \<le> 4 * (ps_send_count s - 1) + 4" and "1 \<le> ps_send_count s"
    using assms(1,2) by (auto simp: row_ok_def limit_defs)
  then have "tally (wrong_for i) h \<le> 4 * ps_send_count s"
    by (cases "ps_send_count s") auto
  with assms show ?thesis by (auto simp: row_ok_def sent_session_def limit_defs)
qed

lemma issue_new_ok:
  assumes "issue_code hashed queued t p (next_session db) (new_session p d) db = (out, db')"
    and ok: "\<And>i. session_ok h db i"
  shows "session_ok (h @ [out]) db' j"
proof (cases "j = next_session db")
  case False
  with assms(1) show ?thesis
    by (intro session_ok_frame [OF ok]) (auto simp: issue_code_def Let_def concerns_def split: if_splits)
next
  case True
  then have "tally (wrong_for j) h = 0" "tally (authorises j) h = 0" "sessions db j = None"
    using ok [of j] by (auto simp: session_ok_def)
  moreover have "\<forall>d. Authorised j d \<in> set h \<longrightarrow> Sent j d \<in> set h \<and> Verified j \<in> set h"
    using ok [of j] by (simp add: session_ok_def)
  ultimately show ?thesis
    using assms(1) True
    by (auto simp: issue_code_def Let_def session_ok_def row_ok_def sent_session_def new_session_def limit_defs split: if_splits)
qed

lemma issue_again_ok:
  assumes run: "issue_code hashed queued t p i s db = (out, db')"
    and s: "sessions db i = Some s" "ps_status s = V_pending" "\<not> MAX_SENDS_PER_SESSION \<le> ps_send_count s"
    and ok: "\<And>i. session_ok h db i"
  shows "session_ok (h @ [out]) db' j"
proof (cases "j = i")
  case False
  with run show ?thesis
    by (intro session_ok_frame [OF ok]) (auto simp: issue_code_def Let_def concerns_def split: if_splits)
next
  case True
  have row: "row_ok h i s" "i < next_session db" using ok [of i] s(1) by (auto simp: session_ok_def)
  have fp: "ps_fingerprint (sent_session hashed t s) = ps_fingerprint s" by (simp add: sent_session_def)
  show ?thesis
    using run True ok [of i] row s row_ok_sent [OF row(1) s(2,3)]
    by (auto simp: issue_code_def Let_def session_ok_def fp concerns_def intro: row_ok_frame split: if_splits)
qed

lemma request_otp_ok:
  assumes run: "request_otp sha256 hashed queued t p sid db = (out, db')" and ok: "\<And>i. session_ok h db i"
  shows "session_ok (h @ [out]) db' j"
proof -
  let ?d = "fingerprint sha256 p"
  let ?fresh = "issue_code hashed queued t p (next_session db) (new_session p ?d) db"
  have unchanged: "session_ok (h @ [out]) db' j" if "db' = db" "\<not> concerns j out"
    using that by (intro session_ok_frame [OF ok]) auto
  consider (fresh) "(out, db') = ?fresh" | (quiet) "db' = db" "\<not> concerns j out"
    | (again) i s where "sessions db i = Some s" "ps_status s = V_pending" "\<not> MAX_SENDS_PER_SESSION \<le> ps_send_count s"
        "issue_code hashed queued t p i s db = (out, db')"
    using run
    by (auto simp: request_otp_def Let_def resumable_def concerns_def split: option.splits session_ref.splits if_splits)
  then show ?thesis
  proof cases
    case fresh
    then show ?thesis using issue_new_ok [OF _ ok] by metis
  next
    case quiet
    then show ?thesis by (rule unchanged)
  next
    case again
    show ?thesis by (rule issue_again_ok [OF again(4,1-3) ok])
  qed
qed

lemma verify_otp_cases:
  assumes "verify_payment_otp check_password t sid entered phone user db = (out, db')"
  obtains (refused) c where "out = Verify_refused c" "db' = db"
    | (entered) i s where "sessions db i = Some s" "ps_status s = V_pending" "out = Verified i"
        "db' = put_session i (s\<lparr>ps_status := V_verified, ps_verified_at := Some t,
                 ps_session_expires_at := Some (t + SESSION_TTL), ps_otp_hash := []\<rparr>) db"
    | (wrong) i s r where "sessions db i = Some s" "ps_status s = V_pending" "out = Wrong_code i r"
        "db' = put_session i (s\<lparr>ps_attempts := ps_attempts s + 1,
                 ps_status := if PAYMENT_MAX_ATTEMPTS \<le> ps_attempts s + 1 then V_blocked else V_pending\<rparr>) db"
proof (cases sid)
  case Malformed_id
  with assms refused show thesis by (auto simp: verify_payment_otp_def)
next
  case (Session_id i)
  show thesis
  proof (cases "sessions db i")
    case None
    with Session_id assms refused show thesis by (auto simp: verify_payment_otp_def)
  next
    case (Some s)
    show thesis
    proof (cases "Some (ps_phone s) \<noteq> phone \<or> ps_user s \<noteq> user \<or> ps_status s \<noteq> V_pending \<or> otp_is_expired t s")
      case True
      with Session_id Some assms refused show thesis
        by (auto simp: verify_payment_otp_def split: if_split_asm)
    next
      case False
      then have st: "ps_status s = V_pending" by simp
      then have same: "s\<lparr>ps_attempts := n, ps_status := V_pending\<rparr> = s\<lparr>ps_attempts := n\<rparr>" for n by simp
      show thesis
        using False Session_id Some assms entered wrong
        by (auto simp: verify_payment_otp_def Let_def same split: if_split_asm)
    qed
  qed
qed

lemma wrong_room:
  assumes "row_ok h j s" and "ps_status s = V_pending"
  shows "tally (wrong_for j) h + 1 \<le> wrong_bound"
proof -
  have "ps_send_count s - 1 \<le> 2" "ps_attempts s < 5" using assms by (auto simp: row_ok_def limit_defs)
  moreover from this have "4 * (ps_send_count s - 1) \<le> 8" by simp
  ultimately show ?thesis using assms(1) by (simp add: row_ok_def limit_defs)
qed

lemma row_ok_wrong:
  assumes "row_ok h i s" and "ps_status s = V_pending"
  shows "row_ok (h @ [Wrong_code i r]) i (s\<lparr>ps_attempts := ps_attempts s + 1,
           ps_status := if PAYMENT_MAX_ATTEMPTS \<le> ps_attempts s + 1 then V_blocked else V_pending\<rparr>)"
  using assms by (auto simp: row_ok_def)

lemma row_ok_verified:
  "row_ok h i s \<Longrightarrow> ps_status s = V_pending \<Longrightarrow>
   row_ok (h @ [Verified i]) i (s\<lparr>ps_status := V_verified, ps_verified_at := a, ps_session_expires_at := b, ps_otp_hash := c\<rparr>)"
  by (simp add: row_ok_def)

lemma row_ok_consumed:
  "row_ok h i s \<Longrightarrow> ps_status s = V_verified \<Longrightarrow>
   row_ok (h @ [Authorised i d]) i (s\<lparr>ps_status := V_consumed, ps_consumed_at := a\<rparr>)"
  by (simp add: row_ok_def)

text \<open>One session rewritten: the others keep their record, this one needs its row and its counts.\<close>

lemma session_ok_put:
  assumes ok: "\<And>i. session_ok h db i" and s: "sessions db i = Some s" and row: "row_ok (h @ [out]) i s'"
    and other: "\<And>j. j \<noteq> i \<Longrightarrow> \<not> concerns j out"
    and here: "tally (wrong_for i) (h @ [out]) \<le> wrong_bound" "tally (authorises i) (h @ [out]) \<le> 1"
    and auth: "\<And>d. out = Authorised i d \<Longrightarrow> Sent i d \<in> set h \<and> Verified i \<in> set h"
  shows "session_ok (h @ [out]) (put_session i s' db) j"
proof (cases "j = i")
  case False
  then show ?thesis by (intro session_ok_frame [OF ok]) (auto simp: put_session_def other)
next
  case True
  have i: "i < next_session db" and old: "\<And>d. Authorised i d \<in> set h \<Longrightarrow> Sent i d \<in> set h \<and> Verified i \<in> set h"
    using ok [of i] s by (auto simp: session_ok_def)
  show ?thesis
    unfolding session_ok_def True using row here i old auth by (auto simp: put_session_def)
qed

lemma session_row: "session_ok h db i \<Longrightarrow> sessions db i = Some s \<Longrightarrow> row_ok h i s"
  by (simp add: session_ok_def)

lemma verify_otp_ok:
  assumes run: "verify_payment_otp check_password t sid entered phone user db = (out, db')" and ok: "\<And>i. session_ok h db i"
  shows "session_ok (h @ [out]) db' j"
  using run
proof (cases rule: verify_otp_cases)
  case (refused c)
  then show ?thesis by (intro session_ok_frame [OF ok]) (auto simp: concerns_def)
next
  case (entered i s)
  note row = session_row [OF ok entered(1)]
  show ?thesis
    unfolding entered(3,4)
    by (rule session_ok_put [OF ok entered(1) row_ok_verified [OF row entered(2)]])
      (use ok [of i] in \<open>auto simp: concerns_def session_ok_def\<close>)
next
  case (wrong i s r)
  note row = session_row [OF ok wrong(1)]
  show ?thesis
    unfolding wrong(3,4)
    by (rule session_ok_put [OF ok wrong(1) row_ok_wrong [OF row wrong(2)]])
      (use ok [of i] wrong_room [OF row wrong(2)] in \<open>auto simp: concerns_def session_ok_def\<close>)
qed

lemma consume_cases:
  assumes "consume_verified_session sha256 t sid p db = (out, db')"
  obtains (refused) c where "out = Push_refused c" "db' = db"
    | (claimed) i s where "sessions db i = Some s" "claimable p (fingerprint sha256 p) t s"
        "out = Authorised i (fingerprint sha256 p)"
        "db' = put_session i (s\<lparr>ps_status := V_consumed, ps_consumed_at := Some t\<rparr>) db"
proof (cases sid)
  case Malformed_id
  with assms refused show thesis by (auto simp: consume_verified_session_def)
next
  case (Session_id i)
  show thesis
  proof (cases "sessions db i")
    case None
    with Session_id assms refused show thesis by (auto simp: consume_verified_session_def Let_def)
  next
    case (Some s)
    show thesis
    proof (cases "claimable p (fingerprint sha256 p) t s")
      case True
      with Session_id Some assms show thesis
        by (intro claimed [of i s]) (auto simp: consume_verified_session_def Let_def)
    next
      case False
      with Session_id Some assms show thesis
        by (intro refused) (auto simp: consume_verified_session_def Let_def)
    qed
  qed
qed

lemma consume_ok:
  assumes run: "consume_verified_session sha256 t sid p db = (out, db')" and ok: "\<And>i. session_ok h db i"
  shows "session_ok (h @ [out]) db' j"
  using run
proof (cases rule: consume_cases)
  case (refused c)
  then show ?thesis by (intro session_ok_frame [OF ok]) (auto simp: concerns_def)
next
  case (claimed i s)
  note row = session_row [OF ok claimed(1)]
  have st: "ps_status s = V_verified" "ps_fingerprint s = fingerprint sha256 p" using claimed(2) by (auto simp: claimable_def)
  show ?thesis
    unfolding claimed(3,4)
    by (rule session_ok_put [OF ok claimed(1) row_ok_consumed [OF row st(1)]])
      (use ok [of i] row st in \<open>auto simp: concerns_def session_ok_def row_ok_def\<close>)
qed

lemma exec_pv_ok:
  assumes "exec_pv sha256 check_password e db = (out, db')" and "\<And>i. session_ok h db i"
  shows "session_ok (h @ [out]) db' j"
  using assms by (cases e) (auto intro: request_otp_ok verify_otp_ok consume_ok)

lemma run_pv_ok:
  "(\<And>i. session_ok h db i) \<Longrightarrow> session_ok (h @ fst (run_pv sha256 check_password es db)) (snd (run_pv sha256 check_password es db)) j"
proof (induction es arbitrary: h db)
  case (Cons e es)
  obtain out db1 where e: "exec_pv sha256 check_password e db = (out, db1)" by fastforce
  have "\<And>i. session_ok (h @ [out]) db1 i" using exec_pv_ok [OF e Cons.prems] .
  from Cons.IH [OF this] show ?case by (simp add: e case_prod_beta)
qed simp

lemma no_sessions_ok: "session_ok [] no_sessions i"
  by (simp add: session_ok_def no_sessions_def wrong_bound_def)

section \<open>What a digest is taken of\<close>

lemma append_bar_eq: "c \<notin> set a \<Longrightarrow> c \<notin> set b \<Longrightarrow> a @ c # x = b @ c # y \<longleftrightarrow> a = b \<and> x = y"
proof (induction a arbitrary: b)
  case Nil
  then show ?case by (cases b) auto
next
  case (Cons d a)
  then show ?case by (cases b) auto
qed

lemma show_nat_no_bar: "CHR ''|'' \<notin> set (show_nat n)"
  using show_nat_digits [of n] by (auto simp: list_all_iff is_digit_def code_def)

lemma fingerprint_text_binds:
  assumes "fingerprint_text p = fingerprint_text q"
    and "CHR ''|'' \<notin> set (pd_purpose p)" "CHR ''|'' \<notin> set (pd_purpose q)"
    and "pd_phone p = pd_phone q" "pd_user p = pd_user q"
  shows "pd_purpose p = pd_purpose q" and "tier_text p = tier_text q"
  using assms by (auto simp: fingerprint_text_def append_bar_eq)

section \<open>Guessing a login code\<close>

text \<open>Codes entered one after the other for one number, with the times they arrive; true once one is accepted.\<close>

fun guess_all :: "string \<Rightarrow> (int \<times> string) list \<Rightarrow> otp_state \<Rightarrow> otp_answer list" where
  "guess_all phone [] st = []"
| "guess_all phone ((t, g) # gs) st =
     (let (ans, st1) = verify_otp t phone g st in ans # guess_all phone gs st1)"

text \<open>What is stored for a number from a time on: nothing any more, or the code that was sent with its attempts.\<close>

definition holds_code :: "int \<Rightarrow> string \<Rightarrow> string \<Rightarrow> nat \<Rightarrow> otp_state \<Rightarrow> bool" where
  "holds_code t0 phone secret n st \<longleftrightarrow>
     (\<forall>t d. t0 \<le> t \<longrightarrow> cache_get t phone (otp_codes st) = Some d \<longrightarrow> od_code d = secret \<and> n \<le> od_attempts d)"

lemma cache_gone: "cache_get t k c = None \<Longrightarrow> t \<le> t' \<Longrightarrow> cache_get t' k c = None"
  by (auto simp: cache_get_def split: option.splits if_split_asm)

lemma holds_code_gone: "cache_get t phone (otp_codes st) = None \<Longrightarrow> holds_code t phone secret n st"
  by (auto simp: holds_code_def dest: cache_gone)

lemma holds_code_deleted: "holds_code t phone secret n (st\<lparr>otp_codes := cache_delete phone c\<rparr>)"
  by (intro holds_code_gone) (simp add: code_cache.marker_spent)

lemma holds_code_set:
  "od_code d = secret \<Longrightarrow> n \<le> od_attempts d \<Longrightarrow>
   holds_code t' phone secret n (st\<lparr>otp_codes := cache_set t phone d e c\<rparr>)"
  by (auto simp: holds_code_def code_cache.get_put split: if_split_asm)

lemma verify_step:
  assumes h: "holds_code t0 phone secret n st" and t: "t0 \<le> t" and v: "verify_otp t phone g st = (ans, st1)"
    and bad: "g \<noteq> secret \<or> MAX_ATTEMPTS \<le> n"
  shows "ans \<noteq> Otp_verified \<and> holds_code t phone secret (if g = secret then n else Suc n) st1"
proof (cases "cache_get t phone (otp_codes st)")
  case None
  with v show ?thesis by (auto simp: verify_otp_def intro: holds_code_gone)
next
  case (Some d)
  then have d: "od_code d = secret" "n \<le> od_attempts d" using h t by (auto simp: holds_code_def)
  consider "t > od_expires_at d" | "MAX_ATTEMPTS \<le> od_attempts d" "\<not> t > od_expires_at d"
    | "\<not> t > od_expires_at d" "\<not> MAX_ATTEMPTS \<le> od_attempts d" "g \<noteq> secret"
    using bad d by force
  then show ?thesis
  proof cases
    case 1
    with v Some show ?thesis by (auto simp: verify_otp_def intro: holds_code_deleted)
  next
    case 2
    with v Some show ?thesis by (auto simp: verify_otp_def intro: holds_code_deleted)
  next
    case 3
    with v Some d show ?thesis by (auto simp: verify_otp_def intro: holds_code_set)
  qed
qed

lemma guess_all_fails:
  "holds_code t0 phone secret n st \<Longrightarrow> sorted (t0 # map fst gs) \<Longrightarrow>
   (\<And>g. g \<in> set (take (MAX_ATTEMPTS - n) gs) \<Longrightarrow> snd g \<noteq> secret) \<Longrightarrow>
   Otp_verified \<notin> set (guess_all phone gs st)"
proof (induction gs arbitrary: t0 n st)
  case (Cons x gs)
  obtain t g where x: "x = (t, g)" by fastforce
  obtain ans st1 where v: "verify_otp t phone g st = (ans, st1)" by fastforce
  have bad: "g \<noteq> secret \<or> MAX_ATTEMPTS \<le> n"
    using Cons.prems(3) [of x] x by (cases "MAX_ATTEMPTS - n") auto
  have t: "t0 \<le> t" using Cons.prems(2) x by simp
  note step = verify_step [OF Cons.prems(1) t v bad]
  let ?n = "if g = secret then n else Suc n"
  have rest: "snd g' \<noteq> secret" if "g' \<in> set (take (MAX_ATTEMPTS - ?n) gs)" for g'
  proof -
    have "g' \<in> set (take (MAX_ATTEMPTS - n) (x # gs))"
    proof (cases "MAX_ATTEMPTS - n")
      case 0
      then show ?thesis using that by (simp split: if_split_asm)
    next
      case (Suc m)
      then have "MAX_ATTEMPTS - Suc n = m" and "g \<noteq> secret" using bad by auto
      with that Suc show ?thesis by simp
    qed
    then show ?thesis by (rule Cons.prems(3))
  qed
  have "Otp_verified \<notin> set (guess_all phone gs st1)"
    using step Cons.prems(2) x rest by (intro Cons.IH [of t ?n]) auto
  with step x v show ?case by auto
qed simp

section \<open>Concrete runs\<close>

definition example_details :: payment_details where
  "example_details = \<lparr>pd_purpose = ''subscription'', pd_user = None, pd_phone = ''251911223344'', pd_tier = Some ''2''\<rparr>"

text \<open>A stand-in hasher for the examples: the stored text is the code itself.\<close>

definition plain_check :: "string \<Rightarrow> string \<Rightarrow> bool" where
  "plain_check entered hashed \<longleftrightarrow> entered = hashed"

definition guess :: "int \<Rightarrow> pv_event" where
  "guess t = Enter_code (seconds t) (Session_id 0) ''0'' (Some ''251911223344'') None"

definition ask_again :: "int \<Rightarrow> pv_event" where
  "ask_again t = Ask_code ''7'' True (seconds t) example_details (Some (Session_id 0))"

definition guessing_run :: "pv_event list" where
  "guessing_run =
     [ask_again 0, guess 1, guess 2, guess 3, guess 4,
      ask_again 60, guess 61, guess 62, guess 63, guess 64,
      ask_again 120, guess 121, guess 122, guess 123, guess 124, guess 125]"

definition paying_run :: "pv_event list" where
  "paying_run =
     [ask_again 0, Enter_code (seconds 5) (Session_id 0) ''7'' (Some ''251911223344'') None,
      Use_session (seconds 9) (Session_id 0) example_details, Use_session (seconds 9) (Session_id 0) example_details]"

definition empty_otp :: otp_state where
  "empty_otp = \<lparr>otp_codes = (\<lambda>_. None), otp_rate = (\<lambda>_. None), phone_verified = (\<lambda>_. None)\<rparr>"

section \<open>Properties\<close>


text \<open>
  How many wrong codes a payment session can absorb. In any run at most thirteen wrong codes are compared
  against one session, not five: a resend starts the count afresh, and the bound is reached.
\<close>
theorem wrong_codes_per_session:
  "tally (wrong_for i) (fst (run_pv sha256 check_password es no_sessions)) \<le> 13 \<and>
   tally (wrong_for 0) (fst (run_pv id plain_check guessing_run no_sessions)) = 13"
proof -
  have "tally (wrong_for i) (fst (run_pv sha256 check_password es no_sessions)) \<le> wrong_bound"
    using run_pv_ok [OF no_sessions_ok, where j = i] by (auto simp: session_ok_def)
  moreover have "tally (wrong_for 0) (fst (run_pv id plain_check guessing_run no_sessions)) = 13" by code_simp
  ultimately show ?thesis by (simp add: limit_defs)
qed

text \<open>
  A login code cannot be guessed at leisure. After a code has been sent, entering three wrong codes in a row
  ends it: nothing entered later is accepted, not even the right code, until another one is sent.
\<close>
theorem login_code_three_guesses:
  assumes "send_otp secret queued t0 phone st = ((True, msg), st1)" and "sorted (t0 # map fst gs)"
    and "\<And>g. g \<in> set (take 3 gs) \<Longrightarrow> snd g \<noteq> secret"
  shows "Otp_verified \<notin> set (guess_all phone gs st1)"
proof -
  have "holds_code t0 phone secret 0 st1"
    using assms(1) by (auto simp: send_otp_def holds_code_def code_cache.get_put split: if_split_asm)
  then show ?thesis using guess_all_fails [of t0 phone secret 0 st1 gs] assms(2,3) by (simp add: MAX_ATTEMPTS_def)
qed

theorem login_code_three_guesses_witness:
  "Otp_verified \<notin> set (guess_all ''251911223344'' [(1, ''1''), (2, ''2''), (3, ''3''), (4, ''123456'')]
     (snd (send_otp ''123456'' True 0 ''251911223344'' empty_otp)))"
proof -
  have run: "send_otp ''123456'' True 0 ''251911223344'' empty_otp =
    ((True, ''OTP sent to 251911223344''), snd (send_otp ''123456'' True 0 ''251911223344'' empty_otp))"
    by (simp add: send_otp_def can_send_otp_def cache_get_def empty_otp_def)
  show ?thesis
    by (rule login_code_three_guesses [OF run]) (auto simp: eval_nat_numeral)
qed

end
