(* ===== verification/Timwe_Client.thy ===== *)
theory Timwe_Client
  imports Validators
begin

text \<open>
  The chargeAmount client: \<open>TimweChargeService\<close> of \<open>api/integrations/timwe/charge.py\<close> and the codes of
  \<open>api/integrations/timwe/errors.py\<close>. It checks the fields of a charge, sends it once and classifies what
  came back. Parameters: the settings, what \<open>requests.post\<close> ended with, \<open>ElementTree\<close>'s parser (giving a
  tree or the parse error), \<open>hashlib.md5\<close>, the clock's rendering, and \<open>endpoint_problem\<close>, which parses the
  configured URL. The envelope is the record of the values its template interpolates. Amounts are in
  hundredths of a birr, and durations of calls are not kept.
\<close>

section \<open>Codes\<close>

definition CHARGE_TIMEOUT :: string where "CHARGE_TIMEOUT = ''SVC0001''"
definition CHARGE_NO_BALANCE :: string where "CHARGE_NO_BALANCE = CHARGE_TIMEOUT"
definition CHARGE_INVALID_INPUT :: string where "CHARGE_INVALID_INPUT = ''SVC0002''"
definition CHARGE_AUTH_FAILED :: string where "CHARGE_AUTH_FAILED = ''SVC0901''"
definition CHARGE_FAILED :: string where "CHARGE_FAILED = ''SVC0270''"
definition CHARGE_AMOUNT_OUT_OF_RANGE :: string where "CHARGE_AMOUNT_OUT_OF_RANGE = ''POL0910''"

definition CHARGE_AMOUNT_ERRORS :: "(string \<times> string) list" where
  "CHARGE_AMOUNT_ERRORS =
    [(CHARGE_TIMEOUT, ''The subscriber has insufficient airtime (NO_BALANCE), or the request '' @
        ''timed out against an abnormal MA service. Read error_message for which.''),
     (CHARGE_INVALID_INPUT, ''A required charging field is blank or invalid.''),
     (CHARGE_AUTH_FAILED, ''The MA refused the request: authentication, authorisation, or a '' @
        ''service/price point that is not provisioned for this account. Read error_message for which.''),
     (CHARGE_FAILED, ''MDSP charge failed; an internal MA service is abnormal.''),
     (CHARGE_AMOUNT_OUT_OF_RANGE, ''Amount is outside the permitted transaction range.'')]"

definition CHARGE_RETRYABLE :: "string list" where
  "CHARGE_RETRYABLE = [CHARGE_TIMEOUT, CHARGE_FAILED]"

definition CHARGE_PERMANENT :: "string list" where
  "CHARGE_PERMANENT = [CHARGE_INVALID_INPUT, CHARGE_AUTH_FAILED, CHARGE_AMOUNT_OUT_OF_RANGE]"

datatype timwe_error =
    TimweError string
  | TimweConfigurationError string
  | TimweChargingDisabled
  | TimweAmountError string
  | ChargeRefused string
  | AirtimePurchaseRefused string
  | Not_payable pay_error
  | Raised exn

text \<open>\<open>str(exc)\<close> of the errors that are \<open>TimweError\<close>s.\<close>

fun error_text :: "timwe_error \<Rightarrow> string" where
  "error_text (TimweError s) = s"
| "error_text (TimweConfigurationError s) = s"
| "error_text TimweChargingDisabled =
     ''TIMWE charging is switched off (TIMWE_CHARGING_ENABLED is false). Nothing was sent.''"
| "error_text (TimweAmountError s) = s"
| "error_text (ChargeRefused s) = s"
| "error_text (AirtimePurchaseRefused s) = s"
| "error_text (Not_payable _) = []"
| "error_text (Raised _) = []"

definition bind_sum :: "'e + 'a \<Rightarrow> ('a \<Rightarrow> 'e + 'b) \<Rightarrow> 'e + 'b" where
  "bind_sum r f = (case r of Inl e \<Rightarrow> Inl e | Inr x \<Rightarrow> f x)"

lemma bind_sum_simps [simp]: "bind_sum (Inl e) f = Inl e" "bind_sum (Inr x) f = f x"
  by (simp_all add: bind_sum_def)

lemma bind_sum_Inr_iff: "bind_sum r f = Inr y \<longleftrightarrow> (\<exists>x. r = Inr x \<and> f x = Inr y)"
  by (cases r) auto

section \<open>Outcomes\<close>

datatype outcome = OUTCOME_SUCCESS | OUTCOME_REJECTED | OUTCOME_UNREACHABLE | OUTCOME_TIMEOUT | OUTCOME_UNKNOWN

record charge_outcome =
  co_outcome :: outcome
  co_error_code :: "string option"
  co_message :: string
  co_http_status :: "int option"

definition outcome_of :: "outcome \<Rightarrow> string \<Rightarrow> charge_outcome" where
  "outcome_of k s = \<lparr>co_outcome = k, co_error_code = None, co_message = s, co_http_status = None\<rparr>"

definition outcome_success :: "charge_outcome \<Rightarrow> bool" where
  "outcome_success c \<longleftrightarrow> co_outcome c = OUTCOME_SUCCESS"

definition outcome_is_ambiguous :: "charge_outcome \<Rightarrow> bool" where
  "outcome_is_ambiguous c \<longleftrightarrow> co_outcome c \<in> {OUTCOME_TIMEOUT, OUTCOME_UNKNOWN}"

definition definitely_not_charged :: "charge_outcome \<Rightarrow> bool" where
  "definitely_not_charged c \<longleftrightarrow> co_outcome c \<in> {OUTCOME_REJECTED, OUTCOME_UNREACHABLE}"

section \<open>Configuration\<close>

text \<open>A number is \<open>None\<close> where \<open>int()\<close> of the setting raises.\<close>

record timwe_settings =
  TIMWE_CHARGING_ENABLED :: bool
  TIMWE_CHARGE_URL :: string
  TIMWE_SP_ID :: string
  TIMWE_SP_PASSWORD :: string
  TIMWE_CHARGE_SERVICE_ID :: string
  TIMWE_SERVICE_ID :: string
  TIMWE_CURRENCY :: string
  TIMWE_CHARGE_AMOUNT_SCALE :: "int option"
  TIMWE_CHARGE_CODE :: string
  TIMWE_CHARGE_TEL_PREFIX :: bool
  TIMWE_CHARGE_AUTH_MODE :: string
  TIMWE_CHARGE_TIMESTAMP :: string
  TIMWE_CHARGE_TIMEOUT :: "int option"
  endpoint_problem :: string

definition get_service_id :: "'a timwe_settings_scheme \<Rightarrow> string" where
  "get_service_id cfg =
     (if TIMWE_CHARGE_SERVICE_ID cfg \<noteq> [] then TIMWE_CHARGE_SERVICE_ID cfg else TIMWE_SERVICE_ID cfg)"

definition get_amount_scale :: "'a timwe_settings_scheme \<Rightarrow> timwe_error + int" where
  "get_amount_scale cfg =
     (case TIMWE_CHARGE_AMOUNT_SCALE cfg of
        Some s \<Rightarrow> if s < 1 then Inl (TimweConfigurationError
            ''TIMWE_CHARGE_AMOUNT_SCALE must be a positive whole number (1 for Birr, 100 for minor units).'')
          else Inr s
      | None \<Rightarrow> Inl (TimweConfigurationError
            ''TIMWE_CHARGE_AMOUNT_SCALE must be a positive whole number (1 for Birr, 100 for minor units).''))"

definition password_is_hashed :: "'a timwe_settings_scheme \<Rightarrow> timwe_error + bool" where
  "password_is_hashed cfg =
     (let mode = lower (strip (if TIMWE_CHARGE_AUTH_MODE cfg = [] then ''md5'' else TIMWE_CHARGE_AUTH_MODE cfg))
      in if mode \<notin> {''md5'', ''plain''}
         then Inl (TimweConfigurationError ''TIMWE_CHARGE_AUTH_MODE must be 'md5' (the guide) or 'plain' (what TIMWE's own example sends).'')
         else Inr (mode = ''md5''))"

definition get_timeout :: "'a timwe_settings_scheme \<Rightarrow> timwe_error + int" where
  "get_timeout cfg =
     (case TIMWE_CHARGE_TIMEOUT cfg of
        Some n \<Rightarrow> if n \<le> 0
          then Inl (TimweConfigurationError ''TIMWE_CHARGE_TIMEOUT must be a positive whole number of seconds.'')
          else Inr n
      | None \<Rightarrow> Inl (TimweConfigurationError ''TIMWE_CHARGE_TIMEOUT must be a positive whole number of seconds.''))"

definition missing_configuration :: "'a timwe_settings_scheme \<Rightarrow> string list" where
  "missing_configuration cfg =
     map fst (filter (\<lambda>(name, v). v = [])
       [(''TIMWE_CHARGE_URL'', TIMWE_CHARGE_URL cfg), (''TIMWE_SP_ID'', TIMWE_SP_ID cfg),
        (''TIMWE_SP_PASSWORD'', TIMWE_SP_PASSWORD cfg), (''TIMWE_SERVICE_ID'', get_service_id cfg),
        (''TIMWE_CURRENCY'', TIMWE_CURRENCY cfg)])"

definition is_configured :: "'a timwe_settings_scheme \<Rightarrow> bool" where
  "is_configured cfg \<longleftrightarrow> missing_configuration cfg = []"

fun comma_separated :: "string list \<Rightarrow> string" where
  "comma_separated [] = []"
| "comma_separated [x] = x"
| "comma_separated (x # xs) = x @ '', '' @ comma_separated xs"

definition ensure_configured :: "'a timwe_settings_scheme \<Rightarrow> timwe_error + unit" where
  "ensure_configured cfg =
     (if missing_configuration cfg \<noteq> []
      then Inl (TimweConfigurationError (''TIMWE charging is not configured: '' @
             comma_separated (missing_configuration cfg) @ '' unset. '' @
             ''TIMWE_CHARGE_URL and the charging credentials must be supplied by TIMWE -- they are not the SMPP settings.''))
      else if endpoint_problem cfg \<noteq> [] then Inl (TimweConfigurationError (endpoint_problem cfg))
      else bind_sum (get_timeout cfg) (\<lambda>_. Inr ()))"

section \<open>Fields\<close>

definition MAX_AMOUNT_DIGITS :: nat where "MAX_AMOUNT_DIGITS = 4"
definition MAX_REFERENCE_CODE_LENGTH :: nat where "MAX_REFERENCE_CODE_LENGTH = 30"
definition MAX_DESCRIPTION_LENGTH :: nat where "MAX_DESCRIPTION_LENGTH = 255"

definition etb_to_timwe_amount :: "'a timwe_settings_scheme \<Rightarrow> int \<Rightarrow> timwe_error + int" where
  "etb_to_timwe_amount cfg amount =
     (if amount mod 100 \<noteq> 0
      then Inl (TimweAmountError ''Amount has a fractional part and the MA does not accept a decimal point (guide p.21).'')
      else (let birr = amount div 100
            in if birr \<le> 0 then Inl (TimweAmountError ''Amount must be a positive whole number.'')
               else bind_sum (get_amount_scale cfg) (\<lambda>s. Inr (birr * s))))"

definition format_amount :: "'a timwe_settings_scheme \<Rightarrow> int \<Rightarrow> timwe_error + string" where
  "format_amount cfg amount =
     bind_sum (etb_to_timwe_amount cfg amount) (\<lambda>v.
       let rendered = show_nat (nat v)
       in if length rendered > MAX_AMOUNT_DIGITS
          then Inl (TimweAmountError (''Amount '' @ rendered @ '' exceeds the 4-character limit the MA allows (guide p.21).''))
          else Inr rendered)"

definition normalize_msisdn :: "string \<Rightarrow> timwe_error + string" where
  "normalize_msisdn n =
     (case normalize_ethiopian_phone (Some n) of
        None \<Rightarrow> Inl (TimweError ''The MSISDN is not a valid Ethiopian mobile number.'')
      | Some s \<Rightarrow> Inr s)"

definition format_end_user_identifier :: "'a timwe_settings_scheme \<Rightarrow> string \<Rightarrow> timwe_error + string" where
  "format_end_user_identifier cfg n =
     bind_sum (normalize_msisdn n) (\<lambda>s. Inr (if TIMWE_CHARGE_TEL_PREFIX cfg then ''tel:'' @ s else s))"

definition validate_description :: "string \<Rightarrow> timwe_error + string" where
  "validate_description d =
     (let s = strip d
      in if s = [] then Inl (TimweError ''A charge description is required (guide p.21).'')
         else if length s > MAX_DESCRIPTION_LENGTH
         then Inl (TimweError ''Charge description exceeds 255 characters (guide p.21).'')
         else Inr s)"

definition is_letter :: "char \<Rightarrow> bool" where
  "is_letter c \<longleftrightarrow> is_upper c \<or> is_lower c"

definition validate_currency :: "'a timwe_settings_scheme \<Rightarrow> timwe_error + string" where
  "validate_currency cfg =
     (let c = strip (TIMWE_CURRENCY cfg)
      in if 2 \<le> length c \<and> length c \<le> 10 \<and> list_all is_letter c then Inr c
         else Inl (TimweConfigurationError ''TIMWE_CURRENCY must be letters only, e.g. ETB (guide p.21) or Birr (what TIMWE's own example sends).''))"

definition validate_reference_code :: "string \<Rightarrow> timwe_error + string" where
  "validate_reference_code r =
     (if r = [] \<or> length r > MAX_REFERENCE_CODE_LENGTH
      then Inl (TimweError ''referenceCode must be 1-30 characters (guide p.21).'') else Inr r)"

section \<open>The request\<close>

record envelope =
  env_sp_id :: string
  env_sp_password :: string
  env_timestamp :: string
  env_service_id :: string
  env_oa :: string
  env_fa :: string
  env_end_user :: string
  env_description :: string
  env_currency :: string
  env_amount :: string
  env_code :: "string option"
  env_reference :: string

definition build_timestamp :: "'a timwe_settings_scheme \<Rightarrow> string \<Rightarrow> string" where
  "build_timestamp cfg clock =
     (if strip (TIMWE_CHARGE_TIMESTAMP cfg) \<noteq> [] then strip (TIMWE_CHARGE_TIMESTAMP cfg) else clock)"

definition build_sp_password ::
  "(string \<Rightarrow> string) \<Rightarrow> 'a timwe_settings_scheme \<Rightarrow> string \<Rightarrow> timwe_error + string" where
  "build_sp_password md5 cfg stamp =
     bind_sum (password_is_hashed cfg) (\<lambda>hashed.
       Inr (if \<not> hashed then TIMWE_SP_PASSWORD cfg else md5 (TIMWE_SP_ID cfg @ TIMWE_SP_PASSWORD cfg @ stamp)))"

record charge_call =
  call_msisdn :: string
  call_amount :: int
  call_description :: string
  call_reference :: string
  call_charge_code :: string
  call_service_id :: string

definition build_soap_request ::
  "(string \<Rightarrow> string) \<Rightarrow> string \<Rightarrow> 'a timwe_settings_scheme \<Rightarrow> charge_call \<Rightarrow> timwe_error + envelope" where
  "build_soap_request md5 clock cfg c =
     bind_sum (ensure_configured cfg) (\<lambda>_.
     bind_sum (validate_reference_code (call_reference c)) (\<lambda>_.
     bind_sum (validate_description (call_description c)) (\<lambda>d.
     bind_sum (validate_currency cfg) (\<lambda>currency.
     bind_sum (format_amount cfg (call_amount c)) (\<lambda>rendered.
     bind_sum (normalize_msisdn (call_msisdn c)) (\<lambda>subscriber.
     let stamp = build_timestamp cfg clock;
         ccode = (if call_charge_code c \<noteq> [] then call_charge_code c else TIMWE_CHARGE_CODE cfg);
         service = (if call_service_id c \<noteq> [] then call_service_id c else get_service_id cfg)
     in bind_sum (build_sp_password md5 cfg stamp) (\<lambda>pw.
        bind_sum (format_end_user_identifier cfg subscriber) (\<lambda>end_user.
        Inr \<lparr>env_sp_id = TIMWE_SP_ID cfg, env_sp_password = pw, env_timestamp = stamp, env_service_id = service,
             env_oa = subscriber, env_fa = subscriber, env_end_user = end_user, env_description = d,
             env_currency = currency, env_amount = rendered,
             env_code = (if ccode = [] then None else Some ccode), env_reference = call_reference c\<rparr>))))))))"

section \<open>The reply\<close>

datatype xml = Element (xml_tag: string) (xml_text: "string option") (xml_children: "xml list")

text \<open>\<open>Element.iter()\<close>: the element and everything below it, in document order.\<close>

fun xml_iter :: "xml \<Rightarrow> xml list" where
  "xml_iter (Element g s cs) = Element g s cs # concat (map xml_iter cs)"

text \<open>\<open>s.rsplit(c, 1)[-1]\<close>.\<close>

definition after_last :: "char \<Rightarrow> string \<Rightarrow> string" where
  "after_last c s = rev (takeWhile (\<lambda>x. x \<noteq> c) (rev s))"

definition localname :: "xml \<Rightarrow> string" where
  "localname e = after_last (CHR ''}'') (xml_tag e)"

definition is_ma_error_code :: "string \<Rightarrow> bool" where
  "is_ma_error_code s \<longleftrightarrow>
     length s = 7 \<and> take 3 s \<in> {''SVC'', ''POL''} \<and> list_all is_digit (drop 3 s)"

definition fault_field :: "string \<times> string \<Rightarrow> xml \<Rightarrow> string \<times> string" where
  "fault_field st e =
     (let (err, msg) = st; name = localname e; s = strip (case xml_text e of None \<Rightarrow> [] | Some x \<Rightarrow> x)
      in if s = [] then (err, msg)
         else if name = ''messageId'' \<and> is_ma_error_code s then (s, msg)
         else if name \<in> {''faultcode'', ''Value''} \<and> err = [] then
           (if is_ma_error_code (after_last (CHR '':'') s) then (after_last (CHR '':'') s, msg) else (err, msg))
         else if name \<in> {''faultstring'', ''Text'', ''text'', ''message''} \<and> msg = [] then (err, s)
         else (err, msg))"

definition interpret_reply ::
  "(string \<Rightarrow> string + xml) \<Rightarrow> string \<Rightarrow> outcome \<times> string option \<times> string" where
  "interpret_reply fromstring body =
     (if strip body = [] then (OUTCOME_UNKNOWN, None, ''Empty response from the MA.'')
      else case fromstring body of
        Inl err \<Rightarrow> (OUTCOME_UNKNOWN, None, ''Malformed SOAP response: '' @ err)
      | Inr doc \<Rightarrow>
          (case find (\<lambda>e. localname e = ''Fault'') (xml_iter doc) of
             None \<Rightarrow>
               if list_ex (\<lambda>e. localname e = ''chargeAmountResponse'') (xml_iter doc)
               then (OUTCOME_SUCCESS, None, ''Charged.'')
               else (OUTCOME_UNKNOWN, None, ''The MA replied without a Fault or a chargeAmountResponse.'')
           | Some fault \<Rightarrow>
               (let (err, msg) = foldl fault_field ([], []) (xml_iter fault)
                in (OUTCOME_REJECTED, if err = [] then None else Some err,
                    if msg \<noteq> [] then msg
                    else case map_of CHARGE_AMOUNT_ERRORS err of
                        Some d \<Rightarrow> d | None \<Rightarrow> ''The MA rejected the charge.''))))"

definition parse_soap_response :: "(string \<Rightarrow> string + xml) \<Rightarrow> string \<Rightarrow> bool \<times> string option \<times> string" where
  "parse_soap_response fromstring body =
     (let (k, err, msg) = interpret_reply fromstring body in (k = OUTCOME_SUCCESS, err, msg))"

section \<open>Transport\<close>

text \<open>
  An exception and the ones it refers to: \<open>reason\<close>, \<open>__cause__\<close>, \<open>__context__\<close> and the exceptions among
  its \<open>args\<close>, in that order, by number. References may be cyclic.
\<close>

record exc_node =
  connect_timeout_error :: bool \<comment> \<open>an instance of urllib3's \<open>ConnectTimeoutError\<close>\<close>
  refers_to :: "nat option list"

text \<open>The loop over the stack \<open>pending\<close>, its top first.\<close>

function never_loop :: "exc_node list \<Rightarrow> nat list \<Rightarrow> nat option list \<Rightarrow> bool" where
  "never_loop g seen [] = False"
| "never_loop g seen (None # ps) = never_loop g seen ps"
| "never_loop g seen (Some i # ps) =
     (if i \<in> set seen \<or> length g \<le> i then never_loop g seen ps
      else if connect_timeout_error (g ! i) then True
      else never_loop g (i # seen) (rev (refers_to (g ! i)) @ ps))"
  by pat_completeness auto

definition unseen :: "exc_node list \<Rightarrow> nat list \<Rightarrow> nat" where
  "unseen g seen = card ({..<length g} - set seen)"

lemma unseen_less: "i < length g \<Longrightarrow> i \<notin> set seen \<Longrightarrow> unseen g (i # seen) < unseen g seen"
  unfolding unseen_def by (rule psubset_card_mono) auto

termination never_loop
  by (relation "measures [\<lambda>(g, seen, ps). unseen g seen, \<lambda>(g, seen, ps). length ps]")
     (auto simp: unseen_less)

definition never_connected :: "exc_node list \<Rightarrow> bool" where
  "never_connected g = never_loop g [] [Some 0]"

datatype transport =
    Connect_timeout
  | Read_timeout
  | Connection_error "exc_node list"
  | Request_exception string
  | Answered int string

definition classify :: "(string \<Rightarrow> string + xml) \<Rightarrow> int \<Rightarrow> transport \<Rightarrow> charge_outcome" where
  "classify fromstring read_timeout r =
     (case r of
        Connect_timeout \<Rightarrow> outcome_of OUTCOME_UNREACHABLE ''Could not connect to the MA in time; nothing was sent.''
      | Read_timeout \<Rightarrow> outcome_of OUTCOME_TIMEOUT
          (''The MA did not answer within '' @ show_nat (nat read_timeout) @ ''s. The charge may still have been applied.'')
      | Connection_error g \<Rightarrow>
          if never_connected g then outcome_of OUTCOME_UNREACHABLE ''Could not reach the MA; nothing was sent.''
          else outcome_of OUTCOME_UNKNOWN
            ''The connection to the MA broke after the request was sent. The charge may still have been applied.''
      | Request_exception name \<Rightarrow> outcome_of OUTCOME_UNREACHABLE (''The request could not be sent: '' @ name @ ''.'')
      | Answered st body \<Rightarrow>
          (let (k, err, msg) = interpret_reply fromstring body
           in if k = OUTCOME_UNKNOWN \<and> 400 \<le> st \<and> st < 500 then
                \<lparr>co_outcome = OUTCOME_REJECTED, co_error_code = None,
                 co_message = ''The MA endpoint answered HTTP '' @ show_nat (nat st) @ '' without a SOAP reply.'',
                 co_http_status = Some st\<rparr>
              else if k = OUTCOME_SUCCESS \<and> st \<noteq> 200 then
                \<lparr>co_outcome = OUTCOME_UNKNOWN, co_error_code = err,
                 co_message = ''A success body arrived with HTTP '' @ show_nat (nat st) @ ''.'',
                 co_http_status = Some st\<rparr>
              else \<lparr>co_outcome = k, co_error_code = err, co_message = msg, co_http_status = Some st\<rparr>))"

text \<open>What a call depends on outside the program, and the settings as they stand when the client runs.\<close>

record ma_env =
  env_settings :: timwe_settings
  env_post :: "envelope \<Rightarrow> transport"
  env_fromstring :: "string \<Rightarrow> string + xml"
  env_md5 :: "string \<Rightarrow> string"
  env_clock :: string

definition execute :: "ma_env \<Rightarrow> charge_call \<Rightarrow> timwe_error + charge_outcome" where
  "execute ma c =
     (let cfg = env_settings ma
      in if \<not> TIMWE_CHARGING_ENABLED cfg then Inl TimweChargingDisabled
         else bind_sum (build_soap_request (env_md5 ma) (env_clock ma) cfg c) (\<lambda>e.
              bind_sum (get_timeout cfg) (\<lambda>read_timeout.
              Inr (classify (env_fromstring ma) read_timeout (env_post ma e)))))"

definition is_retryable :: "string option \<Rightarrow> bool" where
  "is_retryable err = (case err of None \<Rightarrow> False | Some s \<Rightarrow> s \<in> set CHARGE_RETRYABLE)"

definition is_permanent :: "string option \<Rightarrow> bool" where
  "is_permanent err = (case err of None \<Rightarrow> False | Some s \<Rightarrow> s \<in> set CHARGE_PERMANENT)"

section \<open>The search for a connection that never opened\<close>

text \<open>The abstract question: can a connect timeout be reached from the exception?\<close>

definition refers :: "exc_node list \<Rightarrow> (nat \<times> nat) set" where
  "refers g = {(i, j). i < length g \<and> j < length g \<and> Some j \<in> set (refers_to (g ! i))}"

definition times_out :: "exc_node list \<Rightarrow> nat \<Rightarrow> bool" where
  "times_out g i \<longleftrightarrow> (\<exists>j. (i, j) \<in> (refers g)\<^sup>* \<and> j < length g \<and> connect_timeout_error (g ! j))"

definition explored :: "exc_node list \<Rightarrow> nat list \<Rightarrow> nat option list \<Rightarrow> bool" where
  "explored g seen ps \<longleftrightarrow>
     (\<forall>i \<in> set seen. i < length g \<and> \<not> connect_timeout_error (g ! i) \<and>
        (\<forall>j. (i, j) \<in> refers g \<longrightarrow> j \<in> set seen \<or> Some j \<in> set ps))"

lemma leaves_explored:
  assumes "(i, j) \<in> (refers g)\<^sup>*" and "i \<in> set seen" and "explored g seen ps" and "connect_timeout_error (g ! j)"
  shows "\<exists>k. Some k \<in> set ps \<and> (k, j) \<in> (refers g)\<^sup>*"
  using assms(1,2)
proof (induction rule: converse_rtrancl_induct)
  case base
  then show ?case using assms(3,4) by (auto simp: explored_def)
next
  case (step i k)
  then show ?case using assms(3) by (cases "k \<in> set seen") (auto simp: explored_def)
qed

lemma times_out_step:
  "i < length g \<Longrightarrow> \<not> connect_timeout_error (g ! i) \<Longrightarrow>
   times_out g i \<longleftrightarrow> (\<exists>j. (i, j) \<in> refers g \<and> times_out g j)"
  unfolding times_out_def by (metis converse_rtranclE r_into_rtrancl rtrancl_trans)

lemma times_out_range: "times_out g i \<Longrightarrow> i < length g"
  unfolding times_out_def by (auto elim: converse_rtranclE simp: refers_def)

lemma never_loop_iff:
  "explored g seen ps \<Longrightarrow> never_loop g seen ps \<longleftrightarrow> (\<exists>i. Some i \<in> set ps \<and> times_out g i)"
proof (induction g seen ps rule: never_loop.induct)
  case (2 g seen ps)
  then show ?case by (auto simp: explored_def)
next
  case (3 g seen i ps)
  show ?case
  proof (cases "i \<in> set seen \<or> length g \<le> i")
    case True
    have "explored g seen ps"
      using True 3(3) unfolding explored_def refers_def by (metis (no_types, lifting) case_prodD leD list.set_cases mem_Collect_eq option.inject set_ConsD)
    moreover have "times_out g i \<Longrightarrow> \<exists>k. Some k \<in> set ps \<and> times_out g k"
    proof -
      assume t: "times_out g i"
      then have "i \<in> set seen" using True times_out_range by fastforce
      then show ?thesis
        using t leaves_explored [OF _ _ \<open>explored g seen ps\<close>] unfolding times_out_def by metis
    qed
    ultimately show ?thesis using True 3(1) by auto
  next
    case False
    then have i: "i < length g" "i \<notin> set seen" by auto
    show ?thesis
    proof (cases "connect_timeout_error (g ! i)")
      case True
      then have "times_out g i" using i by (auto simp: times_out_def)
      then show ?thesis using True i by auto
    next
      case False
      have "explored g (i # seen) (rev (refers_to (g ! i)) @ ps)"
        using 3(3) i False by (auto simp: explored_def refers_def)
      then have "never_loop g seen (Some i # ps) \<longleftrightarrow>
          (\<exists>k. Some k \<in> set (rev (refers_to (g ! i)) @ ps) \<and> times_out g k)"
        using 3(2) i False by simp
      also have "\<dots> \<longleftrightarrow> (\<exists>k. Some k \<in> set (Some i # ps) \<and> times_out g k)"
        using times_out_step [OF i(1) False] times_out_range i(1) by (auto simp: refers_def)
      finally show ?thesis .
    qed
  qed
qed simp

text \<open>
  The walk over an exception's causes ends on every chain, cyclic ones included, and answers exactly
  whether urllib3's connect timeout is among the exceptions reachable from it. So a broken connection is
  recorded as never sent precisely when its history contains a connection that was not opened.
\<close>

theorem never_connected_exact:
  "never_connected g \<longleftrightarrow> (\<exists>j. (0, j) \<in> (refers g)\<^sup>* \<and> j < length g \<and> connect_timeout_error (g ! j))"
  unfolding never_connected_def
  by (subst never_loop_iff) (auto simp: explored_def times_out_def)

section \<open>What an outcome proves\<close>

lemma interpret_parsed:
  assumes "strip body \<noteq> []" and "fromstring body = Inr doc"
  shows "fst (interpret_reply fromstring body) =
     (if \<exists>e \<in> set (xml_iter doc). localname e = ''Fault'' then OUTCOME_REJECTED
      else if \<exists>e \<in> set (xml_iter doc). localname e = ''chargeAmountResponse'' then OUTCOME_SUCCESS
      else OUTCOME_UNKNOWN)"
proof (cases "find (\<lambda>e. localname e = ''Fault'') (xml_iter doc)")
  case None
  then have "\<not> (\<exists>e \<in> set (xml_iter doc). localname e = ''Fault'')" by (auto simp: find_None_iff)
  then show ?thesis using None assms by (simp add: interpret_reply_def list_ex_iff)
next
  case (Some e)
  then have "\<exists>e \<in> set (xml_iter doc). localname e = ''Fault''" by (auto simp: find_Some_iff)
  then show ?thesis using Some assms by (simp add: interpret_reply_def case_prod_beta Let_def)
qed

lemma interpret_unparsed:
  "strip body = [] \<or> fromstring body = Inl err \<Longrightarrow> fst (interpret_reply fromstring body) = OUTCOME_UNKNOWN"
  by (auto simp: interpret_reply_def)

lemma interpret_success:
  "fst (interpret_reply fromstring body) = OUTCOME_SUCCESS \<longleftrightarrow>
     strip body \<noteq> [] \<and> (\<exists>doc. fromstring body = Inr doc \<and>
       (\<exists>e \<in> set (xml_iter doc). localname e = ''chargeAmountResponse'') \<and>
       \<not> (\<exists>e \<in> set (xml_iter doc). localname e = ''Fault''))"
proof (cases "strip body = [] \<or> (\<exists>err. fromstring body = Inl err)")
  case True
  then show ?thesis using interpret_unparsed [of body fromstring] by fastforce
next
  case False
  then obtain doc where d: "fromstring body = Inr doc" by (cases "fromstring body") auto
  show ?thesis using interpret_parsed [of body fromstring doc] False d by simp
qed

lemma interpret_kinds:
  "fst (interpret_reply fromstring body) \<in> {OUTCOME_SUCCESS, OUTCOME_REJECTED, OUTCOME_UNKNOWN}"
proof (cases "strip body = [] \<or> (\<exists>err. fromstring body = Inl err)")
  case True
  then show ?thesis using interpret_unparsed [of body fromstring] by auto
next
  case False
  then obtain doc where d: "fromstring body = Inr doc" by (cases "fromstring body") auto
  show ?thesis using interpret_parsed [of body fromstring doc] False d by simp
qed

text \<open>
  A call is recorded as charged only for an answer with status 200 whose body is a tree with a
  \<open>chargeAmountResponse\<close> and no \<open>Fault\<close>; it is recorded as certainly not charged only when nothing was sent,
  when the MA answered with a \<open>Fault\<close>, or when an HTTP client error arrived without a SOAP answer.
\<close>

theorem outcome_proves:
  "(outcome_success (classify fromstring n r) \<longleftrightarrow>
     (\<exists>body doc. r = Answered 200 body \<and> strip body \<noteq> [] \<and> fromstring body = Inr doc \<and>
        (\<exists>e \<in> set (xml_iter doc). localname e = ''chargeAmountResponse'') \<and>
        \<not> (\<exists>e \<in> set (xml_iter doc). localname e = ''Fault''))) \<and>
   (definitely_not_charged (classify fromstring n r) \<longleftrightarrow>
     r = Connect_timeout \<or> (\<exists>name. r = Request_exception name) \<or> (\<exists>g. r = Connection_error g \<and> never_connected g) \<or>
     (\<exists>st body. r = Answered st body \<and>
        (fst (interpret_reply fromstring body) = OUTCOME_REJECTED \<or>
         fst (interpret_reply fromstring body) = OUTCOME_UNKNOWN \<and> 400 \<le> st \<and> st < 500)))"
proof (cases r)
  case (Answered st body)
  obtain k err msg where i: "interpret_reply fromstring body = (k, err, msg)" by (cases "interpret_reply fromstring body")
  have "k \<in> {OUTCOME_SUCCESS, OUTCOME_REJECTED, OUTCOME_UNKNOWN}" using interpret_kinds [of fromstring body] i by simp
  moreover have "k = OUTCOME_SUCCESS \<longleftrightarrow> strip body \<noteq> [] \<and> (\<exists>doc. fromstring body = Inr doc \<and>
       (\<exists>e \<in> set (xml_iter doc). localname e = ''chargeAmountResponse'') \<and>
       \<not> (\<exists>e \<in> set (xml_iter doc). localname e = ''Fault''))"
    using interpret_success [of fromstring body] i by simp
  ultimately show ?thesis
    using i Answered
    by (auto simp: classify_def outcome_success_def definitely_not_charged_def Let_def)
qed (auto simp: classify_def outcome_success_def definitely_not_charged_def outcome_of_def)

section \<open>What reaches the wire\<close>

lemma length_show_nat: "0 < k \<Longrightarrow> length (show_nat n) \<le> k \<longleftrightarrow> n < 10 ^ k"
proof (induction n arbitrary: k rule: show_nat.induct)
  case (1 n)
  show ?case
  proof (cases "n < 10")
    case True
    have "(10::nat) ^ 1 \<le> 10 ^ k" using 1(2) by (intro power_increasing) auto
    then show ?thesis using True 1(2) by (subst show_nat.simps) (simp add: Suc_le_eq)
  next
    case False
    have pos: "0 < length (show_nat (n div 10))" by simp
    show ?thesis
    proof (cases "k = 1")
      case True
      then show ?thesis using False pos by (subst show_nat.simps) (simp add: Suc_le_eq del: length_greater_0_conv)
    next
      case k: False
      then obtain m where m: "k = Suc m" "0 < m" using 1(2) by (cases k) auto
      have "length (show_nat n) \<le> k \<longleftrightarrow> length (show_nat (n div 10)) \<le> m"
        using False m by (subst show_nat.simps) simp
      also have "\<dots> \<longleftrightarrow> n div 10 < 10 ^ m" using 1(1) False m by simp
      also have "\<dots> \<longleftrightarrow> n < 10 ^ k" using m by (simp add: div_less_iff_less_mult mult.commute)
      finally show ?thesis .
    qed
  qed
qed

text \<open>
  The amount on the wire is the whole price and nothing else: an amount is sent exactly when it is a
  positive number of whole birr which, in the configured unit, has at most four digits, and the digits sent
  read back as that price times the unit. No fraction is dropped and no digit is cut off.
\<close>

theorem wire_amount_exact:
  "format_amount cfg amount = Inr s \<longleftrightarrow>
     (\<exists>unit. TIMWE_CHARGE_AMOUNT_SCALE cfg = Some unit \<and> 1 \<le> unit \<and> amount mod 100 = 0 \<and> 0 < amount \<and>
        amount div 100 * unit < 10000 \<and> s = show_nat (nat (amount div 100 * unit)) \<and>
        100 * int (nat_of_digits s) = amount * unit)"
proof -
  have whole: "100 * int (nat (amount div 100 * unit)) = amount * unit"
    if "amount mod 100 = 0" "0 < amount" "1 \<le> unit" for unit :: int
  proof -
    have "0 \<le> amount div 100 * unit" using that by (simp add: pos_imp_zdiv_nonneg_iff)
    then have "100 * int (nat (amount div 100 * unit)) = (amount div 100 * 100) * unit" by simp
    also have "amount div 100 * 100 = amount" using that(1) div_mult_mod_eq [of amount 100] by simp
    finally show ?thesis .
  qed
  have pos: "amount mod 100 = 0 \<Longrightarrow> amount div 100 \<le> 0 \<longleftrightarrow> \<not> 0 < amount"
    using div_mult_mod_eq [of amount 100] by linarith
  have len: "4 < length (show_nat (nat v)) \<longleftrightarrow> 10000 \<le> v" for v :: int
    using length_show_nat [of 4 "nat v"] by (auto simp: not_le [symmetric] nat_less_iff)
  have nn: "0 \<le> amount div 100 * unit" if "0 < amount" "1 \<le> unit" for unit :: int
    using that by (simp add: pos_imp_zdiv_nonneg_iff)
  show ?thesis
    using whole pos nn
    by (auto simp: format_amount_def etb_to_timwe_amount_def get_amount_scale_def MAX_AMOUNT_DIGITS_def Let_def len
        bind_sum_def not_less not_le split: if_splits option.splits sum.splits)
qed

end
