(* ===== verification/Timwe_Charging.thy ===== *)
theory Timwe_Charging
  imports Coin_Orders Timwe_Client
begin

text \<open>
  Charges as recorded transactions: \<open>TimweChargeTransaction\<close> of \<open>api/models/timwe.py\<close>, the charging service
  \<open>api/services/timwe_charging.py\<close> (a pending row is written first, the MA is called outside any database
  transaction, exactly one outcome is recorded, a success is fulfilled once), and the airtime purchase of
  \<open>api/views/charging.py\<close>. The row's number is its position in the table. The reference code
  (\<open>uuid4\<close>) of a new charge is a parameter.
\<close>

section \<open>Rows\<close>

datatype charge_status = C_pending | C_success | C_failed | C_timeout | C_unknown

record charge_row =
  ct_user :: nat
  ct_key :: string
  ct_reference :: string
  ct_msisdn :: string
  ct_amount :: int \<comment> \<open>whole birr\<close>
  ct_currency :: string
  ct_description :: string
  ct_charge_code :: string
  ct_package :: "nat option"
  ct_tier :: "nat option"
  ct_purpose :: string
  ct_subscription :: "nat option"
  ct_period_end :: "int option"
  ct_short_code :: string
  ct_service_id :: string
  ct_product_id :: string
  ct_status :: charge_status
  ct_outcome :: "outcome option"
  ct_error_code :: string
  ct_error_message :: string
  ct_retryable :: bool
  ct_created_at :: int
  ct_completed_at :: "int option"
  ct_fulfilled_at :: "int option"

record charge_db = order_db +
  charges :: "charge_row list"

definition PURPOSE_COIN_PURCHASE :: string where
  "PURPOSE_COIN_PURCHASE = ''coin_purchase''"

definition PURPOSE_SUBSCRIPTION_RENEWAL :: string where
  "PURPOSE_SUBSCRIPTION_RENEWAL = ''subscription_renewal''"

definition charge_is_ambiguous :: "charge_row \<Rightarrow> bool" where
  "charge_is_ambiguous c \<longleftrightarrow>
     ct_status c \<in> {C_timeout, C_unknown} \<or> ct_status c = C_pending \<and> ct_completed_at c = None"

text \<open>
  The partial unique constraint \<open>timwe_one_live_renewal_charge_per_period\<close>: among renewal charges that have
  not failed, the pair of subscription and period is unique. A null in either column never collides.
\<close>

definition live_renewal :: "charge_row \<Rightarrow> bool" where
  "live_renewal c \<longleftrightarrow> ct_purpose c = PURPOSE_SUBSCRIPTION_RENEWAL \<and> ct_status c \<noteq> C_failed"

definition same_period :: "charge_row \<Rightarrow> charge_row \<Rightarrow> bool" where
  "same_period c d \<longleftrightarrow> ct_subscription c \<noteq> None \<and> ct_period_end c \<noteq> None \<and>
     ct_subscription c = ct_subscription d \<and> ct_period_end c = ct_period_end d"

definition charge_collides :: "charge_row list \<Rightarrow> charge_row \<Rightarrow> bool" where
  "charge_collides rows c \<longleftrightarrow>
     list_ex (\<lambda>d. ct_key d = ct_key c \<or> ct_reference d = ct_reference c \<or>
                live_renewal c \<and> live_renewal d \<and> same_period c d) rows"

section \<open>Requesting a charge\<close>

record charge_request =
  rq_user :: nat
  rq_msisdn :: string
  rq_amount :: int
  rq_description :: string
  rq_key :: string
  rq_package :: "nat option"
  rq_tier :: "nat option"
  rq_charge_code :: string
  rq_service_id :: string
  rq_purpose :: string
  rq_subscription :: "nat option"
  rq_period_end :: "int option"
  rq_short_code :: string
  rq_product_id :: string

definition STATUS_FOR_OUTCOME :: "outcome \<Rightarrow> charge_status" where
  "STATUS_FOR_OUTCOME k =
     (case k of OUTCOME_SUCCESS \<Rightarrow> C_success | OUTCOME_REJECTED \<Rightarrow> C_failed | OUTCOME_UNREACHABLE \<Rightarrow> C_failed
      | OUTCOME_TIMEOUT \<Rightarrow> C_timeout | OUTCOME_UNKNOWN \<Rightarrow> C_unknown)"

definition same_request :: "charge_row \<Rightarrow> string \<Rightarrow> int \<Rightarrow> string \<Rightarrow> bool" where
  "same_request c msisdn amount currency \<longleftrightarrow>
     ct_msisdn c = msisdn \<and> ct_amount c = amount div 100 \<and> ct_currency c = currency"

definition as_refusal :: "timwe_error + 'a \<Rightarrow> timwe_error + 'a" where
  "as_refusal r = (case r of Inl e \<Rightarrow> Inl (ChargeRefused (error_text e)) | Inr x \<Rightarrow> Inr x)"

text \<open>The checks before anything is recorded: the number, the description and the currency as they will be sent.\<close>

definition check_request ::
  "timwe_settings \<Rightarrow> charge_request \<Rightarrow> timwe_error + (string \<times> string \<times> string)" where
  "check_request cfg r =
     (if \<not> TIMWE_CHARGING_ENABLED cfg then Inl TimweChargingDisabled
      else if rq_key r = [] then Inl (ChargeRefused ''An idempotency key is required for every charge.'')
      else bind_sum (ensure_configured cfg) (\<lambda>_.
           as_refusal
             (bind_sum (normalize_msisdn (rq_msisdn r)) (\<lambda>n.
              bind_sum (format_amount cfg (rq_amount r)) (\<lambda>_.
              bind_sum (validate_description (rq_description r)) (\<lambda>d.
              bind_sum (validate_currency cfg) (\<lambda>c. Inr (n, d, c))))))))"

definition pending_charge ::
  "timwe_settings \<Rightarrow> string \<Rightarrow> charge_request \<Rightarrow> string \<times> string \<times> string \<Rightarrow> int \<Rightarrow> charge_row" where
  "pending_charge cfg ref r v t =
     \<lparr>ct_user = rq_user r, ct_key = rq_key r, ct_reference = ref, ct_msisdn = fst v,
      ct_amount = rq_amount r div 100, ct_currency = snd (snd v), ct_description = fst (snd v),
      ct_charge_code = rq_charge_code r, ct_package = rq_package r, ct_tier = rq_tier r, ct_purpose = rq_purpose r,
      ct_subscription = rq_subscription r, ct_period_end = rq_period_end r, ct_short_code = rq_short_code r,
      ct_service_id = (if rq_service_id r \<noteq> [] then rq_service_id r else get_service_id cfg),
      ct_product_id = rq_product_id r, ct_status = C_pending, ct_outcome = None, ct_error_code = [],
      ct_error_message = [], ct_retryable = False, ct_created_at = t, ct_completed_at = None, ct_fulfilled_at = None\<rparr>"

datatype opened = Replayed nat | Created nat

text \<open>\<open>_replay\<close>: the charge already made, without calling the MA.\<close>

definition replay_charge ::
  "nat \<Rightarrow> charge_request \<Rightarrow> string \<times> string \<times> string \<Rightarrow> charge_row list \<Rightarrow> timwe_error + opened" where
  "replay_charge i r v rows =
     (if same_request (rows ! i) (fst v) (rq_amount r) (snd (snd v)) then Inr (Replayed i)
      else Inl (ChargeRefused (''This idempotency key was already used for a different charge. '' @
                 ''Use a new key for a new purchase.'')))"

text \<open>
  Up to and including the committed \<open>INSERT\<close>. Another request may commit between the lookup by key and the
  \<open>INSERT\<close>; the handler of the \<open>IntegrityError\<close> then looks the key up again and answers as a lookup after that
  commit would have, so the two statements are one step here.
\<close>

definition open_charge ::
  "timwe_settings \<Rightarrow> string \<Rightarrow> charge_request \<Rightarrow> 'a charge_db_scheme \<Rightarrow> timwe_error + (opened \<times> 'a charge_db_scheme)" where
  "open_charge cfg ref r db =
     bind_sum (check_request cfg r) (\<lambda>v.
     case find_index (\<lambda>c. ct_key c = rq_key r) (charges db) of
       Some i \<Rightarrow> bind_sum (replay_charge i r v (charges db)) (\<lambda>k. Inr (k, db))
     | None \<Rightarrow>
         if \<not> charge_collides (charges db) (pending_charge cfg ref r v (now db))
         then Inr (Created (length (charges db)),
                   db\<lparr>charges := charges db @ [pending_charge cfg ref r v (now db)]\<rparr>)
         else (case (if rq_subscription r = None then None
                     else find_index (\<lambda>c. ct_purpose c = rq_purpose r \<and> ct_subscription c = rq_subscription r \<and>
                            ct_period_end c = rq_period_end r \<and> ct_status c \<noteq> C_failed) (charges db)) of
                 None \<Rightarrow> Inl (Raised (IntegrityError ''timwe_charge''))
               | Some i \<Rightarrow> bind_sum (replay_charge i r v (charges db)) (\<lambda>k. Inr (k, db))))"

definition update_charge :: "nat \<Rightarrow> charge_row \<Rightarrow> 'a charge_db_scheme \<Rightarrow> 'a charge_db_scheme" where
  "update_charge i c db = db\<lparr>charges := (charges db)[i := c]\<rparr>"

definition outcome_retryable :: "charge_outcome \<Rightarrow> bool" where
  "outcome_retryable o1 =
     (case co_outcome o1 of OUTCOME_UNREACHABLE \<Rightarrow> True | OUTCOME_REJECTED \<Rightarrow> is_retryable (co_error_code o1) | _ \<Rightarrow> False)"

definition recorded_charge :: "charge_outcome \<Rightarrow> int \<Rightarrow> charge_row \<Rightarrow> charge_row" where
  "recorded_charge o1 t c =
     c\<lparr>ct_status := STATUS_FOR_OUTCOME (co_outcome o1), ct_outcome := Some (co_outcome o1),
       ct_error_code := take 16 (or_empty (co_error_code o1)), ct_error_message := take 2000 (co_message o1),
       ct_retryable := outcome_retryable o1, ct_completed_at := Some t\<rparr>"

text \<open>\<open>_record\<close>: the outcome is claimed onto a row that is still pending.\<close>

definition record_outcome :: "nat \<Rightarrow> charge_outcome \<Rightarrow> 'a charge_db_scheme \<Rightarrow> 'a charge_db_scheme" where
  "record_outcome i o1 db =
     (if i < length (charges db) \<and> ct_status (charges db ! i) = C_pending
      then update_charge i (recorded_charge o1 (now db) (charges db ! i)) db else db)"

text \<open>The call, with the outcome given to an exception that escapes from it.\<close>

definition call_outcome :: "ma_env \<Rightarrow> charge_call \<Rightarrow> charge_outcome" where
  "call_outcome ma c =
     (case execute ma c of
        Inr o1 \<Rightarrow> o1
      | Inl e \<Rightarrow> if e = TimweChargingDisabled
                then outcome_of OUTCOME_UNREACHABLE ''Charging was switched off; nothing was sent.''
                else outcome_of OUTCOME_UNKNOWN ''Internal error while charging.'')"

definition charge_call_of :: "charge_request \<Rightarrow> charge_row \<Rightarrow> charge_call" where
  "charge_call_of r c =
     \<lparr>call_msisdn = ct_msisdn c, call_amount = rq_amount r, call_description = ct_description c,
      call_reference = ct_reference c, call_charge_code = rq_charge_code r, call_service_id = rq_service_id r\<rparr>"

text \<open>The result is the row's number and whether it was created by this call.\<close>

definition request_charge ::
  "timwe_settings \<Rightarrow> ma_env \<Rightarrow> string \<Rightarrow> charge_request \<Rightarrow> 'a charge_db_scheme \<Rightarrow>
   timwe_error + ((nat \<times> bool) \<times> 'a charge_db_scheme)" where
  "request_charge cfg ma ref r db =
     bind_sum (open_charge cfg ref r db) (\<lambda>(k, db1).
     case k of
       Replayed i \<Rightarrow> Inr ((i, False), db1)
     | Created i \<Rightarrow> Inr ((i, True), record_outcome i (call_outcome ma (charge_call_of r (charges db1 ! i))) db1))"

definition can_retry_with_new_key :: "charge_row \<Rightarrow> bool" where
  "can_retry_with_new_key c \<longleftrightarrow>
     ct_outcome c \<in> {Some OUTCOME_REJECTED, Some OUTCOME_UNREACHABLE} \<and> ct_retryable c"

definition user_message :: "charge_row \<Rightarrow> string" where
  "user_message c =
     (if ct_status c = C_success then ''Payment successful.''
      else if charge_is_ambiguous c then
        ''We are confirming your payment with the network. You will not be charged twice -- please check your balance shortly.''
      else if ct_outcome c = Some OUTCOME_UNREACHABLE then
        ''Airtime payments are temporarily unavailable. You have not been charged.''
      else if ct_error_code c = CHARGE_AMOUNT_OUT_OF_RANGE then ''This amount cannot be charged to your airtime.''
      else if ct_error_code c = CHARGE_FAILED then
        ''The payment could not be completed. Please check your airtime balance and try again.''
      else if ct_error_code c = CHARGE_NO_BALANCE \<and> search_from (lits ''NO_BALANCE'') None (ct_error_message c) then
        ''You do not have enough airtime for this payment. Top up and try again -- you have not been charged.''
      else ''Airtime payments are temporarily unavailable. You have not been charged.'')"

section \<open>Buying coins with airtime\<close>

definition charging_service_id :: "sub_tier \<Rightarrow> string" where
  "charging_service_id tier = strip (tier_service_id tier)"

definition ondemand_service_id :: "'a sub_db_scheme \<Rightarrow> string" where
  "ondemand_service_id db =
     (case find (\<lambda>t. duration_type t = ''ondemand'') (List.map_filter (tiers db) (tier_ids db)) of
        None \<Rightarrow> [] | Some t \<Rightarrow> charging_service_id t)"

text \<open>\<open>filter(pk=..., status='success', fulfilled_at__isnull=True).update(fulfilled_at=now)\<close>.\<close>

definition claim_fulfilment :: "nat \<Rightarrow> 'a charge_db_scheme \<Rightarrow> bool \<times> 'a charge_db_scheme" where
  "claim_fulfilment i db =
     (if i < length (charges db) \<and> ct_status (charges db ! i) = C_success \<and> ct_fulfilled_at (charges db ! i) = None
      then (True, update_charge i ((charges db ! i)\<lparr>ct_fulfilled_at := Some (now db)\<rparr>) db) else (False, db))"

text \<open>The claim and the credit are one database transaction: an exception undoes both. True when coins were credited.\<close>

definition fulfil_coin_purchase :: "nat \<Rightarrow> 'a charge_db_scheme \<Rightarrow> timwe_error + (bool \<times> 'a charge_db_scheme)" where
  "fulfil_coin_purchase i db =
     (let c = charges db ! i
      in case ct_package c of
           None \<Rightarrow> Inl (TimweError ''This charge did not pay for a coin package.'')
         | Some p \<Rightarrow>
             (let (claimed, db1) = claim_fulfilment i db
              in if \<not> claimed then Inr (False, db)
                 else case packages db1 p of
                   None \<Rightarrow> Inl (Raised DoesNotExist)
                 | Some pkg \<Rightarrow>
                     (case db_of (add_purchased new_balance (ct_user c) (get_total_coins pkg) ''purchase'' ''airtime''
                        [Kw_package p, Kw_payment_reference (ct_reference c),
                         Kw_description (take 255 (''Airtime purchase: '' @ pkg_name pkg), [])]
                        (get_or_create_balance (ct_user c) db1)) of
                        Inl e \<Rightarrow> Inl (Raised e)
                      | Inr db2 \<Rightarrow> Inr (True, db2))))"

text \<open>The recorded charge stays when its fulfilment raises.\<close>

definition airtime_request :: "nat \<Rightarrow> string \<Rightarrow> nat \<Rightarrow> coin_package \<Rightarrow> string \<Rightarrow> string \<Rightarrow> charge_request" where
  "airtime_request uid phone p pkg key service =
     \<lparr>rq_user = uid, rq_msisdn = phone, rq_amount = price_etb pkg, rq_description = ''FlipStar '' @ pkg_name pkg,
      rq_key = key, rq_package = Some p, rq_tier = None, rq_charge_code = [], rq_service_id = service,
      rq_purpose = PURPOSE_COIN_PURCHASE, rq_subscription = None, rq_period_end = None, rq_short_code = [],
      rq_product_id = []\<rparr>"

definition purchase_coins_with_airtime ::
  "timwe_settings \<Rightarrow> ma_env \<Rightarrow> string \<Rightarrow> nat \<Rightarrow> nat \<Rightarrow> coin_package \<Rightarrow> string \<Rightarrow> 'a charge_db_scheme \<Rightarrow>
   (timwe_error + (nat \<times> bool \<times> bool)) \<times> 'a charge_db_scheme" where
  "purchase_coins_with_airtime cfg ma ref uid p pkg key db =
     (if \<not> pkg_is_active pkg then (Inl (AirtimePurchaseRefused ''This coin package is not available.''), db)
      else case validate_pay_method (Some ''airtime'') (money (price_etb pkg)) of
        Inl e \<Rightarrow> (Inl (Not_payable e), db)
      | Inr _ \<Rightarrow>
          (let phone = (case profiles db uid of None \<Rightarrow> [] | Some pr \<Rightarrow> or_empty (phone_number pr))
           in if phone = []
              then (Inl (AirtimePurchaseRefused ''Add and verify a phone number on your account to pay with airtime.''), db)
              else case request_charge cfg ma ref (airtime_request uid phone p pkg key (ondemand_service_id db)) db of
                Inl e \<Rightarrow> (Inl e, db)
              | Inr ((i, created), db1) \<Rightarrow>
                  if ct_status (charges db1 ! i) = C_success
                  then (case fulfil_coin_purchase i db1 of
                          Inl e \<Rightarrow> (Inl e, db1)
                        | Inr (credited, db2) \<Rightarrow> (Inr (i, created, credited), db2))
                  else (Inr (i, created, False), db1)))"

section \<open>The endpoint\<close>

record airtime_form =
  af_price :: "string option" \<comment> \<open>\<open>price_etb\<close>, \<open>amount\<close> or \<open>amount_etb\<close>, the first that is set\<close>
  af_key :: string \<comment> \<open>the header or the field\<close>
  af_package :: "nat option"

record airtime_body =
  ab_success :: bool
  ab_status :: charge_status
  ab_reference :: string
  ab_message :: string
  ab_replayed :: bool
  ab_coins_credited :: "int option"
  ab_balance :: "int option"
  ab_code :: string
  ab_can_retry :: bool

datatype airtime_answer =
    A_refused nat string \<comment> \<open>status and code\<close>
  | A_validation pay_error
  | A_raised exn
  | A_answer nat airtime_body

definition answer_for :: "charge_row \<Rightarrow> bool \<Rightarrow> coin_package \<Rightarrow> int option \<Rightarrow> airtime_answer" where
  "answer_for c created pkg bal =
     (let body = \<lparr>ab_success = (ct_status c = C_success), ab_status = ct_status c, ab_reference = ct_reference c,
                  ab_message = user_message c, ab_replayed = \<not> created, ab_coins_credited = None, ab_balance = None,
                  ab_code = [], ab_can_retry = False\<rparr>
      in if ct_status c = C_success
         then A_answer 200 (body\<lparr>ab_coins_credited := Some (get_total_coins pkg), ab_balance := bal\<rparr>)
         else if charge_is_ambiguous c then A_answer 202 (body\<lparr>ab_code := ''PAYMENT_CONFIRMING''\<rparr>)
         else A_answer (if ct_outcome c = Some OUTCOME_UNREACHABLE then 503 else 402)
                (body\<lparr>ab_code := ''PAYMENT_FAILED'', ab_can_retry := can_retry_with_new_key c\<rparr>))"

definition purchase_coins_with_timwe ::
  "timwe_settings \<Rightarrow> ma_env \<Rightarrow> string \<Rightarrow> nat \<Rightarrow> airtime_form \<Rightarrow> 'a charge_db_scheme \<Rightarrow> airtime_answer \<times> 'a charge_db_scheme" where
  "purchase_coins_with_timwe cfg ma ref uid f db =
     (let key = strip (af_key f)
      in if key = [] then (A_refused 400 ''IDEMPOTENCY_KEY_REQUIRED'', db)
         else if length key > 255 then (A_refused 400 ''IDEMPOTENCY_KEY_INVALID'', db)
         else case (case af_package f of None \<Rightarrow> None | Some p \<Rightarrow>
                      (case packages db p of None \<Rightarrow> None | Some pkg \<Rightarrow>
                         if p \<noteq> 0 \<and> pkg_is_active pkg then Some (p, pkg) else None)) of
           None \<Rightarrow> (A_refused 400 ''PACKAGE_NOT_FOUND'', db)
         | Some (p, pkg) \<Rightarrow>
             (let (res, db1) = purchase_coins_with_airtime cfg ma ref uid p pkg key db
              in ((case res of
                Inr (i, created, credited) \<Rightarrow>
                  answer_for (charges db1 ! i) created pkg (map_option balance (balances db1 uid))
              | Inl (TimweConfigurationError _) \<Rightarrow> A_refused 503 ''AIRTIME_UNAVAILABLE''
              | Inl TimweChargingDisabled \<Rightarrow> A_refused 503 ''AIRTIME_UNAVAILABLE''
              | Inl (ChargeRefused _) \<Rightarrow> A_refused 400 ''PURCHASE_REFUSED''
              | Inl (AirtimePurchaseRefused _) \<Rightarrow> A_refused 400 ''PURCHASE_REFUSED''
              | Inl (Not_payable e) \<Rightarrow> A_validation e
              | Inl (Raised e) \<Rightarrow> A_raised e
              | Inl (TimweError s) \<Rightarrow> A_raised (ValueError (s, []))
              | Inl (TimweAmountError s) \<Rightarrow> A_raised (ValueError (s, []))), db1)))"

text \<open>\<open>policy\<close> is the setting \<open>TIMWE_AIRTIME_PURCHASE_ENABLED\<close>.\<close>

definition purchase_coins_on_demand ::
  "bool \<Rightarrow> timwe_settings \<Rightarrow> ma_env \<Rightarrow> string \<Rightarrow> nat \<Rightarrow> airtime_form \<Rightarrow> 'a charge_db_scheme \<Rightarrow>
   airtime_answer \<times> 'a charge_db_scheme" where
  "purchase_coins_on_demand policy cfg ma ref uid f db =
     (case coin_purchase_refusal (Some uid) db of
        Some r \<Rightarrow> (A_refused 403 (rf_code r), db)
      | None \<Rightarrow>
          (case (case af_price f of None \<Rightarrow> None
                 | Some pr \<Rightarrow> (case validate_pay_method (Some ''airtime'') pr of Inl e \<Rightarrow> Some e | Inr _ \<Rightarrow> None)) of
             Some e \<Rightarrow> (A_validation e, db)
           | None \<Rightarrow> if \<not> policy then (A_refused 403 [], db)
                     else purchase_coins_with_timwe cfg ma ref uid f db))"

definition unavailable_reasons :: "bool \<Rightarrow> timwe_settings \<Rightarrow> string list" where
  "unavailable_reasons policy cfg =
     (if policy then [] else [''TIMWE_AIRTIME_PURCHASE_ENABLED is false'']) @
     (if TIMWE_CHARGING_ENABLED cfg then [] else [''TIMWE_CHARGING_ENABLED is false'']) @
     (if missing_configuration cfg = [] then [] else [''unset: '' @ comma_separated (missing_configuration cfg)]) @
     (if endpoint_problem cfg = [] then [] else [endpoint_problem cfg])"

definition is_available :: "bool \<Rightarrow> timwe_settings \<Rightarrow> bool" where
  "is_available policy cfg \<longleftrightarrow> unavailable_reasons policy cfg = []"


record airtime_event =
  ae_policy :: bool
  ae_settings :: timwe_settings
  ae_ma :: ma_env
  ae_reference :: string
  ae_user :: nat
  ae_form :: airtime_form
  ae_time :: int

definition exec_airtime :: "airtime_event \<Rightarrow> 'a charge_db_scheme \<Rightarrow> 'a charge_db_scheme" where
  "exec_airtime e db =
     snd (purchase_coins_on_demand (ae_policy e) (ae_settings e) (ae_ma e) (ae_reference e) (ae_user e) (ae_form e)
       (db\<lparr>now := ae_time e\<rparr>))"

section \<open>A concrete service\<close>

definition example_settings :: timwe_settings where
  "example_settings =
     \<lparr>TIMWE_CHARGING_ENABLED = True, TIMWE_CHARGE_URL = ''https://ma.example/charge'', TIMWE_SP_ID = ''300263'',
      TIMWE_SP_PASSWORD = ''secret'', TIMWE_CHARGE_SERVICE_ID = [], TIMWE_SERVICE_ID = ''30026300007334'',
      TIMWE_CURRENCY = ''Birr'', TIMWE_CHARGE_AMOUNT_SCALE = Some 1, TIMWE_CHARGE_CODE = [],
      TIMWE_CHARGE_TEL_PREFIX = True, TIMWE_CHARGE_AUTH_MODE = ''md5'', TIMWE_CHARGE_TIMESTAMP = [],
      TIMWE_CHARGE_TIMEOUT = Some 60, endpoint_problem = []\<rparr>"

text \<open>An MA that always ends a call with \<open>r\<close>, and whose bodies are the two shapes of the guide.\<close>

definition example_ma :: "transport \<Rightarrow> ma_env" where
  "example_ma r =
     \<lparr>env_settings = example_settings, env_post = (\<lambda>_. r),
      env_fromstring = (\<lambda>b. Inr (Element ''Envelope'' None
        [if b = ''ok'' then Element ''{v2_1}chargeAmountResponse'' None []
         else Element ''Fault'' None [Element ''messageId'' (Some ''SVC0001'') [], Element ''text'' (Some ''NO_BALANCE'') []]])),
      env_md5 = (\<lambda>_. ''digest''), env_clock = ''20250101000000''\<rparr>"

definition example_package :: coin_package where
  "example_package = \<lparr>pkg_name = ''Mini'', price_etb = 100, coin_amount = 10, bonus_coins = 1, pkg_is_active = True\<rparr>"

definition example_charges :: charge_db where
  "example_charges = (order_db.extend example_orders \<lparr>charges = []\<rparr>)\<lparr>packages := (\<lambda>_. None)(7 \<mapsto> example_package)\<rparr>"

definition buys_with_airtime :: "transport \<Rightarrow> string \<Rightarrow> string \<Rightarrow> airtime_event" where
  "buys_with_airtime r ref key =
     \<lparr>ae_policy = True, ae_settings = example_settings, ae_ma = example_ma r, ae_reference = ref, ae_user = 1,
      ae_form = \<lparr>af_price = None, af_key = key, af_package = Some 7\<rparr>, ae_time = 0\<rparr>"

definition example_purchases :: "airtime_event list" where
  "example_purchases =
     [buys_with_airtime Read_timeout ''FS1'' ''k1'', buys_with_airtime (Answered 200 ''ok'') ''FS2'' ''k1'',
      buys_with_airtime (Answered 200 ''ok'') ''FS3'' ''k2'', buys_with_airtime (Answered 200 ''ok'') ''FS4'' ''k2'']"

section \<open>Rows are well formed\<close>

text \<open>
  What the columns of a row may say together. A charge counts as failed only for an outcome that proves
  nothing was taken, it is open exactly until an outcome is recorded, and only a confirmed one is fulfilled.
  Of the renewal charges of one period, all but the last have failed.
\<close>

definition charge_wf :: "charge_row \<Rightarrow> bool" where
  "charge_wf c \<longleftrightarrow>
     (ct_status c = C_pending \<longleftrightarrow> ct_outcome c = None) \<and> (ct_outcome c = None \<longleftrightarrow> ct_completed_at c = None) \<and>
     (\<forall>k. ct_outcome c = Some k \<longrightarrow> ct_status c = STATUS_FOR_OUTCOME k) \<and>
     (ct_fulfilled_at c \<noteq> None \<longrightarrow> ct_status c = C_success) \<and>
     (ct_retryable c \<longrightarrow> ct_status c = C_failed)"

definition charges_ok :: "charge_row list \<Rightarrow> bool" where
  "charges_ok rows \<longleftrightarrow>
     list_all charge_wf rows \<and> distinct (map ct_key rows) \<and> distinct (map ct_reference rows) \<and>
     (\<forall>i j. i < j \<longrightarrow> j < length rows \<longrightarrow> ct_purpose (rows ! i) = PURPOSE_SUBSCRIPTION_RENEWAL \<longrightarrow>
        ct_purpose (rows ! j) = PURPOSE_SUBSCRIPTION_RENEWAL \<longrightarrow> same_period (rows ! i) (rows ! j) \<longrightarrow>
        ct_status (rows ! i) = C_failed)"

text \<open>Updates of a row that keep what identifies it, and never bring a failed charge back to life.\<close>

definition row_progress :: "charge_row \<Rightarrow> charge_row \<Rightarrow> bool" where
  "row_progress c d \<longleftrightarrow>
     ct_user d = ct_user c \<and> ct_package d = ct_package c \<and>
     ct_key d = ct_key c \<and> ct_reference d = ct_reference c \<and> ct_purpose d = ct_purpose c \<and>
     ct_subscription d = ct_subscription c \<and> ct_period_end d = ct_period_end c \<and>
     (ct_status c = C_failed \<longrightarrow> ct_status d = C_failed) \<and> (charge_wf c \<longrightarrow> charge_wf d)"

lemma same_period_progress: "row_progress c d \<Longrightarrow> same_period d e = same_period c e"
  "row_progress c d \<Longrightarrow> same_period e d = same_period e c"
  by (auto simp: row_progress_def same_period_def)

lemma charges_ok_update:
  assumes ok: "charges_ok rows" and p: "row_progress (rows ! i) d" and i: "i < length rows"
  shows "charges_ok (rows[i := d])"
proof -
  have same: "map f (rows[i := d]) = map f rows" if "f d = f (rows ! i)" for f :: "charge_row \<Rightarrow> string"
    using that i by (metis list_update_id map_update nth_map)
  have "list_all charge_wf (rows[i := d])"
    using ok p i by (auto simp: charges_ok_def list_all_iff row_progress_def dest!: subsetD [OF set_update_subset_insert])
  moreover have "ct_status (rows[i := d] ! m) = C_failed" if "m < n" "n < length rows"
      "ct_purpose (rows[i := d] ! m) = PURPOSE_SUBSCRIPTION_RENEWAL" "ct_purpose (rows[i := d] ! n) = PURPOSE_SUBSCRIPTION_RENEWAL"
      "same_period (rows[i := d] ! m) (rows[i := d] ! n)" for m n
  proof -
    have "ct_purpose (rows ! m) = PURPOSE_SUBSCRIPTION_RENEWAL \<and> ct_purpose (rows ! n) = PURPOSE_SUBSCRIPTION_RENEWAL \<and>
        same_period (rows ! m) (rows ! n)"
      using that i p same_period_progress [OF p] by (auto simp: nth_list_update row_progress_def split: if_splits)
    then have "ct_status (rows ! m) = C_failed" using ok that by (auto simp: charges_ok_def)
    then show ?thesis using p i by (auto simp: nth_list_update row_progress_def)
  qed
  ultimately show ?thesis
    using ok p same [of ct_key] same [of ct_reference] by (auto simp: charges_ok_def row_progress_def)
qed

lemma charges_ok_append:
  assumes ok: "charges_ok rows" and new: "\<not> charge_collides rows c" and wf: "charge_wf c"
    and new_live: "ct_status c \<noteq> C_failed"
  shows "charges_ok (rows @ [c])"
proof -
  have no: "\<not> (live_renewal c \<and> live_renewal d \<and> same_period c d)" "ct_key d \<noteq> ct_key c" "ct_reference d \<noteq> ct_reference c"
    if "d \<in> set rows" for d
    using new that by (auto simp: charge_collides_def list_ex_iff)
  have sym: "same_period x y = same_period y x" for x y by (auto simp: same_period_def)
  have "ct_status ((rows @ [c]) ! i) = C_failed" if "i < j" "j < Suc (length rows)"
      "ct_purpose ((rows @ [c]) ! i) = PURPOSE_SUBSCRIPTION_RENEWAL" "ct_purpose ((rows @ [c]) ! j) = PURPOSE_SUBSCRIPTION_RENEWAL"
      "same_period ((rows @ [c]) ! i) ((rows @ [c]) ! j)" for i j
  proof (cases "j < length rows")
    case True
    then show ?thesis using that ok by (auto simp: charges_ok_def nth_append)
  next
    case False
    then have "i < length rows" "j = length rows" using that by auto
    then show ?thesis using that no(1) [of "rows ! i"] new_live sym by (auto simp: nth_append live_renewal_def)
  qed
  moreover have "ct_key c \<notin> ct_key ` set rows" and "ct_reference c \<notin> ct_reference ` set rows"
    using no by force+
  ultimately show ?thesis
    using ok wf by (simp add: charges_ok_def)
qed

lemma pending_wf: "charge_wf (pending_charge cfg ref r v t)" "ct_status (pending_charge cfg ref r v t) \<noteq> C_failed"
  by (simp_all add: charge_wf_def pending_charge_def)

text \<open>Opening a charge: the table is as it was and an old row is named, or a pending row of the request is new.\<close>

lemma open_charge_cases:
  assumes "open_charge cfg ref r db = Inr (k, db')"
  obtains (replayed) i v where "check_request cfg r = Inr v" "k = Replayed i" "db' = db" "i < length (charges db)"
      "same_request (charges db ! i) (fst v) (rq_amount r) (snd (snd v))"
      "ct_key (charges db ! i) = rq_key r \<or>
       rq_subscription r \<noteq> None \<and> ct_purpose (charges db ! i) = rq_purpose r \<and>
       ct_subscription (charges db ! i) = rq_subscription r \<and> ct_period_end (charges db ! i) = rq_period_end r \<and>
       ct_status (charges db ! i) \<noteq> C_failed"
    | (created) v where "check_request cfg r = Inr v" "k = Created (length (charges db))"
      "db' = db\<lparr>charges := charges db @ [pending_charge cfg ref r v (now db)]\<rparr>"
      "\<not> charge_collides (charges db) (pending_charge cfg ref r v (now db))"
proof -
  from assms obtain v where v: "check_request cfg r = Inr v" by (auto simp: open_charge_def bind_sum_Inr_iff)
  show thesis
  proof (cases "find_index (\<lambda>c. ct_key c = rq_key r) (charges db)")
    case (Some i)
    then show thesis using assms v find_index_Some [OF Some]
      by (intro replayed [of v i]) (auto simp: open_charge_def replay_charge_def split: if_splits)
  next
    case key: None
    show thesis
    proof (cases "charge_collides (charges db) (pending_charge cfg ref r v (now db))")
      case False
      then show thesis using assms v key by (intro created [of v]) (auto simp: open_charge_def)
    next
      case True
      then obtain i where i: "find_index (\<lambda>c. ct_purpose c = rq_purpose r \<and> ct_subscription c = rq_subscription r \<and>
            ct_period_end c = rq_period_end r \<and> ct_status c \<noteq> C_failed) (charges db) = Some i"
        and s: "rq_subscription r \<noteq> None"
        using assms v key by (auto simp: open_charge_def split: if_splits option.splits)
      have "bind_sum (replay_charge i r v (charges db)) (\<lambda>k. Inr (k, db)) = Inr (k, db')"
        using assms v key True i s by (simp add: open_charge_def)
      then show thesis using v find_index_Some [OF i] s
        by (intro replayed [of v i]) (auto simp: replay_charge_def split: if_splits)
    qed
  qed
qed

lemma open_charge_ok:
  assumes "open_charge cfg ref r db = Inr (k, db')" and "charges_ok (charges db)"
  shows "charges_ok (charges db')"
  using assms(1)
proof (cases rule: open_charge_cases)
  case (replayed i v)
  then show ?thesis using assms(2) by simp
next
  case (created v)
  then show ?thesis using charges_ok_append [OF assms(2) created(4) pending_wf] by simp
qed

lemma recorded_progress: "ct_status c = C_pending \<Longrightarrow> row_progress c (recorded_charge o1 t c)"
  by (auto simp: row_progress_def recorded_charge_def charge_wf_def STATUS_FOR_OUTCOME_def outcome_retryable_def
      split: outcome.splits)

lemma fulfilled_progress:
  "ct_status c = C_success \<Longrightarrow> row_progress c (c\<lparr>ct_fulfilled_at := Some t\<rparr>)"
  by (auto simp: row_progress_def charge_wf_def)

lemma length_record_outcome [simp]: "length (charges (record_outcome i o1 db)) = length (charges db)"
  by (simp add: record_outcome_def update_charge_def)

lemma record_outcome_ok: "charges_ok (charges db) \<Longrightarrow> charges_ok (charges (record_outcome i o1 db))"
  by (simp add: record_outcome_def update_charge_def charges_ok_update recorded_progress)

lemma claim_fulfilment_ok: "charges_ok (charges db) \<Longrightarrow> charges_ok (charges (snd (claim_fulfilment i db)))"
  by (simp add: claim_fulfilment_def update_charge_def charges_ok_update fulfilled_progress)

lemma request_charge_cases:
  assumes "request_charge cfg ma ref r db = Inr ((i, b), db')"
  obtains (replayed) "open_charge cfg ref r db = Inr (Replayed i, db')" "\<not> b"
    | (created) db1 where "open_charge cfg ref r db = Inr (Created i, db1)" "b"
        "db' = record_outcome i (call_outcome ma (charge_call_of r (charges db1 ! i))) db1"
proof -
  from assms obtain k db1 where o: "open_charge cfg ref r db = Inr (k, db1)"
    by (auto simp: request_charge_def bind_sum_Inr_iff)
  then show thesis using assms replayed created by (cases k) (auto simp: request_charge_def)
qed

lemma request_charge_ok:
  assumes "request_charge cfg ma ref r db = Inr ((i, b), db')" and "charges_ok (charges db)"
  shows "charges_ok (charges db') \<and> i < length (charges db')"
  using assms(1)
proof (cases rule: request_charge_cases)
  case replayed
  then show ?thesis using open_charge_ok [OF replayed(1) assms(2)] by (auto elim: open_charge_cases)
next
  case (created db1)
  have "i < length (charges db1)" using created(1) by (auto elim: open_charge_cases)
  then show ?thesis using record_outcome_ok [OF open_charge_ok [OF created(1) assms(2)]] created(3) by simp
qed

section \<open>A key is charged once\<close>

text \<open>
  A request whose key is already on a charge never reaches the MA: whatever the MA, the settings of the
  client and the new reference would be, the answer is that charge or a refusal, and the database is as it
  was.
\<close>

theorem used_key_never_charges:
  assumes "c \<in> set (charges db)" and "ct_key c = rq_key r"
  shows "request_charge cfg ma ref r db = request_charge cfg ma' ref' r db \<and>
     (\<forall>res db'. request_charge cfg ma ref r db = Inr (res, db') \<longrightarrow>
        db' = db \<and> snd res = False \<and> ct_key (charges db ! fst res) = rq_key r)"
proof -
  obtain i where i: "find_index (\<lambda>c. ct_key c = rq_key r) (charges db) = Some i"
    using assms find_index_None [of "\<lambda>c. ct_key c = rq_key r" "charges db"] by (cases "find_index (\<lambda>c. ct_key c = rq_key r) (charges db)") auto
  have "request_charge cfg ma ref r db =
      bind_sum (check_request cfg r) (\<lambda>v. bind_sum (replay_charge i r v (charges db)) (\<lambda>k. Inr ((i, False), db)))"
    for ma ref
    using i by (cases "check_request cfg r")
      (auto simp: request_charge_def open_charge_def replay_charge_def bind_sum_def)
  then show ?thesis using find_index_Some [OF i] by (auto simp: bind_sum_Inr_iff)
qed

theorem used_key_never_charges_witness:
  "request_charge example_settings (example_ma (Answered 200 ''ok'')) ''FS2''
     (airtime_request 1 ''251911223344'' 7 example_package ''k1'' [])
     (exec_airtime (buys_with_airtime Read_timeout ''FS1'' ''k1'') example_charges) =
   request_charge example_settings (example_ma Connect_timeout) ''FS3''
     (airtime_request 1 ''251911223344'' 7 example_package ''k1'' [])
     (exec_airtime (buys_with_airtime Read_timeout ''FS1'' ''k1'') example_charges)"
proof -
  have "list_ex (\<lambda>c. ct_key c = ''k1'') (charges (exec_airtime (buys_with_airtime Read_timeout ''FS1'' ''k1'') example_charges))"
    by code_simp
  then obtain c where "c \<in> set (charges (exec_airtime (buys_with_airtime Read_timeout ''FS1'' ''k1'') example_charges))"
    "ct_key c = ''k1''" by (auto simp: list_ex_iff)
  then show ?thesis by (intro used_key_never_charges [THEN conjunct1]) (simp_all add: airtime_request_def)
qed

section \<open>Coins bought with airtime\<close>

definition charge_coins :: "(nat \<Rightarrow> coin_package option) \<Rightarrow> nat \<Rightarrow> charge_row \<Rightarrow> int" where
  "charge_coins pkgs u c =
     (if ct_user c = u \<and> ct_fulfilled_at c \<noteq> None
      then (case Option.bind (ct_package c) pkgs of None \<Rightarrow> 0 | Some pkg \<Rightarrow> get_total_coins pkg) else 0)"

text \<open>What the confirmed and fulfilled charges of an account bought.\<close>

definition airtime_coins :: "'a charge_db_scheme \<Rightarrow> nat \<Rightarrow> int" where
  "airtime_coins db u = sum_list (map (charge_coins (packages db) u) (charges db))"

lemma sum_list_map_update:
  fixes f :: "'a \<Rightarrow> int"
  shows "i < length xs \<Longrightarrow> sum_list (map f (xs[i := y])) = sum_list (map f xs) - f (xs ! i) + f y"
  by (induction xs arbitrary: i) (auto split: nat.splits)

lemma purchase_moves:
  assumes "db_of (add_purchased new_balance uid n ty pm ks (get_or_create_balance uid db)) = Inr db'" and "coin_inv db"
  shows "coin_balance_of db' u = coin_balance_of db u + (if u = uid then n else 0)" and "coin_inv db'"
    and "charges db' = charges db" and "packages db' = packages db"
proof -
  from assms(1) obtain s tx where r: "add_purchased new_balance uid n ty pm ks (get_or_create_balance uid db) = Inr (s, tx, db')"
    by (auto simp: db_of_Inr)
  have inv: "coin_inv (get_or_create_balance uid db)"
    using assms(2) by (auto simp: coin_inv_def get_or_create_balance_def split: option.splits)
  have same: "coin_balance_of (get_or_create_balance uid db) u = coin_balance_of db u"
    by (simp add: coin_balance_of_def get_or_create_balance_def new_balance_def split: option.splits)
  show "coin_balance_of db' u = coin_balance_of db u + (if u = uid then n else 0)"
    using steps_balance [OF add_purchased_steps r inv] same by simp
  show "coin_inv db'" using add_purchased_steps r inv by (rule steps_wf)
  show "charges db' = charges db" and "packages db' = packages db"
    using add_purchased_steps [of uid n new_balance ty pm ks "get_or_create_balance uid db"] r
    by (auto simp: steps_def moves_def get_or_create_balance_def split: option.splits)
qed

lemma coin_balance_update [simp]:
  "coin_balance_of (db\<lparr>charges := cs\<rparr>) u = coin_balance_of db u" "coin_inv (db\<lparr>charges := cs\<rparr>) = coin_inv db"
  by (simp_all add: coin_balance_of_def coin_inv_def)

text \<open>What a step may do to the coins: every account gets exactly what its charges became worth.\<close>

definition coins_follow :: "'a charge_db_scheme \<Rightarrow> 'a charge_db_scheme \<Rightarrow> bool" where
  "coins_follow db db' \<longleftrightarrow>
     coin_inv db' \<and> charges_ok (charges db') \<and> packages db' = packages db \<and>
     (\<forall>u. coin_balance_of db' u - airtime_coins db' u = coin_balance_of db u - airtime_coins db u)"

lemma coins_follow_refl: "coin_inv db \<Longrightarrow> charges_ok (charges db) \<Longrightarrow> coins_follow db db"
  by (simp add: coins_follow_def)

lemma coins_follow_trans: "coins_follow a b \<Longrightarrow> coins_follow b c \<Longrightarrow> coins_follow a c"
  by (simp add: coins_follow_def)

lemma fulfil_follows:
  assumes f: "fulfil_coin_purchase i db = Inr (b, db')" and "coin_inv db" and "charges_ok (charges db)"
  shows "coins_follow db db'"
proof (cases "fst (claim_fulfilment i db)")
  case False
  then have "db' = db" using f
    by (auto simp: fulfil_coin_purchase_def claim_fulfilment_def Let_def split: option.splits if_splits)
  then show ?thesis using assms by (simp add: coins_follow_refl)
next
  case True
  define c where "c = charges db ! i"
  from True have i: "i < length (charges db)" "ct_status c = C_success" "ct_fulfilled_at c = None"
    and claim: "claim_fulfilment i db = (True, update_charge i (c\<lparr>ct_fulfilled_at := Some (now db)\<rparr>) db)"
    by (auto simp: claim_fulfilment_def c_def split: if_splits)
  let ?db1 = "update_charge i (c\<lparr>ct_fulfilled_at := Some (now db)\<rparr>) db"
  from f claim obtain p pkg ks where p: "ct_package c = Some p" "packages db p = Some pkg"
    and add: "db_of (add_purchased new_balance (ct_user c) (get_total_coins pkg) ''purchase'' ''airtime'' ks
          (get_or_create_balance (ct_user c) ?db1)) = Inr db'"
    by (auto simp: fulfil_coin_purchase_def Let_def c_def [symmetric] update_charge_def split: option.splits sum.splits)
  have inv1: "coin_inv ?db1" using assms(2) by (simp add: update_charge_def)
  note moved = purchase_moves [OF add inv1]
  have "charges_ok (charges db')"
    using charges_ok_update [OF assms(3) fulfilled_progress i(1)] i moved(3) by (simp add: update_charge_def c_def)
  moreover have "airtime_coins db' u = airtime_coins db u + (if u = ct_user c then get_total_coins pkg else 0)" for u
    using i p moved(3,4) c_def
    by (auto simp: airtime_coins_def update_charge_def sum_list_map_update charge_coins_def)
  ultimately show ?thesis
    using moved by (simp add: coins_follow_def update_charge_def)
qed

lemma pending_worthless: "charge_coins pkgs u (pending_charge cfg ref r v t) = 0"
  by (simp add: charge_coins_def pending_charge_def)

lemma open_follows:
  assumes "open_charge cfg ref r db = Inr (k, db')" and "coin_inv db" and "charges_ok (charges db)"
  shows "coins_follow db db'"
  using assms(1)
proof (cases rule: open_charge_cases)
  case (replayed i v)
  then show ?thesis using assms by (simp add: coins_follow_refl)
next
  case (created v)
  then show ?thesis using open_charge_ok [OF assms(1,3)] assms(2)
    by (simp add: coins_follow_def airtime_coins_def pending_worthless)
qed

lemma record_follows:
  assumes "coin_inv db" and "charges_ok (charges db)"
  shows "coins_follow db (record_outcome i o1 db)"
proof -
  have "charge_coins pkgs u (recorded_charge o1 t c) = charge_coins pkgs u c" for pkgs u t c
    by (auto simp: charge_coins_def recorded_charge_def)
  then show ?thesis using assms record_outcome_ok [OF assms(2), of i o1]
    by (auto simp: coins_follow_def airtime_coins_def record_outcome_def update_charge_def sum_list_map_update)
qed

lemma request_follows:
  assumes "request_charge cfg ma ref r db = Inr ((i, b), db')" and "coin_inv db" and "charges_ok (charges db)"
  shows "coins_follow db db'"
  using assms(1)
proof (cases rule: request_charge_cases)
  case replayed
  then show ?thesis using open_follows [OF _ assms(2,3)] by blast
next
  case (created db1)
  have f: "coins_follow db db1" using open_follows [OF created(1) assms(2,3)] .
  then have "coin_inv db1" "charges_ok (charges db1)" by (auto simp: coins_follow_def)
  then show ?thesis unfolding created(3) by (rule coins_follow_trans [OF f record_follows])
qed

lemma purchase_follows:
  assumes "coin_inv db" and "charges_ok (charges db)"
  shows "coins_follow db (snd (purchase_coins_with_airtime cfg ma ref uid p pkg key db))"
proof -
  have stay: "coins_follow db db" using assms by (rule coins_follow_refl)
  have "coins_follow db (snd (case request_charge cfg ma ref r db of
                Inl e \<Rightarrow> (Inl e, db)
              | Inr ((i, created), db1) \<Rightarrow>
                  if ct_status (charges db1 ! i) = C_success
                  then (case fulfil_coin_purchase i db1 of
                          Inl e \<Rightarrow> (Inl e, db1)
                        | Inr (credited, db2) \<Rightarrow> (Inr (i, created, credited), db2))
                  else (Inr (i, created, False), db1)))" for r
  proof (cases "request_charge cfg ma ref r db")
    case (Inl e)
    then show ?thesis using stay by simp
  next
    case (Inr x)
    obtain i b db1 where x: "x = ((i, b), db1)" by (cases x) auto
    have f: "coins_follow db db1" using request_follows [OF _ assms] Inr x by blast
    then have "coin_inv db1" "charges_ok (charges db1)" by (auto simp: coins_follow_def)
    then have "coins_follow db db2" if "fulfil_coin_purchase i db1 = Inr (c, db2)" for c db2
      using coins_follow_trans [OF f fulfil_follows [OF that]] by blast
    then show ?thesis using f Inr x by (auto split: sum.splits)
  qed
  then show ?thesis using stay
    by (auto simp: purchase_coins_with_airtime_def Let_def split: sum.split)
qed

lemma airtime_follows:
  assumes "coin_inv db" and "charges_ok (charges db)"
  shows "coins_follow db (exec_airtime e db)"
proof -
  let ?db = "db\<lparr>now := ae_time e\<rparr>"
  have clock: "coins_follow db ?db"
    using assms by (simp add: coins_follow_def airtime_coins_def coin_inv_def coin_balance_of_def)
  have ok: "coin_inv ?db" "charges_ok (charges ?db)" using clock by (auto simp: coins_follow_def)
  have "coins_follow ?db (snd (purchase_coins_with_timwe cfg ma ref uid f ?db))" for cfg ma ref uid f
    using coins_follow_refl [OF ok] purchase_follows [OF ok]
    by (auto simp: purchase_coins_with_timwe_def Let_def split: option.splits prod.splits) (metis snd_conv)+
  then show ?thesis
    using coins_follow_trans [OF clock] coins_follow_refl [OF ok]
    by (auto simp: exec_airtime_def purchase_coins_on_demand_def split: option.splits)
qed

text \<open>
  Whatever airtime purchases are made, retried or replayed, in any order, by whichever accounts and with
  whatever the MA answers: an account's balance has grown by exactly the coins of its confirmed and fulfilled
  charges, each counted once, and every row stays well formed, with one row per key and per reference.
\<close>

theorem airtime_coins_paid_once:
  assumes "coin_inv db" and "charges db = []"
  shows "coin_balance_of (fold exec_airtime es db) u =
           coin_balance_of db u + airtime_coins (fold exec_airtime es db) u \<and>
         charges_ok (charges (fold exec_airtime es db))"
proof -
  have step: "coins_follow db (fold exec_airtime es db)" if "coin_inv db" "charges_ok (charges db)"
    for db :: "'a charge_db_scheme" using that
  proof (induction es arbitrary: db)
    case (Cons e es)
    have f: "coins_follow db (exec_airtime e db)" using airtime_follows [OF Cons.prems] .
    then show ?case using Cons.IH [of "exec_airtime e db"] coins_follow_trans [OF f]
      by (simp add: coins_follow_def)
  qed (simp add: coins_follow_refl)
  have "charges_ok (charges db)" using assms(2) by (simp add: charges_ok_def)
  then have "coins_follow db (fold exec_airtime es db)" using step assms(1) by blast
  moreover have "airtime_coins db u = 0" using assms(2) by (simp add: airtime_coins_def)
  ultimately show ?thesis by (auto simp: coins_follow_def dest: spec [of _ u])
qed

theorem airtime_coins_paid_once_witness:
  "coin_balance_of (fold exec_airtime example_purchases example_charges) 1 = 11"
proof -
  have "coin_inv example_charges"
    by (simp add: example_charges_def coin_inv_def example_orders_def order_db.defs sub_db.defs example_subs_def)
  moreover have "charges example_charges = []" by (simp add: example_charges_def order_db.defs)
  moreover have "coin_balance_of example_charges 1 = 0" by code_simp
  moreover have "airtime_coins (fold exec_airtime example_purchases example_charges) 1 = 11" by code_simp
  ultimately show ?thesis using airtime_coins_paid_once [of example_charges example_purchases 1] by linarith
qed

end
