(* ===== verification/Renewal.thy ===== *)
theory Renewal
  imports Timwe_Charging Otp
begin

text \<open>
  Renewing lapsed short-code subscriptions: \<open>api/services/subscription_renewal.py\<close>, its tasks
  \<open>api/tasks/subscription_renewal.py\<close> and the tier lookup \<open>api/services/subscription_tiers.py\<close>. A check reads
  the clock once. \<open>isoformat\<close>, \<open>uuid4\<close> and the broker are parameters; the confirmation text after a renewal
  is not modelled.
\<close>

section \<open>Which tier a notification names\<close>

definition SMS_CODE_TO_DURATION :: "(string \<times> string) list" where
  "SMS_CODE_TO_DURATION = [(''1'', ''daily''), (''2'', ''weekly''), (''3'', ''monthly''), (''4'', ''ondemand'')]"

definition duration_for_keyword :: "string \<Rightarrow> string option" where
  "duration_for_keyword keyword =
     (let digits = filter is_digit keyword
      in if digits = [] then None else map_of SMS_CODE_TO_DURATION digits)"

definition first_tier :: "(sub_tier \<Rightarrow> bool) \<Rightarrow> 'a sub_db_scheme \<Rightarrow> nat option" where
  "first_tier P db = find (\<lambda>i. case tiers db i of None \<Rightarrow> False | Some t \<Rightarrow> P t) (tier_ids db)"

definition resolve_tier :: "string \<Rightarrow> string \<Rightarrow> string \<Rightarrow> 'a sub_db_scheme \<Rightarrow> nat option" where
  "resolve_tier product keyword service db =
     (case (if product = [] then None else first_tier (\<lambda>t. tier_product_id t = product) db) of
        Some t \<Rightarrow> Some t
      | None \<Rightarrow>
          (case (if service = [] then None else first_tier (\<lambda>t. tier_service_id t = service) db) of
             Some t \<Rightarrow> Some t
           | None \<Rightarrow>
               (case duration_for_keyword keyword of
                  None \<Rightarrow> None
                | Some d \<Rightarrow> first_tier (\<lambda>t. duration_type t = d \<and> tier_is_active t) db)))"

section \<open>Where a subscriber stands\<close>

datatype renewal_state = ACTIVE | RENEWED | PAYMENT_PENDING | EXPIRED | INACTIVE

datatype renewal_reason =
    No_reason | REASON_DUE | REASON_DISABLED | REASON_FAILED | REASON_AWAITING | REASON_UNAPPLIED
  | REASON_NO_MSISDN | REASON_MSISDN_MISMATCH | REASON_NOT_ATTEMPTED | REASON_WRONG_SERVICE | REASON_SUPERSEDED

record renewal_status =
  st_state :: renewal_state
  st_plan :: "nat option"
  st_charge :: "nat option"
  st_reason :: renewal_reason

definition has_subscription :: "renewal_status \<Rightarrow> bool" where
  "has_subscription s \<longleftrightarrow> st_state s \<in> {ACTIVE, RENEWED}"

text \<open>Numbers are \<open>None\<close> where \<open>int()\<close> of the setting raises: the default is used.\<close>

record renewal_settings =
  rn_charging :: timwe_settings
  TIMWE_SUBSCRIPTION_RENEWAL_ENABLED :: bool
  TIMWE_RENEWAL_RETRY_MINUTES :: "int option"
  TIMWE_RENEWAL_WINDOW_DAYS :: "int option"
  SMS_SHORT_CODE :: string

definition renewal_enabled :: "renewal_settings \<Rightarrow> bool" where
  "renewal_enabled cfg \<longleftrightarrow> TIMWE_CHARGING_ENABLED (rn_charging cfg) \<and> TIMWE_SUBSCRIPTION_RENEWAL_ENABLED cfg"

definition short_code :: "renewal_settings \<Rightarrow> string" where
  "short_code cfg = (if SMS_SHORT_CODE cfg = [] then ''9286'' else SMS_SHORT_CODE cfg)"

definition setting_int :: "int option \<Rightarrow> int \<Rightarrow> int" where
  "setting_int v d = (case v of None \<Rightarrow> d | Some n \<Rightarrow> n)"

definition MIN_RETRY_MINUTES :: int where
  "MIN_RETRY_MINUTES = 10"

definition retry_interval :: "renewal_settings \<Rightarrow> int" where
  "retry_interval cfg = seconds (60 * max (setting_int (TIMWE_RENEWAL_RETRY_MINUTES cfg) 60) MIN_RETRY_MINUTES)"

definition renewal_window :: "renewal_settings \<Rightarrow> int" where
  "renewal_window cfg = max (setting_int (TIMWE_RENEWAL_WINDOW_DAYS cfg) 7) 1 * one_day"

text \<open>
  \<open>retry_interval() * RETRY_EARLY\<close>: the interval is a whole number of minutes, so nine tenths of it is a whole
  number of microseconds, to which Python rounds the product with the float 0.9.
\<close>

definition retry_wait :: "renewal_settings \<Rightarrow> int" where
  "retry_wait cfg = retry_interval cfg * 9 div 10"

definition RENEWABLE_STATUSES :: "plan_status list" where
  "RENEWABLE_STATUSES = [S_active, S_expired, S_grace_period]"

definition is_renewable :: "renewal_settings \<Rightarrow> int \<Rightarrow> 'a sub_db_scheme \<Rightarrow> subscription_plan \<Rightarrow> bool" where
  "is_renewable cfg t db p \<longleftrightarrow>
     plan_payment_method p = ''timwe'' \<and> subscription_source p = ''sms'' \<and> plan_status p \<in> set RENEWABLE_STATUSES \<and>
     (case end_date p of None \<Rightarrow> False | Some e \<Rightarrow> e \<le> t \<and> t - renewal_window cfg \<le> e) \<and>
     (case tier_of_plan p db of
        None \<Rightarrow> False
      | Some tr \<Rightarrow> tier_short_code tr = short_code cfg \<and> tier_price tr > 0 \<and>
          (case duration_days tr of None \<Rightarrow> False | Some d \<Rightarrow> d > 0))"

definition plan_end :: "'a sub_db_scheme \<Rightarrow> nat \<Rightarrow> int" where
  "plan_end db pid = (case plans db pid of Some p \<Rightarrow> (case end_date p of Some e \<Rightarrow> e | None \<Rightarrow> 0) | None \<Rightarrow> 0)"

definition renewable_plans :: "renewal_settings \<Rightarrow> int \<Rightarrow> 'a sub_db_scheme \<Rightarrow> nat list" where
  "renewable_plans cfg t db =
     filter (\<lambda>i. case plans db i of None \<Rightarrow> False | Some p \<Rightarrow> is_renewable cfg t db p) (plan_ids db)"

definition for_this_service :: "renewal_settings \<Rightarrow> 'a sub_db_scheme \<Rightarrow> nat \<Rightarrow> bool" where
  "for_this_service cfg db pid =
     (case plans db pid of
        None \<Rightarrow> False
      | Some p \<Rightarrow>
          (let own = (case tier_of_plan p db of None \<Rightarrow> [] | Some tr \<Rightarrow> charging_service_id tr);
               effective = (if own \<noteq> [] then own else get_service_id (rn_charging cfg));
               recorded = strip (plan_service_id p)
           in \<not> (effective \<noteq> [] \<and> recorded \<noteq> [] \<and> recorded \<noteq> effective)))"

definition owned_by :: "nat option \<Rightarrow> 'a sub_db_scheme \<Rightarrow> nat \<Rightarrow> bool" where
  "owned_by user db pid = (case plans db pid of None \<Rightarrow> False | Some p \<Rightarrow> plan_user p = user)"

definition lapsed_short_code_plan :: "renewal_settings \<Rightarrow> nat option \<Rightarrow> 'a sub_db_scheme \<Rightarrow> nat option" where
  "lapsed_short_code_plan cfg user db =
     (case user of
        None \<Rightarrow> None
      | Some uid \<Rightarrow>
          find (for_this_service cfg db)
            (sort_desc (plan_end db) (filter (owned_by (Some uid) db) (renewable_plans cfg (now db) db))))"

definition renewal_idempotency_key :: "(int \<Rightarrow> string) \<Rightarrow> nat \<Rightarrow> int \<Rightarrow> nat \<Rightarrow> string" where
  "renewal_idempotency_key isoformat pid e attempt =
     (let key = ''sub-renewal:'' @ show_nat pid @ '':'' @ isoformat e
      in if attempt \<le> 1 then key else key @ '':'' @ show_nat attempt)"

definition of_period :: "nat \<Rightarrow> int \<Rightarrow> charge_row \<Rightarrow> bool" where
  "of_period pid e c \<longleftrightarrow>
     ct_purpose c = PURPOSE_SUBSCRIPTION_RENEWAL \<and> ct_subscription c = Some pid \<and> ct_period_end c = Some e"

definition period_charges :: "nat \<Rightarrow> int \<Rightarrow> 'a charge_db_scheme \<Rightarrow> nat list" where
  "period_charges pid e db = filter (\<lambda>i. of_period pid e (charges db ! i)) [0..<length (charges db)]"

definition existing_renewal_charge :: "nat \<Rightarrow> int \<Rightarrow> 'a charge_db_scheme \<Rightarrow> nat option" where
  "existing_renewal_charge pid e db =
     (case sort_desc (\<lambda>i. ct_created_at (charges db ! i)) (rev (period_charges pid e db)) of
        [] \<Rightarrow> None | i # _ \<Rightarrow> Some i)"

definition next_attempt :: "nat \<Rightarrow> int \<Rightarrow> 'a charge_db_scheme \<Rightarrow> nat" where
  "next_attempt pid e db = length (period_charges pid e db) + 1"

definition may_try_again :: "renewal_settings \<Rightarrow> int \<Rightarrow> charge_row \<Rightarrow> bool" where
  "may_try_again cfg t c \<longleftrightarrow> ct_status c = C_failed \<and> t \<ge> ct_created_at c + retry_wait cfg"

definition charge_number :: "nat option \<Rightarrow> subscription_plan \<Rightarrow> 'a charge_db_scheme \<Rightarrow> string \<times> renewal_reason" where
  "charge_number user p db =
     (let phone = (case Option.bind user (profiles db) of None \<Rightarrow> [] | Some pr \<Rightarrow> or_empty (phone_number pr))
      in case normalize_ethiopian_phone (Some phone) of
           None \<Rightarrow> ([], REASON_NO_MSISDN)
         | Some registered \<Rightarrow>
             (case normalize_ethiopian_phone (Some (or_empty (onevas_phone_number p))) of
                None \<Rightarrow> (registered, No_reason)
              | Some subscribed \<Rightarrow>
                  (registered, if subscribed \<noteq> registered then REASON_MSISDN_MISMATCH else No_reason)))"

definition status_from_charge :: "nat \<Rightarrow> nat \<Rightarrow> charge_row \<Rightarrow> renewal_status" where
  "status_from_charge pid i c =
     (if ct_status c = C_success
      then \<lparr>st_state = PAYMENT_PENDING, st_plan = Some pid, st_charge = Some i, st_reason = REASON_UNAPPLIED\<rparr>
      else if charge_is_ambiguous c
      then \<lparr>st_state = PAYMENT_PENDING, st_plan = Some pid, st_charge = Some i, st_reason = REASON_AWAITING\<rparr>
      else \<lparr>st_state = EXPIRED, st_plan = Some pid, st_charge = Some i, st_reason = REASON_FAILED\<rparr>)"

definition subscription_status :: "renewal_settings \<Rightarrow> nat option \<Rightarrow> 'a charge_db_scheme \<Rightarrow> renewal_status" where
  "subscription_status cfg user db =
     (if has_active_subscription user db
      then \<lparr>st_state = ACTIVE, st_plan = None, st_charge = None, st_reason = No_reason\<rparr>
      else case lapsed_short_code_plan cfg user db of
        None \<Rightarrow> \<lparr>st_state = INACTIVE, st_plan = None, st_charge = None, st_reason = No_reason\<rparr>
      | Some pid \<Rightarrow>
          (let due = (\<lambda>ch. \<lparr>st_state = EXPIRED, st_plan = Some pid, st_charge = ch,
                       st_reason = (if renewal_enabled cfg then REASON_DUE else REASON_DISABLED)\<rparr>)
           in case existing_renewal_charge pid (plan_end db pid) db of
                None \<Rightarrow> due None
              | Some i \<Rightarrow> if may_try_again cfg (now db) (charges db ! i) then due (Some i)
                         else status_from_charge pid i (charges db ! i)))"

section \<open>Renewing\<close>

definition renewed_plan :: "int \<Rightarrow> int \<Rightarrow> subscription_plan \<Rightarrow> subscription_plan" where
  "renewed_plan t days p =
     (let starts = (case end_date p of None \<Rightarrow> t | Some e \<Rightarrow> if e > t then e else t);
          e' = starts + days * one_day
      in p\<lparr>plan_status := S_active, start_date := Some t, end_date := Some e', next_renewal_date := Some e',
           grace_started_at := None, grace_expires_at := None\<rparr>)"

definition renewal_payment :: "nat \<Rightarrow> subscription_plan \<Rightarrow> int \<Rightarrow> charge_row \<Rightarrow> subscription_payment" where
  "renewal_payment pid p t c =
     \<lparr>pay_subscription = pid, pay_user = plan_user p, pay_transaction_id = Some (ct_reference c),
      pay_amount = 100 * ct_amount c, pay_status = ''completed'', pay_method = ''timwe'', pay_phone = None,
      period_start = t, period_end = (case end_date p of None \<Rightarrow> t | Some e \<Rightarrow> e)\<rparr>"

definition reference_paid :: "string \<Rightarrow> 'a sub_db_scheme \<Rightarrow> bool" where
  "reference_paid ref db \<longleftrightarrow>
     list_ex (\<lambda>k. case payments db k of None \<Rightarrow> False | Some q \<Rightarrow> pay_transaction_id q = Some ref) (payment_ids db)"

text \<open>
  \<open>apply_renewal\<close>. Everything after the check of the purpose is one database transaction whose failure is
  answered \<open>False\<close>: no row for the plan, no tier, no duration, or a payment row the database refuses because
  its id or its reference is taken.
\<close>

definition apply_renewal :: "string \<Rightarrow> nat \<Rightarrow> 'a charge_db_scheme \<Rightarrow> (bool \<times> 'a charge_db_scheme) result" where
  "apply_renewal pk i db =
     (let c = charges db ! i
      in if ct_purpose c \<noteq> PURPOSE_SUBSCRIPTION_RENEWAL
         then Inl (ValueError (''This charge did not pay for a subscription renewal.'', []))
         else case ct_subscription c of
           None \<Rightarrow> Inl (ValueError (''This charge did not pay for a subscription renewal.'', []))
         | Some pid \<Rightarrow>
             (let (claimed, db1) = claim_fulfilment i db
              in if \<not> claimed then Inr (False, db)
                 else case plans db1 pid of
                   None \<Rightarrow> Inr (False, db)
                 | Some p \<Rightarrow>
                     (case Option.bind (tier_of_plan p db1) duration_days of
                        None \<Rightarrow> Inr (False, db)
                      | Some d \<Rightarrow>
                          if payments db1 pk \<noteq> None \<or> reference_paid (ct_reference c) db1 then Inr (False, db)
                          else (let p' = renewed_plan (now db) d p
                                in Inr (True,
                                     (put_plan pid p' db1)
                                       \<lparr>payments := (payments db1)(pk \<mapsto> renewal_payment pid p' (now db) c),
                                        payment_ids := payment_ids db1 @ [pk],
                                        sub_history := sub_history db1 @ [(plan_user p, pid, ''renewed'')]\<rparr>)))))"

definition after_apply :: "renewal_settings \<Rightarrow> nat option \<Rightarrow> nat \<Rightarrow> nat \<Rightarrow> 'a charge_db_scheme \<Rightarrow> renewal_status" where
  "after_apply cfg user pid i db =
     (case plans db pid of
        Some p \<Rightarrow> if is_active (now db) p
                  then \<lparr>st_state = RENEWED, st_plan = Some pid, st_charge = Some i, st_reason = No_reason\<rparr>
                  else subscription_status cfg user db
      | None \<Rightarrow> subscription_status cfg user db)"

definition apply_and_report ::
  "renewal_settings \<Rightarrow> string \<Rightarrow> nat option \<Rightarrow> nat \<Rightarrow> nat \<Rightarrow> 'a charge_db_scheme \<Rightarrow> (exn + renewal_status) \<times> 'a charge_db_scheme" where
  "apply_and_report cfg pk user pid i db =
     (case apply_renewal pk i db of
        Inl x \<Rightarrow> (Inl x, db)
      | Inr (_, db1) \<Rightarrow> (Inr (after_apply cfg user pid i db1), db1))"

definition renewal_request :: "(int \<Rightarrow> string) \<Rightarrow> nat \<Rightarrow> nat \<Rightarrow> string \<Rightarrow> subscription_plan \<Rightarrow> sub_tier \<Rightarrow> int \<Rightarrow> nat \<Rightarrow> charge_request" where
  "renewal_request isoformat uid pid number p tr e attempt =
     \<lparr>rq_user = uid, rq_msisdn = number, rq_amount = tier_price tr,
      rq_description = ''FlipStar '' @ tier_name tr @ '' renewal'',
      rq_key = renewal_idempotency_key isoformat pid e attempt, rq_package = None, rq_tier = plan_tier p,
      rq_charge_code = [], rq_service_id = charging_service_id tr, rq_purpose = PURPOSE_SUBSCRIPTION_RENEWAL,
      rq_subscription = Some pid, rq_period_end = Some e, rq_short_code = tier_short_code tr,
      rq_product_id = tier_product_id tr\<rparr>"

text \<open>\<open>_renew\<close>; \<open>ref\<close> and \<open>pk\<close> are the new reference code and the new payment's id.\<close>

definition renew ::
  "renewal_settings \<Rightarrow> (int \<Rightarrow> string) \<Rightarrow> ma_env \<Rightarrow> string \<Rightarrow> string \<Rightarrow> nat \<Rightarrow> nat \<Rightarrow> subscription_plan \<Rightarrow> sub_tier \<Rightarrow> int \<Rightarrow>
   'a charge_db_scheme \<Rightarrow> (exn + renewal_status) \<times> 'a charge_db_scheme" where
  "renew cfg isoformat ma ref pk uid pid p tr e db =
     (let (number, skip) = charge_number (Some uid) p db
      in if skip \<noteq> No_reason
         then (Inr \<lparr>st_state = EXPIRED, st_plan = Some pid, st_charge = None, st_reason = skip\<rparr>, db)
         else case request_charge (rn_charging cfg) ma ref
                     (renewal_request isoformat uid pid number p tr e (next_attempt pid e db)) db of
           Inl err \<Rightarrow>
             (case err of
                Raised x \<Rightarrow> (Inl x, db)
              | _ \<Rightarrow>
                  (case existing_renewal_charge pid e db of
                     Some i \<Rightarrow> if ct_status (charges db ! i) \<noteq> C_failed
                               then (Inr (status_from_charge pid i (charges db ! i)), db)
                               else (Inr \<lparr>st_state = EXPIRED, st_plan = Some pid, st_charge = None, st_reason = REASON_NOT_ATTEMPTED\<rparr>, db)
                   | None \<Rightarrow> (Inr \<lparr>st_state = EXPIRED, st_plan = Some pid, st_charge = None, st_reason = REASON_NOT_ATTEMPTED\<rparr>, db)))
         | Inr ((i, created), db1) \<Rightarrow>
             if ct_status (charges db1 ! i) = C_success then apply_and_report cfg pk (Some uid) pid i db1
             else (Inr (status_from_charge pid i (charges db1 ! i)), db1))"

definition check_and_renew_subscription ::
  "renewal_settings \<Rightarrow> (int \<Rightarrow> string) \<Rightarrow> ma_env \<Rightarrow> string \<Rightarrow> string \<Rightarrow> nat \<Rightarrow> 'a charge_db_scheme \<Rightarrow>
   (exn + renewal_status) \<times> 'a charge_db_scheme" where
  "check_and_renew_subscription cfg isoformat ma ref pk uid db =
     (let s = subscription_status cfg (Some uid) db
      in case (st_plan s, st_charge s) of
           (Some pid, Some i) \<Rightarrow>
             if ct_status (charges db ! i) = C_success \<and> ct_fulfilled_at (charges db ! i) = None
             then apply_and_report cfg pk (Some uid) pid i db
             else if st_state s \<noteq> EXPIRED \<or> st_reason s \<noteq> REASON_DUE then (Inr s, db)
             else (case plans db pid of
                     Some p \<Rightarrow> (case tier_of_plan p db of
                        Some tr \<Rightarrow> renew cfg isoformat ma ref pk uid pid p tr (plan_end db pid) db | None \<Rightarrow> (Inr s, db))
                   | None \<Rightarrow> (Inr s, db))
         | (Some pid, None) \<Rightarrow>
             if st_state s \<noteq> EXPIRED \<or> st_reason s \<noteq> REASON_DUE then (Inr s, db)
             else (case plans db pid of
                     Some p \<Rightarrow> (case tier_of_plan p db of
                        Some tr \<Rightarrow> renew cfg isoformat ma ref pk uid pid p tr (plan_end db pid) db | None \<Rightarrow> (Inr s, db))
                   | None \<Rightarrow> (Inr s, db))
         | _ \<Rightarrow> (Inr s, db))"

text \<open>The task: \<open>None\<close> stands for \<open>'missing'\<close>.\<close>

definition renew_expired_subscription ::
  "renewal_settings \<Rightarrow> (int \<Rightarrow> string) \<Rightarrow> ma_env \<Rightarrow> string \<Rightarrow> string \<Rightarrow> nat \<Rightarrow> 'a charge_db_scheme \<Rightarrow>
   (exn + renewal_state option) \<times> 'a charge_db_scheme" where
  "renew_expired_subscription cfg isoformat ma ref pk uid db =
     (if uid \<notin> set (user_ids db) then (Inr None, db)
      else (case check_and_renew_subscription cfg isoformat ma ref pk uid db of
              (Inl x, db1) \<Rightarrow> (Inl x, db1)
            | (Inr s, db1) \<Rightarrow> (Inr (Some (st_state s)), db1)))"

section \<open>The sweep\<close>

definition QUEUE_MARKER_SECONDS :: int where "QUEUE_MARKER_SECONDS = 120"
definition SWEEP_BATCH :: nat where "SWEEP_BATCH = 500"

record sweep_state =
  queued_users :: "nat list"
  markers :: "unit cache"

definition marker_key :: "nat \<Rightarrow> int \<Rightarrow> string" where
  "marker_key pid e = ''timwe-renewal-queued:'' @ show_nat pid @ '':'' @
     (if e < 0 then ''-'' else []) @ show_nat (nat \<bar>e\<bar>)"

text \<open>\<open>broker\<close> says whether the task could be queued, \<open>reachable\<close> whether the cache answers.\<close>

definition schedule_renewal :: "bool \<Rightarrow> bool \<Rightarrow> int \<Rightarrow> nat \<Rightarrow> nat \<Rightarrow> int \<Rightarrow> sweep_state \<Rightarrow> bool \<times> sweep_state" where
  "schedule_renewal broker reachable t uid pid e s =
     (let k = marker_key pid e
      in if reachable \<and> cache_get t k (markers s) \<noteq> None then (True, s)
         else (let marked = (if reachable then s\<lparr>markers := cache_add t k () (seconds QUEUE_MARKER_SECONDS) (markers s)\<rparr> else s)
               in if broker then (True, marked\<lparr>queued_users := queued_users marked @ [uid]\<rparr>)
                  else (False, if reachable then marked\<lparr>markers := cache_delete k (markers marked)\<rparr> else marked)))"

definition charging_not_working :: "charge_row \<Rightarrow> bool" where
  "charging_not_working c \<longleftrightarrow>
     ct_status c = C_failed \<and>
       (ct_outcome c = Some OUTCOME_UNREACHABLE \<or> ct_error_code c \<in> set CHARGE_PERMANENT \<or>
        ct_outcome c = Some OUTCOME_REJECTED \<and> ct_error_code c = []) \<or>
     ct_status c \<in> {C_timeout, C_unknown}"

definition charging_looks_broken :: "renewal_settings \<Rightarrow> int \<Rightarrow> 'a charge_db_scheme \<Rightarrow> bool" where
  "charging_looks_broken cfg t db =
     (let recent = filter (\<lambda>c. ct_purpose c = PURPOSE_SUBSCRIPTION_RENEWAL \<and>
                      (case ct_completed_at c of None \<Rightarrow> False | Some d \<Rightarrow> d \<ge> t - retry_interval cfg)) (charges db)
      in list_ex charging_not_working recent \<and> \<not> list_ex (\<lambda>c. \<not> charging_not_working c) recent)"

definition sweep_held :: "renewal_settings \<Rightarrow> int \<Rightarrow> nat \<Rightarrow> 'a charge_db_scheme \<Rightarrow> bool" where
  "sweep_held cfg t pid db =
     list_ex (\<lambda>i. ct_status (charges db ! i) \<in> {C_pending, C_timeout, C_unknown} \<or>
                 ct_created_at (charges db ! i) > t - retry_wait cfg) (period_charges pid (plan_end db pid) db)"

definition has_running_plan :: "int \<Rightarrow> nat \<Rightarrow> 'a sub_db_scheme \<Rightarrow> bool" where
  "has_running_plan t uid db =
     (list_ex (\<lambda>p. plan_status p = S_active \<and> (case end_date p of None \<Rightarrow> False | Some e \<Rightarrow> e > t)) (plans_of uid db) \<or>
      (case legacy_subscriptions db uid of Some (Some e) \<Rightarrow> e > t | _ \<Rightarrow> False))"

definition sweep_candidates :: "renewal_settings \<Rightarrow> int \<Rightarrow> 'a charge_db_scheme \<Rightarrow> (nat \<times> nat) list" where
  "sweep_candidates cfg t db =
     List.map_filter (\<lambda>i. case plans db i of None \<Rightarrow> None | Some p \<Rightarrow>
         (case plan_user p of
            None \<Rightarrow> None
          | Some uid \<Rightarrow> if \<not> sweep_held cfg t i db \<and> \<not> has_running_plan t uid db then Some (i, uid) else None))
       (sort_desc (plan_end db) (renewable_plans cfg t db))"

fun due_from :: "renewal_settings \<Rightarrow> 'a charge_db_scheme \<Rightarrow> nat list \<Rightarrow> (nat \<times> nat) list \<Rightarrow> ((nat \<times> nat) \<times> renewal_reason) list" where
  "due_from cfg db seen [] = []"
| "due_from cfg db seen ((pid, uid) # ps) =
     (if uid \<in> set seen then ((pid, uid), REASON_SUPERSEDED) # due_from cfg db seen ps
      else if \<not> for_this_service cfg db pid then ((pid, uid), REASON_WRONG_SERVICE) # due_from cfg db seen ps
      else ((pid, uid), case plans db pid of None \<Rightarrow> No_reason | Some p \<Rightarrow> snd (charge_number (Some uid) p db)) #
             due_from cfg db (uid # seen) ps)"

definition due_renewals :: "renewal_settings \<Rightarrow> int \<Rightarrow> 'a charge_db_scheme \<Rightarrow> ((nat \<times> nat) \<times> renewal_reason) list" where
  "due_renewals cfg t db = due_from cfg db [] (sweep_candidates cfg t db)"

record sweep_summary =
  sm_queued :: nat
  sm_skipped :: nat
  sm_canary :: bool
  sm_ran :: bool

fun sweep_loop ::
  "(nat \<Rightarrow> bool) \<Rightarrow> bool \<Rightarrow> int \<Rightarrow> 'a charge_db_scheme \<Rightarrow> nat \<Rightarrow> ((nat \<times> nat) \<times> renewal_reason) list \<Rightarrow> sweep_summary \<Rightarrow>
   sweep_state \<Rightarrow> sweep_summary \<times> sweep_state" where
  "sweep_loop broker reachable t db limit [] sm s = (sm, s)"
| "sweep_loop broker reachable t db limit (((pid, uid), skip) # ds) sm s =
     (if sm_queued sm \<ge> limit then (sm, s)
      else if skip \<noteq> No_reason then sweep_loop broker reachable t db limit ds (sm\<lparr>sm_skipped := sm_skipped sm + 1\<rparr>) s
      else (let (ok, s1) = schedule_renewal (broker uid) reachable t uid pid (plan_end db pid) s
            in if \<not> ok then (sm, s1)
               else sweep_loop broker reachable t db limit ds (sm\<lparr>sm_queued := sm_queued sm + 1\<rparr>) s1))"

definition sweep_due_renewals ::
  "(nat \<Rightarrow> bool) \<Rightarrow> bool \<Rightarrow> renewal_settings \<Rightarrow> nat \<Rightarrow> 'a charge_db_scheme \<Rightarrow> sweep_state \<Rightarrow> sweep_summary \<times> sweep_state" where
  "sweep_due_renewals broker reachable cfg limit db s =
     (let sm = \<lparr>sm_queued = 0, sm_skipped = 0, sm_canary = False, sm_ran = False\<rparr>
      in if \<not> renewal_enabled cfg then (sm, s)
         else case ensure_configured (rn_charging cfg) of
           Inl _ \<Rightarrow> (sm, s)
         | Inr _ \<Rightarrow>
             (let canary = charging_looks_broken cfg (now db) db
              in sweep_loop broker reachable (now db) db (if canary then 1 else limit) (due_renewals cfg (now db) db)
                   (sm\<lparr>sm_ran := True, sm_canary := canary\<rparr>) s))"


section \<open>A concrete subscriber\<close>

definition example_renewal_settings :: renewal_settings where
  "example_renewal_settings =
     \<lparr>rn_charging = example_settings, TIMWE_SUBSCRIPTION_RENEWAL_ENABLED = True, TIMWE_RENEWAL_RETRY_MINUTES = None,
      TIMWE_RENEWAL_WINDOW_DAYS = None, SMS_SHORT_CODE = []\<rparr>"

definition example_tier :: sub_tier where
  "example_tier = weekly_tier\<lparr>tier_price := 300, tier_name := ''Daily'', duration_days := Some 1\<rparr>"

definition lapsed_plan :: subscription_plan where
  "lapsed_plan = (new_plan 1 2)\<lparr>plan_status := S_active, end_date := Some 0, plan_payment_method := ''timwe'',
     subscription_source := ''sms'', onevas_phone_number := Some ''0911223344''\<rparr>"

definition lapsed_subscriber :: charge_db where
  "lapsed_subscriber = example_charges\<lparr>plans := (\<lambda>_. None)(3 \<mapsto> lapsed_plan), tiers := (\<lambda>_. None)(2 \<mapsto> example_tier), now := 1\<rparr>"

text \<open>The same subscriber an hour after the MA answered that there is no airtime.\<close>

definition refused_subscriber :: charge_db where
  "refused_subscriber =
     (snd (check_and_renew_subscription example_renewal_settings (\<lambda>_. ''t'') (example_ma (Answered 500 ''no'')) ''FS1'' ''p1'' 1
        lapsed_subscriber))\<lparr>now := one_hour\<rparr>"


definition example_retry :: charge_request where
  "example_retry = renewal_request (\<lambda>_. ''t'') 1 3 ''251911223344'' lapsed_plan example_tier 0 2"

section \<open>Workers side by side\<close>

text \<open>
  Any number of workers run against one database. A state holds the database, the charges whose creator is
  still waiting for the MA, the charges for which the MA took money, and the charges whose service was
  delivered. Opening a charge with any arguments, however stale the reading they come from, is allowed at any
  time, as is delivering any charge; a worker may die while it waits. Of the MA the relation assumes what the
  guide states: a call that ended in a Fault, or never reached it, took nothing, and a confirmed one took the
  money. Everything else may change the database as it likes, short of the charges.
\<close>

type_synonym 'a world = "'a charge_db_scheme \<times> nat list \<times> nat list \<times> nat list"

inductive charge_step :: "'a world \<Rightarrow> 'a world \<Rightarrow> bool" where
  opened: "open_charge cfg ref r db = Inr (Created i, db') \<Longrightarrow> charge_step (db, fl, tk, dl) (db', i # fl, tk, dl)"
| answered: "i \<in> set fl \<Longrightarrow> (took \<Longrightarrow> \<not> definitely_not_charged o1) \<Longrightarrow> (outcome_success o1 \<Longrightarrow> took) \<Longrightarrow>
    charge_step (db, fl, tk, dl) (record_outcome i o1 db, remove1 i fl, (if took then i # tk else tk), dl)"
| died: "i \<in> set fl \<Longrightarrow> charge_step (db, fl, tk, dl) (db, remove1 i fl, (if took then i # tk else tk), dl)"
| coins: "fulfil_coin_purchase i db = Inr (True, db') \<Longrightarrow> charge_step (db, fl, tk, dl) (db', fl, tk, i # dl)"
| applied: "apply_renewal pk i db = Inr (True, db') \<Longrightarrow> charge_step (db, fl, tk, dl) (db', fl, tk, i # dl)"
| elsewhere: "charges db' = charges db \<Longrightarrow> charge_step (db, fl, tk, dl) (db', fl, tk, dl)"

inductive_cases charge_stepE: "charge_step (db, fl, tk, dl) w"

definition world_ok :: "'a world \<Rightarrow> bool" where
  "world_ok w \<longleftrightarrow> (case w of (db, fl, tk, dl) \<Rightarrow>
     charges_ok (charges db) \<and> distinct fl \<and> distinct tk \<and> distinct dl \<and>
     (\<forall>i \<in> set fl. i < length (charges db) \<and> ct_status (charges db ! i) = C_pending \<and> i \<notin> set tk) \<and>
     (\<forall>i \<in> set tk. i < length (charges db) \<and> ct_status (charges db ! i) \<noteq> C_failed) \<and>
     (\<forall>i < length (charges db). ct_status (charges db ! i) = C_success \<longrightarrow> i \<in> set tk) \<and>
     (\<forall>i \<in> set dl. i < length (charges db) \<and> ct_fulfilled_at (charges db ! i) \<noteq> None))"

lemma apply_renewal_cases:
  assumes "apply_renewal pk i db = Inr (b, db')"
  obtains (refused) "\<not> b" "db' = db"
    | (applied) pid p d where "b" "ct_purpose (charges db ! i) = PURPOSE_SUBSCRIPTION_RENEWAL"
        "ct_subscription (charges db ! i) = Some pid" "fst (claim_fulfilment i db)" "plans db pid = Some p"
        "Option.bind (tier_of_plan p db) duration_days = Some d"
        "charges db' = charges (snd (claim_fulfilment i db))"
        "plans db' = (plans db)(pid \<mapsto> renewed_plan (now db) d p)"
        "sub_history db' = sub_history db @ [(plan_user p, pid, ''renewed'')]"
        "payments db' = (payments db)(pk \<mapsto> renewal_payment pid (renewed_plan (now db) d p) (now db) (charges db ! i))"
        "now db' = now db"
proof -
  obtain cl db1 where c: "claim_fulfilment i db = (cl, db1)" by (cases "claim_fulfilment i db")
  have same: "plans db1 = plans db" "tiers db1 = tiers db" "payments db1 = payments db" "payment_ids db1 = payment_ids db"
      "sub_history db1 = sub_history db" "now db1 = now db"
    using c by (auto simp: claim_fulfilment_def update_charge_def split: if_splits)
  have tier: "tier_of_plan p db1 = tier_of_plan p db" for p using same by (simp add: tier_of_plan_def split: option.split)
  obtain pid where pid: "ct_subscription (charges db ! i) = Some pid" "ct_purpose (charges db ! i) = PURPOSE_SUBSCRIPTION_RENEWAL"
    using assms by (auto simp: apply_renewal_def Let_def split: if_splits option.splits)
  show thesis
  proof (cases "cl \<and> plans db pid \<noteq> None \<and> Option.bind (tier_of_plan (the (plans db pid)) db) duration_days \<noteq> None \<and>
      \<not> (payments db pk \<noteq> None \<or> reference_paid (ct_reference (charges db ! i)) db1)")
    case False
    then have "\<not> b \<and> db' = db" using assms c pid same tier
      by (auto simp: apply_renewal_def Let_def split: if_splits option.splits)
    then show thesis using refused by blast
  next
    case True
    then obtain p d where pd: "plans db pid = Some p" "Option.bind (tier_of_plan p db) duration_days = Some d"
      by auto
    then have "b" "db' = (put_plan pid (renewed_plan (now db) d p) db1)
        \<lparr>payments := (payments db1)(pk \<mapsto> renewal_payment pid (renewed_plan (now db) d p) (now db) (charges db ! i)),
         payment_ids := payment_ids db1 @ [pk], sub_history := sub_history db1 @ [(plan_user p, pid, ''renewed'')]\<rparr>"
      using assms c pid same tier True by (auto simp: apply_renewal_def Let_def)
    then show thesis using applied [of pid p d] pid c pd same True by (simp add: put_plan_def)
  qed
qed

lemma fulfil_claims:
  assumes "fulfil_coin_purchase i db = Inr (True, db')"
  shows "fst (claim_fulfilment i db) \<and> charges db' = charges (snd (claim_fulfilment i db))"
proof -
  obtain cl db1 where c: "claim_fulfilment i db = (cl, db1)" by (cases "claim_fulfilment i db")
  from assms obtain p pkg ks where
    "cl" "db_of (add_purchased new_balance (ct_user (charges db ! i)) (get_total_coins pkg) ''purchase'' ''airtime'' ks
          (get_or_create_balance (ct_user (charges db ! i)) db1)) = Inr db'"
    using c by (auto simp: fulfil_coin_purchase_def Let_def split: option.splits sum.splits if_splits)
  moreover from this obtain s tx where
    r: "add_purchased new_balance (ct_user (charges db ! i)) (get_total_coins pkg) ''purchase'' ''airtime'' ks
          (get_or_create_balance (ct_user (charges db ! i)) db1) = Inr (s, tx, db')"
    by (auto simp: db_of_Inr)
  ultimately show ?thesis
    using add_purchased_steps [of "ct_user (charges db ! i)" "get_total_coins pkg" new_balance "''purchase''" "''airtime''" ks
        "get_or_create_balance (ct_user (charges db ! i)) db1"] c
    by (auto simp: steps_def moves_def get_or_create_balance_def split: option.splits)
qed

text \<open>Delivering a claimed charge keeps the invariant, whatever it delivers.\<close>

lemma deliver_ok:
  assumes "world_ok (db, fl, tk, dl)" and "fst (claim_fulfilment i db)" and "charges db' = charges (snd (claim_fulfilment i db))"
  shows "world_ok (db', fl, tk, i # dl)"
proof -
  have i: "i < length (charges db)" "ct_status (charges db ! i) = C_success" "ct_fulfilled_at (charges db ! i) = None"
    and c: "charges db' = (charges db)[i := (charges db ! i)\<lparr>ct_fulfilled_at := Some (now db)\<rparr>]"
    using assms(2,3) by (auto simp: claim_fulfilment_def update_charge_def split: if_splits)
  have "charges_ok (charges db')" using assms(1,3) claim_fulfilment_ok by (auto simp: world_ok_def)
  moreover have "i \<notin> set dl" using assms(1) i by (auto simp: world_ok_def)
  ultimately show ?thesis using assms(1) i c by (auto simp: world_ok_def nth_list_update)
qed

lemma answer_ok:
  assumes "world_ok (db, fl, tk, dl)" and "i \<in> set fl"
    and "took \<Longrightarrow> \<not> definitely_not_charged o1" and "outcome_success o1 \<Longrightarrow> took"
  shows "world_ok (record_outcome i o1 db, remove1 i fl, (if took then i # tk else tk), dl)"
proof -
  have i: "i < length (charges db)" "ct_status (charges db ! i) = C_pending" "i \<notin> set tk" "distinct fl"
    using assms(1,2) by (auto simp: world_ok_def)
  have c: "charges (record_outcome i o1 db) = (charges db)[i := recorded_charge o1 (now db) (charges db ! i)]"
    using i by (simp add: record_outcome_def update_charge_def)
  have rec: "ct_status (recorded_charge o1 (now db) (charges db ! i)) = STATUS_FOR_OUTCOME (co_outcome o1)"
      "ct_fulfilled_at (recorded_charge o1 (now db) (charges db ! i)) = ct_fulfilled_at (charges db ! i)"
    by (simp_all add: recorded_charge_def)
  have st: "took \<Longrightarrow> STATUS_FOR_OUTCOME (co_outcome o1) \<noteq> C_failed" "STATUS_FOR_OUTCOME (co_outcome o1) = C_success \<Longrightarrow> took"
    using assms(3,4) by (auto simp: STATUS_FOR_OUTCOME_def definitely_not_charged_def outcome_success_def split: outcome.splits)
  have "charges_ok (charges (record_outcome i o1 db))" using assms(1) record_outcome_ok by (auto simp: world_ok_def)
  then show ?thesis using assms(1) i st rec by (auto simp: world_ok_def c nth_list_update)
qed

lemma open_ok:
  assumes "world_ok (db, fl, tk, dl)" and "open_charge cfg ref r db = Inr (Created i, db')"
  shows "world_ok (db', i # fl, tk, dl)"
  using assms(2)
proof (cases rule: open_charge_cases)
  case (created v)
  have "charges_ok (charges db')" using open_charge_ok [OF assms(2)] assms(1) by (simp add: world_ok_def)
  moreover have "ct_status (pending_charge cfg ref r v (now db)) = C_pending" by (simp add: pending_charge_def)
  ultimately show ?thesis using assms(1) created(2,3)
    by (auto simp: world_ok_def nth_append less_Suc_eq dest!: bspec)
qed simp

lemma charge_step_ok: "charge_step w w' \<Longrightarrow> world_ok w \<Longrightarrow> world_ok w'"
proof (induction rule: charge_step.induct)
  case opened
  then show ?case using open_ok by blast
next
  case answered
  then show ?case using answer_ok by blast
next
  case died
  then show ?case by (auto simp: world_ok_def)
next
  case coins
  then show ?case using deliver_ok fulfil_claims by blast
next
  case applied
  then show ?case using deliver_ok by (blast elim: apply_renewal_cases)
next
  case elsewhere
  then show ?case by (simp add: world_ok_def)
qed

lemma charge_steps_ok: "charge_step\<^sup>*\<^sup>* w w' \<Longrightarrow> world_ok w \<Longrightarrow> world_ok w'"
  by (induction rule: rtranclp_induct) (auto intro: charge_step_ok)


text \<open>
  C35. No subscriber pays twice, and nothing is delivered that was not paid for. However many workers check,
  charge, apply and die, in whatever order and on however old a reading: at most one charge of a renewal
  period ever takes money, and a charge is delivered at most once, only after the MA took the money.
\<close>

theorem no_period_paid_twice:
  assumes "charge_step\<^sup>*\<^sup>* (db0, [], [], []) (db, fl, tk, dl)" and "charges db0 = []"
  shows "distinct tk \<and> distinct dl \<and> set dl \<subseteq> set tk \<and>
    (\<forall>i \<in> set tk. \<forall>j \<in> set tk. ct_purpose (charges db ! i) = PURPOSE_SUBSCRIPTION_RENEWAL \<longrightarrow>
       ct_purpose (charges db ! j) = PURPOSE_SUBSCRIPTION_RENEWAL \<longrightarrow> same_period (charges db ! i) (charges db ! j) \<longrightarrow> i = j)"
proof -
  have "world_ok (db0, [], [], [])" using assms(2) by (simp add: world_ok_def charges_ok_def)
  then have ok: "world_ok (db, fl, tk, dl)" using assms(1) charge_steps_ok by blast
  have "i = j" if "i \<in> set tk" "j \<in> set tk" "ct_purpose (charges db ! i) = PURPOSE_SUBSCRIPTION_RENEWAL"
      "ct_purpose (charges db ! j) = PURPOSE_SUBSCRIPTION_RENEWAL" "same_period (charges db ! i) (charges db ! j)" for i j
  proof (rule ccontr)
    assume "i \<noteq> j"
    moreover have "same_period (charges db ! j) (charges db ! i)" using that(5) by (auto simp: same_period_def)
    moreover have "i < length (charges db)" "j < length (charges db)" "ct_status (charges db ! i) \<noteq> C_failed"
        "ct_status (charges db ! j) \<noteq> C_failed" "charges_ok (charges db)"
      using ok that by (auto simp: world_ok_def)
    ultimately show False using that unfolding charges_ok_def by (metis nat_neq_iff)
  qed
  moreover have "i \<in> set tk" if "i \<in> set dl" for i
  proof -
    have "i < length (charges db)" "ct_fulfilled_at (charges db ! i) \<noteq> None" "charges_ok (charges db)"
      using ok that by (auto simp: world_ok_def)
    then have "ct_status (charges db ! i) = C_success" by (auto simp: charges_ok_def charge_wf_def list_all_length)
    then show ?thesis using ok \<open>i < length (charges db)\<close> by (auto simp: world_ok_def)
  qed
  ultimately show ?thesis using ok by (auto simp: world_ok_def)
qed

section \<open>A check is such a run\<close>

definition runs_to :: "'a charge_db_scheme \<Rightarrow> 'a charge_db_scheme \<Rightarrow> bool" where
  "runs_to db db' \<longleftrightarrow> (\<forall>fl tk dl. \<exists>tk' dl'. charge_step\<^sup>*\<^sup>* (db, fl, tk, dl) (db', fl, tk', dl'))"

lemma runs_to_refl [simp]: "runs_to db db"
  unfolding runs_to_def by blast

lemma runs_to_trans: "runs_to a b \<Longrightarrow> runs_to b c \<Longrightarrow> runs_to a c"
  unfolding runs_to_def by (meson rtranclp_trans)

lemma apply_runs:
  assumes "apply_renewal pk i db = Inr (b, db')"
  shows "runs_to db db'"
proof (cases b)
  case True
  then have "charge_step (db, fl, tk, dl) (db', fl, tk, i # dl)" for fl tk dl
    using assms by (auto intro: charge_step.applied)
  then show ?thesis unfolding runs_to_def by blast
next
  case False
  then show ?thesis using assms by (auto elim: apply_renewal_cases)
qed

lemma request_runs:
  assumes "request_charge cfg ma ref r db = Inr ((i, b), db')"
  shows "runs_to db db'"
  using assms
proof (cases rule: request_charge_cases)
  case replayed
  then show ?thesis by (auto elim: open_charge_cases)
next
  case (created db1)
  define o1 where "o1 = call_outcome ma (charge_call_of r (charges db1 ! i))"
  show ?thesis unfolding runs_to_def
  proof (intro allI)
    fix fl tk dl
    have "charge_step (db, fl, tk, dl) (db1, i # fl, tk, dl)" using created(1) by (rule charge_step.opened)
    moreover have "charge_step (db1, i # fl, tk, dl)
        (record_outcome i o1 db1, remove1 i (i # fl), (if outcome_success o1 then i # tk else tk), dl)"
      by (rule charge_step.answered) (auto simp: outcome_success_def definitely_not_charged_def)
    ultimately show "\<exists>tk' dl'. charge_step\<^sup>*\<^sup>* (db, fl, tk, dl) (db', fl, tk', dl')"
      using created(3) o1_def by (metis (no_types, lifting) converse_rtranclp_into_rtranclp r_into_rtranclp remove1.simps(2))
  qed
qed

lemma report_runs: "runs_to db (snd (apply_and_report cfg pk user pid i db))"
  by (cases "apply_renewal pk i db") (auto simp: apply_and_report_def split: prod.splits dest: apply_runs)

lemma renew_runs: "runs_to db (snd (renew cfg isoformat ma ref pk uid pid p tr e db))"
proof -
  have "runs_to db (snd (apply_and_report cfg pk (Some uid) pid i db1))"
    if "request_charge c ma ref r db = Inr ((i, b), db1)" for c r i b db1
    using runs_to_trans [OF request_runs [OF that] report_runs] .
  then show ?thesis
    by (auto simp: renew_def Let_def split: prod.splits sum.splits timwe_error.splits option.splits intro: request_runs)
qed

lemma check_runs: "runs_to db (snd (check_and_renew_subscription cfg isoformat ma ref pk uid db))"
  by (simp add: check_and_renew_subscription_def Let_def report_runs renew_runs split: option.split)

lemma runs_to_charges_ok:
  assumes "runs_to db db'" and "world_ok (db, [], [], [])"
  shows "charges_ok (charges db')"
proof -
  obtain tk dl where "charge_step\<^sup>*\<^sup>* (db, [], [], []) (db', [], tk, dl)" using assms(1) unfolding runs_to_def by blast
  then have "world_ok (db', [], tk, dl)" using assms(2) by (rule charge_steps_ok)
  then show ?thesis by (simp add: world_ok_def)
qed

theorem no_period_paid_twice_witness:
  "\<exists>tk dl. charge_step\<^sup>*\<^sup>* (lapsed_subscriber, [], [], []) (refused_subscriber, [], tk, dl) \<and>
     distinct tk \<and> distinct dl \<and> set dl \<subseteq> set tk"
proof -
  let ?mid = "snd (check_and_renew_subscription example_renewal_settings (\<lambda>_. ''t'') (example_ma (Answered 500 ''no'')) ''FS1'' ''p1'' 1
        lapsed_subscriber)"
  obtain tk dl where "charge_step\<^sup>*\<^sup>* (lapsed_subscriber, [], [], []) (?mid, [], tk, dl)"
    using check_runs unfolding runs_to_def by blast
  moreover have "charge_step (?mid, [], tk, dl) (refused_subscriber, [], tk, dl)"
    by (rule charge_step.elsewhere) (simp add: refused_subscriber_def)
  ultimately have run: "charge_step\<^sup>*\<^sup>* (lapsed_subscriber, [], [], []) (refused_subscriber, [], tk, dl)" by simp
  have "charges lapsed_subscriber = []" by (simp add: lapsed_subscriber_def example_charges_def order_db.defs)
  from no_period_paid_twice [OF run this] run show ?thesis by blast
qed



section \<open>A refusal is tried again\<close>

lemma sort_desc_first: "(\<And>y. y \<in> set xs \<Longrightarrow> k y \<le> k x) \<Longrightarrow> sort_desc k (x # xs) = x # sort_desc k xs"
  by (cases "sort_desc k xs") (use set_sort_desc [of k xs] in \<open>auto simp del: set_sort_desc\<close>)

lemma sorted_le_last: "sorted xs \<Longrightarrow> x \<in> set xs \<Longrightarrow> x \<le> last xs"
  by (induction xs) auto

text \<open>On a clock that never runs backwards, the latest charge of a period is the last of the table.\<close>

lemma existing_is_last:
  assumes "sorted (map ct_created_at (charges db))" and "period_charges pid e db \<noteq> []"
  shows "existing_renewal_charge pid e db = Some (last (period_charges pid e db))"
proof -
  let ?ps = "period_charges pid e db"
  have ps: "rev ?ps = last ?ps # rev (butlast ?ps)" using assms(2) by (metis append_butlast_last_id rev_eq_Cons_iff rev_rev_ident)
  have srt: "sorted ?ps" unfolding period_charges_def by (rule sorted_wrt_filter) simp
  have "i \<le> last ?ps \<and> last ?ps < length (charges db)" if "i \<in> set (butlast ?ps)" for i
  proof -
    have "last ?ps \<in> set ?ps" using assms(2) by simp
    then have "last ?ps < length (charges db)" by (simp add: period_charges_def)
    moreover have "i \<le> last ?ps" using srt in_set_butlastD [OF that] by (rule sorted_le_last)
    ultimately show ?thesis by blast
  qed
  then have "ct_created_at (charges db ! i) \<le> ct_created_at (charges db ! last ?ps)" if "i \<in> set (rev (butlast ?ps))" for i
    using assms(1) that by (auto simp: sorted_iff_nth_mono)
  then show ?thesis using ps by (simp only: existing_renewal_charge_def sort_desc_first list.case)
qed

lemma all_refused:
  assumes ok: "charges_ok (charges db)" and srt: "sorted (map ct_created_at (charges db))"
    and latest: "\<And>i. existing_renewal_charge pid e db = Some i \<Longrightarrow> ct_status (charges db ! i) = C_failed"
    and c: "c \<in> set (charges db)" "of_period pid e c"
  shows "ct_status c = C_failed"
proof -
  let ?ps = "period_charges pid e db"
  from c obtain i where i: "i < length (charges db)" "charges db ! i = c" by (auto simp: in_set_conv_nth)
  then have mem: "i \<in> set ?ps" using c by (simp add: period_charges_def)
  then have ne: "?ps \<noteq> []" by auto
  let ?l = "last ?ps"
  have l: "?l \<in> set ?ps" using ne by simp
  have f: "ct_status (charges db ! ?l) = C_failed" using latest existing_is_last [OF srt ne] by simp
  have "sorted ?ps" unfolding period_charges_def by (rule sorted_wrt_filter) simp
  then have "i \<le> ?l" using mem by (rule sorted_le_last)
  show ?thesis
  proof (cases "i = ?l")
    case True
    then show ?thesis using f i by simp
  next
    case False
    with \<open>i \<le> ?l\<close> have "i < ?l" by simp
    moreover have "?l < length (charges db)" "of_period pid e (charges db ! ?l)" using l by (auto simp: period_charges_def)
    ultimately show ?thesis using ok c i unfolding charges_ok_def of_period_def same_period_def by (metis option.distinct(1))
  qed
qed

lemma renewal_opens:
  assumes "check_request cfg r = Inr v" and "\<forall>c \<in> set (charges db). ct_key c \<noteq> rq_key r \<and> ct_reference c \<noteq> ref"
    and "rq_subscription r = Some pid" "rq_period_end r = Some e" "rq_purpose r = PURPOSE_SUBSCRIPTION_RENEWAL"
    and "\<And>c. c \<in> set (charges db) \<Longrightarrow> of_period pid e c \<Longrightarrow> ct_status c = C_failed"
  shows "open_charge cfg ref r db =
    Inr (Created (length (charges db)), db\<lparr>charges := charges db @ [pending_charge cfg ref r v (now db)]\<rparr>)"
proof -
  have key: "find_index (\<lambda>c. ct_key c = rq_key r) (charges db) = None" using assms(2) by (auto simp: find_index_None)
  have "\<not> charge_collides (charges db) (pending_charge cfg ref r v (now db))"
    using assms(2-6) by (auto simp: charge_collides_def list_ex_iff pending_charge_def live_renewal_def same_period_def of_period_def)
  then show ?thesis using assms(1) key by (simp add: open_charge_def)
qed

lemma find_in_set: "find P xs = Some x \<Longrightarrow> x \<in> set xs"
  by (auto simp: find_Some_iff)

lemma due_facts:
  assumes "subscription_status cfg (Some uid) db = s" and "st_reason s = REASON_DUE" and "st_plan s = Some pid"
    and "plans db pid = Some p"
  shows "st_state s = EXPIRED" and "is_renewable cfg (now db) db p" and "end_date p = Some (plan_end db pid)"
    and "plan_end db pid \<le> now db"
    and "existing_renewal_charge pid (plan_end db pid) db = Some i \<Longrightarrow> ct_status (charges db ! i) = C_failed"
    and "st_charge s = existing_renewal_charge pid (plan_end db pid) db"
proof -
  from assms have l: "lapsed_short_code_plan cfg (Some uid) db = Some pid"
    by (auto simp: subscription_status_def status_from_charge_def Let_def split: if_splits option.splits)
  then have "pid \<in> set (renewable_plans cfg (now db) db)"
    by (auto simp: lapsed_short_code_plan_def dest!: find_in_set)
  then show r: "is_renewable cfg (now db) db p" using assms(4) by (auto simp: renewable_plans_def)
  show "end_date p = Some (plan_end db pid)" "plan_end db pid \<le> now db"
    using r assms(4) by (auto simp: is_renewable_def plan_end_def split: option.splits)
  show "st_state s = EXPIRED" "existing_renewal_charge pid (plan_end db pid) db = Some i \<Longrightarrow> ct_status (charges db ! i) = C_failed"
      "st_charge s = existing_renewal_charge pid (plan_end db pid) db"
    using assms(1,2) l
    by (auto simp: subscription_status_def status_from_charge_def may_try_again_def Let_def split: if_splits option.splits)
qed

lemma apply_succeeds:
  assumes "i < length (charges db)" "ct_status (charges db ! i) = C_success" "ct_fulfilled_at (charges db ! i) = None"
    and "ct_purpose (charges db ! i) = PURPOSE_SUBSCRIPTION_RENEWAL" "ct_subscription (charges db ! i) = Some pid"
    and "plans db pid = Some p" "tier_of_plan p db = Some tr" "duration_days tr = Some d"
    and "payments db pk = None" "\<not> reference_paid (ct_reference (charges db ! i)) db"
  shows "\<exists>db'. apply_renewal pk i db = Inr (True, db') \<and> plans db' = (plans db)(pid \<mapsto> renewed_plan (now db) d p) \<and>
     length (charges db') = length (charges db) \<and> now db' = now db"
proof -
  have c: "claim_fulfilment i db = (True, update_charge i ((charges db ! i)\<lparr>ct_fulfilled_at := Some (now db)\<rparr>) db)"
    using assms(1-3) by (simp add: claim_fulfilment_def)
  have "tier_of_plan p (update_charge i q db) = tier_of_plan p db" "reference_paid r (update_charge i q db) = reference_paid r db" for q r
    by (simp_all add: tier_of_plan_def update_charge_def reference_paid_def split: option.split)
  then show ?thesis using assms c by (auto simp: apply_renewal_def Let_def update_charge_def put_plan_def)
qed




section \<open>What the sweep queues\<close>

definition ready :: "((nat \<times> nat) \<times> renewal_reason) list \<Rightarrow> nat list" where
  "ready ds = map (\<lambda>d. snd (fst d)) (filter (\<lambda>d. snd d = No_reason) ds)"

lemma ready_simps [simp]:
  "ready [] = []" "ready (((pid, uid), skip) # ds) = (if skip = No_reason then uid # ready ds else ready ds)"
  by (simp_all add: ready_def)

lemma due_from_distinct:
  "distinct (ready (due_from cfg db seen ps)) \<and> set (ready (due_from cfg db seen ps)) \<inter> set seen = {}"
  by (induction cfg db seen ps rule: due_from.induct) auto

lemma ready_due:
  "uid \<in> set (ready (due_from cfg db seen ps)) \<Longrightarrow>
   \<exists>pid. (pid, uid) \<in> set ps \<and> for_this_service cfg db pid \<and>
     (\<forall>p. plans db pid = Some p \<longrightarrow> snd (charge_number (Some uid) p db) = No_reason)"
  by (induction cfg db seen ps rule: due_from.induct) (auto split: if_splits option.splits)

lemma set_map_filter: "y \<in> set (List.map_filter f xs) \<longleftrightarrow> (\<exists>x \<in> set xs. f x = Some y)"
  by (induction xs) (auto simp: map_filter_simps split: option.splits)

lemma candidate_facts:
  "(pid, u) \<in> set (sweep_candidates cfg t db) \<Longrightarrow>
   \<exists>p. plans db pid = Some p \<and> plan_user p = Some u \<and> \<not> sweep_held cfg t pid db \<and> \<not> has_running_plan t u db \<and>
     pid \<in> set (renewable_plans cfg t db)"
  by (auto simp: sweep_candidates_def set_map_filter split: option.splits if_splits)

lemma schedule_queues:
  "schedule_renewal broker reachable t uid pid e s = (b, s1) \<Longrightarrow>
   queued_users s1 = queued_users s \<or> b \<and> queued_users s1 = queued_users s @ [uid]"
  by (auto simp: schedule_renewal_def Let_def split: if_splits)

lemma sweep_loop_queues:
  assumes "sweep_loop broker reachable t db limit ds sm s = (sm', s')" and "distinct (ready ds)"
  shows "\<exists>us. queued_users s' = queued_users s @ us \<and> distinct us \<and> set us \<subseteq> set (ready ds) \<and>
     sm_queued sm + length us \<le> sm_queued sm' \<and> sm_queued sm' \<le> max (sm_queued sm) limit \<and> sm_canary sm' = sm_canary sm"
  using assms
proof (induction broker reachable t db limit ds sm s rule: sweep_loop.induct)
  case (2 broker reachable t db limit pid uid skip ds sm s)
  show ?case
  proof (cases "sm_queued sm \<ge> limit \<or> skip \<noteq> No_reason")
    case True
    then show ?thesis using 2(1) 2(3,4) by (auto split: if_splits)
  next
    case False
    obtain b s1 where sch: "schedule_renewal (broker uid) reachable t uid pid (plan_end db pid) s = (b, s1)"
      by (cases "schedule_renewal (broker uid) reachable t uid pid (plan_end db pid) s")
    note q = schedule_queues [OF sch]
    show ?thesis
    proof (cases b)
      case b: False
      then show ?thesis using 2(3) sch q False by auto
    next
      case b: True
      have "sweep_loop broker reachable t db limit ds (sm\<lparr>sm_queued := sm_queued sm + 1\<rparr>) s1 = (sm', s')"
        using 2(3) False sch b by simp
      then obtain us where us: "queued_users s' = queued_users s1 @ us" "distinct us" "set us \<subseteq> set (ready ds)"
          "sm_queued sm + 1 + length us \<le> sm_queued sm'" "sm_queued sm' \<le> max (sm_queued sm + 1) limit" "sm_canary sm' = sm_canary sm"
        using 2(2) [of "(b, s1)" b s1] 2(4) False sch b by auto
      show ?thesis
      proof (cases "queued_users s1 = queued_users s")
        case True
        then show ?thesis using us False by auto
      next
        case False
        then show ?thesis using us q 2(4) \<open>\<not> (sm_queued sm \<ge> limit \<or> skip \<noteq> No_reason)\<close>
          by (intro exI [of _ "uid # us"]) auto
      qed
    qed
  qed
qed auto

text \<open>
  One sweep queues at most its batch, a single charge while charging looks broken, and nobody twice.
  Everyone it queues holds a lapsed plan that may be renewed, on the service of its tier, with no charge of
  the period open or too recent, no running subscription, and a registered number that is the subscribed one.
\<close>

theorem sweep_bounded:
  assumes "sweep_due_renewals broker reachable cfg limit db s = (sm, s')"
  shows "\<exists>us. queued_users s' = queued_users s @ us \<and> distinct us \<and>
     length us \<le> sm_queued sm \<and> sm_queued sm \<le> (if sm_canary sm then 1 else limit) \<and>
     (\<forall>u \<in> set us. \<exists>pid p. plans db pid = Some p \<and> plan_user p = Some u \<and> is_renewable cfg (now db) db p \<and>
        for_this_service cfg db pid \<and> \<not> sweep_held cfg (now db) pid db \<and> \<not> has_running_plan (now db) u db \<and>
        snd (charge_number (Some u) p db) = No_reason)"
proof (cases "renewal_enabled cfg \<and> ensure_configured (rn_charging cfg) = Inr ()")
  case False
  then have "sm_queued sm = 0 \<and> s' = s" using assms
    by (cases "ensure_configured (rn_charging cfg)") (auto simp: sweep_due_renewals_def Let_def split: if_splits)
  then show ?thesis by simp
next
  case True
  define canary where "canary = charging_looks_broken cfg (now db) db"
  define ds where "ds = due_renewals cfg (now db) db"
  have loop: "sweep_loop broker reachable (now db) db (if canary then 1 else limit) ds
      \<lparr>sm_queued = 0, sm_skipped = 0, sm_canary = canary, sm_ran = True\<rparr> s = (sm, s')"
    using assms True by (simp add: sweep_due_renewals_def Let_def canary_def ds_def)
  have "distinct (ready ds)" by (simp add: ds_def due_renewals_def due_from_distinct)
  from sweep_loop_queues [OF loop this] obtain us where us: "queued_users s' = queued_users s @ us" "distinct us"
      "set us \<subseteq> set (ready ds)" "length us \<le> sm_queued sm" "sm_queued sm \<le> (if sm_canary sm then 1 else limit)"
    by auto
  have "\<exists>pid p. plans db pid = Some p \<and> plan_user p = Some u \<and> is_renewable cfg (now db) db p \<and>
        for_this_service cfg db pid \<and> \<not> sweep_held cfg (now db) pid db \<and> \<not> has_running_plan (now db) u db \<and>
        snd (charge_number (Some u) p db) = No_reason" if "u \<in> set us" for u
  proof -
    have "u \<in> set (ready (due_from cfg db [] (sweep_candidates cfg (now db) db)))"
      using that us(3) by (auto simp: ds_def due_renewals_def)
    from ready_due [OF this] obtain pid where pid: "(pid, u) \<in> set (sweep_candidates cfg (now db) db)" "for_this_service cfg db pid"
        "\<forall>p. plans db pid = Some p \<longrightarrow> snd (charge_number (Some u) p db) = No_reason"
      by blast
    then obtain p where "plans db pid = Some p" "plan_user p = Some u" "\<not> sweep_held cfg (now db) pid db"
        "\<not> has_running_plan (now db) u db" "pid \<in> set (renewable_plans cfg (now db) db)"
      by (auto dest!: candidate_facts)
    then show ?thesis using pid by (auto simp: renewable_plans_def)
  qed
  then show ?thesis using us by blast
qed


theorem sweep_bounded_witness:
  "\<exists>us. queued_users (snd (sweep_due_renewals (\<lambda>_. True) True example_renewal_settings 500 refused_subscriber
       \<lparr>queued_users = [], markers = (\<lambda>_. None)\<rparr>)) = us \<and> distinct us \<and> us = [1]"
proof -
  let ?run = "sweep_due_renewals (\<lambda>_. True) True example_renewal_settings 500 refused_subscriber
       \<lparr>queued_users = [], markers = (\<lambda>_. None)\<rparr>"
  have "queued_users (snd ?run) = [1]" by code_simp
  moreover have "distinct (queued_users (snd ?run))"
    using sweep_bounded [of "\<lambda>_. True" True example_renewal_settings 500 refused_subscriber _ "fst ?run" "snd ?run"] by force
  ultimately show ?thesis by blast
qed

end
