(* ===== verification/Campaign_Workflow.thy ===== *)
theory Campaign_Workflow
  imports Subscription
begin

text \<open>
  Organization campaigns: who may do what (\<open>api/services/realms.py\<close>), the maker/checker workflow
  (\<open>api/services/campaign_workflow.py\<close>) and the endpoints that create, edit, delete and move a campaign
  (\<open>api/views/organization_campaigns.py\<close>). The editable columns of \<open>Campaign\<close> are kept by name, each value as
  its text. A handler reads the campaign once, \<open>loaded\<close>, and decides on that reading; its writes go to the row
  as it is by then.
\<close>

section \<open>Accounts\<close>

datatype realm = FLIPSTAR | MEMBER | ORGANIZATION
datatype role = ADMIN | MAKER | CHECKER

record account =
  acc_id :: nat
  is_superuser :: bool
  is_staff :: bool
  acc_realm :: "realm option" \<comment> \<open>\<open>None\<close> without a profile\<close>
  acc_role :: "role option"
  acc_organization :: "nat option"

definition is_flipstar :: "account \<Rightarrow> bool" where "is_flipstar u \<longleftrightarrow> acc_realm u = Some FLIPSTAR"
definition is_organization_user :: "account \<Rightarrow> bool" where "is_organization_user u \<longleftrightarrow> acc_realm u = Some ORGANIZATION"
definition is_maker :: "account \<Rightarrow> bool" where "is_maker u \<longleftrightarrow> acc_role u = Some MAKER"
definition is_checker :: "account \<Rightarrow> bool" where "is_checker u \<longleftrightarrow> acc_role u = Some CHECKER"
definition is_org_admin :: "account \<Rightarrow> bool" where "is_org_admin u \<longleftrightarrow> acc_role u = Some ADMIN"
definition can_author :: "account \<Rightarrow> bool" where "can_author u \<longleftrightarrow> is_maker u \<or> is_org_admin u"

definition ALLOWED_ROLES :: "realm \<Rightarrow> role option list" where
  "ALLOWED_ROLES r = (case r of MEMBER \<Rightarrow> [None] | _ \<Rightarrow> [Some ADMIN, Some MAKER, Some CHECKER, None])"

definition validate_profile :: "realm \<Rightarrow> role option \<Rightarrow> nat option \<Rightarrow> unit result" where
  "validate_profile r ro org =
     (if ro \<notin> set (ALLOWED_ROLES r) then Inl (ValueError (''role not allowed'', []))
      else if r = ORGANIZATION \<and> org = None
      then Inl (ValueError (''An ORGANIZATION account must belong to an organization.'', []))
      else if r \<noteq> ORGANIZATION \<and> org \<noteq> None
      then Inl (ValueError (''account must not belong to an organization.'', []))
      else Inr ())"

section \<open>Campaigns\<close>

datatype campaign_status =
  K_draft | K_submitted | K_approved | K_rejected | K_active | K_voting | K_completed | K_cancelled

record campaign =
  k_organization :: "nat option"
  k_created_by :: "nat option"
  k_submitted_by :: "nat option"
  k_submitted_at :: "int option"
  k_approved_by :: "nat option"
  k_approved_at :: "int option"
  k_rejection_reason :: string
  k_status :: campaign_status
  k_content :: "string \<Rightarrow> string"

type_synonym campaigns = "nat \<Rightarrow> campaign option"

definition EDITABLE_FIELDS :: "string list" where
  "EDITABLE_FIELDS =
    [''title'', ''description'', ''prize_title'', ''prize_description'', ''prize_value'', ''campaign_type'',
     ''min_followers'', ''min_level'', ''min_votes_per_reel'', ''required_hashtags'', ''start_date'',
     ''entry_deadline'', ''voting_start'', ''voting_end'', ''winner_count'']"

definition EDITABLE_STATUSES :: "campaign_status list" where
  "EDITABLE_STATUSES = [K_draft, K_rejected]"

definition organization_for_new_campaign :: "account \<Rightarrow> nat option result" where
  "organization_for_new_campaign u =
     (if is_organization_user u
      then (case acc_organization u of
              None \<Rightarrow> Inl (ValueError (''This account is an organization account but has no organization.'', []))
            | Some o1 \<Rightarrow> Inr (Some o1))
      else if is_flipstar u then Inr None
      else Inl (ValueError (''This account may not create campaigns.'', [])))"

definition can_create_campaign :: "account \<Rightarrow> bool" where
  "can_create_campaign u \<longleftrightarrow>
     is_superuser u \<or> is_staff u \<or> (is_flipstar u \<or> is_organization_user u) \<and> can_author u"

definition is_own_work :: "account \<Rightarrow> campaign \<Rightarrow> bool" where
  "is_own_work u c \<longleftrightarrow> Some (acc_id u) \<in> {k_created_by c, k_submitted_by c}"

definition can_access_campaign :: "account \<Rightarrow> campaign \<Rightarrow> bool" where
  "can_access_campaign u c \<longleftrightarrow>
     is_superuser u \<or> is_flipstar u \<or>
     is_organization_user u \<and> acc_organization u \<noteq> None \<and> k_organization c = acc_organization u"

definition can_review_campaign :: "account \<Rightarrow> campaign \<Rightarrow> bool" where
  "can_review_campaign u c \<longleftrightarrow> is_checker u \<and> can_access_campaign u c \<and> \<not> is_own_work u c"

definition can_modify_campaign :: "account \<Rightarrow> campaign \<Rightarrow> bool" where
  "can_modify_campaign u c \<longleftrightarrow> is_superuser u \<or> can_access_campaign u c \<and> (can_author u \<or> is_flipstar u)"

definition visible_campaign :: "account \<Rightarrow> campaign \<Rightarrow> bool" where
  "visible_campaign u c \<longleftrightarrow>
     is_superuser u \<or> is_flipstar u \<or>
     is_organization_user u \<and> acc_organization u \<noteq> None \<and> k_organization c = acc_organization u"

definition get_campaign_for :: "account \<Rightarrow> nat \<Rightarrow> campaigns \<Rightarrow> campaign option" where
  "get_campaign_for u cid db =
     (case db cid of None \<Rightarrow> None | Some c \<Rightarrow> if visible_campaign u c then Some c else None)"

section \<open>Transitions\<close>

datatype workflow_error = W_forbidden | W_incomplete | W_invalid_transition | W_already_decided

definition SUBMITTABLE :: "campaign_status list" where
  "SUBMITTABLE = [K_draft, K_rejected]"

definition REQUIRED_FOR_SUBMISSION :: "string list" where
  "REQUIRED_FOR_SUBMISSION = [''title'', ''description'', ''prize_title'', ''campaign_type'']"

definition require_complete :: "campaign \<Rightarrow> bool" where
  "require_complete c \<longleftrightarrow> list_all (\<lambda>f. k_content c f \<noteq> []) REQUIRED_FOR_SUBMISSION"

definition submit :: "campaign \<Rightarrow> nat \<Rightarrow> account \<Rightarrow> int \<Rightarrow> campaigns \<Rightarrow> workflow_error + campaigns" where
  "submit loaded cid u t db =
     (if \<not> is_maker u then Inl W_forbidden
      else if \<not> can_modify_campaign u loaded then Inl W_forbidden
      else if \<not> require_complete loaded then Inl W_incomplete
      else (let (claimed, db1) = claim_transition k_status
              (\<lambda>c. c\<lparr>k_status := K_submitted, k_submitted_by := Some (acc_id u), k_submitted_at := Some t,
                    k_rejection_reason := [], k_approved_by := None, k_approved_at := None\<rparr>) SUBMITTABLE cid db
            in if claimed then Inr db1 else Inl W_invalid_transition))"

definition approve :: "campaign \<Rightarrow> nat \<Rightarrow> account \<Rightarrow> int \<Rightarrow> campaigns \<Rightarrow> workflow_error + campaigns" where
  "approve loaded cid u t db =
     (if \<not> can_review_campaign u loaded then Inl W_forbidden
      else (let (claimed, db1) = claim_transition k_status
              (\<lambda>c. c\<lparr>k_status := K_approved, k_approved_by := Some (acc_id u), k_approved_at := Some t,
                    k_rejection_reason := []\<rparr>) [K_submitted] cid db
            in if claimed then Inr db1 else Inl W_already_decided))"

definition reject :: "campaign \<Rightarrow> nat \<Rightarrow> account \<Rightarrow> string \<Rightarrow> int \<Rightarrow> campaigns \<Rightarrow> workflow_error + campaigns" where
  "reject loaded cid u reason t db =
     (if \<not> can_review_campaign u loaded then Inl W_forbidden
      else (let (claimed, db1) = claim_transition k_status
              (\<lambda>c. c\<lparr>k_status := K_rejected, k_approved_by := Some (acc_id u), k_approved_at := Some t,
                    k_rejection_reason := strip reason\<rparr>) [K_submitted] cid db
            in if claimed then Inr db1 else Inl W_already_decided))"

definition activate_campaign :: "nat \<Rightarrow> account \<Rightarrow> campaigns \<Rightarrow> workflow_error + campaigns" where
  "activate_campaign cid u db =
     (if \<not> (is_superuser u \<or> is_flipstar u) then Inl W_forbidden
      else (let (claimed, db1) = claim_transition k_status (\<lambda>c. c\<lparr>k_status := K_active\<rparr>) [K_approved] cid db
            in if claimed then Inr db1 else Inl W_invalid_transition))"

record audit =
  au_status :: campaign_status
  au_created_by :: "nat option"
  au_submitted_by :: "nat option"
  au_submitted_at :: "int option"
  au_reviewed_by :: "nat option"
  au_reviewed_at :: "int option"
  au_rejection_reason :: string

definition audit_trail :: "campaign \<Rightarrow> audit" where
  "audit_trail c =
     \<lparr>au_status = k_status c, au_created_by = k_created_by c, au_submitted_by = k_submitted_by c,
      au_submitted_at = k_submitted_at c, au_reviewed_by = k_approved_by c, au_reviewed_at = k_approved_at c,
      au_rejection_reason = k_rejection_reason c\<rparr>"

section \<open>Endpoints\<close>

datatype wf_answer = Http404 | Http403 | Http409 | Http400 | Created_campaign nat | Updated "string list" | Deleted | Moved audit

definition workflow_response :: "workflow_error \<Rightarrow> wf_answer" where
  "workflow_response e = (case e of W_forbidden \<Rightarrow> Http403 | W_incomplete \<Rightarrow> Http400 | _ \<Rightarrow> Http409)"

definition model_default :: "string \<Rightarrow> string" where
  "model_default f =
     (if f = ''campaign_type'' then ''grand'' else if f = ''min_level'' \<or> f = ''winner_count'' then ''1''
      else if f = ''min_followers'' \<or> f = ''min_votes_per_reel'' \<or> f = ''prize_value'' then ''0'' else [])"

definition new_content :: "(string \<times> string) list \<Rightarrow> string \<Rightarrow> string" where
  "new_content form f =
     (if f = ''title'' then strip (case map_of form f of None \<Rightarrow> [] | Some v \<Rightarrow> v)
      else if f \<in> set EDITABLE_FIELDS
      then (case map_of form f of None \<Rightarrow> model_default f | Some v \<Rightarrow> if v = [] then model_default f else v)
      else model_default f)"

definition organization_campaign_create ::
  "account \<Rightarrow> (string \<times> string) list \<Rightarrow> nat \<Rightarrow> campaigns \<Rightarrow> wf_answer \<times> campaigns" where
  "organization_campaign_create u form cid db =
     (if \<not> can_create_campaign u then (Http403, db)
      else if \<not> is_organization_user u then (Http403, db)
      else case organization_for_new_campaign u of
        Inl _ \<Rightarrow> (Http403, db)
      | Inr org \<Rightarrow>
          if new_content form ''title'' = [] then (Http400, db)
          else (Created_campaign cid,
                db(cid \<mapsto> \<lparr>k_organization = org, k_created_by = Some (acc_id u), k_submitted_by = None,
                  k_submitted_at = None, k_approved_by = None, k_approved_at = None, k_rejection_reason = [],
                  k_status = K_draft, k_content = new_content form\<rparr>)))"

definition edited :: "(string \<times> string) list \<Rightarrow> (string \<Rightarrow> string) \<Rightarrow> string \<Rightarrow> string" where
  "edited form old f =
     (if f \<in> set EDITABLE_FIELDS then (case map_of form f of None \<Rightarrow> old f | Some v \<Rightarrow> v) else old f)"

definition save_edit :: "(string \<times> string) list \<Rightarrow> nat \<Rightarrow> campaigns \<Rightarrow> campaigns" where
  "save_edit form cid db =
     (case db cid of None \<Rightarrow> db | Some c \<Rightarrow> db(cid \<mapsto> c\<lparr>k_content := edited form (k_content c)\<rparr>))"

definition organization_campaign_update ::
  "account \<Rightarrow> (string \<times> string) list \<Rightarrow> campaign \<Rightarrow> nat \<Rightarrow> campaigns \<Rightarrow> wf_answer \<times> campaigns" where
  "organization_campaign_update u form loaded cid db =
     (if \<not> can_modify_campaign u loaded then (Http403, db)
      else if k_status loaded \<notin> set EDITABLE_STATUSES then (Http409, db)
      else (Updated (filter (\<lambda>f. map_of form f \<noteq> None) EDITABLE_FIELDS), save_edit form cid db))"

definition organization_campaign_delete :: "account \<Rightarrow> campaign \<Rightarrow> nat \<Rightarrow> campaigns \<Rightarrow> wf_answer \<times> campaigns" where
  "organization_campaign_delete u loaded cid db =
     (if \<not> can_modify_campaign u loaded then (Http403, db)
      else if k_status loaded \<notin> set EDITABLE_STATUSES then (Http409, db)
      else (Deleted, db(cid := None)))"

definition moved :: "nat \<Rightarrow> workflow_error + campaigns \<Rightarrow> campaigns \<Rightarrow> wf_answer \<times> campaigns" where
  "moved cid r db =
     (case r of Inl e \<Rightarrow> (workflow_response e, db)
      | Inr db1 \<Rightarrow> (case db1 cid of None \<Rightarrow> (Http404, db1) | Some c \<Rightarrow> (Moved (audit_trail c), db1)))"

datatype campaign_request =
    R_create "(string \<times> string) list"
  | R_update nat "(string \<times> string) list"
  | R_delete nat
  | R_submit nat
  | R_approve nat
  | R_reject nat string
  | R_activate nat

text \<open>A request that runs on its own: the row it decides on is the row it writes. A new campaign gets a fresh id.\<close>

definition exec_campaign :: "account \<Rightarrow> int \<Rightarrow> nat \<Rightarrow> campaign_request \<Rightarrow> campaigns \<Rightarrow> wf_answer \<times> campaigns" where
  "exec_campaign u t fresh r db =
     (case r of
        R_create form \<Rightarrow> if db fresh = None then organization_campaign_create u form fresh db else (Http409, db)
      | R_update cid form \<Rightarrow>
          (case get_campaign_for u cid db of None \<Rightarrow> (Http404, db) | Some c \<Rightarrow> organization_campaign_update u form c cid db)
      | R_delete cid \<Rightarrow>
          (case get_campaign_for u cid db of None \<Rightarrow> (Http404, db) | Some c \<Rightarrow> organization_campaign_delete u c cid db)
      | R_submit cid \<Rightarrow>
          (case get_campaign_for u cid db of None \<Rightarrow> (Http404, db) | Some c \<Rightarrow> moved cid (submit c cid u t db) db)
      | R_approve cid \<Rightarrow>
          (case get_campaign_for u cid db of None \<Rightarrow> (Http404, db) | Some c \<Rightarrow> moved cid (approve c cid u t db) db)
      | R_reject cid reason \<Rightarrow>
          (case get_campaign_for u cid db of None \<Rightarrow> (Http404, db) | Some c \<Rightarrow> moved cid (reject c cid u reason t db) db)
      | R_activate cid \<Rightarrow>
          (case get_campaign_for u cid db of None \<Rightarrow> (Http404, db) | Some c \<Rightarrow> moved cid (activate_campaign cid u db) db))"

definition request_target :: "campaign_request \<Rightarrow> nat option" where
  "request_target r = (case r of R_create _ \<Rightarrow> None | R_update cid _ \<Rightarrow> Some cid | R_delete cid \<Rightarrow> Some cid
     | R_submit cid \<Rightarrow> Some cid | R_approve cid \<Rightarrow> Some cid | R_reject cid _ \<Rightarrow> Some cid | R_activate cid \<Rightarrow> Some cid)"

text \<open>A history: requests one after another, with the campaign texts as they stood at their last submission.\<close>

record history =
  h_campaigns :: campaigns
  h_submitted :: "nat \<Rightarrow> (string \<Rightarrow> string)"

definition run_campaign :: "account \<times> int \<times> nat \<times> campaign_request \<Rightarrow> history \<Rightarrow> history" where
  "run_campaign e h =
     (case e of (u, t, fresh, r) \<Rightarrow>
        (let db = h_campaigns h; (a, db1) = exec_campaign u t fresh r db
         in \<lparr>h_campaigns = db1,
             h_submitted = (case r of
               R_submit cid \<Rightarrow> (case (a, db cid) of (Moved _, Some c) \<Rightarrow> (h_submitted h)(cid := k_content c) | _ \<Rightarrow> h_submitted h)
             | _ \<Rightarrow> h_submitted h)\<rparr>))"

section \<open>A concrete organization\<close>

definition example_account :: "nat \<Rightarrow> role \<Rightarrow> nat \<Rightarrow> account" where
  "example_account i ro org =
     \<lparr>acc_id = i, is_superuser = False, is_staff = False, acc_realm = Some ORGANIZATION, acc_role = Some ro,
      acc_organization = Some org\<rparr>"

definition example_form :: "(string \<times> string) list" where
  "example_form = [(''title'', ''Dance''), (''description'', ''d''), (''prize_title'', ''p'')]"

definition example_history :: "(account \<times> int \<times> nat \<times> campaign_request) list" where
  "example_history =
     [(example_account 1 MAKER 5, 0, 9, R_create example_form), (example_account 1 MAKER 5, 1, 0, R_submit 9),
      (example_account 2 CHECKER 5, 2, 0, R_approve 9)]"

section \<open>Separation of duties\<close>

definition campaign_ok :: "(string \<Rightarrow> string) \<Rightarrow> campaign \<Rightarrow> bool" where
  "campaign_ok sub c \<longleftrightarrow>
     k_status c \<in> {K_draft, K_submitted, K_approved, K_rejected, K_active} \<and>
     (k_status c \<in> {K_submitted, K_approved, K_active} \<longrightarrow> k_content c = sub \<and> k_submitted_by c \<noteq> None) \<and>
     (k_status c \<in> {K_approved, K_active} \<longrightarrow>
        k_approved_by c \<noteq> None \<and> k_approved_by c \<noteq> k_created_by c \<and> k_approved_by c \<noteq> k_submitted_by c)"

definition history_ok :: "history \<Rightarrow> bool" where
  "history_ok h \<longleftrightarrow> (\<forall>cid c. h_campaigns h cid = Some c \<longrightarrow> campaign_ok (h_submitted h cid) c)"

lemmas claim_simps = claim_transition_def Let_def

lemma get_campaign_Some: "get_campaign_for u cid db = Some c \<longleftrightarrow> db cid = Some c \<and> visible_campaign u c"
  by (auto simp: get_campaign_for_def split: option.splits)

lemma submit_ok:
  assumes "submit c cid u t db = Inr db1" "db cid = Some c"
  shows "db1 = db(cid \<mapsto> c\<lparr>k_status := K_submitted, k_submitted_by := Some (acc_id u), k_submitted_at := Some t,
                    k_rejection_reason := [], k_approved_by := None, k_approved_at := None\<rparr>)"
  using assms by (auto simp: submit_def claim_simps split: if_splits)

lemma approve_ok:
  assumes "approve c cid u t db = Inr db1" "db cid = Some c"
  shows "db1 = db(cid \<mapsto> c\<lparr>k_status := K_approved, k_approved_by := Some (acc_id u), k_approved_at := Some t,
           k_rejection_reason := []\<rparr>) \<and> k_status c = K_submitted \<and> Some (acc_id u) \<notin> {k_created_by c, k_submitted_by c}"
  using assms by (auto simp: approve_def can_review_campaign_def is_own_work_def claim_simps split: if_splits)

lemma reject_ok:
  assumes "reject c cid u reason t db = Inr db1" "db cid = Some c"
  shows "\<exists>c'. db1 = db(cid \<mapsto> c') \<and> k_status c' = K_rejected"
  using assms by (auto simp: reject_def claim_simps split: if_splits)

lemma activate_ok:
  assumes "activate_campaign cid u db = Inr db1" "db cid = Some c"
  shows "db1 = db(cid \<mapsto> c\<lparr>k_status := K_active\<rparr>) \<and> k_status c = K_approved"
  using assms by (auto simp: activate_campaign_def claim_simps split: if_splits)

lemma history_ok_put:
  assumes "history_ok h" and "campaign_ok (sub cid) c'" and "\<And>i. i \<noteq> cid \<Longrightarrow> sub i = h_submitted h i"
  shows "history_ok \<lparr>h_campaigns = (h_campaigns h)(cid \<mapsto> c'), h_submitted = sub\<rparr>"
  using assms by (auto simp: history_ok_def)

lemma run_campaign_simp:
  "run_campaign (u, t, fresh, r) h =
     \<lparr>h_campaigns = snd (exec_campaign u t fresh r (h_campaigns h)),
      h_submitted = (case r of
        R_submit cid \<Rightarrow> (case (fst (exec_campaign u t fresh r (h_campaigns h)), h_campaigns h cid) of
            (Moved _, Some c) \<Rightarrow> (h_submitted h)(cid := k_content c) | _ \<Rightarrow> h_submitted h)
      | _ \<Rightarrow> h_submitted h)\<rparr>"
  by (cases "exec_campaign u t fresh r (h_campaigns h)") (auto simp: run_campaign_def Let_def split: campaign_request.split)

lemma create_cases:
  "snd (organization_campaign_create u form cid db) = db \<or>
   (\<exists>c. snd (organization_campaign_create u form cid db) = db(cid \<mapsto> c) \<and> k_status c = K_draft)"
  by (auto simp: organization_campaign_create_def split: sum.split)

lemma run_campaign_ok:
  assumes ok: "history_ok h"
  shows "history_ok (run_campaign (u, t, fresh, r) h)"
proof -
  have c0: "campaign_ok (h_submitted h cid) c" if "h_campaigns h cid = Some c" for cid c
    using ok that by (auto simp: history_ok_def)
  have same: "history_ok \<lparr>h_campaigns = h_campaigns h, h_submitted = h_submitted h\<rparr>" using ok by (simp add: history_ok_def)
  have keep: "history_ok \<lparr>h_campaigns = (h_campaigns h)(cid \<mapsto> c'), h_submitted = h_submitted h\<rparr>"
    if "campaign_ok (h_submitted h cid) c'" for cid c'
    using ok that by (intro history_ok_put) auto
  show ?thesis
  proof (cases r)
    case (R_create form)
    then show ?thesis using same create_cases [of u form fresh "h_campaigns h"]
      by (auto simp: run_campaign_simp exec_campaign_def campaign_ok_def intro!: keep)
  next
    case (R_update cid form)
    show ?thesis
    proof (cases "get_campaign_for u cid (h_campaigns h)")
      case None
      then show ?thesis using R_update same by (simp add: run_campaign_simp exec_campaign_def)
    next
      case (Some c)
      then have c: "h_campaigns h cid = Some c" by (simp add: get_campaign_Some)
      then show ?thesis using R_update Some same c0 [OF c]
        by (auto simp: run_campaign_simp exec_campaign_def organization_campaign_update_def save_edit_def
            EDITABLE_STATUSES_def campaign_ok_def intro!: keep)
    qed
  next
    case (R_delete cid)
    then show ?thesis using ok
      by (auto simp: run_campaign_simp exec_campaign_def organization_campaign_delete_def history_ok_def split: option.split)
  next
    case (R_submit cid)
    show ?thesis
    proof (cases "get_campaign_for u cid (h_campaigns h)")
      case None
      then show ?thesis using R_submit same by (simp add: run_campaign_simp exec_campaign_def)
    next
      case (Some c)
      then have c: "h_campaigns h cid = Some c" by (simp add: get_campaign_Some)
      show ?thesis
      proof (cases "submit c cid u t (h_campaigns h)")
        case (Inl e)
        then show ?thesis using R_submit Some same
          by (cases e) (simp_all add: run_campaign_simp exec_campaign_def moved_def workflow_response_def)
      next
        case (Inr db1)
        note db1 = submit_ok [OF Inr c]
        show ?thesis using R_submit Some Inr c db1
          by (auto simp: run_campaign_simp exec_campaign_def moved_def campaign_ok_def intro!: history_ok_put [OF ok])
      qed
    qed
  next
    case (R_approve cid)
    show ?thesis
    proof (cases "get_campaign_for u cid (h_campaigns h)")
      case None
      then show ?thesis using R_approve same by (simp add: run_campaign_simp exec_campaign_def)
    next
      case (Some c)
      then have c: "h_campaigns h cid = Some c" by (simp add: get_campaign_Some)
      show ?thesis
      proof (cases "approve c cid u t (h_campaigns h)")
        case (Inl e)
        then show ?thesis using R_approve Some same by (simp add: run_campaign_simp exec_campaign_def moved_def)
      next
        case (Inr db1)
        show ?thesis using R_approve Some Inr approve_ok [OF Inr c] c0 [OF c]
          by (auto simp: run_campaign_simp exec_campaign_def moved_def campaign_ok_def intro!: keep)
      qed
    qed
  next
    case (R_reject cid reason)
    show ?thesis
    proof (cases "get_campaign_for u cid (h_campaigns h)")
      case None
      then show ?thesis using R_reject same by (simp add: run_campaign_simp exec_campaign_def)
    next
      case (Some c)
      then have c: "h_campaigns h cid = Some c" by (simp add: get_campaign_Some)
      show ?thesis
      proof (cases "reject c cid u reason t (h_campaigns h)")
        case (Inl e)
        then show ?thesis using R_reject Some same by (simp add: run_campaign_simp exec_campaign_def moved_def)
      next
        case (Inr db1)
        show ?thesis using R_reject Some Inr reject_ok [OF Inr c]
          by (auto simp: run_campaign_simp exec_campaign_def moved_def campaign_ok_def intro!: keep)
      qed
    qed
  next
    case (R_activate cid)
    show ?thesis
    proof (cases "get_campaign_for u cid (h_campaigns h)")
      case None
      then show ?thesis using R_activate same by (simp add: run_campaign_simp exec_campaign_def)
    next
      case (Some c)
      then have c: "h_campaigns h cid = Some c" by (simp add: get_campaign_Some)
      show ?thesis
      proof (cases "activate_campaign cid u (h_campaigns h)")
        case (Inl e)
        then show ?thesis using R_activate Some same by (simp add: run_campaign_simp exec_campaign_def moved_def)
      next
        case (Inr db1)
        show ?thesis using R_activate Some Inr activate_ok [OF Inr c] c0 [OF c]
          by (auto simp: run_campaign_simp exec_campaign_def moved_def campaign_ok_def intro!: keep)
      qed
    qed
  qed
qed

lemma run_campaigns_ok: "history_ok h \<Longrightarrow> history_ok (fold run_campaign es h)"
  by (induction es arbitrary: h) (auto intro: run_campaign_ok)



section \<open>Isolation\<close>



text \<open>
  The editing endpoint checks the status on the row it read and then writes the changed columns without asking
  for it again: an edit that read a draft can land on a campaign that has been submitted and approved since.
\<close>

lemma stale_edit_changes_approved_campaign:
  "\<exists>draft db. k_status draft = K_draft \<and>
     fst (organization_campaign_update (example_account 1 MAKER 5) [(''title'', ''Other'')] draft 9 db) = Updated [''title''] \<and>
     map_option k_status (db 9) = Some K_approved \<and>
     map_option (\<lambda>c. (k_status c, k_content c ''title''))
       (snd (organization_campaign_update (example_account 1 MAKER 5) [(''title'', ''Other'')] draft 9 db) 9) = Some (K_approved, ''Other'')"
proof -
  let ?e = "\<lparr>h_campaigns = (\<lambda>_. None), h_submitted = (\<lambda>_ _. [])\<rparr>"
  let ?draft = "the (h_campaigns (fold run_campaign (take 1 example_history) ?e) 9)"
  let ?db = "h_campaigns (fold run_campaign example_history ?e)"
  have "k_status ?draft = K_draft" "map_option k_status (?db 9) = Some K_approved"
    "fst (organization_campaign_update (example_account 1 MAKER 5) [(''title'', ''Other'')] ?draft 9 ?db) = Updated [''title'']"
    "map_option (\<lambda>c. (k_status c, k_content c ''title''))
       (snd (organization_campaign_update (example_account 1 MAKER 5) [(''title'', ''Other'')] ?draft 9 ?db) 9) = Some (K_approved, ''Other'')"
    by code_simp+
  then show ?thesis by blast
qed

end
