(* ===== verification/Campaign_Eligibility.thy ===== *)
theory Campaign_Eligibility
  imports Subscription
begin

text \<open>
  Who may compete (\<open>api/services/campaign_eligibility.py\<close>): participation counted in local days, the
  thresholds of the four levels, the months of a season, and the one entry a day. An instant is a number of
  microseconds counted from the proleptic day 0 in UTC; Addis Ababa is three hours ahead all year. The dates
  of a campaign are given by their local calendar fields, as \<open>timezone.localtime\<close> shows them. The calendar is
  that of Python's \<open>datetime\<close>.
\<close>

section \<open>The calendar\<close>

definition is_leap :: "int \<Rightarrow> bool" where
  "is_leap y \<longleftrightarrow> y mod 4 = 0 \<and> (y mod 100 \<noteq> 0 \<or> y mod 400 = 0)"

definition days_in_month :: "int \<Rightarrow> int \<Rightarrow> int" where
  "days_in_month y m = (if m = 2 then (if is_leap y then 29 else 28) else if m \<in> {4, 6, 9, 11} then 30 else 31)"

definition days_before_year :: "int \<Rightarrow> int" where
  "days_before_year y = (y - 1) * 365 + (y - 1) div 4 - (y - 1) div 100 + (y - 1) div 400"

definition days_before_month :: "int \<Rightarrow> int \<Rightarrow> int" where
  "days_before_month y m =
     [0, 31, 59, 90, 120, 151, 181, 212, 243, 273, 304, 334] ! nat (m - 1) + (if m > 2 \<and> is_leap y then 1 else 0)"

record datetime =
  dt_year :: int
  dt_month :: int
  dt_day :: int
  dt_time :: int \<comment> \<open>microseconds of the day\<close>

definition toordinal :: "datetime \<Rightarrow> int" where
  "toordinal d = days_before_year (dt_year d) + days_before_month (dt_year d) (dt_month d) + dt_day d"

definition utc_offset :: int where
  "utc_offset = 3 * one_hour"

definition instant :: "datetime \<Rightarrow> int" where
  "instant d = toordinal d * one_day + dt_time d - utc_offset"

definition valid_datetime :: "datetime \<Rightarrow> bool" where
  "valid_datetime d \<longleftrightarrow> 1 \<le> dt_month d \<and> dt_month d \<le> 12 \<and> 1 \<le> dt_day d \<and> dt_day d \<le> days_in_month (dt_year d) (dt_month d) \<and>
     0 \<le> dt_time d \<and> dt_time d < one_day"

definition month_index :: "datetime \<Rightarrow> int" where
  "month_index d = 12 * dt_year d + dt_month d"

text \<open>Two datetimes of one time zone compare by their fields.\<close>

definition dt_le :: "datetime \<Rightarrow> datetime \<Rightarrow> bool" where
  "dt_le a b \<longleftrightarrow> month_index a < month_index b \<or> month_index a = month_index b \<and>
     (dt_day a < dt_day b \<or> dt_day a = dt_day b \<and> dt_time a \<le> dt_time b)"

section \<open>Local days\<close>

definition local_date :: "int \<Rightarrow> int" where
  "local_date m = (m + utc_offset) div one_day"

text \<open>What \<open>.date()\<close> gives for an instant that was not converted to local time.\<close>

definition utc_date :: "int \<Rightarrow> int" where
  "utc_date m = m div one_day"

definition day_bounds :: "int \<Rightarrow> int \<times> int" where
  "day_bounds day = (day * one_day - utc_offset, day * one_day - utc_offset + one_day)"

definition period_days :: "int option \<Rightarrow> int option \<Rightarrow> int" where
  "period_days start stop =
     (case (start, stop) of (Some s, Some e) \<Rightarrow> max 0 (local_date e - local_date s + 1) | _ \<Rightarrow> 0)"

section \<open>Participation\<close>

record post_score =
  sc_user :: nat
  sc_campaign :: nat
  sc_created_at :: int
  sc_moderation :: string

definition counts :: "nat \<Rightarrow> nat option \<Rightarrow> int option \<Rightarrow> int option \<Rightarrow> post_score \<Rightarrow> bool" where
  "counts user camp start stop p \<longleftrightarrow>
     sc_user p = user \<and> sc_moderation p \<noteq> ''rejected'' \<and>
     (case camp of None \<Rightarrow> True | Some c \<Rightarrow> sc_campaign p = c) \<and>
     (case start of None \<Rightarrow> True | Some s \<Rightarrow> s \<le> sc_created_at p) \<and>
     (case stop of None \<Rightarrow> True | Some e \<Rightarrow> sc_created_at p \<le> e)"

definition participation_days :: "nat option \<Rightarrow> nat option \<Rightarrow> int option \<Rightarrow> int option \<Rightarrow> post_score list \<Rightarrow> int set" where
  "participation_days user camp start stop ps =
     (case user of None \<Rightarrow> {} | Some u \<Rightarrow> set (map (\<lambda>p. local_date (sc_created_at p)) (filter (counts u camp start stop) ps)))"

definition days_posted :: "nat option \<Rightarrow> nat option \<Rightarrow> int option \<Rightarrow> int option \<Rightarrow> post_score list \<Rightarrow> nat" where
  "days_posted user camp start stop ps = card (participation_days user camp start stop ps)"

definition REQUIREMENTS :: "(string \<times> int \<times> int) list" where
  "REQUIREMENTS = [(''daily'', 1, 1), (''weekly'', 5, 7), (''monthly'', 20, 30)]"

definition GRAND_MONTHS_REQUIRED :: int where "GRAND_MONTHS_REQUIRED = 4"
definition GRAND_MONTHS_TOTAL :: int where "GRAND_MONTHS_TOTAL = 6"
definition MAX_ENTRIES_PER_DAY :: nat where "MAX_ENTRIES_PER_DAY = 1"

record eligibility =
  el_level :: string
  el_posted :: int
  el_required :: int
  el_in_period :: int

definition eligible :: "eligibility \<Rightarrow> bool" where
  "eligible e \<longleftrightarrow> el_required e \<le> el_posted e"

definition days_remaining :: "eligibility \<Rightarrow> int" where
  "days_remaining e = max 0 (el_required e - el_posted e)"

definition eligibility_for ::
  "nat option \<Rightarrow> string \<Rightarrow> int option \<Rightarrow> int option \<Rightarrow> nat option \<Rightarrow> post_score list \<Rightarrow> eligibility result" where
  "eligibility_for user level start stop camp ps =
     (case map_of REQUIREMENTS level of
        None \<Rightarrow> Inl (ValueError (''Unknown campaign level: '' @ level, []))
      | Some (required, nominal) \<Rightarrow>
          (let actual = period_days start stop;
               in_period = (if actual \<noteq> 0 then min nominal actual else nominal)
           in Inr \<lparr>el_level = level, el_posted = int (days_posted user camp start stop ps),
                   el_required = min required in_period, el_in_period = in_period\<rparr>))"

section \<open>The months of a season\<close>

definition following_month :: "datetime \<Rightarrow> datetime" where
  "following_month c =
     (if dt_month c = 12 then \<lparr>dt_year = dt_year c + 1, dt_month = 1, dt_day = 1, dt_time = 0\<rparr>
      else \<lparr>dt_year = dt_year c, dt_month = dt_month c + 1, dt_day = 1, dt_time = 0\<rparr>)"

lemma month_index_following [simp]: "month_index (following_month c) = month_index c + 1"
  "month_index (c\<lparr>dt_day := d\<rparr>) = month_index c"
  by (simp_all add: month_index_def following_month_def)

lemma following_first [simp]: "dt_day (following_month c) = 1" "dt_time (following_month c) = 0"
  by (simp_all add: following_month_def)

text \<open>The \<open>while\<close> loop; a period is kept by its first and last instant.\<close>

function months_from :: "datetime \<Rightarrow> datetime \<Rightarrow> (int \<times> int) list" where
  "months_from cursor stop =
     (if dt_le cursor stop
      then (instant cursor, min (instant (following_month cursor) - 1) (instant stop)) # months_from (following_month cursor) stop
      else [])"
  by pat_completeness auto

termination months_from
  by (relation "measure (\<lambda>(cursor, stop). nat (month_index stop + 1 - month_index cursor))") (auto simp: dt_le_def)

declare months_from.simps [simp del]

definition month_periods :: "datetime option \<Rightarrow> datetime option \<Rightarrow> (int \<times> int) list" where
  "month_periods start stop = (case (start, stop) of (Some s, Some e) \<Rightarrow> months_from s e | _ \<Rightarrow> [])"

definition qualifies_in :: "nat option \<Rightarrow> post_score list \<Rightarrow> int \<times> int \<Rightarrow> bool" where
  "qualifies_in user ps p =
     (case eligibility_for user ''monthly'' (Some (fst p)) (Some (snd p)) None ps of Inl _ \<Rightarrow> False | Inr e \<Rightarrow> eligible e)"

definition grand_final_eligibility :: "nat option \<Rightarrow> (int \<times> int) list \<Rightarrow> post_score list \<Rightarrow> eligibility" where
  "grand_final_eligibility user periods ps =
     (let months = (if periods = [] then GRAND_MONTHS_TOTAL else int (length periods))
      in \<lparr>el_level = ''grand'', el_posted = int (length (filter (qualifies_in user ps) periods)),
          el_required = min GRAND_MONTHS_REQUIRED months, el_in_period = months\<rparr>)"

record competition =
  cp_id :: nat
  cp_type :: string
  cp_start :: "datetime option"
  cp_deadline :: "datetime option"

definition campaign_eligibility :: "nat option \<Rightarrow> competition \<Rightarrow> post_score list \<Rightarrow> eligibility result" where
  "campaign_eligibility user c ps =
     (if cp_type c = ''grand'' then Inr (grand_final_eligibility user (month_periods (cp_start c) (cp_deadline c)) ps)
      else eligibility_for user (cp_type c) (map_option instant (cp_start c)) (map_option instant (cp_deadline c))
             (Some (cp_id c)) ps)"

section \<open>One entry a day\<close>

definition entries_today :: "nat \<Rightarrow> nat \<Rightarrow> int \<Rightarrow> post_score list \<Rightarrow> nat" where
  "entries_today user camp t ps =
     (let (start, stop) = day_bounds (local_date t)
      in length (filter (\<lambda>p. sc_user p = user \<and> sc_campaign p = camp \<and> start \<le> sc_created_at p \<and> sc_created_at p < stop \<and>
           sc_moderation p \<noteq> ''rejected'') ps))"

definition can_enter_today :: "nat \<Rightarrow> nat \<Rightarrow> int \<Rightarrow> post_score list \<Rightarrow> bool" where
  "can_enter_today user camp t ps \<longleftrightarrow> entries_today user camp t ps < MAX_ENTRIES_PER_DAY"

definition daily_entry_refusal :: "nat \<Rightarrow> nat \<Rightarrow> int \<Rightarrow> post_score list \<Rightarrow> (nat \<times> nat) option" where
  "daily_entry_refusal user camp t ps =
     (let used = entries_today user camp t ps in if used < MAX_ENTRIES_PER_DAY then None else Some (used, MAX_ENTRIES_PER_DAY))"

section \<open>The calendar in order\<close>

lemma one_day_pos [simp]: "0 < one_day"
  by (simp add: one_day_def one_hour_def)

lemma div_pred:
  assumes "1 < (n::int)"
  shows "y div n = (y - 1) div n + (if y mod n = 0 then 1 else 0)"
proof -
  define q r where "q = y div n" and "r = y mod n"
  then have y: "y = q * n + r" "0 \<le> r" "r < n" using assms by auto
  show ?thesis
  proof (cases "r = 0")
    case True
    then have "y - 1 = (n - 1) + (q - 1) * n" using y by (simp add: algebra_simps)
    moreover have "(n - 1) div n = 0" using assms by (intro div_pos_pos_trivial) auto
    ultimately have "(y - 1) div n = q - 1" using assms by (metis add_0 div_mult_self1 add.commute less_numeral_extra(3) order_less_trans zero_less_one)
    then show ?thesis using True r_def q_def by simp
  next
    case False
    then have "y - 1 = (r - 1) + q * n" using y by simp
    moreover have "(r - 1) div n = 0" using y False by (intro div_pos_pos_trivial) auto
    ultimately have "(y - 1) div n = q" using assms by (metis add_0 div_mult_self1 add.commute less_numeral_extra(3) order_less_trans zero_less_one)
    then show ?thesis using False r_def q_def by simp
  qed
qed

lemma year_length: "days_before_year (y + 1) = days_before_year y + (if is_leap y then 366 else 365)"
proof -
  have a: "(1::int) < 4" and b: "(1::int) < 100" and c: "(1::int) < 400" by simp_all
  note d = div_pred [OF a, of y] div_pred [OF b, of y] div_pred [OF c, of y]
  have "y mod 100 mod 4 = y mod 4" "y mod 400 mod 100 = y mod 100" by (simp_all add: mod_mod_cancel)
  then have sub: "y mod 100 = 0 \<longrightarrow> y mod 4 = 0" "y mod 400 = 0 \<longrightarrow> y mod 100 = 0" by auto
  then have "is_leap y \<longleftrightarrow> y mod 400 = 0 \<or> y mod 4 = 0 \<and> y mod 100 \<noteq> 0" unfolding is_leap_def by argo
  with sub show ?thesis unfolding days_before_year_def add_diff_cancel_right' using d by (smt (verit))
qed

lemma month_cases:
  assumes "1 \<le> (m::int)" "m \<le> 12"
  obtains "m = 1" | "m = 2" | "m = 3" | "m = 4" | "m = 5" | "m = 6" | "m = 7" | "m = 8" | "m = 9" | "m = 10" | "m = 11" | "m = 12"
  using assms by (smt (verit))

lemma month_length:
  assumes "1 \<le> m" "m < 12"
  shows "days_before_month y (m + 1) = days_before_month y m + days_in_month y m"
  by (rule month_cases [of m]) (use assms in \<open>auto simp: days_before_month_def days_in_month_def\<close>)

lemma days_in_month_pos: "28 \<le> days_in_month y m"
  by (simp add: days_in_month_def)

lemma following_ordinal:
  assumes "valid_datetime c"
  shows "toordinal (following_month c) = toordinal (c\<lparr>dt_day := 1\<rparr>) + days_in_month (dt_year c) (dt_month c)"
proof (cases "dt_month c = 12")
  case True
  then show ?thesis using year_length [of "dt_year c"]
    by (auto simp: toordinal_def following_month_def days_before_month_def days_in_month_def)
next
  case False
  then show ?thesis using assms month_length [of "dt_month c" "dt_year c"]
    by (simp add: toordinal_def following_month_def valid_datetime_def)
qed

text \<open>The first day of the month with a given index, and the months in order.\<close>

definition first_ordinal :: "int \<Rightarrow> int" where
  "first_ordinal k = days_before_year ((k - 1) div 12) + days_before_month ((k - 1) div 12) ((k - 1) mod 12 + 1) + 1"

lemma first_ordinal_of:
  assumes "valid_datetime d"
  shows "toordinal d = first_ordinal (month_index d) + (dt_day d - 1)"
proof -
  from assms have "1 \<le> dt_month d" "dt_month d \<le> 12" by (auto simp: valid_datetime_def)
  then have "(dt_month d - 1) div 12 = 0" "(dt_month d - 1) mod 12 = dt_month d - 1" by simp_all
  moreover have "12 * dt_year d + dt_month d - 1 = dt_month d - 1 + dt_year d * 12" by simp
  ultimately have "(12 * dt_year d + dt_month d - 1) div 12 = dt_year d" "(12 * dt_year d + dt_month d - 1) mod 12 = dt_month d - 1"
    by (simp_all only: div_mult_self1 mod_mult_self1)
  then show ?thesis by (simp add: toordinal_def first_ordinal_def month_index_def)
qed

lemma first_ordinal_following:
  assumes "valid_datetime d"
  shows "first_ordinal (month_index d + 1) = first_ordinal (month_index d) + days_in_month (dt_year d) (dt_month d)"
proof -
  have "valid_datetime (following_month d)" "valid_datetime (d\<lparr>dt_day := 1\<rparr>)"
    using assms days_in_month_pos by (auto simp: valid_datetime_def following_month_def days_in_month_def)
  from this [THEN first_ordinal_of] following_ordinal [OF assms] show ?thesis by simp
qed

lemma first_ordinal_step: "first_ordinal k < first_ordinal (k + 1)"
proof -
  define d where "d = \<lparr>dt_year = (k - 1) div 12, dt_month = (k - 1) mod 12 + 1, dt_day = 1, dt_time = 0\<rparr>"
  have "valid_datetime d" using days_in_month_pos [of "(k - 1) div 12" "(k - 1) mod 12 + 1"] pos_mod_bound [of 12 "k - 1"]
    by (auto simp: d_def valid_datetime_def)
  moreover have "month_index d = k" by (simp add: d_def month_index_def)
  ultimately show ?thesis
    using first_ordinal_following [of d] days_in_month_pos [of "dt_year d" "dt_month d"] by simp
qed

lemma first_ordinal_mono: "j \<le> k \<Longrightarrow> first_ordinal j \<le> first_ordinal k"
proof (induction rule: int_ge_induct)
  case (step k)
  then show ?case using first_ordinal_step [of k] by linarith
qed simp

lemma later_month_later_day:
  assumes "valid_datetime a" "valid_datetime b" "month_index a < month_index b"
  shows "toordinal a < toordinal b"
  using assms first_ordinal_of first_ordinal_following [of a] first_ordinal_mono [of "month_index a + 1" "month_index b"]
  by (auto simp: valid_datetime_def)

lemma earlier_day_earlier_instant:
  assumes "valid_datetime a" "valid_datetime b" "toordinal a < toordinal b"
  shows "instant a < instant b"
proof -
  have "(toordinal a + 1) * one_day \<le> toordinal b * one_day" using assms
    by (intro mult_right_mono) (auto simp: one_day_def one_hour_def)
  then show ?thesis using assms by (auto simp: instant_def valid_datetime_def algebra_simps)
qed

lemma dt_le_instant:
  assumes "valid_datetime a" "valid_datetime b"
  shows "dt_le a b \<longleftrightarrow> instant a \<le> instant b"
proof -
  consider "month_index a < month_index b" | "month_index b < month_index a"
    | "month_index a = month_index b" "dt_day a < dt_day b" | "month_index a = month_index b" "dt_day b < dt_day a"
    | "month_index a = month_index b" "dt_day a = dt_day b" by linarith
  then show ?thesis
    using assms earlier_day_earlier_instant [OF assms] earlier_day_earlier_instant [OF assms(2,1)]
      later_month_later_day [OF assms] later_month_later_day [OF assms(2,1)] first_ordinal_of [OF assms(1)] first_ordinal_of [OF assms(2)]
    by cases (auto simp: dt_le_def instant_def)
qed

lemma valid_following: "valid_datetime c \<Longrightarrow> valid_datetime (following_month c)"
  using days_in_month_pos by (auto simp: valid_datetime_def following_month_def days_in_month_def)

lemma instant_following: "valid_datetime c \<Longrightarrow> instant c < instant (following_month c)"
  by (intro earlier_day_earlier_instant later_month_later_day) (auto intro: valid_following)

section \<open>The months of a season partition it\<close>

definition in_window :: "int \<Rightarrow> int \<times> int \<Rightarrow> bool" where
  "in_window t p \<longleftrightarrow> fst p \<le> t \<and> t \<le> snd p"

lemma months_partition:
  assumes "valid_datetime s" "valid_datetime e"
  shows "length (filter (in_window t) (months_from s e)) = (if instant s \<le> t \<and> t \<le> instant e then 1 else 0)"
  using assms
proof (induction s e rule: months_from.induct)
  case (1 c e)
  note lt = instant_following [OF 1(2)]
  show ?case
  proof (cases "dt_le c e")
    case True
    note le = dt_le_instant [OF 1(2,3), THEN iffD1, OF True]
    let ?p = "(instant c, min (instant (following_month c) - 1) (instant e))"
    have "months_from c e = ?p # months_from (following_month c) e" using True by (subst months_from.simps) simp
    then have "length (filter (in_window t) (months_from c e)) =
        (if in_window t ?p then 1 else 0) + (if instant (following_month c) \<le> t \<and> t \<le> instant e then 1 else 0)"
      using 1(1) [OF True valid_following [OF 1(2)] 1(3)] by simp
    moreover have "in_window t ?p \<longleftrightarrow> instant c \<le> t \<and> t < instant (following_month c) \<and> t \<le> instant e"
      by (auto simp: in_window_def)
    ultimately show ?thesis using lt le by auto
  next
    case False
    then show ?thesis using dt_le_instant [OF 1(2,3)] by (subst months_from.simps) auto
  qed
qed

lemma months_number:
  assumes "valid_datetime s" "valid_datetime e"
  shows "int (length (months_from s e)) = (if instant s \<le> instant e then month_index e - month_index s + 1 else 0)"
  using assms
proof (induction s e rule: months_from.induct)
  case (1 c e)
  note ord = dt_le_instant [OF 1(2,3)] and ord' = dt_le_instant [OF valid_following [OF 1(2)] 1(3)]
  show ?case
  proof (cases "dt_le c e")
    case True
    have "\<not> dt_le (following_month c) e \<Longrightarrow> month_index e = month_index c"
      using True 1(3) by (auto simp: dt_le_def valid_datetime_def)
    moreover have "months_from c e = (instant c, min (instant (following_month c) - 1) (instant e)) # months_from (following_month c) e"
      using True by (subst months_from.simps) simp
    ultimately show ?thesis using 1(1) [OF True valid_following [OF 1(2)] 1(3)] True ord ord'
      by (cases "dt_le (following_month c) e") (auto simp: month_index_following)
  next
    case False
    then show ?thesis using ord by (subst months_from.simps) auto
  qed
qed

text \<open>The months of a season. For a campaign with valid dates, the loop over the calendar ends, gives one period for
  every calendar month from that of the start to that of the deadline, and the periods divide the campaign: every
  moment from its start to its deadline lies in exactly one of them, and no other moment lies in any.
\<close>
theorem season_months_partition:
  assumes "valid_datetime s" "valid_datetime e" "instant s \<le> instant e"
  shows "int (length (month_periods (Some s) (Some e))) = month_index e - month_index s + 1 \<and>
    (\<forall>t. length (filter (in_window t) (month_periods (Some s) (Some e))) = (if instant s \<le> t \<and> t \<le> instant e then 1 else 0))"
  using assms months_number [of s e] months_partition [of s e] by (simp add: month_periods_def)

definition season_start :: datetime where
  "season_start = \<lparr>dt_year = 2025, dt_month = 11, dt_day = 10, dt_time = 0\<rparr>"
definition season_end :: datetime where
  "season_end = \<lparr>dt_year = 2026, dt_month = 2, dt_day = 28, dt_time = 5\<rparr>"

lemmas season_defs = season_start_def season_end_def valid_datetime_def instant_def toordinal_def days_before_year_def
  days_before_month_def days_in_month_def is_leap_def utc_offset_def one_day_def one_hour_def month_index_def

theorem season_months_partition_witness:
  "length (month_periods (Some season_start) (Some season_end)) = 4 \<and>
   length (filter (in_window (instant season_end)) (month_periods (Some season_start) (Some season_end))) = 1"
  using season_months_partition [of season_start season_end] by (simp add: season_defs)

section \<open>Whoever posts every day qualifies\<close>

lemma local_date_mono: "s \<le> t \<Longrightarrow> local_date s \<le> local_date t"
  by (simp add: local_date_def zdiv_mono1)

lemma participation_finite: "finite (participation_days user camp start stop ps)"
  by (auto simp: participation_days_def split: option.split)

lemma participation_within:
  "participation_days user camp (Some s) (Some e) ps \<subseteq> {local_date s..local_date e}"
proof
  fix d assume "d \<in> participation_days user camp (Some s) (Some e) ps"
  then obtain u p where "counts u camp (Some s) (Some e) p" and d: "d = local_date (sc_created_at p)"
    by (cases user) (auto simp: participation_days_def)
  then have "s \<le> sc_created_at p" "sc_created_at p \<le> e" by (simp_all add: counts_def)
  then show "d \<in> {local_date s..local_date e}" using d by (auto intro: local_date_mono)
qed

lemma posted_at_most:
  assumes "s \<le> e"
  shows "int (days_posted user camp (Some s) (Some e) ps) \<le> period_days (Some s) (Some e)"
proof -
  have "card (participation_days user camp (Some s) (Some e) ps) \<le> card {local_date s..local_date e}"
    by (intro card_mono participation_within) simp
  then show ?thesis using local_date_mono [OF assms] by (simp add: period_days_def days_posted_def)
qed

text \<open>The requirement of a level can always be met. For a campaign that starts before its deadline, the days counted
  never exceed the local days of the campaign, the days required never do either, and a subscriber with an entry
  that was not rejected on each of those days is eligible; an unknown level raises instead.
\<close>
theorem daily_poster_is_eligible:
  assumes "s \<le> e"
  shows "case eligibility_for (Some u) level (Some s) (Some e) camp ps of
      Inl x \<Rightarrow> level \<notin> {''daily'', ''weekly'', ''monthly''}
    | Inr el \<Rightarrow> level \<in> {''daily'', ''weekly'', ''monthly''} \<and>
        el_posted el \<le> local_date e - local_date s + 1 \<and> 1 \<le> el_required el \<and> el_required el \<le> local_date e - local_date s + 1 \<and>
        ((\<forall>d. local_date s \<le> d \<and> d \<le> local_date e \<longrightarrow>
            (\<exists>p \<in> set ps. counts u camp (Some s) (Some e) p \<and> local_date (sc_created_at p) = d)) \<longrightarrow> eligible el)"
proof -
  have days: "period_days (Some s) (Some e) = local_date e - local_date s + 1" "0 < period_days (Some s) (Some e)"
    using local_date_mono [OF assms] by (auto simp: period_days_def)
  have every: "int (days_posted (Some u) camp (Some s) (Some e) ps) = period_days (Some s) (Some e)"
    if "\<forall>d. local_date s \<le> d \<and> d \<le> local_date e \<longrightarrow>
      (\<exists>p \<in> set ps. counts u camp (Some s) (Some e) p \<and> local_date (sc_created_at p) = d)"
  proof -
    have "{local_date s..local_date e} \<subseteq> participation_days (Some u) camp (Some s) (Some e) ps"
    proof
      fix d assume "d \<in> {local_date s..local_date e}"
      with that obtain p where "p \<in> set ps" "counts u camp (Some s) (Some e) p" "local_date (sc_created_at p) = d" by auto
      then show "d \<in> participation_days (Some u) camp (Some s) (Some e) ps" by (auto simp: participation_days_def)
    qed
    with participation_within [of "Some u" camp s e ps]
    have "participation_days (Some u) camp (Some s) (Some e) ps = {local_date s..local_date e}" by blast
    then show ?thesis using days by (simp add: days_posted_def)
  qed
  show ?thesis using posted_at_most [OF assms, of "Some u" camp ps] every days
    unfolding eligibility_for_def by (simp add: REQUIREMENTS_def eligible_def Let_def min.coboundedI2)
qed

definition two_posts :: "post_score list" where
  "two_posts = [\<lparr>sc_user = 7, sc_campaign = 1, sc_created_at = 5, sc_moderation = ''approved''\<rparr>,
                \<lparr>sc_user = 7, sc_campaign = 1, sc_created_at = 3 + one_day, sc_moderation = ''pending''\<rparr>]"

theorem daily_poster_is_eligible_witness:
  "case eligibility_for (Some 7) ''weekly'' (Some 0) (Some (9 + one_day)) (Some 1) two_posts of
     Inl _ \<Rightarrow> False | Inr el \<Rightarrow> eligible el \<and> el_required el = 2"
proof -
  have "\<exists>p \<in> set two_posts. counts 7 (Some 1) (Some 0) (Some (9 + one_day)) p \<and> local_date (sc_created_at p) = d"
    if "local_date 0 \<le> d" "d \<le> local_date (9 + one_day)" for d
  proof -
    from that have "d = 0 \<or> d = 1" by (auto simp: local_date_def utc_offset_def one_day_def one_hour_def)
    then show ?thesis by (auto simp: two_posts_def counts_def local_date_def utc_offset_def one_day_def one_hour_def)
  qed
  moreover have "(0::int) \<le> 9 + one_day" by (simp add: one_day_def one_hour_def)
  ultimately show ?thesis
    using daily_poster_is_eligible [where s = 0 and e = "9 + one_day" and u = 7 and level = "''weekly''" and camp = "Some 1" and ps = two_posts]
    by (auto simp: eligibility_for_def REQUIREMENTS_def period_days_def local_date_def utc_offset_def one_day_def one_hour_def
        Let_def split: sum.splits)
qed

end
