(* ===== verification/Boost.thy ===== *)
theory Boost
  imports Campaign_Eligibility
begin

text \<open>
  Boosting a post: the products of \<open>api/services/boost_tiers.py\<close>, the tables of \<open>api/models/boost.py\<close>, the
  endpoints of \<open>api/views/boost.py\<close> with \<open>boost_post\<close> of \<open>api/views/contest.py\<close>, the expiry task of
  \<open>api/tasks/boost.py\<close>, and what the feeds and the serializer call a boosted post. Amounts in decimal columns
  with two places are counted in hundredths. A row is stored under its number, rows are in order of creation.
  Where the code works on a row it loaded earlier, the loaded row is an argument.
\<close>

section \<open>Products\<close>

definition TRENDING :: string where "TRENDING = ''trending''"
definition FEED :: string where "FEED = ''feed''"
definition EVERYWHERE :: string where "EVERYWHERE = ''everywhere''"

definition PLACEMENT_LABELS :: "(string \<times> string) list" where
  "PLACEMENT_LABELS =
     [(TRENDING, ''Top of Trending''), (FEED, ''Top of your followers' feed''),
      (EVERYWHERE, ''Top of Trending and the feed'')]"

record boost_tier =
  tier_key :: string
  tier_label :: string
  tier_coins :: int
  tier_hours :: int
  tier_placement :: string
  tier_guaranteed :: "int option"

definition has_guarantee :: "boost_tier \<Rightarrow> bool" where
  "has_guarantee t \<longleftrightarrow> tier_guaranteed t \<noteq> None \<and> tier_guaranteed t \<noteq> Some 0"

text \<open>\<open>as_dict\<close>: the payload, with the guarantee absent where there is none.\<close>

definition as_dict :: "boost_tier \<Rightarrow> (boost_tier \<times> string \<times> int option)" where
  "as_dict t =
     (t\<lparr>tier_guaranteed := None\<rparr>,
      (case map_of PLACEMENT_LABELS (tier_placement t) of Some l \<Rightarrow> l | None \<Rightarrow> tier_placement t),
      (if has_guarantee t then tier_guaranteed t else None))"

definition VIRAL_WINDOW_HOURS :: int where "VIRAL_WINDOW_HOURS = 24"

definition TIERS :: "(string \<times> boost_tier) list" where
  "TIERS =
     [(''standard'', \<lparr>tier_key = ''standard'', tier_label = ''Standard'', tier_coins = 50, tier_hours = 12,
         tier_placement = TRENDING, tier_guaranteed = None\<rparr>),
      (''premium'', \<lparr>tier_key = ''premium'', tier_label = ''Premium'', tier_coins = 100, tier_hours = 24,
         tier_placement = FEED, tier_guaranteed = None\<rparr>),
      (''viral'', \<lparr>tier_key = ''viral'', tier_label = ''Viral'', tier_coins = 1000, tier_hours = VIRAL_WINDOW_HOURS,
         tier_placement = EVERYWHERE, tier_guaranteed = Some 5000\<rparr>)]"

definition tier_for :: "string \<Rightarrow> boost_tier result" where
  "tier_for key = of_option (ValueError (''Unknown boost type: '' @ key, [])) (map_of TIERS (lower (strip key)))"

definition tier_list :: "(boost_tier \<times> string \<times> int option) list" where
  "tier_list = map (as_dict \<circ> snd) TIERS"

definition placements_for_feed :: "string \<Rightarrow> string list" where
  "placements_for_feed feed =
     (if feed = TRENDING then [TRENDING, EVERYWHERE]
      else if feed = FEED then [FEED, EVERYWHERE]
      else [TRENDING, FEED, EVERYWHERE])"

section \<open>Configuration and hourly prices\<close>

record boost_config =
  base_hourly_rate :: int \<comment> \<open>hundredths of a coin\<close>
  discount_6hr :: int
  discount_12hr :: int
  discount_24hr :: int
  discount_3day :: int
  discount_7day :: int
  base_impression_rate :: int
  platform_fee_percent :: int
  pacing_tolerance :: int \<comment> \<open>hundredths\<close>
  frequency_cap_hours :: int
  max_daily_boosts_per_user :: int
  max_active_boosts_per_post :: int
  premium_targeting_surcharge :: int
  cancellation_fee_percent :: int

definition default_boost_config :: boost_config where
  "default_boost_config =
     \<lparr>base_hourly_rate = 5000, discount_6hr = 17, discount_12hr = 33, discount_24hr = 42, discount_3day = 56,
      discount_7day = 71, base_impression_rate = 10, platform_fee_percent = 10, pacing_tolerance = 120,
      frequency_cap_hours = 12, max_daily_boosts_per_user = 5, max_active_boosts_per_post = 3,
      premium_targeting_surcharge = 20, cancellation_fee_percent = 10\<rparr>"

definition duration_discount :: "boost_config \<Rightarrow> int \<Rightarrow> int" where
  "duration_discount c h =
     (if h = 6 then discount_6hr c else if h = 12 then discount_12hr c else if h = 24 then discount_24hr c
      else if h = 72 then discount_3day c else if h = 168 then discount_7day c else 0)"

definition of_hundredths :: "int \<Rightarrow> rat" where
  "of_hundredths n = of_int n / 100"

definition percent :: "int \<Rightarrow> rat" where
  "percent p = dec_round (of_int p / 100)"

text \<open>\<open>quantize(Decimal('0.01'))\<close>; the result must not need more than 28 digits.\<close>

definition quantize2 :: "rat \<Rightarrow> int result" where
  "quantize2 q =
     (let n = half_even (q * 100) in if \<bar>n\<bar> < 10 ^ 28 then Inr n else Inl (ArithmeticError ''InvalidOperation''))"

definition exact_cost :: "boost_config \<Rightarrow> int \<Rightarrow> bool \<Rightarrow> rat" where
  "exact_cost c h premium =
     (let base_cost = dec_round (of_hundredths (base_hourly_rate c) * of_int h);
          discounted = dec_round (base_cost * dec_round (1 - percent (duration_discount c h)));
          targeted = (if premium then dec_round (discounted * dec_round (1 + percent (premium_targeting_surcharge c)))
                      else discounted)
      in dec_round (targeted * dec_round (1 + percent (platform_fee_percent c))))"

definition calculate_cost :: "boost_config \<Rightarrow> int \<Rightarrow> bool \<Rightarrow> int result" where
  "calculate_cost c h premium = quantize2 (exact_cost c h premium)"

text \<open>\<open>int(x)\<close> of a decimal cuts towards zero.\<close>

definition trunc :: "rat \<Rightarrow> int" where
  "trunc q = (if q < 0 then - \<lfloor>- q\<rfloor> else \<lfloor>q\<rfloor>)"

definition get_expected_impressions :: "boost_config \<Rightarrow> rat \<Rightarrow> int" where
  "get_expected_impressions c cost = trunc (dec_round (cost * of_int (base_impression_rate c)))"

section \<open>Rows\<close>

datatype boost_status = B_active | B_paused | B_completed | B_cancelled | B_exhausted | B_undelivered

record boost_campaign =
  bst_user :: nat
  bst_reel :: nat
  boost_type :: string
  placement :: string
  guaranteed_impressions :: "int option"
  duration_hours :: int
  coins_spent :: int \<comment> \<open>hundredths\<close>
  coins_remaining :: int \<comment> \<open>hundredths\<close>
  start_time :: int
  end_time :: int
  expected_impressions :: int
  impressions_served :: int
  engagement_count :: int
  bst_status :: boost_status
  target_gender :: "string option"
  target_age_min :: "int option"
  target_age_max :: "int option"
  target_location :: string
  hourly_budget :: int \<comment> \<open>hundredths\<close>
  cancelled_at :: "int option"
  refund_amount :: int \<comment> \<open>hundredths\<close>
  refunded_at :: "int option"

record boost_reel =
  br_owner :: nat
  br_hidden :: bool
  is_boosted :: bool
  active_boost_campaign :: "nat option"
  total_boost_impressions :: int
  total_boost_engagements :: int

record boost_impression =
  im_campaign :: nat
  im_viewer :: nat
  viewed_at :: int

record boost_db = sub_db +
  boost_configs :: "boost_config option"
  boosts :: "boost_campaign list"
  boost_reels :: "nat \<Rightarrow> boost_reel option"
  impressions :: "boost_impression list"
  boost_engagements :: "(nat \<times> nat \<times> string) list"
  follows :: "nat \<Rightarrow> nat \<Rightarrow> bool"

definition or_default :: "'b \<Rightarrow> 'b option \<Rightarrow> 'b" where
  "or_default d x = (case x of None \<Rightarrow> d | Some v \<Rightarrow> v)"

text \<open>A decimal column of ten digits, two of them after the point: the value is rounded when it is stored.\<close>

definition decimal_10_2 :: "rat \<Rightarrow> int result" where
  "decimal_10_2 q =
     (let n = half_even (q * 100) in if \<bar>n\<bar> < 10 ^ 10 then Inr n else Inl (ArithmeticError ''InvalidOperation''))"

text \<open>The partial unique index \<open>one_active_tier_boost_per_reel\<close>.\<close>

definition live_tier :: "boost_campaign \<Rightarrow> bool" where
  "live_tier c \<longleftrightarrow> bst_status c = B_active \<and> boost_type c \<noteq> ''custom''"

definition boost_collides :: "boost_campaign \<Rightarrow> boost_campaign list \<Rightarrow> bool" where
  "boost_collides c rows \<longleftrightarrow> live_tier c \<and> list_ex (\<lambda>d. live_tier d \<and> bst_reel d = bst_reel c) rows"

definition boost_fits :: "boost_campaign \<Rightarrow> bool" where
  "boost_fits c \<longleftrightarrow>
     fits_integer (duration_hours c) \<and> fits_integer (expected_impressions c) \<and> fits_integer (impressions_served c) \<and>
     fits_integer (engagement_count c) \<and> length (or_default [] (target_gender c)) \<le> 10 \<and>
     fits_integer (or_default 0 (target_age_min c)) \<and> fits_integer (or_default 0 (target_age_max c)) \<and>
     length (target_location c) \<le> 100"

definition insert_boost :: "boost_campaign \<Rightarrow> 'a boost_db_scheme \<Rightarrow> (nat \<times> 'a boost_db_scheme) result" where
  "insert_boost c db =
     (if \<not> boost_fits c then Inl DataError
      else if boost_collides c (boosts db) then Inl (IntegrityError ''one_active_tier_boost_per_reel'')
      else Inr (length (boosts db), db\<lparr>boosts := boosts db @ [c]\<rparr>))"

definition others :: "nat \<Rightarrow> 'b list \<Rightarrow> 'b list" where
  "others i xs = take i xs @ drop (Suc i) xs"

text \<open>\<open>campaign.save()\<close> writes every column of the row the request holds.\<close>

definition save_boost :: "nat \<Rightarrow> boost_campaign \<Rightarrow> 'a boost_db_scheme \<Rightarrow> 'a boost_db_scheme result" where
  "save_boost i c db =
     (if \<not> boost_fits c then Inl DataError
      else if boost_collides c (others i (boosts db)) then Inl (IntegrityError ''one_active_tier_boost_per_reel'')
      else Inr (db\<lparr>boosts := (boosts db)[i := c]\<rparr>))"

definition boost_is_active :: "int \<Rightarrow> boost_campaign \<Rightarrow> bool" where
  "boost_is_active t c \<longleftrightarrow> bst_status c = B_active \<and> t < end_time c \<and> 0 < coins_remaining c"

definition get_progress_percent :: "boost_campaign \<Rightarrow> int" where
  "get_progress_percent c =
     (if coins_spent c = 0 then 0
      else (let sum = coins_spent c + coins_remaining c
            in if sum = 0 then 0
               else trunc (dec_round (dec_round (of_int (coins_spent c) / of_int sum) * 100))))"

definition get_time_remaining :: "int \<Rightarrow> boost_campaign \<Rightarrow> int" where
  "get_time_remaining t c = (if end_time c \<le> t then 0 else (end_time c - t) div one_hour)"

definition put_reel :: "nat \<Rightarrow> boost_reel \<Rightarrow> 'a boost_db_scheme \<Rightarrow> 'a boost_db_scheme" where
  "put_reel rid r db = db\<lparr>boost_reels := (boost_reels db)(rid \<mapsto> r)\<rparr>"

definition update_reel_flags :: "nat \<Rightarrow> (boost_reel \<Rightarrow> boost_reel) \<Rightarrow> 'a boost_db_scheme \<Rightarrow> 'a boost_db_scheme" where
  "update_reel_flags rid f db = (case boost_reels db rid of None \<Rightarrow> db | Some r \<Rightarrow> put_reel rid (f r) db)"

section \<open>Replies\<close>

datatype boost_reply =
    B_crash exn \<comment> \<open>answered 500\<close>
  | B_error nat message
  | B_success
  | B_declined string \<comment> \<open>\<open>success: False\<close>\<close>
  | B_created nat int int \<comment> \<open>campaign, expected impressions, coins left\<close>
  | B_refunded rat rat int \<comment> \<open>refund, fee, coins of the profile\<close>
  | B_boosted nat int
  | B_reels "nat list"
  | B_paced nat nat

definition config_or_create :: "'a boost_db_scheme \<Rightarrow> boost_config \<times> 'a boost_db_scheme" where
  "config_or_create db =
     (case boost_configs db of
        Some c \<Rightarrow> (c, db)
      | None \<Rightarrow> (default_boost_config, db\<lparr>boost_configs := Some default_boost_config\<rparr>))"

section \<open>Buying a boost\<close>

text \<open>The request body, with the default \<open>'all'\<close> for an absent gender and \<open>''\<close> for an absent location filled in.\<close>

record boost_request =
  rq_reel :: nat
  rq_type :: "string option"
  rq_hours :: "int option"
  rq_gender :: "string option"
  rq_age_min :: "int option"
  rq_age_max :: "int option"
  rq_location :: "string option"

definition has_premium_targeting :: "boost_request \<Rightarrow> bool" where
  "has_premium_targeting rq \<longleftrightarrow>
     (or_default [] (rq_gender rq) \<noteq> [] \<and> rq_gender rq \<noteq> Some ''all'') \<or> or_default 0 (rq_age_min rq) \<noteq> 0 \<or>
     or_default 0 (rq_age_max rq) \<noteq> 0 \<or> or_default [] (rq_location rq) \<noteq> []"

definition calculate_boost_cost :: "boost_request \<Rightarrow> 'a boost_db_scheme \<Rightarrow> (exn + int \<times> int \<times> bool) \<times> 'a boost_db_scheme" where
  "calculate_boost_cost rq db =
     (case rq_hours rq of
        None \<Rightarrow> (Inl (TypeError ''int() argument''), db)
      | Some h \<Rightarrow>
          (let (c, db1) = config_or_create db; premium = has_premium_targeting rq
           in (bind_result (calculate_cost c h premium) (\<lambda>cost.
                 Inr (cost, get_expected_impressions c (of_hundredths cost), premium)), db1)))"

text \<open>What the checks of \<open>create_boost_campaign\<close> hand to \<open>_charge_and_create\<close>: the rows as loaded and the price.\<close>

record boost_order =
  or_user :: nat
  or_reel_id :: nat
  or_reel :: boost_reel
  or_tier :: "boost_tier option"
  or_cost :: int \<comment> \<open>hundredths\<close>
  or_balance :: user_coin_balance
  or_spent_total :: int
  or_hours :: int
  or_expected :: int
  or_hourly :: rat
  or_targets :: boost_request

definition cost_int :: "boost_order \<Rightarrow> int" where
  "cost_int ord = trunc (of_hundredths (or_cost ord))"

definition chosen_tier :: "boost_request \<Rightarrow> (boost_reply, boost_tier option \<times> int) sum" where
  "chosen_tier rq =
     (if or_default [] (rq_type rq) \<noteq> [] then
        (case tier_for (or_default [] (rq_type rq)) of
           Inl (ValueError m) \<Rightarrow> Inl (B_error 400 m)
         | Inl e \<Rightarrow> Inl (B_crash e)
         | Inr t \<Rightarrow> Inr (Some t, tier_hours t))
      else (case rq_hours rq of
              None \<Rightarrow> Inl (B_error 400 (''boost_type or duration_hours is required'', []))
            | Some h \<Rightarrow> Inr (None, h)))"

definition boosts_on :: "nat \<Rightarrow> int \<Rightarrow> 'a boost_db_scheme \<Rightarrow> nat" where
  "boosts_on uid day db = length (filter (\<lambda>c. bst_user c = uid \<and> local_date (start_time c) = day) (boosts db))"

definition active_on :: "nat \<Rightarrow> 'a boost_db_scheme \<Rightarrow> nat" where
  "active_on rid db =
     length (filter (\<lambda>c. bst_reel c = rid \<and> bst_status c = B_active \<and> now db < end_time c) (boosts db))"

definition price_boost :: "boost_config \<Rightarrow> boost_request \<Rightarrow> boost_tier option \<Rightarrow> int \<Rightarrow> (int \<times> int) result" where
  "price_boost c rq tier h =
     (case tier of
        Some t \<Rightarrow>
          Inr (100 * tier_coins t,
               (if has_guarantee t then or_default 0 (tier_guaranteed t)
                else get_expected_impressions c (of_int (tier_coins t))))
      | None \<Rightarrow>
          bind_result (calculate_cost c h (has_premium_targeting rq)) (\<lambda>cost.
            Inr (cost, get_expected_impressions c (of_hundredths cost))))"

definition divide_by :: "int \<Rightarrow> rat \<Rightarrow> rat result" where
  "divide_by h q = (if h = 0 then Inl (ArithmeticError ''DivisionByZero'') else Inr (dec_round (q / of_int h)))"

definition boost_checks ::
  "nat \<Rightarrow> boost_request \<Rightarrow> 'a boost_db_scheme \<Rightarrow> (boost_reply + boost_order) \<times> 'a boost_db_scheme" where
  "boost_checks uid rq db =
     (case chosen_tier rq of
        Inl r \<Rightarrow> (Inl r, db)
      | Inr (tier, h) \<Rightarrow>
          (case boost_reels db (rq_reel rq) of
             None \<Rightarrow> (Inl (B_crash DoesNotExist), db)
           | Some rl \<Rightarrow>
               if br_owner rl \<noteq> uid then (Inl (B_crash DoesNotExist), db)
               else if br_hidden rl then (Inl (B_error 400 (''reel_not_boostable'', [])), db)
               else (let (c, db1) = config_or_create db
                     in if max_daily_boosts_per_user c \<le> int (boosts_on uid (utc_date (now db)) db1)
                        then (Inl (B_error 400 (''Daily boost limit reached ({} per day)'', [max_daily_boosts_per_user c])), db1)
                        else if max_active_boosts_per_post c \<le> int (active_on (rq_reel rq) db1)
                        then (Inl (B_error 400 (''Maximum active boosts for this post reached ({})'', [max_active_boosts_per_post c])), db1)
                        else if tier \<noteq> None \<and> 0 < active_on (rq_reel rq) db1
                        then (Inl (B_error 400 (''already_boosted'', [])), db1)
                        else (case price_boost c rq tier h of
                                Inl e \<Rightarrow> (Inl (B_crash e), db1)
                              | Inr (cost, expected) \<Rightarrow>
                                  (case profiles db1 uid of
                                     None \<Rightarrow> (Inl (B_crash DoesNotExist), db1)
                                   | Some p \<Rightarrow>
                                       (let db2 = get_or_create_balance uid db1;
                                            b = or_default new_balance (balances db2 uid);
                                            needed = trunc (of_hundredths cost)
                                        in if balance b < needed
                                           then (Inl (B_error 400 (''Insufficient coins'', [needed, balance b])), db2)
                                           else (case divide_by h (of_hundredths cost) of
                                                   Inl e \<Rightarrow> (Inl (B_crash e), db2)
                                                 | Inr budget \<Rightarrow>
                                                     (Inr \<lparr>or_user = uid, or_reel_id = rq_reel rq, or_reel = rl, or_tier = tier,
                                                           or_cost = cost, or_balance = b,
                                                           or_spent_total = coins_spent_total p, or_hours = h,
                                                           or_expected = expected, or_hourly = budget, or_targets = rq\<rparr>,
                                                      db2))))))))"

definition new_boost :: "boost_order \<Rightarrow> int \<Rightarrow> int \<Rightarrow> boost_campaign" where
  "new_boost ord budget t =
     \<lparr>bst_user = or_user ord, bst_reel = or_reel_id ord,
      boost_type = (case or_tier ord of None \<Rightarrow> ''custom'' | Some ti \<Rightarrow> tier_key ti),
      placement = (case or_tier ord of None \<Rightarrow> TRENDING | Some ti \<Rightarrow> tier_placement ti),
      guaranteed_impressions = (case or_tier ord of None \<Rightarrow> None | Some ti \<Rightarrow> tier_guaranteed ti),
      duration_hours = or_hours ord, coins_spent = or_cost ord, coins_remaining = or_cost ord,
      start_time = t, end_time = t + or_hours ord * one_hour, expected_impressions = or_expected ord,
      impressions_served = 0, engagement_count = 0, bst_status = B_active,
      target_gender = (if rq_gender (or_targets ord) = Some ''all'' then None else rq_gender (or_targets ord)),
      target_age_min = (if or_default 0 (rq_age_min (or_targets ord)) = 0 then None else rq_age_min (or_targets ord)),
      target_age_max = (if or_default 0 (rq_age_max (or_targets ord)) = 0 then None else rq_age_max (or_targets ord)),
      target_location = or_default [] (rq_location (or_targets ord)), hourly_budget = budget,
      cancelled_at = None, refund_amount = 0, refunded_at = None\<rparr>"

text \<open>The mirror of the balance in the profile: \<open>profile.save(update_fields=['coins', 'coins_spent_total'])\<close>.\<close>

definition mirror_spend :: "nat \<Rightarrow> int \<Rightarrow> int \<Rightarrow> 'a boost_db_scheme \<Rightarrow> 'a boost_db_scheme result" where
  "mirror_spend uid left spent db =
     (case profiles db uid of
        None \<Rightarrow> Inl DoesNotExist
      | Some p \<Rightarrow>
          if fits_integer left \<and> fits_integer spent
          then Inr (db\<lparr>profiles := (profiles db)(uid \<mapsto> p\<lparr>profile_coins := left, coins_spent_total := spent\<rparr>)\<rparr>)
          else Inl DataError)"

definition store_boost :: "boost_order \<Rightarrow> 'a boost_db_scheme \<Rightarrow> (nat \<times> 'a boost_db_scheme) result" where
  "store_boost ord db =
     bind_result (decimal_10_2 (of_hundredths (or_cost ord))) (\<lambda>_.
     bind_result (decimal_10_2 (or_hourly ord)) (\<lambda>budget.
     bind_result (insert_boost (new_boost ord budget (now db)) db) (\<lambda>(i, db1).
       Inr (i, put_reel (or_reel_id ord) ((or_reel ord)\<lparr>is_boosted := True, active_boost_campaign := Some i\<rparr>) db1))))"

definition charge_and_create :: "boost_order \<Rightarrow> 'a boost_db_scheme \<Rightarrow> boost_reply \<times> 'a boost_db_scheme" where
  "charge_and_create ord db =
     (case spend_coins (or_balance ord) (or_user ord) (cost_int ord) ''boost_campaign'' False
             [Kw_description (''Boost campaign for reel #{}'', [int (or_reel_id ord)])] db of
        Inl (ValueError _) \<Rightarrow> (B_error 400 (''Insufficient coins'', [cost_int ord, balance (or_balance ord)]), db)
      | Inl (IntegrityError _) \<Rightarrow> (B_error 400 (''already_boosted'', []), db)
      | Inl e \<Rightarrow> (B_crash e, db)
      | Inr (s, _, db1) \<Rightarrow>
          (case bind_result (mirror_spend (or_user ord) (balance s) (or_spent_total ord + cost_int ord) db1) (store_boost ord) of
             Inl (IntegrityError _) \<Rightarrow> (B_error 400 (''already_boosted'', []), db)
           | Inl e \<Rightarrow> (B_crash e, db)
           | Inr (i, db2) \<Rightarrow> (B_created i (or_expected ord) (balance s), db2)))"

definition create_boost_campaign :: "nat \<Rightarrow> boost_request \<Rightarrow> 'a boost_db_scheme \<Rightarrow> boost_reply \<times> 'a boost_db_scheme" where
  "create_boost_campaign uid rq db =
     (case boost_checks uid rq db of (Inl r, db1) \<Rightarrow> (r, db1) | (Inr ord, db1) \<Rightarrow> charge_and_create ord db1)"

definition BOOST_POST_COINS :: int where "BOOST_POST_COINS = 200"
definition BOOST_POST_HOURS :: int where "BOOST_POST_HOURS = 2"

definition boost_post_row :: "nat \<Rightarrow> nat \<Rightarrow> 'a boost_db_scheme \<Rightarrow> boost_campaign" where
  "boost_post_row uid rid db =
     \<lparr>bst_user = uid, bst_reel = rid, boost_type = ''custom'', placement = TRENDING, guaranteed_impressions = None,
      duration_hours = BOOST_POST_HOURS, coins_spent = 100 * BOOST_POST_COINS, coins_remaining = 100 * BOOST_POST_COINS,
      start_time = now db, end_time = now db + BOOST_POST_HOURS * one_hour,
      expected_impressions =
        (case boost_configs db of None \<Rightarrow> 0 | Some c \<Rightarrow> get_expected_impressions c (of_int BOOST_POST_COINS)),
      impressions_served = 0, engagement_count = 0, bst_status = B_active, target_gender = None,
      target_age_min = None, target_age_max = None, target_location = [],
      hourly_budget = half_even (dec_round (of_int BOOST_POST_COINS / of_int BOOST_POST_HOURS) * 100),
      cancelled_at = None, refund_amount = 0, refunded_at = None\<rparr>"

definition charge_boost_post :: "nat \<Rightarrow> nat \<Rightarrow> 'a boost_db_scheme \<Rightarrow> (nat \<times> 'a boost_db_scheme) result" where
  "charge_boost_post uid rid db =
     bind_result (of_option DoesNotExist (balances db uid)) (\<lambda>b.
     bind_result (spend_coins b uid BOOST_POST_COINS ''boost'' False
                    [Kw_reel (Some rid), Kw_description (''Post boost'', [])] db) (\<lambda>(_, _, db1).
     bind_result (insert_boost (boost_post_row uid rid db) db1) (\<lambda>(i, db2).
       Inr (i, update_reel_flags rid (\<lambda>r. r\<lparr>is_boosted := True, active_boost_campaign := Some i\<rparr>) db2))))"

definition boost_post :: "nat \<Rightarrow> nat \<Rightarrow> 'a boost_db_scheme \<Rightarrow> boost_reply \<times> 'a boost_db_scheme" where
  "boost_post uid rid db =
     (case subscriber_action_refusal (Some uid) ''boost'' db of
        Some rf \<Rightarrow> (B_error 403 (rf_message rf, []), db)
      | None \<Rightarrow>
          (case boost_reels db rid of
             None \<Rightarrow> (B_error 404 (''Post not found'', []), db)
           | Some rl \<Rightarrow>
               if br_owner rl \<noteq> uid then (B_error 404 (''Post not found'', []), db)
               else if br_hidden rl then (B_error 400 (''reel_not_boostable'', []), db)
               else if 0 < active_on rid db then (B_error 400 (''already_boosted'', []), db)
               else (case charge_boost_post uid rid db of
                       Inl (ValueError m) \<Rightarrow> (B_error 400 m, db)
                     | Inl DoesNotExist \<Rightarrow> (B_error 400 (''UserCoinBalance matching query does not exist.'', []), db)
                     | Inl e \<Rightarrow> (B_crash e, db)
                     | Inr (i, db1) \<Rightarrow> (B_boosted i BOOST_POST_COINS, db1))))"

section \<open>Cancelling, pausing, resuming\<close>

text \<open>The endpoints find the campaign by number among those of the user; an absent one is answered 500.\<close>

definition own_boost :: "nat \<Rightarrow> nat \<Rightarrow> 'a boost_db_scheme \<Rightarrow> boost_campaign option" where
  "own_boost uid i db = (if i < length (boosts db) \<and> bst_user (boosts db ! i) = uid then Some (boosts db ! i) else None)"

definition cancellation_fee :: "boost_config \<Rightarrow> boost_campaign \<Rightarrow> rat" where
  "cancellation_fee c k = dec_round (of_hundredths (coins_remaining k) * percent (cancellation_fee_percent c))"

definition final_refund :: "boost_config \<Rightarrow> boost_campaign \<Rightarrow> rat" where
  "final_refund c k = dec_round (of_hundredths (coins_remaining k) - cancellation_fee c k)"

definition cancelled_boost :: "int \<Rightarrow> int \<Rightarrow> boost_campaign \<Rightarrow> boost_campaign" where
  "cancelled_boost t refund k =
     k\<lparr>bst_status := B_cancelled, cancelled_at := Some t, coins_remaining := 0, refund_amount := refund,
        refunded_at := Some t\<rparr>"

text \<open>
  The transaction of \<open>cancel_boost_campaign\<close>: the row is claimed in the state the database has it in, the
  amounts come from the row \<open>k\<close> loaded before. What is paid back goes to \<open>profile.coins\<close>.
\<close>

definition claim_cancel :: "nat \<Rightarrow> nat \<Rightarrow> boost_campaign \<Rightarrow> boost_config \<Rightarrow> 'a boost_db_scheme \<Rightarrow> boost_reply \<times> 'a boost_db_scheme" where
  "claim_cancel uid i k c db =
     (if bst_status (boosts db ! i) \<noteq> B_active then (B_error 400 (''Campaign is not active, cannot cancel'', []), db)
      else (case bind_result (decimal_10_2 (final_refund c k)) (\<lambda>refund.
                   let db1 = db\<lparr>boosts := (boosts db)[i := cancelled_boost (now db) refund (boosts db ! i)]\<rparr>
                   in if 0 < final_refund c k then add_profile_coins uid (trunc (final_refund c k)) None db1 else Inr db1) of
              Inl e \<Rightarrow> (B_crash e, db)
            | Inr db2 \<Rightarrow>
                (B_refunded (final_refund c k) (cancellation_fee c k)
                   (case profiles db2 uid of None \<Rightarrow> 0 | Some p \<Rightarrow> profile_coins p),
                 update_reel_flags (bst_reel k)
                   (\<lambda>r. if active_boost_campaign r = Some i then r\<lparr>is_boosted := False, active_boost_campaign := None\<rparr> else r) db2)))"

definition cancel_boost_campaign :: "nat \<Rightarrow> nat \<Rightarrow> 'a boost_db_scheme \<Rightarrow> boost_reply \<times> 'a boost_db_scheme" where
  "cancel_boost_campaign uid i db =
     (case own_boost uid i db of
        None \<Rightarrow> (B_crash DoesNotExist, db)
      | Some k \<Rightarrow>
          if bst_status k \<noteq> B_active then (B_error 400 (''Campaign is not active'', []), db)
          else (let (c, db1) = config_or_create db in claim_cancel uid i k c db1))"

definition pause_boost_campaign :: "nat \<Rightarrow> nat \<Rightarrow> 'a boost_db_scheme \<Rightarrow> boost_reply \<times> 'a boost_db_scheme" where
  "pause_boost_campaign uid i db =
     (case own_boost uid i db of
        None \<Rightarrow> (B_crash DoesNotExist, db)
      | Some k \<Rightarrow>
          if bst_status k \<noteq> B_active then (B_error 400 (''Campaign is not active'', []), db)
          else (case save_boost i (k\<lparr>bst_status := B_paused\<rparr>) db of
                  Inl e \<Rightarrow> (B_crash e, db)
                | Inr db1 \<Rightarrow> (B_success, update_reel_flags (bst_reel k) (\<lambda>r. r\<lparr>is_boosted := False\<rparr>) db1)))"

definition resume_boost_campaign :: "nat \<Rightarrow> nat \<Rightarrow> 'a boost_db_scheme \<Rightarrow> boost_reply \<times> 'a boost_db_scheme" where
  "resume_boost_campaign uid i db =
     (case own_boost uid i db of
        None \<Rightarrow> (B_crash DoesNotExist, db)
      | Some k \<Rightarrow>
          if bst_status k \<noteq> B_paused then (B_error 400 (''Campaign is not paused'', []), db)
          else if end_time k \<le> now db then (B_error 400 (''Campaign has expired'', []), db)
          else (case save_boost i (k\<lparr>bst_status := B_active\<rparr>) db of
                  Inl e \<Rightarrow> (B_crash e, db)
                | Inr db1 \<Rightarrow>
                    (B_success, update_reel_flags (bst_reel k)
                       (\<lambda>r. r\<lparr>is_boosted := True, active_boost_campaign := Some i\<rparr>) db1)))"

section \<open>Serving\<close>

definition numbered :: "'a boost_db_scheme \<Rightarrow> (nat \<times> boost_campaign) list" where
  "numbered db = zip [0..<length (boosts db)] (boosts db)"

text \<open>\<open>filter(...).first()\<close>: the default order is newest first.\<close>

definition newest :: "(boost_campaign \<Rightarrow> bool) \<Rightarrow> 'a boost_db_scheme \<Rightarrow> (nat \<times> boost_campaign) option" where
  "newest P db = find (P \<circ> snd) (rev (numbered db))"

definition seen_lately :: "boost_config \<Rightarrow> nat \<Rightarrow> nat \<Rightarrow> 'a boost_db_scheme \<Rightarrow> bool" where
  "seen_lately c i uid db \<longleftrightarrow>
     list_ex (\<lambda>m. im_campaign m = i \<and> im_viewer m = uid \<and> now db - frequency_cap_hours c * one_hour \<le> viewed_at m) (impressions db)"

definition capped :: "nat \<Rightarrow> nat \<Rightarrow> 'a boost_db_scheme \<Rightarrow> bool" where
  "capped i uid db \<longleftrightarrow> (case boost_configs db of None \<Rightarrow> False | Some c \<Rightarrow> seen_lately c i uid db)"

text \<open>The attributes \<open>gender\<close>, \<open>age\<close> and \<open>city\<close> are read from a profile that has none of them.\<close>

definition targets_someone :: "boost_campaign \<Rightarrow> bool" where
  "targets_someone k \<longleftrightarrow>
     (or_default [] (target_gender k) \<noteq> [] \<and> target_gender k \<noteq> Some ''all'') \<or> or_default 0 (target_age_min k) \<noteq> 0 \<or>
     or_default 0 (target_age_max k) \<noteq> 0 \<or> target_location k \<noteq> []"

definition for_viewer :: "nat \<Rightarrow> 'a boost_db_scheme \<Rightarrow> boost_campaign \<Rightarrow> bool" where
  "for_viewer uid db k \<longleftrightarrow>
     (case boost_reels db (bst_reel k) of None \<Rightarrow> False | Some rl \<Rightarrow> br_owner rl \<noteq> uid \<and> \<not> follows db uid (br_owner rl))"

fun eligible_loop :: "nat \<Rightarrow> 'a boost_db_scheme \<Rightarrow> (nat \<times> boost_campaign) list \<Rightarrow> (boost_reply, nat list) sum" where
  "eligible_loop uid db [] = Inr []"
| "eligible_loop uid db ((i, k) # ks) =
     (if \<not> for_viewer uid db k then eligible_loop uid db ks
      else if targets_someone k then Inl (B_error 500 (''UserProfile object has no such attribute'', []))
      else if capped i uid db then eligible_loop uid db ks
      else map_sum id (\<lambda>rs. bst_reel k # rs) (eligible_loop uid db ks))"

definition get_eligible_boosts :: "nat \<Rightarrow> 'a boost_db_scheme \<Rightarrow> boost_reply" where
  "get_eligible_boosts uid db =
     (case profiles db uid of
        None \<Rightarrow> B_crash DoesNotExist
      | Some _ \<Rightarrow>
          (case eligible_loop uid db (filter (boost_is_active (now db) \<circ> snd) (rev (numbered db))) of
             Inl r \<Rightarrow> r | Inr rids \<Rightarrow> B_reels rids))"

definition coins_to_deduct :: "boost_config option \<Rightarrow> boost_campaign \<Rightarrow> rat result" where
  "coins_to_deduct cfg k =
     (case cfg of None \<Rightarrow> Inr 1 | Some c \<Rightarrow> divide_by (base_impression_rate c) (of_hundredths (hourly_budget k)))"

definition reached_guarantee :: "boost_campaign \<Rightarrow> bool" where
  "reached_guarantee k \<longleftrightarrow>
     (case guaranteed_impressions k of None \<Rightarrow> False | Some g \<Rightarrow> g \<noteq> 0 \<and> g \<le> impressions_served k)"

text \<open>One impression on the row \<open>k\<close>, as the request holds it until it is saved.\<close>

definition charge_impression :: "rat \<Rightarrow> boost_campaign \<Rightarrow> boost_campaign result" where
  "charge_impression d k =
     (if d \<le> of_hundredths (coins_remaining k)
      then bind_result (decimal_10_2 (dec_round (of_hundredths (coins_remaining k) - d))) (\<lambda>left.
             Inr (k\<lparr>coins_remaining := left\<rparr>))
      else Inr (k\<lparr>coins_remaining := 0, bst_status := B_exhausted\<rparr>))"

definition serve_one :: "boost_config option \<Rightarrow> boost_campaign \<Rightarrow> boost_campaign result" where
  "serve_one cfg k =
     bind_result (coins_to_deduct cfg k) (\<lambda>d.
     bind_result (charge_impression d (k\<lparr>impressions_served := impressions_served k + 1\<rparr>)) (\<lambda>k1.
       Inr (if reached_guarantee k1 then k1\<lparr>bst_status := B_completed, coins_remaining := 0\<rparr> else k1)))"

definition save_impression :: "nat \<Rightarrow> boost_campaign \<Rightarrow> 'a boost_db_scheme \<Rightarrow> 'a boost_db_scheme result" where
  "save_impression i k db =
     bind_result (serve_one (boost_configs db) k) (\<lambda>k1.
     bind_result (save_boost i k1 db) (\<lambda>db1.
       Inr (update_reel_flags (bst_reel k) (\<lambda>r. r\<lparr>total_boost_impressions := total_boost_impressions r + 1\<rparr>) db1)))"

text \<open>
  \<open>record_boost_impression\<close> from the loaded campaign \<open>(i, k)\<close>: the impression row is committed on its own,
  before the campaign is charged for it.
\<close>

definition record_on :: "nat \<Rightarrow> nat \<Rightarrow> boost_campaign \<Rightarrow> 'a boost_db_scheme \<Rightarrow> boost_reply \<times> 'a boost_db_scheme" where
  "record_on uid i k db =
     (if capped i uid db then (B_declined ''Frequency cap reached'', db)
      else if list_ex (\<lambda>m. im_campaign m = i \<and> im_viewer m = uid) (impressions db) then (B_success, db)
      else (let db1 = db\<lparr>impressions := impressions db @ [\<lparr>im_campaign = i, im_viewer = uid, viewed_at = now db\<rparr>]\<rparr>
            in case save_impression i k db1 of Inl e \<Rightarrow> (B_crash e, db1) | Inr db2 \<Rightarrow> (B_success, db2)))"

definition record_boost_impression :: "nat \<Rightarrow> nat \<Rightarrow> 'a boost_db_scheme \<Rightarrow> boost_reply \<times> 'a boost_db_scheme" where
  "record_boost_impression uid rid db =
     (case newest (\<lambda>k. bst_reel k = rid \<and> boost_is_active (now db) k) db of
        None \<Rightarrow> (B_declined ''No active campaign'', db)
      | Some (i, k) \<Rightarrow> record_on uid i k db)"

definition record_boost_engagement :: "nat \<Rightarrow> nat \<Rightarrow> string \<Rightarrow> 'a boost_db_scheme \<Rightarrow> boost_reply \<times> 'a boost_db_scheme" where
  "record_boost_engagement uid rid kind db =
     (case newest (\<lambda>k. bst_reel k = rid \<and> bst_status k = B_active \<and> now db < end_time k) db of
        None \<Rightarrow> (B_declined ''No active campaign'', db)
      | Some (i, k) \<Rightarrow>
          if (i, uid, kind) \<in> set (boost_engagements db) then (B_success, db)
          else if 20 < length kind then (B_crash DataError, db)
          else (let db1 = db\<lparr>boost_engagements := boost_engagements db @ [(i, uid, kind)]\<rparr>
                in case save_boost i (k\<lparr>engagement_count := engagement_count k + 1\<rparr>) db1 of
                     Inl e \<Rightarrow> (B_crash e, db1)
                   | Inr db2 \<Rightarrow>
                       (B_success, update_reel_flags rid
                          (\<lambda>r. r\<lparr>total_boost_engagements := total_boost_engagements r + 1\<rparr>) db2)))"

text \<open>
  The pacing check multiplies the decimal \<open>hourly_budget\<close> with the float \<open>hours_elapsed\<close>, which Python refuses;
  the first campaign of the loop ends the request.
\<close>

definition check_pacing_engine :: "'a boost_db_scheme \<Rightarrow> boost_reply \<times> 'a boost_db_scheme" where
  "check_pacing_engine db =
     (let (_, db1) = config_or_create db
      in if list_ex (boost_is_active (now db)) (boosts db1)
         then (B_crash (TypeError ''unsupported operand types for *: Decimal and float''), db1)
         else (B_paced 0 0, db1))"

section \<open>Expiry\<close>

definition has_live_campaign :: "nat \<Rightarrow> 'a boost_db_scheme \<Rightarrow> bool" where
  "has_live_campaign rid db \<longleftrightarrow> list_ex (\<lambda>k. bst_reel k = rid \<and> boost_is_active (now db) k) (boosts db)"

definition shortfall :: "boost_campaign \<Rightarrow> int" where
  "shortfall k =
     (case guaranteed_impressions k of None \<Rightarrow> 0
      | Some g \<Rightarrow> if g = 0 then 0 else max 0 (g - impressions_served k))"

definition expire_one :: "nat \<Rightarrow> 'a boost_db_scheme \<Rightarrow> 'a boost_db_scheme" where
  "expire_one i db =
     (let k = boosts db ! i;
          db1 = db\<lparr>boosts := (boosts db)[i := k\<lparr>bst_status := (if shortfall k \<noteq> 0 then B_undelivered else B_completed)\<rparr>]\<rparr>
      in update_reel_flags (bst_reel k)
           (\<lambda>r. if active_boost_campaign r = Some i then r\<lparr>is_boosted := False, active_boost_campaign := None\<rparr>
                else if is_boosted r \<and> \<not> has_live_campaign (bst_reel k) db1 then r\<lparr>is_boosted := False\<rparr>
                else r) db1)"

fun expire_loop :: "nat list \<Rightarrow> nat \<times> int \<Rightarrow> 'a boost_db_scheme \<Rightarrow> (nat \<times> int) \<times> 'a boost_db_scheme" where
  "expire_loop [] tot db = (tot, db)"
| "expire_loop (i # js) (completed, unspent) db =
     (if bst_status (boosts db ! i) \<noteq> B_active then expire_loop js (completed, unspent) db
      else expire_loop js (Suc completed, unspent + coins_remaining (boosts db ! i)) (expire_one i db))"

definition finished :: "'a boost_db_scheme \<Rightarrow> nat list" where
  "finished db = map fst (filter (\<lambda>(i, k). bst_status k = B_active \<and> end_time k \<le> now db) (rev (numbered db)))"

definition expire_boost_campaigns :: "'a boost_db_scheme \<Rightarrow> (nat \<times> int) \<times> 'a boost_db_scheme" where
  "expire_boost_campaigns db = expire_loop (finished db) (0, 0) db"

section \<open>What the feeds lift\<close>

definition lifted_in :: "string \<Rightarrow> nat \<Rightarrow> 'a boost_db_scheme \<Rightarrow> bool" where
  "lifted_in feed rid db \<longleftrightarrow>
     list_ex (\<lambda>k. bst_reel k = rid \<and> boost_is_active (now db) k \<and> placement k \<in> set (placements_for_feed feed)) (boosts db)"

definition lifted_in_reels_trending :: "nat \<Rightarrow> 'a boost_db_scheme \<Rightarrow> bool" where
  "lifted_in_reels_trending rid db \<longleftrightarrow> list_ex (\<lambda>k. bst_reel k = rid \<and> boost_is_active (now db) k) (boosts db)"

definition live_boost :: "nat \<Rightarrow> 'a boost_db_scheme \<Rightarrow> boost_campaign option" where
  "live_boost rid db =
     (case boost_reels db rid of None \<Rightarrow> None
      | Some r \<Rightarrow> (case active_boost_campaign r of None \<Rightarrow> None
                  | Some i \<Rightarrow> if i < length (boosts db) \<and> boost_is_active (now db) (boosts db ! i) then Some (boosts db ! i) else None))"

section \<open>What the owner is shown\<close>

definition get_boost_config ::
  "nat \<Rightarrow> 'a boost_db_scheme \<Rightarrow>
   ((boost_tier \<times> string \<times> int option) list \<times> int \<times> boost_config \<times> (int \<times> int result) list) \<times> 'a boost_db_scheme" where
  "get_boost_config uid db =
     (let (c, db1) = config_or_create db; db2 = get_or_create_balance uid db1
      in ((tier_list, balance (or_default new_balance (balances db2 uid)), c,
           map (\<lambda>h. (h, calculate_cost c h False)) [1, 6, 12, 24, 72, 168]), db2))"

record boost_summary =
  bs_id :: nat
  bs_row :: boost_campaign
  bs_progress :: int
  bs_hours_left :: int
  bs_active :: bool
  bs_targeting :: "(string option \<times> int option \<times> int option \<times> string) option"

definition summarize :: "int \<Rightarrow> nat \<times> boost_campaign \<Rightarrow> boost_summary" where
  "summarize t = (\<lambda>(i, k).
     \<lparr>bs_id = i, bs_row = k, bs_progress = get_progress_percent k, bs_hours_left = get_time_remaining t k,
      bs_active = boost_is_active t k,
      bs_targeting =
        (if or_default [] (target_gender k) \<noteq> [] \<or> or_default 0 (target_age_min k) \<noteq> 0 \<or> target_location k \<noteq> []
         then Some (target_gender k, target_age_min k, target_age_max k, target_location k) else None)\<rparr>)"

definition get_user_boost_campaigns :: "nat \<Rightarrow> 'a boost_db_scheme \<Rightarrow> boost_summary list" where
  "get_user_boost_campaigns uid db =
     map (summarize (now db)) (filter (\<lambda>(i, k). bst_user k = uid) (rev (numbered db)))"

text \<open>One campaign with its engagements counted by kind; the daily statistics are not kept by any of the code.\<close>

definition get_boost_campaign_detail ::
  "nat \<Rightarrow> nat \<Rightarrow> 'a boost_db_scheme \<Rightarrow> (boost_reply, boost_summary \<times> (string \<Rightarrow> nat)) sum" where
  "get_boost_campaign_detail uid i db =
     (case own_boost uid i db of
        None \<Rightarrow> Inl (B_crash DoesNotExist)
      | Some k \<Rightarrow>
          Inr (summarize (now db) (i, k),
               \<lambda>kind. length (filter (\<lambda>(j, _, kd). j = i \<and> kd = kind) (boost_engagements db))))"

section \<open>The operations on the tables\<close>

lemma others_mem:
  assumes "j < length xs" "j \<noteq> i"
  shows "xs ! j \<in> set (others i xs)"
proof (cases "j < i")
  case True
  with assms have "take i xs ! j \<in> set (take i xs)" by (intro nth_mem) simp
  with True show ?thesis by (simp add: others_def)
next
  case False
  with assms have "drop (Suc i) xs ! (j - Suc i) \<in> set (drop (Suc i) xs)" by (intro nth_mem) simp
  with False assms show ?thesis by (simp add: others_def)
qed

lemma others_subset: "set (others i xs) \<subseteq> set xs"
  by (auto simp: others_def dest: in_set_takeD in_set_dropD)

lemma save_boost_Inr:
  "save_boost i k db = Inr db' \<longleftrightarrow>
     boost_fits k \<and> \<not> boost_collides k (others i (boosts db)) \<and> db' = db\<lparr>boosts := (boosts db)[i := k]\<rparr>"
  by (auto simp: save_boost_def)

lemma insert_boost_Inr:
  "insert_boost k db = Inr (i, db') \<longleftrightarrow>
     boost_fits k \<and> \<not> boost_collides k (boosts db) \<and> i = length (boosts db) \<and> db' = db\<lparr>boosts := boosts db @ [k]\<rparr>"
  by (auto simp: insert_boost_def)

lemma flags_simps [simp]:
  "boosts (update_reel_flags rid f db) = boosts db" "impressions (update_reel_flags rid f db) = impressions db"
  "boost_configs (update_reel_flags rid f db) = boost_configs db" "balances (update_reel_flags rid f db) = balances db"
  "coin_ledger (update_reel_flags rid f db) = coin_ledger db" "now (update_reel_flags rid f db) = now db"
  "profiles (update_reel_flags rid f db) = profiles db"
  "boosts (put_reel rid r db) = boosts db" "impressions (put_reel rid r db) = impressions db"
  "boost_configs (put_reel rid r db) = boost_configs db" "balances (put_reel rid r db) = balances db"
  "coin_ledger (put_reel rid r db) = coin_ledger db" "now (put_reel rid r db) = now db"
  by (simp_all add: update_reel_flags_def put_reel_def split: option.splits)

lemma config_simps [simp]:
  "boosts (snd (config_or_create db)) = boosts db" "impressions (snd (config_or_create db)) = impressions db"
  "balances (snd (config_or_create db)) = balances db" "coin_ledger (snd (config_or_create db)) = coin_ledger db"
  "now (snd (config_or_create db)) = now db" "boost_reels (snd (config_or_create db)) = boost_reels db"
  "boost_configs (snd (config_or_create db)) = Some (fst (config_or_create db))"
  "profiles (snd (config_or_create db)) = profiles db"
  by (simp_all add: config_or_create_def split: option.splits)

lemma get_or_create_boost_frame [simp]:
  "boosts (get_or_create_balance u db) = boosts db" "impressions (get_or_create_balance u db) = impressions db"
  "boost_configs (get_or_create_balance u db) = boost_configs db" "now (get_or_create_balance u db) = now db"
  "coin_ledger (get_or_create_balance u db) = coin_ledger db" "boost_reels (get_or_create_balance u db) = boost_reels db"
  by (simp_all add: get_or_create_balance_def split: option.splits)

lemma spend_frame:
  assumes "spend_coins s u n ty r ks db = Inr (s', tx, db1)"
  shows "boosts db1 = boosts db" "impressions db1 = impressions db" "boost_configs db1 = boost_configs db" "now db1 = now db"
    "boost_reels db1 = boost_reels db"
proof -
  obtain row' where "moves u (- n) row' tx db db1"
    using spend_coins_steps [of u n s ty r ks db] assms unfolding steps_def by blast
  then have "db1 = db\<lparr>balances := (balances db)(u \<mapsto> row'), coin_ledger := coin_ledger db @ [tx]\<rparr>" by (simp add: moves_def)
  then show "boosts db1 = boosts db" "impressions db1 = impressions db" "boost_configs db1 = boost_configs db" "now db1 = now db"
    "boost_reels db1 = boost_reels db" by simp_all
qed

lemma mirror_Inr:
  "mirror_spend u l n db = Inr db' \<Longrightarrow> \<exists>p. db' = db\<lparr>profiles := (profiles db)(u \<mapsto> p)\<rparr>"
  by (auto simp: mirror_spend_def split: option.splits if_splits)

lemma store_Inr:
  assumes "store_boost ord db = Inr (i, db')"
  obtains budget where "i = length (boosts db)"
    and "db' = put_reel (or_reel_id ord) ((or_reel ord)\<lparr>is_boosted := True, active_boost_campaign := Some i\<rparr>)
                 (db\<lparr>boosts := boosts db @ [new_boost ord budget (now db)]\<rparr>)"
    and "decimal_10_2 (or_hourly ord) = Inr budget" and "\<bar>or_cost ord\<bar> < 10 ^ 10"
    and "\<not> boost_collides (new_boost ord budget (now db)) (boosts db)" and "boost_fits (new_boost ord budget (now db))"
  using assms
  by (auto simp: store_boost_def bind_result_Inr_iff insert_boost_Inr decimal_10_2_def of_hundredths_def Let_def
      split: if_splits)

text \<open>A charge either leaves everything as it was or creates the campaign.\<close>

lemma boost_charge_cases:
  assumes "charge_and_create ord db = (r, db')"
  obtains (kept) "db' = db" "\<And>i e l. r \<noteq> B_created i e l"
  | (created) s tx db1 p db2 i where
      "spend_coins (or_balance ord) (or_user ord) (cost_int ord) ''boost_campaign'' False
             [Kw_description (''Boost campaign for reel #{}'', [int (or_reel_id ord)])] db = Inr (s, tx, db1)"
      "db2 = db1\<lparr>profiles := (profiles db1)(or_user ord \<mapsto> p)\<rparr>"
      "store_boost ord db2 = Inr (i, db')" "r = B_created i (or_expected ord) (balance s)"
proof (cases "spend_coins (or_balance ord) (or_user ord) (cost_int ord) ''boost_campaign'' False
             [Kw_description (''Boost campaign for reel #{}'', [int (or_reel_id ord)])] db")
  case (Inl e)
  with assms have "db' = db" "\<And>i e l. r \<noteq> B_created i e l" by (auto simp: charge_and_create_def split: exn.splits)
  then show thesis by (rule kept)
next
  case (Inr v)
  obtain s tx db1 where v: "v = (s, tx, db1)" by (cases v) auto
  let ?m = "bind_result (mirror_spend (or_user ord) (balance s) (or_spent_total ord + cost_int ord) db1) (store_boost ord)"
  show thesis
  proof (cases ?m)
    case m: (Inl e)
    with assms Inr v have "db' = db" "\<And>i e l. r \<noteq> B_created i e l" by (auto simp: charge_and_create_def split: exn.splits)
    then show thesis by (rule kept)
  next
    case m: (Inr w)
    obtain i db3 where w: "w = (i, db3)" by (cases w) auto
    from m obtain db2 where d: "mirror_spend (or_user ord) (balance s) (or_spent_total ord + cost_int ord) db1 = Inr db2"
      "store_boost ord db2 = Inr (i, db3)" by (auto simp: bind_result_Inr_iff w)
    from assms Inr v m w have "db' = db3" "r = B_created i (or_expected ord) (balance s)"
      by (auto simp: charge_and_create_def)
    with d mirror_Inr [OF d(1)] created Inr v show thesis by blast
  qed
qed

section \<open>Requests in sequence\<close>

datatype boost_op =
    Buy nat boost_request
  | Buy_post nat nat
  | Cancel nat nat
  | Pause nat nat
  | Resume nat nat
  | View nat nat
  | Engage nat nat string
  | Pace
  | Sweep
  | Wait nat

fun exec_boost :: "boost_op \<Rightarrow> 'a boost_db_scheme \<Rightarrow> 'a boost_db_scheme" where
  "exec_boost (Buy u rq) db = snd (create_boost_campaign u rq db)"
| "exec_boost (Buy_post u rid) db = snd (boost_post u rid db)"
| "exec_boost (Cancel u i) db = snd (cancel_boost_campaign u i db)"
| "exec_boost (Pause u i) db = snd (pause_boost_campaign u i db)"
| "exec_boost (Resume u i) db = snd (resume_boost_campaign u i db)"
| "exec_boost (View u rid) db = snd (record_boost_impression u rid db)"
| "exec_boost (Engage u rid kind) db = snd (record_boost_engagement u rid kind db)"
| "exec_boost Pace db = snd (check_pacing_engine db)"
| "exec_boost Sweep db = snd (expire_boost_campaigns db)"
| "exec_boost (Wait n) db = db\<lparr>now := now db + int n\<rparr>"

definition config_ok :: "boost_config \<Rightarrow> bool" where
  "config_ok c \<longleftrightarrow>
     0 \<le> base_hourly_rate c \<and> (\<forall>h. 0 \<le> duration_discount c h \<and> duration_discount c h \<le> 100) \<and>
     0 < base_impression_rate c \<and> 0 \<le> platform_fee_percent c \<and> 0 \<le> premium_targeting_surcharge c \<and>
     0 \<le> cancellation_fee_percent c \<and> cancellation_fee_percent c \<le> 100"

text \<open>
  What a row promises: it never holds more than was paid, a refund comes out of what was left, and a campaign
  with a guarantee is only called completed when the guarantee was served.
\<close>

definition boost_row_ok :: "boost_campaign \<Rightarrow> bool" where
  "boost_row_ok k \<longleftrightarrow>
     0 \<le> coins_remaining k \<and> 0 \<le> refund_amount k \<and> coins_remaining k + refund_amount k \<le> coins_spent k \<and>
     coins_spent k < 10 ^ 10 \<and> 0 \<le> hourly_budget k \<and> (refund_amount k \<noteq> 0 \<longrightarrow> bst_status k = B_cancelled) \<and>
     (bst_status k = B_completed \<longrightarrow> shortfall k = 0)"

definition views_of :: "nat \<Rightarrow> 'a boost_db_scheme \<Rightarrow> int" where
  "views_of i db = int (length (filter (\<lambda>m. im_campaign m = i) (impressions db)))"

definition one_live_tier :: "boost_campaign list \<Rightarrow> bool" where
  "one_live_tier ks \<longleftrightarrow>
     (\<forall>i j. i < length ks \<longrightarrow> j < length ks \<longrightarrow> live_tier (ks ! i) \<longrightarrow> live_tier (ks ! j) \<longrightarrow>
        bst_reel (ks ! i) = bst_reel (ks ! j) \<longrightarrow> i = j)"

definition boost_ok :: "'a boost_db_scheme \<Rightarrow> bool" where
  "boost_ok db \<longleftrightarrow>
     (\<forall>c. boost_configs db = Some c \<longrightarrow> config_ok c) \<and> (\<forall>k \<in> set (boosts db). boost_row_ok k) \<and> one_live_tier (boosts db) \<and>
     (\<forall>i < length (boosts db). impressions_served (boosts db ! i) \<le> views_of i db) \<and>
     distinct (map (\<lambda>m. (im_campaign m, im_viewer m)) (impressions db))"

definition settled_boost :: "boost_status \<Rightarrow> bool" where
  "settled_boost s \<longleftrightarrow> s \<notin> {B_active, B_paused}"

text \<open>How a row may change, and a table of rows.\<close>

definition row_follows :: "boost_campaign \<Rightarrow> boost_campaign \<Rightarrow> bool" where
  "row_follows k k' \<longleftrightarrow>
     bst_user k' = bst_user k \<and> bst_reel k' = bst_reel k \<and> boost_type k' = boost_type k \<and> placement k' = placement k \<and>
     guaranteed_impressions k' = guaranteed_impressions k \<and> coins_spent k' = coins_spent k \<and> end_time k' = end_time k \<and>
     (settled_boost (bst_status k) \<longrightarrow> k' = k)"

definition rows_follow :: "boost_campaign list \<Rightarrow> boost_campaign list \<Rightarrow> bool" where
  "rows_follow ks ks' \<longleftrightarrow> length ks \<le> length ks' \<and> (\<forall>i < length ks. row_follows (ks ! i) (ks' ! i))"

lemma rows_follow_refl [simp]: "rows_follow ks ks"
  by (simp add: rows_follow_def row_follows_def)

lemma rows_follow_append [simp]: "rows_follow ks (ks @ [k])"
  by (simp add: rows_follow_def row_follows_def nth_append)

lemma rows_follow_update: "i < length ks \<Longrightarrow> row_follows (ks ! i) k \<Longrightarrow> rows_follow ks (ks[i := k])"
  by (auto simp: rows_follow_def row_follows_def nth_list_update)

lemma row_follows_trans: "row_follows a b \<Longrightarrow> row_follows b c \<Longrightarrow> row_follows a c"
  by (auto simp: row_follows_def)

lemma rows_follow_trans: "rows_follow a b \<Longrightarrow> rows_follow b c \<Longrightarrow> rows_follow a c"
  unfolding rows_follow_def by (meson order_less_le_trans order_trans row_follows_trans)

text \<open>One step keeps the books and lets rows change as they may.\<close>

definition keeps :: "'a boost_db_scheme \<Rightarrow> 'a boost_db_scheme \<Rightarrow> bool" where
  "keeps db db' \<longleftrightarrow> boost_ok db \<longrightarrow> boost_ok db' \<and> rows_follow (boosts db) (boosts db')"

lemma keeps_refl [simp]: "keeps db db"
  by (simp add: keeps_def)

lemma keeps_trans: "keeps a b \<Longrightarrow> keeps b c \<Longrightarrow> keeps a c"
  unfolding keeps_def using rows_follow_trans by blast

lemma boost_ok_cong:
  "boosts a = boosts b \<Longrightarrow> impressions a = impressions b \<Longrightarrow> boost_configs a = boost_configs b \<Longrightarrow> boost_ok a = boost_ok b"
  by (simp add: boost_ok_def views_of_def)

lemma keeps_cong:
  assumes "keeps a b" "boosts c = boosts b" "impressions c = impressions b" "boost_configs c = boost_configs b"
  shows "keeps a c"
  using assms boost_ok_cong [of b c] by (simp add: keeps_def)

lemma keeps_frame: "boosts b = boosts a \<Longrightarrow> impressions b = impressions a \<Longrightarrow> boost_configs b = boost_configs a \<Longrightarrow> keeps a b"
  by (rule keeps_cong [OF keeps_refl]) auto

lemma default_config_ok: "config_ok default_boost_config"
  by (simp add: config_ok_def default_boost_config_def duration_discount_def)

lemma keeps_config: "keeps db (snd (config_or_create db))"
  by (auto simp: keeps_def config_or_create_def boost_ok_def views_of_def default_config_ok split: option.splits)

lemma one_live_update:
  assumes "one_live_tier ks" "\<not> boost_collides k (others i ks)"
  shows "one_live_tier (ks[i := k])"
proof -
  have free: "\<not> live_tier (ks ! j) \<or> bst_reel (ks ! j) \<noteq> bst_reel k" if "live_tier k" "j < length ks" "j \<noteq> i" for j
    using assms(2) others_mem [of j ks i] that by (auto simp: boost_collides_def list_ex_iff)
  show ?thesis
    unfolding one_live_tier_def length_list_update
  proof (intro allI impI)
    fix a b
    assume ab: "a < length ks" "b < length ks" "live_tier (ks[i := k] ! a)" "live_tier (ks[i := k] ! b)"
      "bst_reel (ks[i := k] ! a) = bst_reel (ks[i := k] ! b)"
    show "a = b"
      by (cases "a = i"; cases "b = i") (use ab assms(1) free [of a] free [of b] in \<open>auto simp: one_live_tier_def\<close>)
  qed
qed

lemma one_live_append:
  assumes "one_live_tier ks" "\<not> boost_collides k ks"
  shows "one_live_tier (ks @ [k])"
proof -
  have free: "\<not> live_tier (ks ! j) \<or> bst_reel (ks ! j) \<noteq> bst_reel k" if "live_tier k" "j < length ks" for j
    using assms(2) that nth_mem [of j ks] by (auto simp: boost_collides_def list_ex_iff)
  show ?thesis
    unfolding one_live_tier_def
  proof (intro allI impI)
    fix a b
    assume ab: "a < length (ks @ [k])" "b < length (ks @ [k])" "live_tier ((ks @ [k]) ! a)" "live_tier ((ks @ [k]) ! b)"
      "bst_reel ((ks @ [k]) ! a) = bst_reel ((ks @ [k]) ! b)"
    show "a = b"
      by (cases "a < length ks"; cases "b < length ks")
        (use ab assms(1) free [of a] free [of b] in \<open>auto simp: one_live_tier_def nth_append less_Suc_eq\<close>)
  qed
qed

lemma write_ok:
  assumes db: "boost_ok db" and i: "i < length (boosts db)" and col: "\<not> boost_collides k (others i (boosts db))"
    and ok: "boost_row_ok k" and sv: "impressions_served k \<le> views_of i db"
  shows "boost_ok (db\<lparr>boosts := (boosts db)[i := k]\<rparr>)"
  using assms
  by (auto simp: boost_ok_def views_of_def nth_list_update one_live_update dest!: set_update_subset_insert [THEN subsetD])

lemma keeps_write:
  assumes i: "i < length (boosts db)" and col: "\<not> boost_collides k (others i (boosts db))"
    and ok: "boost_row_ok (boosts db ! i) \<Longrightarrow> boost_row_ok k" and fol: "row_follows (boosts db ! i) k"
    and sv: "impressions_served k = impressions_served (boosts db ! i)"
  shows "keeps db (db\<lparr>boosts := (boosts db)[i := k]\<rparr>)"
  unfolding keeps_def
proof
  assume db: "boost_ok db"
  then have "boost_row_ok k" "impressions_served k \<le> views_of i db" using i ok sv by (auto simp: boost_ok_def)
  with write_ok [OF db i col] fol i show "boost_ok (db\<lparr>boosts := (boosts db)[i := k]\<rparr>) \<and>
      rows_follow (boosts db) (boosts (db\<lparr>boosts := (boosts db)[i := k]\<rparr>))"
    by (simp add: rows_follow_update)
qed

lemma row_ok_at: "boost_ok db \<Longrightarrow> i < length (boosts db) \<Longrightarrow> boost_row_ok (boosts db ! i)"
  by (auto simp: boost_ok_def)

lemma own_boost_Some: "own_boost u i db = Some k \<Longrightarrow> i < length (boosts db) \<and> k = boosts db ! i"
  by (auto simp: own_boost_def split: if_splits)

lemma quiet_no_collision: "bst_status k \<noteq> B_active \<Longrightarrow> \<not> boost_collides k ks"
  by (simp add: boost_collides_def live_tier_def)

lemma newest_Some:
  assumes "newest P db = Some (i, k)"
  shows "i < length (boosts db)" "k = boosts db ! i" "P k"
proof -
  from assms have "(i, k) \<in> set (numbered db)" "P k" 
    unfolding newest_def find_Some_iff by (metis comp_apply length_rev nth_mem set_rev snd_conv)+
  then show "i < length (boosts db)" "k = boosts db ! i" "P k" by (auto simp: numbered_def in_set_zip)
qed

subsection \<open>Decimals\<close>

lemma dec_round_unit: "0 \<le> q \<Longrightarrow> q \<le> 1 \<Longrightarrow> 0 \<le> dec_round q \<and> dec_round q \<le> 1"
  using dec_round_nonneg [of q] dec_round_mono [of q 1] dec_round_representable [OF representable_of_int, of 1] by simp

lemma dec_round_hundredths: "\<bar>n\<bar> < 10 ^ 10 \<Longrightarrow> dec_round (of_hundredths n) = of_hundredths n"
  unfolding of_hundredths_def by (rule dec_round_representable, rule representable_hundredths) simp

lemma of_hundredths_le [simp]: "of_hundredths a \<le> of_hundredths b \<longleftrightarrow> a \<le> b" "0 \<le> of_hundredths a \<longleftrightarrow> 0 \<le> a"
  by (simp_all add: of_hundredths_def divide_right_mono field_simps zero_le_divide_iff)

lemma half_even_hundredths: "0 \<le> q \<Longrightarrow> q \<le> of_hundredths n \<Longrightarrow> 0 \<le> half_even (q * 100) \<and> half_even (q * 100) \<le> n"
  using half_even_between(1) [of 0 "q * 100"] half_even_between(2) [of "q * 100" n] by (simp add: of_hundredths_def)

lemma refund_bounds:
  assumes "config_ok c" "boost_row_ok k"
  shows "0 \<le> final_refund c k" "final_refund c k \<le> of_hundredths (coins_remaining k)"
    "0 \<le> cancellation_fee c k" "cancellation_fee c k \<le> of_hundredths (coins_remaining k)"
proof -
  let ?r = "of_hundredths (coins_remaining k)" and ?p = "percent (cancellation_fee_percent c)"
  have p: "0 \<le> ?p" "?p \<le> 1"
    using assms(1) dec_round_unit [of "of_int (cancellation_fee_percent c) / 100"] by (simp_all add: percent_def config_ok_def)
  have r: "0 \<le> ?r" "dec_round ?r = ?r"
    using assms(2) dec_round_hundredths [of "coins_remaining k"] by (simp_all add: boost_row_ok_def)
  from r p have "0 \<le> ?r * ?p" "?r * ?p \<le> ?r" by (simp_all add: mult_left_le)
  then show fee: "0 \<le> cancellation_fee c k" "cancellation_fee c k \<le> ?r"
    using dec_round_nonneg [of "?r * ?p"] dec_round_mono [of "?r * ?p" ?r] r by (simp_all add: cancellation_fee_def)
  then show "0 \<le> final_refund c k" "final_refund c k \<le> ?r"
    using dec_round_nonneg [of "?r - cancellation_fee c k"] dec_round_mono [of "?r - cancellation_fee c k" ?r] r
    by (simp_all add: final_refund_def)
qed

lemma deduct_nonneg:
  assumes "\<And>c. cfg = Some c \<Longrightarrow> config_ok c" "0 \<le> hourly_budget k" "coins_to_deduct cfg k = Inr d"
  shows "0 \<le> d"
  using assms dec_round_nonneg
  by (cases cfg) (auto simp: coins_to_deduct_def divide_by_def config_ok_def zero_le_divide_iff split: if_splits)

lemma charge_impression_ok:
  assumes "charge_impression d k = Inr k'" "boost_row_ok k" "bst_status k = B_active" "0 \<le> d"
  shows "boost_row_ok k' \<and> row_follows k k' \<and> impressions_served k' = impressions_served k \<and> bst_status k' \<in> {B_active, B_exhausted}"
proof (cases "d \<le> of_hundredths (coins_remaining k)")
  case True
  let ?q = "of_hundredths (coins_remaining k) - d"
  have "0 \<le> ?q" "?q \<le> of_hundredths (coins_remaining k)" using True assms(4) by simp_all
  moreover have "dec_round (of_hundredths (coins_remaining k)) = of_hundredths (coins_remaining k)"
    using assms(2) dec_round_hundredths [of "coins_remaining k"] by (simp add: boost_row_ok_def)
  ultimately have "0 \<le> dec_round ?q" "dec_round ?q \<le> of_hundredths (coins_remaining k)"
    using dec_round_nonneg [of ?q] dec_round_mono [of ?q "of_hundredths (coins_remaining k)"] by simp_all
  then have "0 \<le> half_even (dec_round ?q * 100) \<and> half_even (dec_round ?q * 100) \<le> coins_remaining k" by (rule half_even_hundredths)
  moreover have "k' = k\<lparr>coins_remaining := half_even (dec_round ?q * 100)\<rparr>"
    using assms(1) True by (auto simp: charge_impression_def decimal_10_2_def Let_def split: if_splits)
  ultimately show ?thesis
    using assms(2,3) by (auto simp: boost_row_ok_def row_follows_def settled_boost_def shortfall_def)
next
  case False
  with assms have "k' = k\<lparr>coins_remaining := 0, bst_status := B_exhausted\<rparr>" by (simp add: charge_impression_def)
  with assms(2,3) show ?thesis by (auto simp: boost_row_ok_def row_follows_def settled_boost_def shortfall_def)
qed

lemma serve_one_ok:
  assumes "serve_one cfg k = Inr k'" "boost_row_ok k" "bst_status k = B_active" "\<And>c. cfg = Some c \<Longrightarrow> config_ok c"
  shows "boost_row_ok k' \<and> row_follows k k' \<and> impressions_served k' = impressions_served k + 1 \<and>
    bst_status k' \<in> {B_active, B_exhausted, B_completed}"
proof -
  let ?k = "k\<lparr>impressions_served := impressions_served k + 1\<rparr>"
  from assms(1) obtain d k1 where d: "coins_to_deduct cfg k = Inr d" and k1: "charge_impression d ?k = Inr k1"
    and k': "k' = (if reached_guarantee k1 then k1\<lparr>bst_status := B_completed, coins_remaining := 0\<rparr> else k1)"
    by (auto simp: serve_one_def bind_result_Inr_iff)
  have "0 \<le> d" using deduct_nonneg [of cfg k d] assms d by (simp add: boost_row_ok_def)
  moreover have "boost_row_ok ?k" using assms(2,3) by (auto simp: boost_row_ok_def)
  ultimately have "boost_row_ok k1 \<and> row_follows ?k k1 \<and> impressions_served k1 = impressions_served ?k \<and>
      bst_status k1 \<in> {B_active, B_exhausted}"
    using charge_impression_ok [OF k1] assms(3) by simp
  then show ?thesis
    using assms(3) unfolding k'
    by (auto simp: boost_row_ok_def row_follows_def settled_boost_def shortfall_def reached_guarantee_def split: option.splits)
qed

subsection \<open>Every request keeps the books\<close>

lemma pause_keeps: "keeps db (snd (pause_boost_campaign u i db))"
proof (cases "\<exists>k db1. own_boost u i db = Some k \<and> bst_status k = B_active \<and> save_boost i (k\<lparr>bst_status := B_paused\<rparr>) db = Inr db1")
  case True
  then obtain k db1 where k: "own_boost u i db = Some k" "bst_status k = B_active" "save_boost i (k\<lparr>bst_status := B_paused\<rparr>) db = Inr db1"
    by blast
  have "keeps db db1"
    using k own_boost_Some [OF k(1)]
    by (auto simp: save_boost_Inr boost_row_ok_def row_follows_def settled_boost_def shortfall_def intro!: keeps_write quiet_no_collision)
  with k show ?thesis by (auto simp: pause_boost_campaign_def intro: keeps_cong)
next
  case False
  then show ?thesis by (auto simp: pause_boost_campaign_def split: option.splits sum.splits)
qed

lemma resume_keeps: "keeps db (snd (resume_boost_campaign u i db))"
proof (cases "\<exists>k db1. own_boost u i db = Some k \<and> bst_status k = B_paused \<and> now db < end_time k \<and> save_boost i (k\<lparr>bst_status := B_active\<rparr>) db = Inr db1")
  case True
  then obtain k db1 where k: "own_boost u i db = Some k" "bst_status k = B_paused" "now db < end_time k"
    "save_boost i (k\<lparr>bst_status := B_active\<rparr>) db = Inr db1" by blast
  have "keeps db db1"
    using k own_boost_Some [OF k(1)]
    by (auto simp: save_boost_Inr boost_row_ok_def row_follows_def settled_boost_def shortfall_def intro!: keeps_write)
  with k show ?thesis by (auto simp: resume_boost_campaign_def intro: keeps_cong)
next
  case False
  then show ?thesis by (auto simp: resume_boost_campaign_def not_less split: option.splits sum.splits)
qed

lemma engage_keeps: "keeps db (snd (record_boost_engagement u rid kind db))"
proof (cases "newest (\<lambda>k. bst_reel k = rid \<and> bst_status k = B_active \<and> now db < end_time k) db")
  case None
  then show ?thesis by (simp add: record_boost_engagement_def)
next
  case (Some ik)
  obtain i k where ik: "ik = (i, k)" by (cases ik) auto
  note n = newest_Some [OF Some [unfolded ik]]
  let ?db1 = "db\<lparr>boost_engagements := boost_engagements db @ [(i, u, kind)]\<rparr>"
  have one: "keeps db ?db1" by (rule keeps_frame) simp_all
  have two: "keeps ?db1 db2" if "save_boost i (k\<lparr>engagement_count := engagement_count k + 1\<rparr>) ?db1 = Inr db2" for db2
    using that n keeps_write [of i ?db1 "k\<lparr>engagement_count := engagement_count k + 1\<rparr>"]
    by (auto simp: save_boost_Inr boost_row_ok_def row_follows_def settled_boost_def shortfall_def)
  show ?thesis
    using one keeps_trans [OF one two]
    by (auto simp: record_boost_engagement_def Some ik Let_def split: sum.splits intro: keeps_cong)
qed

lemma add_view_ok:
  assumes "boost_ok db" "\<not> list_ex (\<lambda>m. im_campaign m = i \<and> im_viewer m = u) (impressions db)"
  shows "boost_ok (db\<lparr>impressions := impressions db @ [\<lparr>im_campaign = i, im_viewer = u, viewed_at = t\<rparr>]\<rparr>)"
  using assms by (force simp: boost_ok_def views_of_def list_ex_iff)

lemma view_keeps: "keeps db (snd (record_boost_impression u rid db))"
proof (cases "newest (\<lambda>k. bst_reel k = rid \<and> boost_is_active (now db) k) db")
  case None
  then show ?thesis by (simp add: record_boost_impression_def)
next
  case (Some ik)
  obtain i k where ik: "ik = (i, k)" by (cases ik) auto
  note n = newest_Some [OF Some [unfolded ik]]
  let ?db1 = "db\<lparr>impressions := impressions db @ [\<lparr>im_campaign = i, im_viewer = u, viewed_at = now db\<rparr>]\<rparr>"
  have "boost_ok (snd (record_on u i k db)) \<and> rows_follow (boosts db) (boosts (snd (record_on u i k db)))" if db: "boost_ok db"
  proof (cases "capped i u db \<or> list_ex (\<lambda>m. im_campaign m = i \<and> im_viewer m = u) (impressions db)")
    case True
    with db show ?thesis by (auto simp: record_on_def)
  next
    case new: False
    with db have db1: "boost_ok ?db1" using add_view_ok by blast
    show ?thesis
    proof (cases "save_impression i k ?db1")
      case (Inl e)
      with new db1 show ?thesis by (simp add: record_on_def)
    next
      case (Inr db2)
      then obtain k1 where k1: "serve_one (boost_configs db) k = Inr k1" "\<not> boost_collides k1 (others i (boosts db))"
        and db2: "db2 = update_reel_flags (bst_reel k) (\<lambda>r. r\<lparr>total_boost_impressions := total_boost_impressions r + 1\<rparr>)
              (?db1\<lparr>boosts := (boosts ?db1)[i := k1]\<rparr>)"
        by (auto simp: save_impression_def bind_result_Inr_iff save_boost_Inr)
      have k: "boost_row_ok k" "bst_status k = B_active" using db n by (auto simp: boost_is_active_def row_ok_at)
      note s = serve_one_ok [OF k1(1) k]
      have "\<forall>c. boost_configs db = Some c \<longrightarrow> config_ok c" using db by (simp add: boost_ok_def)
      with s have s: "boost_row_ok k1" "row_follows k k1" "impressions_served k1 = impressions_served k + 1" by simp_all
      have "impressions_served k \<le> views_of i db" using db n by (auto simp: boost_ok_def)
      then have "impressions_served k1 \<le> views_of i ?db1" using s(3) by (simp add: views_of_def)
      then have "boost_ok (?db1\<lparr>boosts := (boosts ?db1)[i := k1]\<rparr>)"
        using write_ok [OF db1, of i k1] n k1(2) s(1) by simp
      then have "boost_ok db2" unfolding db2 by (rule boost_ok_cong [THEN iffD1, rotated -1]) simp_all
      with new Inr s(2) n show ?thesis by (simp add: record_on_def db2 rows_follow_update)
    qed
  qed
  then show ?thesis by (simp add: record_boost_impression_def Some ik keeps_def)
qed

lemma expire_one_keeps: "i < length (boosts db) \<Longrightarrow> bst_status (boosts db ! i) = B_active \<Longrightarrow> keeps db (expire_one i db)"
  unfolding expire_one_def Let_def
  by (rule keeps_cong, rule keeps_write [of i db])
    (auto simp: boost_row_ok_def row_follows_def settled_boost_def shortfall_def split: option.splits intro!: quiet_no_collision)

lemma expire_one_boosts:
  "boosts (expire_one i db) = (boosts db)[i := (boosts db ! i)\<lparr>bst_status := (if shortfall (boosts db ! i) \<noteq> 0 then B_undelivered else B_completed)\<rparr>]"
  by (simp add: expire_one_def Let_def)

lemma expire_loop_keeps:
  "(\<And>i. i \<in> set js \<Longrightarrow> i < length (boosts db)) \<Longrightarrow> keeps db (snd (expire_loop js n db))"
proof (induction js arbitrary: n db)
  case Nil
  then show ?case by simp
next
  case (Cons i js)
  obtain a b where n: "n = (a, b)" by (cases n) auto
  show ?case
  proof (cases "bst_status (boosts db ! i) = B_active")
    case True
    with Cons.prems have "keeps db (expire_one i db)" by (simp add: expire_one_keeps)
    moreover have "keeps (expire_one i db) (snd (expire_loop js (Suc a, b + coins_remaining (boosts db ! i)) (expire_one i db)))"
      by (rule Cons.IH) (simp add: expire_one_boosts Cons.prems)
    ultimately show ?thesis using True keeps_trans by (fastforce simp: n)
  next
    case False
    with Cons show ?thesis by (simp add: n)
  qed
qed

lemma finished_iff: "i \<in> set (finished db) \<longleftrightarrow> i < length (boosts db) \<and> bst_status (boosts db ! i) = B_active \<and> end_time (boosts db ! i) \<le> now db"
  by (force simp: finished_def numbered_def set_zip)

lemma sweep_keeps: "keeps db (snd (expire_boost_campaigns db))"
  unfolding expire_boost_campaigns_def by (rule expire_loop_keeps) (simp add: finished_iff)

lemma apply_delta_boost_frame:
  assumes "add_profile_coins u n t db = Inr db'"
  shows "boosts db' = boosts db" "impressions db' = impressions db" "boost_configs db' = boost_configs db"
    "balances db' = balances db" "coin_ledger db' = coin_ledger db" "now db' = now db" "boost_reels db' = boost_reels db"
  using assms
  by (auto simp: add_profile_coins_def apply_delta_def bind_result_Inr_iff Let_def split: if_splits)

text \<open>A cancellation that goes through: the row is closed and the refund credited to the profile.\<close>

lemma claim_cancel_cases:
  assumes "claim_cancel u i k c db = (r, db')"
  obtains (kept) "db' = db" "\<And>a b n. r \<noteq> B_refunded a b n"
  | (closed) refund db2 where "bst_status (boosts db ! i) = B_active" "decimal_10_2 (final_refund c k) = Inr refund"
      "boosts db' = (boosts db)[i := cancelled_boost (now db) refund (boosts db ! i)]"
      "impressions db' = impressions db" "boost_configs db' = boost_configs db"
      "balances db' = balances db" "coin_ledger db' = coin_ledger db"
      "if 0 < final_refund c k
       then add_profile_coins u (trunc (final_refund c k)) None
              (db\<lparr>boosts := (boosts db)[i := cancelled_boost (now db) refund (boosts db ! i)]\<rparr>) = Inr db2
       else db2 = db\<lparr>boosts := (boosts db)[i := cancelled_boost (now db) refund (boosts db ! i)]\<rparr>"
      "profiles db' = profiles db2"
proof (cases "bst_status (boosts db ! i) = B_active")
  case False
  with assms have "db' = db" "\<And>a b n. r \<noteq> B_refunded a b n" by (auto simp: claim_cancel_def)
  then show thesis by (rule kept)
next
  case act: True
  let ?db1 = "\<lambda>refund. db\<lparr>boosts := (boosts db)[i := cancelled_boost (now db) refund (boosts db ! i)]\<rparr>"
  let ?m = "bind_result (decimal_10_2 (final_refund c k)) (\<lambda>refund.
     let db1 = ?db1 refund
     in if 0 < final_refund c k then add_profile_coins u (trunc (final_refund c k)) None db1 else Inr db1)"
  show thesis
  proof (cases ?m)
    case (Inl e)
    with assms act have "db' = db" "\<And>a b n. r \<noteq> B_refunded a b n" by (auto simp: claim_cancel_def)
    then show thesis by (rule kept)
  next
    case (Inr db2)
    then obtain refund where refund: "decimal_10_2 (final_refund c k) = Inr refund"
      and db2: "(if 0 < final_refund c k then add_profile_coins u (trunc (final_refund c k)) None (?db1 refund) else Inr (?db1 refund)) = Inr db2"
      unfolding Let_def bind_result_Inr_iff by blast
    have f: "boosts db2 = boosts (?db1 refund)" "impressions db2 = impressions db" "boost_configs db2 = boost_configs db"
      "balances db2 = balances db" "coin_ledger db2 = coin_ledger db"
      using db2 apply_delta_boost_frame [of u "trunc (final_refund c k)" None "?db1 refund" db2] by (auto split: if_splits)
    from assms act Inr have "db' = update_reel_flags (bst_reel k)
        (\<lambda>r. if active_boost_campaign r = Some i then r\<lparr>is_boosted := False, active_boost_campaign := None\<rparr> else r) db2"
      by (auto simp: claim_cancel_def)
    with f show thesis using closed [OF act refund, of db2] db2 by (auto split: if_splits)
  qed
qed

lemma claim_cancel_keeps:
  assumes i: "i < length (boosts db)" and cfg: "boost_configs db = Some c"
  shows "keeps db (snd (claim_cancel u i (boosts db ! i) c db))"
proof -
  obtain r db' where res: "claim_cancel u i (boosts db ! i) c db = (r, db')" by fastforce
  from res show ?thesis
  proof (cases rule: claim_cancel_cases)
    case kept
    with res show ?thesis by simp
  next
    case (closed refund db2)
    let ?k = "boosts db ! i"
    have "boost_ok db' \<and> rows_follow (boosts db) (boosts db')" if db: "boost_ok db"
    proof -
      have ok: "boost_row_ok ?k" "config_ok c" using db i cfg by (auto simp: row_ok_at boost_ok_def)
      have "refund = half_even (final_refund c ?k * 100)"
        using closed(2) by (auto simp: decimal_10_2_def Let_def split: if_splits)
      with half_even_hundredths [OF refund_bounds(1,2) [OF ok(2,1)]]
      have "0 \<le> refund" "refund \<le> coins_remaining ?k" by simp_all
      with ok(1) closed(1) have "boost_row_ok (cancelled_boost (now db) refund ?k)" "row_follows ?k (cancelled_boost (now db) refund ?k)"
        by (auto simp: boost_row_ok_def cancelled_boost_def row_follows_def settled_boost_def)
      moreover have "impressions_served (cancelled_boost (now db) refund ?k) \<le> views_of i db"
        using db i by (auto simp: boost_ok_def cancelled_boost_def)
      moreover have "\<not> boost_collides (cancelled_boost (now db) refund ?k) (others i (boosts db))"
        by (rule quiet_no_collision) (simp add: cancelled_boost_def)
      ultimately have "boost_ok (db\<lparr>boosts := (boosts db)[i := cancelled_boost (now db) refund ?k]\<rparr>)"
        "rows_follow (boosts db) ((boosts db)[i := cancelled_boost (now db) refund ?k])"
        using write_ok [OF db i] i by (simp_all add: rows_follow_update)
      with closed(3,4,5) boost_ok_cong [of db' "db\<lparr>boosts := (boosts db)[i := cancelled_boost (now db) refund ?k]\<rparr>"] show ?thesis by simp
    qed
    with res show ?thesis by (simp add: keeps_def)
  qed
qed

lemma cancel_keeps: "keeps db (snd (cancel_boost_campaign u i db))"
proof (cases "\<exists>k. own_boost u i db = Some k \<and> bst_status k = B_active")
  case True
  then obtain k where k: "own_boost u i db = Some k" "bst_status k = B_active" by blast
  note o = own_boost_Some [OF k(1)]
  have "keeps (snd (config_or_create db)) (snd (claim_cancel u i k (fst (config_or_create db)) (snd (config_or_create db))))"
    using claim_cancel_keeps [of i "snd (config_or_create db)" "fst (config_or_create db)" u] o by simp
  with keeps_config have "keeps db (snd (claim_cancel u i k (fst (config_or_create db)) (snd (config_or_create db))))"
    by (rule keeps_trans)
  with k show ?thesis by (simp add: cancel_boost_campaign_def split_beta)
next
  case False
  then show ?thesis by (auto simp: cancel_boost_campaign_def split: option.splits)
qed

lemma append_keeps:
  assumes "boost_ok db" "boost_row_ok k" "impressions_served k = 0" "\<not> boost_collides k (boosts db)"
  shows "boost_ok (db\<lparr>boosts := boosts db @ [k]\<rparr>)"
  using assms by (auto simp: boost_ok_def one_live_append nth_append views_of_def less_Suc_eq)

lemma exact_cost_nonpos:
  assumes "config_ok c" "h \<le> 0"
  shows "exact_cost c h premium \<le> 0"
proof -
  have down: "x \<le> 0 \<Longrightarrow> dec_round x \<le> 0" for x using dec_round_mono [of x 0] by simp
  have up: "0 \<le> dec_round (1 - percent (duration_discount c h))" "0 \<le> dec_round (1 + percent (premium_targeting_surcharge c))"
    "0 \<le> dec_round (1 + percent (platform_fee_percent c))"
    using assms(1) dec_round_unit [of "of_int (duration_discount c h) / 100"]
      dec_round_nonneg [of "of_int (premium_targeting_surcharge c) / 100"] dec_round_nonneg [of "of_int (platform_fee_percent c) / 100"]
    by (auto simp: config_ok_def percent_def intro!: dec_round_nonneg)
  have "of_hundredths (base_hourly_rate c) * of_int h \<le> 0"
    using assms by (auto simp: config_ok_def of_hundredths_def intro!: mult_nonneg_nonpos)
  then show ?thesis
    using up by (auto simp: exact_cost_def Let_def intro!: down mult_nonpos_nonneg)
qed

lemma trunc_pos: "0 < trunc q \<Longrightarrow> 1 \<le> q"
  by (auto simp: trunc_def split: if_splits)

lemma price_pos_hours:
  assumes "config_ok c" "chosen_tier rq = Inr (tier, h)" "price_boost c rq tier h = Inr (cost, e)" "0 < cost"
  shows "0 < h"
proof (cases tier)
  case None
  show ?thesis
  proof (rule ccontr)
    assume "\<not> 0 < h"
    then have "exact_cost c h (has_premium_targeting rq) * 100 \<le> of_int 0" using exact_cost_nonpos [OF assms(1), of h] by simp
    then have "half_even (exact_cost c h (has_premium_targeting rq) * 100) \<le> 0" by (rule half_even_between(2))
    with assms(3,4) None show False
      by (auto simp: price_boost_def calculate_cost_def quantize2_def Let_def bind_result_Inr_iff split: if_splits)
  qed
next
  case (Some t)
  then have "t \<in> snd ` set TIERS"
    using assms(2) by (auto simp: chosen_tier_def tier_for_def of_option_def split: if_splits option.splits exn.splits dest!: map_of_SomeD intro: rev_image_eqI)
  moreover have "h = tier_hours t" using assms(2) Some by (auto simp: chosen_tier_def split: if_splits option.splits sum.splits exn.splits)
  ultimately show ?thesis by (auto simp: TIERS_def VIRAL_WINDOW_HOURS_def)
qed

lemma boost_checks_state:
  "snd (boost_checks u rq db) \<in> {db, snd (config_or_create db), get_or_create_balance u (snd (config_or_create db))}"
  by (auto simp: boost_checks_def Let_def split_beta split: sum.splits option.splits)

lemma boost_checks_Inr:
  assumes "boost_checks u rq db = (Inr ord, db1)"
  obtains tier h rl cost e p budget where "chosen_tier rq = Inr (tier, h)" "boost_reels db (rq_reel rq) = Some rl"
    "br_owner rl = u" "\<not> br_hidden rl" "db1 = get_or_create_balance u (snd (config_or_create db))"
    "int (boosts_on u (utc_date (now db)) db) < max_daily_boosts_per_user (fst (config_or_create db))"
    "int (active_on (rq_reel rq) db) < max_active_boosts_per_post (fst (config_or_create db))"
    "tier = None \<or> active_on (rq_reel rq) db = 0"
    "price_boost (fst (config_or_create db)) rq tier h = Inr (cost, e)" "profiles db u = Some p"
    "h \<noteq> 0" "budget = dec_round (of_hundredths cost / of_int h)"
    "ord = \<lparr>or_user = u, or_reel_id = rq_reel rq, or_reel = rl, or_tier = tier, or_cost = cost,
             or_balance = or_default new_balance (balances db1 u), or_spent_total = coins_spent_total p, or_hours = h,
             or_expected = e, or_hourly = budget, or_targets = rq\<rparr>"
  using assms
  by (auto simp: boost_checks_def Let_def split_beta divide_by_def boosts_on_def active_on_def not_le
      split: sum.splits option.splits if_splits)

lemma cost_int_pos: "0 < cost_int ord \<Longrightarrow> 100 \<le> or_cost ord"
  using trunc_pos [of "of_hundredths (or_cost ord)"] by (simp add: cost_int_def of_hundredths_def field_simps)

lemma spend_pos: "spend_coins s u n ty r ks db = Inr v \<Longrightarrow> 0 < n"
  by (simp add: spend_coins_def split: if_splits)

lemma buy_keeps: "keeps db (snd (create_boost_campaign u rq db))"
proof -
  obtain x db1 where x: "boost_checks u rq db = (x, db1)" by fastforce
  have "keeps db db1"
    using boost_checks_state [of u rq db] keeps_config [of db] keeps_frame [of "get_or_create_balance u (snd (config_or_create db))" "snd (config_or_create db)"]
    by (auto simp: x intro: keeps_trans)
  moreover have "keeps db1 (snd (charge_and_create ord db1))" if ord: "x = Inr ord" for ord
  proof -
    obtain r db' where res: "charge_and_create ord db1 = (r, db')" by fastforce
    from res show ?thesis
    proof (cases rule: boost_charge_cases)
      case kept
      with res show ?thesis by simp
    next
      case (created s tx dba p dbb i)
      note f = spend_frame [OF created(1)]
      from created(3) obtain budget where st: "db' = put_reel (or_reel_id ord) ((or_reel ord)\<lparr>is_boosted := True, active_boost_campaign := Some i\<rparr>)
          (dbb\<lparr>boosts := boosts dbb @ [new_boost ord budget (now dbb)]\<rparr>)"
        "decimal_10_2 (or_hourly ord) = Inr budget" "\<bar>or_cost ord\<bar> < 10 ^ 10" "\<not> boost_collides (new_boost ord budget (now dbb)) (boosts dbb)"
        by (rule store_Inr)
      have pos: "100 \<le> or_cost ord" using cost_int_pos spend_pos [OF created(1)] by blast
      have "boost_ok db' \<and> rows_follow (boosts db1) (boosts db')" if ok: "boost_ok db1"
      proof -
        have cfg: "config_ok (fst (config_or_create db))" using ok x ord boost_checks_Inr [of u rq db ord db1]
          by (metis boost_ok_def config_simps(7) get_or_create_boost_frame(3))
        have "0 \<le> or_hourly ord"
        proof -
          from x ord have "boost_checks u rq db = (Inr ord, db1)" by simp
          then show ?thesis
          proof (cases rule: boost_checks_Inr)
            case (1 tier h rl cost e p budget)
            then have "0 < h" using price_pos_hours [OF cfg] pos by fastforce
            with 1 pos show ?thesis by (auto simp: of_hundredths_def intro!: dec_round_nonneg)
          qed
        qed
        then have "0 \<le> budget" using half_even_between(1) [of 0 "or_hourly ord * 100"] st(2)
          by (auto simp: decimal_10_2_def Let_def split: if_splits)
        then have "boost_row_ok (new_boost ord budget (now dbb))"
          using pos st(3) by (auto simp: boost_row_ok_def new_boost_def)
        moreover have "boost_ok dbb" using ok f created(2) by (auto intro: boost_ok_cong [THEN iffD1])
        ultimately have "boost_ok (dbb\<lparr>boosts := boosts dbb @ [new_boost ord budget (now dbb)]\<rparr>)"
          using append_keeps st(4) by (fastforce simp: new_boost_def)
        then have "boost_ok db'" unfolding st(1) by (rule boost_ok_cong [THEN iffD1, rotated -1]) simp_all
        then show ?thesis using f created(2) by (simp add: st(1))
      qed
      with res show ?thesis by (simp add: keeps_def)
    qed
  qed
  ultimately show ?thesis by (auto simp: create_boost_campaign_def x split: sum.splits intro: keeps_trans)
qed

lemma buy_post_cases:
  assumes "boost_post u rid db = (r, db')"
  obtains (kept) "db' = db" "\<And>i n. r \<noteq> B_boosted i n"
  | (boosted) rl i where "subscriber_action_refusal (Some u) ''boost'' db = None" "boost_reels db rid = Some rl" "br_owner rl = u"
      "\<not> br_hidden rl" "active_on rid db = 0" "charge_boost_post u rid db = Inr (i, db')" "r = B_boosted i BOOST_POST_COINS"
  using assms by (auto simp: boost_post_def split: option.splits sum.splits if_splits exn.splits)

lemma charge_boost_post_Inr:
  assumes "charge_boost_post u rid db = Inr (i, db')"
  obtains b s tx db1 where "balances db u = Some b"
    "spend_coins b u BOOST_POST_COINS ''boost'' False [Kw_reel (Some rid), Kw_description (''Post boost'', [])] db = Inr (s, tx, db1)"
    "i = length (boosts db1)"
    "db' = update_reel_flags rid (\<lambda>r. r\<lparr>is_boosted := True, active_boost_campaign := Some i\<rparr>) (db1\<lparr>boosts := boosts db1 @ [boost_post_row u rid db]\<rparr>)"
    "\<not> boost_collides (boost_post_row u rid db) (boosts db1)"
  using assms by (auto simp: charge_boost_post_def bind_result_Inr_iff of_option_Inr_iff insert_boost_Inr)

lemma buy_post_keeps: "keeps db (snd (boost_post u rid db))"
proof -
  obtain r db' where res: "boost_post u rid db = (r, db')" by fastforce
  from res show ?thesis
  proof (cases rule: buy_post_cases)
    case kept
    with res show ?thesis by simp
  next
    case (boosted rl i)
    from boosted(6) obtain b s tx db1 where c:
      "spend_coins b u BOOST_POST_COINS ''boost'' False [Kw_reel (Some rid), Kw_description (''Post boost'', [])] db = Inr (s, tx, db1)"
      "db' = update_reel_flags rid (\<lambda>r. r\<lparr>is_boosted := True, active_boost_campaign := Some i\<rparr>) (db1\<lparr>boosts := boosts db1 @ [boost_post_row u rid db]\<rparr>)"
      "\<not> boost_collides (boost_post_row u rid db) (boosts db1)" by (rule charge_boost_post_Inr)
    note f = spend_frame [OF c(1)]
    have "0 \<le> dec_round (100 :: rat)" by (rule dec_round_nonneg) simp
    then have "0 \<le> half_even (dec_round 100 * 100)" using half_even_between(1) [of 0 "dec_round 100 * 100"] by simp
    then have row: "boost_row_ok (boost_post_row u rid db)"
      by (simp add: boost_row_ok_def boost_post_row_def BOOST_POST_COINS_def BOOST_POST_HOURS_def shortfall_def)
    have "boost_ok db'" if "boost_ok db"
    proof -
      have "boost_ok db1" using that f by (auto intro: boost_ok_cong [THEN iffD1])
      then have "boost_ok (db1\<lparr>boosts := boosts db1 @ [boost_post_row u rid db]\<rparr>)"
        using append_keeps row c(3) by (fastforce simp: boost_post_row_def)
      then show ?thesis unfolding c(2) by (rule boost_ok_cong [THEN iffD1, rotated -1]) simp_all
    qed
    then show ?thesis using f by (simp add: res keeps_def c(2))
  qed
qed

lemma exec_keeps: "keeps db (exec_boost op db)"
proof (cases op)
  case Pace
  then show ?thesis using keeps_config [of db] by (simp add: check_pacing_engine_def split_beta Let_def)
next
  case (Wait n)
  then show ?thesis by (simp add: keeps_frame)
qed (simp_all add: buy_keeps buy_post_keeps cancel_keeps pause_keeps resume_keeps view_keeps engage_keeps sweep_keeps)

lemma run_keeps: "keeps db (fold exec_boost ops db)"
  by (induction ops arbitrary: db) (auto intro: keeps_trans exec_keeps)

section \<open>What a purchase does\<close>

lemma get_or_create_coins [simp]: "coin_balance_of (get_or_create_balance u db) v = coin_balance_of db v"
  by (simp add: coin_balance_of_def get_or_create_balance_def new_balance_def split: option.splits)

lemma get_or_create_inv: "coin_inv db \<Longrightarrow> coin_inv (get_or_create_balance u db)"
  by (auto simp: coin_inv_def get_or_create_balance_def split: option.splits if_splits)

lemma config_coins [simp]: "coin_balance_of (snd (config_or_create db)) v = coin_balance_of db v" "coin_inv (snd (config_or_create db)) = coin_inv db"
  by (simp_all add: coin_balance_of_def coin_inv_def)

lemma checks_coins:
  assumes "boost_checks u rq db = (x, db1)" "coin_inv db"
  shows "coin_inv db1" "coin_balance_of db1 v = coin_balance_of db v" "boosts db1 = boosts db" "now db1 = now db"
  using boost_checks_state [of u rq db] assms get_or_create_inv [of "snd (config_or_create db)" u] by auto

lemma charged_coins:
  assumes "charge_and_create ord db = (B_created i e l, db')" "coin_inv db"
  shows "coin_balance_of db' v = coin_balance_of db v - (if v = or_user ord then cost_int ord else 0)"
    "\<exists>budget. boosts db' = boosts db @ [new_boost ord budget (now db)] \<and> \<not> boost_collides (new_boost ord budget (now db)) (boosts db)"
    "i = length (boosts db)" "now db' = now db" "100 \<le> or_cost ord"
proof -
  obtain s tx dba p dbb j where created:
    "spend_coins (or_balance ord) (or_user ord) (cost_int ord) ''boost_campaign'' False
       [Kw_description (''Boost campaign for reel #{}'', [int (or_reel_id ord)])] db = Inr (s, tx, dba)"
    "dbb = dba\<lparr>profiles := (profiles dba)(or_user ord \<mapsto> p)\<rparr>" "store_boost ord dbb = Inr (j, db')"
    "B_created i e l = B_created j (or_expected ord) (balance s)"
    using assms(1) by (cases rule: boost_charge_cases) blast+
  note f = spend_frame [OF created(1)]
  from created(3) obtain budget where st: "j = length (boosts dbb)" "db' = put_reel (or_reel_id ord) ((or_reel ord)\<lparr>is_boosted := True, active_boost_campaign := Some j\<rparr>)
        (dbb\<lparr>boosts := boosts dbb @ [new_boost ord budget (now dbb)]\<rparr>)"
      "\<not> boost_collides (new_boost ord budget (now dbb)) (boosts dbb)"
    by (rule store_Inr)
  have "coin_balance_of db' v = coin_balance_of dba v" by (simp add: st(2) created(2) coin_balance_of_def)
  with steps_balance [OF spend_coins_steps created(1) assms(2), of v]
  show "coin_balance_of db' v = coin_balance_of db v - (if v = or_user ord then cost_int ord else 0)" by simp
  show "\<exists>budget. boosts db' = boosts db @ [new_boost ord budget (now db)] \<and> \<not> boost_collides (new_boost ord budget (now db)) (boosts db)"
    using st f created(2) by auto
  show "now db' = now db" using st(2) f created(2) by simp
  show "i = length (boosts db)" using st(1) created(2,4) f by simp
  show "100 \<le> or_cost ord" using cost_int_pos spend_pos [OF created(1)] by blast
qed

lemma tier_known:
  assumes "tier_for key = Inr t"
  shows "(tier_key t, t) \<in> set TIERS"
proof -
  have "(lower (strip key), t) \<in> set TIERS" using assms by (auto simp: tier_for_def of_option_Inr_iff dest: map_of_SomeD)
  moreover have "\<forall>(k, t) \<in> set TIERS. k = tier_key t" by (simp add: TIERS_def)
  ultimately show ?thesis by fastforce
qed

lemma chosen_named: "key \<noteq> [] \<Longrightarrow> rq_type rq = Some key \<Longrightarrow> tier_for key = Inr t \<Longrightarrow> chosen_tier rq = Inr (Some t, tier_hours t)"
  by (simp add: chosen_tier_def or_default_def)

lemma tier_for_nonempty:
  assumes "tier_for key = Inr t"
  shows "key \<noteq> []"
proof -
  have "tier_for [] = Inl (ValueError (''Unknown boost type: '', []))" by code_simp
  with assms show ?thesis by auto
qed

section \<open>A guarantee that cannot be met\<close>

fun serve_many :: "nat \<Rightarrow> boost_config option \<Rightarrow> boost_campaign \<Rightarrow> boost_campaign" where
  "serve_many 0 cfg k = k"
| "serve_many (Suc n) cfg k =
     (if bst_status k \<noteq> B_active then k
      else case serve_one cfg k of Inl e \<Rightarrow> k | Inr k' \<Rightarrow> serve_many n cfg k')"

lemma representable_thousandths: "\<bar>n\<bar> < 10 ^ 28 \<Longrightarrow> representable (of_int n / 1000)"
  unfolding representable_def
  by (rule exI [of _ n], rule exI [of _ "- 3"]) (simp add: ten_to_def power_int_minus)

lemma half_even_three_tenths: "half_even (of_int a + 3 / 10) = a"
proof -
  have "\<lfloor>of_int a + 3 / 10 :: rat\<rfloor> = a" by (rule floor_unique) simp_all
  then show ?thesis by (simp add: half_even_def)
qed

definition viral_at :: "int \<Rightarrow> boost_campaign \<Rightarrow> bool" where
  "viral_at n k \<longleftrightarrow> bst_status k = B_active \<and> impressions_served k = n \<and> coins_remaining k = 100000 - 417 * n \<and>
     hourly_budget k = 4167 \<and> guaranteed_impressions k = Some 5000"

lemma viral_step:
  assumes "viral_at n k" "0 \<le> n" "n \<le> 239"
  shows "\<exists>k'. serve_one (Some default_boost_config) k = Inr k' \<and>
    (if n < 239 then viral_at (n + 1) k' else bst_status k' = B_exhausted \<and> impressions_served k' = 240)"
proof -
  have "dec_round (of_int 4167 / 1000) = of_int 4167 / 1000"
    by (rule dec_round_representable, rule representable_thousandths) simp
  then have d: "coins_to_deduct (Some default_boost_config) k = Inr (4167 / 1000)"
    using assms(1) by (simp add: coins_to_deduct_def divide_by_def viral_at_def of_hundredths_def default_boost_config_def)
  let ?r = "100000 - 417 * n"
  show ?thesis
  proof (cases "n < 239")
    case True
    then have le: "4167 / 1000 \<le> of_hundredths ?r" by (simp add: of_hundredths_def)
    have q: "of_hundredths ?r - 4167 / 1000 = of_int (10 * ?r - 4167) / 1000" by (simp add: of_hundredths_def field_simps)
    have "dec_round (of_hundredths ?r - 4167 / 1000) = of_int (10 * ?r - 4167) / 1000"
      unfolding q by (rule dec_round_representable, rule representable_thousandths) (use assms in simp)
    moreover have "of_int (10 * ?r - 4167) / 1000 * 100 = (of_int (?r - 417) + 3 / 10 :: rat)" by (simp add: field_simps)
    ultimately have "half_even (dec_round (of_hundredths ?r - 4167 / 1000) * 100) = ?r - 417"
      by (simp only: half_even_three_tenths)
    then have "decimal_10_2 (dec_round (of_hundredths ?r - 4167 / 1000)) = Inr (?r - 417)"
      using assms(2) True by (simp add: decimal_10_2_def Let_def)
    with le d assms True show ?thesis
      by (auto simp: serve_one_def charge_impression_def viral_at_def reached_guarantee_def)
  next
    case False
    with assms have n: "n = 239" by simp
    with d assms(1) show ?thesis
      by (auto simp: serve_one_def charge_impression_def viral_at_def reached_guarantee_def of_hundredths_def)
  qed
qed

lemma viral_run:
  "viral_at m k \<Longrightarrow> 0 \<le> m \<Longrightarrow> m \<le> 239 \<Longrightarrow>
     impressions_served (serve_many n (Some default_boost_config) k) \<le> 240 \<and>
     bst_status (serve_many n (Some default_boost_config) k) \<noteq> B_completed"
proof (induction n arbitrary: m k)
  case 0
  then show ?case by (auto simp: viral_at_def)
next
  case (Suc n)
  from viral_step [OF Suc.prems] obtain k' where k': "serve_one (Some default_boost_config) k = Inr k'"
    and nxt: "if m < 239 then viral_at (m + 1) k' else bst_status k' = B_exhausted \<and> impressions_served k' = 240" by blast
  have act: "bst_status k = B_active" using Suc.prems by (simp add: viral_at_def)
  show ?case
  proof (cases "m < 239")
    case True
    with nxt Suc.prems act k' Suc.IH [of "m + 1" k'] show ?thesis by simp
  next
    case False
    with nxt act k' show ?thesis by (cases n) simp_all
  qed
qed

section \<open>The sweep\<close>

definition retired :: "boost_campaign \<Rightarrow> boost_campaign" where
  "retired k = k\<lparr>bst_status := (if shortfall k \<noteq> 0 then B_undelivered else B_completed)\<rparr>"

lemma expire_one_frame:
  "balances (expire_one i db) = balances db" "coin_ledger (expire_one i db) = coin_ledger db" "profiles (expire_one i db) = profiles db"
  "now (expire_one i db) = now db" "boosts (expire_one i db) = (boosts db)[i := retired (boosts db ! i)]"
  by (simp_all add: expire_one_def Let_def retired_def)

lemma expire_one_reel:
  assumes "boost_reels db rid = Some r" "active_boost_campaign r = Some j" "j < length (boosts db)" "j \<noteq> i"
    "bst_reel (boosts db ! j) = rid" "boost_is_active (now db) (boosts db ! j)"
  shows "boost_reels (expire_one i db) rid = Some r"
proof -
  have "\<exists>k \<in> set ((boosts db)[i := retired (boosts db ! i)]). bst_reel k = rid \<and> boost_is_active (now db) k"
    using assms nth_mem [of j "(boosts db)[i := retired (boosts db ! i)]"] by (intro bexI [of _ "boosts db ! j"]) auto
  then show ?thesis
    using assms by (auto simp: expire_one_def Let_def update_reel_flags_def put_reel_def has_live_campaign_def list_ex_iff retired_def
        split: option.splits)
qed

lemma expire_loop_result:
  "distinct js \<Longrightarrow> (\<And>i. i \<in> set js \<Longrightarrow> i < length (boosts db) \<and> bst_status (boosts db ! i) = B_active) \<Longrightarrow>
   expire_loop js (n, m) db = ((n', m'), db') \<Longrightarrow>
   length (boosts db') = length (boosts db) \<and>
   (\<forall>i < length (boosts db). boosts db' ! i = (if i \<in> set js then retired (boosts db ! i) else boosts db ! i)) \<and>
   n' = n + length js \<and> m' = m + sum_list (map (\<lambda>i. coins_remaining (boosts db ! i)) js) \<and>
   balances db' = balances db \<and> coin_ledger db' = coin_ledger db \<and> profiles db' = profiles db \<and> now db' = now db"
proof (induction js arbitrary: n m db)
  case Nil
  then show ?case by simp
next
  case (Cons i js)
  let ?db = "expire_one i db"
  have i: "i < length (boosts db)" "bst_status (boosts db ! i) = B_active" "i \<notin> set js" "distinct js" using Cons.prems by auto
  have same: "boosts ?db ! j = boosts db ! j" if "j \<in> set js" for j
    using that i(3) by (cases "j = i") (simp_all add: expire_one_frame)
  have "j < length (boosts ?db) \<and> bst_status (boosts ?db ! j) = B_active" if "j \<in> set js" for j
    using Cons.prems(2) [of j] same [OF that] that by (simp add: expire_one_frame)
  moreover have "expire_loop js (Suc n, m + coins_remaining (boosts db ! i)) ?db = ((n', m'), db')"
    using Cons.prems(3) i(2) by simp
  ultimately have ih: "length (boosts db') = length (boosts ?db) \<and>
     (\<forall>j < length (boosts ?db). boosts db' ! j = (if j \<in> set js then retired (boosts ?db ! j) else boosts ?db ! j)) \<and>
     n' = Suc n + length js \<and> m' = m + coins_remaining (boosts db ! i) + sum_list (map (\<lambda>j. coins_remaining (boosts ?db ! j)) js) \<and>
     balances db' = balances ?db \<and> coin_ledger db' = coin_ledger ?db \<and> profiles db' = profiles ?db \<and> now db' = now ?db"
    using Cons.IH [OF i(4), of ?db] by blast
  have sums: "map (\<lambda>j. coins_remaining (boosts ?db ! j)) js = map (\<lambda>j. coins_remaining (boosts db ! j)) js"
    by (rule map_cong) (simp_all add: same)
  have "boosts db' ! j = (if j \<in> set (i # js) then retired (boosts db ! j) else boosts db ! j)" if "j < length (boosts db)" for j
    using ih that i(1,3) by (auto simp: expire_one_frame nth_list_update)
  moreover have "m' = m + sum_list (map (\<lambda>j. coins_remaining (boosts db ! j)) (i # js))" using ih unfolding sums by simp
  ultimately show ?case using ih by (auto simp: expire_one_frame)
qed

lemma expire_loop_reel:
  "boost_reels db rid = Some r \<Longrightarrow> active_boost_campaign r = Some j \<Longrightarrow> j < length (boosts db) \<Longrightarrow> j \<notin> set js \<Longrightarrow>
   bst_reel (boosts db ! j) = rid \<Longrightarrow> boost_is_active (now db) (boosts db ! j) \<Longrightarrow>
   boost_reels (snd (expire_loop js t db)) rid = Some r"
proof (induction js arbitrary: t db)
  case (Cons i js)
  obtain a b where t: "t = (a, b)" by (cases t) auto
  show ?case
  proof (cases "bst_status (boosts db ! i) = B_active")
    case True
    have "boost_reels (snd (expire_loop js (Suc a, b + coins_remaining (boosts db ! i)) (expire_one i db))) rid = Some r"
      using Cons.prems expire_one_reel [of db rid r j i] by (intro Cons.IH) (auto simp: expire_one_frame)
    with True show ?thesis by (simp add: t)
  next
    case False
    with Cons show ?thesis by (simp add: t)
  qed
qed simp

lemma finished_distinct: "distinct (finished db)"
proof -
  have "distinct (map fst (rev (numbered db)))" by (simp add: numbered_def flip: rev_map)
  then show ?thesis unfolding finished_def by (rule distinct_map_filter)
qed

section \<open>Example\<close>

definition example_boost_db :: boost_db where
  "example_boost_db =
     \<lparr>balances = (\<lambda>_. None)(1 \<mapsto> new_balance\<lparr>bonus_balance := 2000, balance := 2000\<rparr>), coin_ledger = [], packages = (\<lambda>_. None), now = 0,
      profiles = (\<lambda>_. Some new_profile), point_ledger = [],
      wallet_cfg = default_config, withdrawals = (\<lambda>_. None), next_withdrawal = 0,
      tiers = (\<lambda>_. None), tier_ids = [], plans = (\<lambda>_. None), plan_ids = [],
      payments = (\<lambda>_. None), payment_ids = [], legacy_subscriptions = (\<lambda>_. Some (Some (9 * one_day))),
      boost_configs = None, boosts = [],
      boost_reels = (\<lambda>_. None)(7 \<mapsto> \<lparr>br_owner = 1, br_hidden = False, is_boosted = False, active_boost_campaign = None,
                                    total_boost_impressions = 0, total_boost_engagements = 0\<rparr>),
      impressions = [], boost_engagements = [], follows = (\<lambda>_ _. False)\<rparr>"

definition a_request :: "string \<Rightarrow> boost_request" where
  "a_request ty = \<lparr>rq_reel = 7, rq_type = Some ty, rq_hours = None, rq_gender = Some ''all'', rq_age_min = None,
                   rq_age_max = None, rq_location = Some []\<rparr>"

definition cancelled_boost_db :: boost_db where
  "cancelled_boost_db =
     example_boost_db\<lparr>boosts := [(boost_post_row 1 7 example_boost_db)\<lparr>hourly_budget := 10000, bst_status := B_cancelled,
        coins_remaining := 0, refund_amount := 18000\<rparr>]\<rparr>"

lemma example_boost_ok: "boost_ok example_boost_db" "coin_inv example_boost_db" "boost_ok cancelled_boost_db"
  by (auto simp: cancelled_boost_db_def example_boost_db_def boost_ok_def one_live_tier_def coin_inv_def wf_balance_def new_balance_def
      boost_row_ok_def boost_post_row_def BOOST_POST_COINS_def views_of_def)

section \<open>Properties\<close>

text \<open>C27.
  The books of a boost are honest. Whatever is bought, posted, cancelled, paused, resumed, viewed, engaged with,
  swept or waited for, in any order: a campaign holds between nothing and what was paid for it, what was refunded
  comes out of that, no more impressions are counted than there are different viewers, a campaign that sold a
  guarantee is only called completed once the guarantee was served, and a post has at most one live tier boost.
\<close>
theorem boost_books_honest:
  assumes "boost_ok db" "i < length (boosts (fold exec_boost ops db))" "k = boosts (fold exec_boost ops db) ! i"
  shows "0 \<le> coins_remaining k \<and> 0 \<le> refund_amount k \<and> coins_remaining k + refund_amount k \<le> coins_spent k \<and>
    impressions_served k \<le> int (card {u. \<exists>m \<in> set (impressions (fold exec_boost ops db)). im_campaign m = i \<and> im_viewer m = u}) \<and>
    (\<forall>g. bst_status k = B_completed \<longrightarrow> guaranteed_impressions k = Some g \<longrightarrow> g \<noteq> 0 \<longrightarrow> g \<le> impressions_served k) \<and>
    (\<forall>j < length (boosts (fold exec_boost ops db)). live_tier k \<longrightarrow> live_tier (boosts (fold exec_boost ops db) ! j) \<longrightarrow>
       bst_reel (boosts (fold exec_boost ops db) ! j) = bst_reel k \<longrightarrow> j = i)"
proof -
  let ?db = "fold exec_boost ops db" and ?V = "{u. \<exists>m \<in> set (impressions (fold exec_boost ops db)). im_campaign m = i \<and> im_viewer m = u}"
  have ok: "boost_ok ?db" using run_keeps [of db ops] assms(1) by (simp add: keeps_def)
  let ?ms = "filter (\<lambda>m. im_campaign m = i) (impressions ?db)"
  have "distinct (map (\<lambda>m. (im_campaign m, im_viewer m)) ?ms)" using ok by (simp add: boost_ok_def distinct_map_filter)
  then have "distinct (map im_viewer ?ms)" by (auto simp: distinct_map inj_on_def)
  then have "length ?ms = card (im_viewer ` set ?ms)" by (metis distinct_card length_map set_map)
  also have "im_viewer ` set ?ms = ?V" by auto
  finally have "views_of i ?db = int (card ?V)" by (simp add: views_of_def)
  with ok assms(2,3) have "impressions_served k \<le> int (card ?V)" by (auto simp: boost_ok_def)
  moreover have "boost_row_ok k" using row_ok_at [OF ok assms(2)] assms(3) by simp
  moreover have "one_live_tier (boosts ?db)" using ok by (simp add: boost_ok_def)
  ultimately show ?thesis
    using assms(2,3) by (auto simp: boost_row_ok_def one_live_tier_def shortfall_def)
qed

theorem boost_books_honest_witness:
  "length (boosts (fold exec_boost [Buy 1 (a_request ''viral'')] example_boost_db)) = 1 \<and>
   coins_remaining (boosts (fold exec_boost [Buy 1 (a_request ''viral'')] example_boost_db) ! 0) \<le>
   coins_spent (boosts (fold exec_boost [Buy 1 (a_request ''viral'')] example_boost_db) ! 0)"
proof -
  have one: "length (boosts (fold exec_boost [Buy 1 (a_request ''viral'')] example_boost_db)) = 1" by code_simp
  then have "0 < length (boosts (fold exec_boost [Buy 1 (a_request ''viral'')] example_boost_db))" by (simp only: one)
  from boost_books_honest [OF example_boost_ok(1) this refl] one show ?thesis by linarith
qed

text \<open>A settled boost is final. Requests never remove a campaign or change its owner, post, product, price, placement
  or end, and one that was completed, cancelled, exhausted or ended below its guarantee keeps every column for
  ever: it is refunded at most once, and never runs again.
\<close>
theorem settled_boost_final:
  assumes "boost_ok db" "i < length (boosts db)"
  shows "i < length (boosts (fold exec_boost ops db)) \<and> row_follows (boosts db ! i) (boosts (fold exec_boost ops db) ! i) \<and>
    (settled_boost (bst_status (boosts db ! i)) \<longrightarrow> boosts (fold exec_boost ops db) ! i = boosts db ! i)"
  using run_keeps [of db ops] assms by (auto simp: keeps_def rows_follow_def row_follows_def)

theorem settled_boost_final_witness:
  "bst_status (boosts cancelled_boost_db ! 0) = B_cancelled \<and>
   boosts (fold exec_boost [Resume 1 0, Cancel 1 0] cancelled_boost_db) ! 0 = boosts cancelled_boost_db ! 0"
proof -
  have "0 < length (boosts cancelled_boost_db)" "bst_status (boosts cancelled_boost_db ! 0) = B_cancelled"
    by (simp_all add: cancelled_boost_db_def)
  with settled_boost_final [OF example_boost_ok(3), of 0 "[Resume 1 0, Cancel 1 0]"] show ?thesis
    by (simp only: settled_boost_def) blast
qed

text \<open>A tier is sold at its price, once. When a purchase of a named tier creates a campaign, the buyer's wallet falls by
  exactly the price of the tier, the post had no live tier boost, and it is lifted at once in every feed of the
  placement sold; when the purchase does not create one, no wallet and no campaign has changed.
\<close>
theorem tier_sold_at_its_price:
  assumes "coin_inv db" "rq_type rq = Some key" "tier_for key = Inr t" "create_boost_campaign u rq db = (r, db')"
  shows "(case r of
      B_created i e l \<Rightarrow>
        (\<forall>v. coin_balance_of db' v = coin_balance_of db v - (if v = u then tier_coins t else 0)) \<and>
        (\<forall>k \<in> set (boosts db). live_tier k \<longrightarrow> bst_reel k \<noteq> rq_reel rq) \<and>
        (\<forall>feed. tier_placement t \<in> set (placements_for_feed feed) \<longrightarrow> lifted_in feed (rq_reel rq) db')
    | _ \<Rightarrow> (\<forall>v. coin_balance_of db' v = coin_balance_of db v) \<and> boosts db' = boosts db)"
proof -
  obtain x db1 where x: "boost_checks u rq db = (x, db1)" by fastforce
  note c = checks_coins [OF x assms(1)]
  show ?thesis
  proof (cases x)
    case (Inl r1)
    have "r \<noteq> B_created i e l" for i e l
      using assms(4) x Inl by (auto simp: create_boost_campaign_def boost_checks_def chosen_tier_def Let_def split_beta split: sum.splits option.splits if_splits exn.splits)
    moreover have "db' = db1" using assms(4) x Inl by (simp add: create_boost_campaign_def)
    ultimately show ?thesis using c by (cases r) auto
  next
    case (Inr ord)
    have ch: "charge_and_create ord db1 = (r, db')" using assms(4) x Inr by (simp add: create_boost_campaign_def)
    from x Inr have "boost_checks u rq db = (Inr ord, db1)" by simp
    then have ord: "or_user ord = u" "or_reel_id ord = rq_reel rq" "or_tier ord = Some t" "or_cost ord = 100 * tier_coins t" "or_hours ord = tier_hours t"
      using chosen_named [OF tier_for_nonempty [OF assms(3)] assms(2,3)]
      by (cases rule: boost_checks_Inr; auto simp: price_boost_def)+
    show ?thesis
    proof (cases "\<exists>i e l. r = B_created i e l")
      case True
      then obtain i e l where r: "r = B_created i e l" by blast
      note cc = charged_coins [OF ch [unfolded r] c(1)]
      have ti: "(tier_key t, t) \<in> set TIERS" by (rule tier_known) fact
      then have named: "tier_key t \<noteq> ''custom''" and pos: "0 < tier_hours t" "0 < tier_coins t"
        by (auto simp: TIERS_def VIRAL_WINDOW_HOURS_def)
      from cc(2) obtain budget where k: "boosts db' = boosts db @ [new_boost ord budget (now db)]"
        "\<not> boost_collides (new_boost ord budget (now db)) (boosts db)" using c by auto
      have "lifted_in feed (rq_reel rq) db'" if "tier_placement t \<in> set (placements_for_feed feed)" for feed
        using that pos cc(4) c(4) by (auto simp: lifted_in_def k(1) new_boost_def ord boost_is_active_def one_hour_def)
      moreover have "\<forall>k \<in> set (boosts db). live_tier k \<longrightarrow> bst_reel k \<noteq> rq_reel rq"
        using k(2) named by (auto simp: boost_collides_def new_boost_def live_tier_def ord list_ex_iff)
      moreover have "cost_int ord = tier_coins t"
        using pos by (simp add: cost_int_def ord of_hundredths_def trunc_def)
      ultimately show ?thesis using cc(1) c(2) ord(1) by (simp add: r)
    next
      case False
      from ch have "db' = db1" using False by (cases rule: boost_charge_cases) auto
      with False c show ?thesis by (cases r) auto
    qed
  qed
qed

theorem tier_sold_at_its_price_witness:
  "coin_balance_of (snd (create_boost_campaign 1 (a_request ''Premium'') example_boost_db)) 1 = 1900"
proof -
  obtain r db' where r: "create_boost_campaign 1 (a_request ''Premium'') example_boost_db = (r, db')" by fastforce
  have ti: "rq_type (a_request ''Premium'') = Some ''Premium''" "tier_for ''Premium'' = Inr (the (map_of TIERS ''premium''))" by code_simp+
  have "fst (create_boost_campaign 1 (a_request ''Premium'') example_boost_db) = B_created 0 1000 1900" by code_simp
  with r have "r = B_created 0 1000 1900" by simp
  with tier_sold_at_its_price [OF example_boost_ok(2) ti r] r show ?thesis
    by (simp add: example_boost_db_def coin_balance_of_def TIERS_def)
qed

text \<open>C28.
  Two purchases cannot both win. However stale the checks of the two requests are, once one of them has created a
  tier boost for a post, charging the other leaves the whole database as it was, wallet included, and creates nothing.
\<close>
theorem boost_race_one_winner:
  assumes "charge_and_create first db = (B_created i e l, db1)" "coin_inv db"
    and "or_tier first = Some t" "(tier_key t, t) \<in> set TIERS"
    and "or_tier second = Some t'" "(tier_key t', t') \<in> set TIERS" "or_reel_id second = or_reel_id first"
  shows "snd (charge_and_create second db1) = db1 \<and> fst (charge_and_create second db1) \<noteq> B_created i' e' l'"
proof -
  obtain budget where b: "boosts db1 = boosts db @ [new_boost first budget (now db)]" using charged_coins(2) [OF assms(1,2)] by blast
  have named: "tier_key t \<noteq> ''custom''" "tier_key t' \<noteq> ''custom''" using assms(4,6) by (auto simp: TIERS_def)
  obtain r db' where res: "charge_and_create second db1 = (r, db')" by fastforce
  from res show ?thesis
  proof (cases rule: boost_charge_cases)
    case kept
    with res show ?thesis by simp
  next
    case (created s tx dba p dbb j)
    note f = spend_frame [OF created(1)]
    from created(3) obtain budget' where "\<not> boost_collides (new_boost second budget' (now dbb)) (boosts dbb)" by (rule store_Inr)
    moreover have "boosts dbb = boosts db1" using f created(2) by simp
    ultimately show ?thesis
      using named assms(3,5,7) b by (auto simp: boost_collides_def new_boost_def live_tier_def)
  qed
qed

definition example_order :: boost_order where
  "example_order = (case boost_checks 1 (a_request ''standard'') example_boost_db of (Inr ord, _) \<Rightarrow> ord)"

theorem boost_race_one_winner_witness:
  "snd (charge_and_create example_order (snd (charge_and_create example_order example_boost_db))) =
     snd (charge_and_create example_order example_boost_db)"
proof -
  have won: "fst (charge_and_create example_order example_boost_db) = B_created 0 500 1950" by code_simp
  have ti: "or_tier example_order = Some (the (map_of TIERS ''standard''))" by code_simp
  have mem: "(tier_key (the (map_of TIERS ''standard'')), the (map_of TIERS ''standard'')) \<in> set TIERS" by (simp add: TIERS_def)
  from won have "charge_and_create example_order example_boost_db = (B_created 0 500 1950, snd (charge_and_create example_order example_boost_db))"
    by (metis prod.collapse)
  from boost_race_one_winner [OF this example_boost_ok(2) ti mem ti mem refl, of 0 0 0] show ?thesis by blast
qed

text \<open>The sweep retires exactly what has ended. Every active campaign past its end becomes completed, or ended below its
  guarantee when impressions are missing; every other campaign, every wallet, ledger and profile stays as it was; the
  report counts those campaigns and their unspent coins; a post whose current campaign still runs keeps its flags;
  and a second sweep finds nothing to do.
\<close>
theorem sweep_retires_finished:
  assumes "expire_boost_campaigns db = ((n, unspent), db')"
  shows "length (boosts db') = length (boosts db) \<and>
    (\<forall>i < length (boosts db). boosts db' ! i =
       (if bst_status (boosts db ! i) = B_active \<and> end_time (boosts db ! i) \<le> now db then retired (boosts db ! i) else boosts db ! i)) \<and>
    n = length (finished db) \<and> unspent = sum_list (map (\<lambda>i. coins_remaining (boosts db ! i)) (finished db)) \<and>
    balances db' = balances db \<and> coin_ledger db' = coin_ledger db \<and> profiles db' = profiles db \<and>
    (\<forall>rid r j. boost_reels db rid = Some r \<longrightarrow> active_boost_campaign r = Some j \<longrightarrow> j < length (boosts db) \<longrightarrow>
       bst_reel (boosts db ! j) = rid \<longrightarrow> boost_is_active (now db) (boosts db ! j) \<longrightarrow> boost_reels db' rid = Some r) \<and>
    expire_boost_campaigns db' = ((0, 0), db')"
proof -
  have res: "expire_loop (finished db) (0, 0) db = ((n, unspent), db')" using assms by (simp add: expire_boost_campaigns_def)
  have "i < length (boosts db) \<and> bst_status (boosts db ! i) = B_active" if "i \<in> set (finished db)" for i
    using that by (simp add: finished_iff)
  note r = expire_loop_result [OF finished_distinct this res]
  have rows: "boosts db' ! i = (if bst_status (boosts db ! i) = B_active \<and> end_time (boosts db ! i) \<le> now db then retired (boosts db ! i) else boosts db ! i)"
    if "i < length (boosts db)" for i
    using r that by (simp add: finished_iff)
  have same: "length (boosts db') = length (boosts db)" "now db' = now db" using r by blast+
  have "finished db' = []"
  proof -
    have "i \<notin> set (finished db')" for i
    proof
      assume "i \<in> set (finished db')"
      then have i: "i < length (boosts db)" "bst_status (boosts db' ! i) = B_active" "end_time (boosts db' ! i) \<le> now db"
        using same by (simp_all add: finished_iff)
      with rows [OF i(1)] show False by (auto simp: retired_def split: if_splits)
    qed
    then show ?thesis using last_in_set by blast
  qed
  moreover have "boost_reels db' rid = Some rl"
    if "boost_reels db rid = Some rl" "active_boost_campaign rl = Some j" "j < length (boosts db)" "bst_reel (boosts db ! j) = rid"
      "boost_is_active (now db) (boosts db ! j)" for rid rl j
    using expire_loop_reel [of db rid rl j "finished db" "(0, 0)"] that res by (simp add: finished_iff boost_is_active_def)
  ultimately show ?thesis using r rows by (simp add: expire_boost_campaigns_def)
qed

theorem sweep_retires_finished_witness:
  "\<exists>n unspent db'. expire_boost_campaigns cancelled_boost_db = ((n, unspent), db') \<and> n = 0 \<and> boosts db' ! 0 = boosts cancelled_boost_db ! 0"
proof -
  obtain n unspent db' where r: "expire_boost_campaigns cancelled_boost_db = ((n, unspent), db')" by (metis prod.collapse)
  have "finished cancelled_boost_db = []" by (simp add: finished_def numbered_def cancelled_boost_db_def)
  moreover have "bst_status (boosts cancelled_boost_db ! 0) = B_cancelled" "0 < length (boosts cancelled_boost_db)"
    by (simp_all add: cancelled_boost_db_def)
  ultimately show ?thesis using sweep_retires_finished [OF r] r by auto
qed

text \<open>The guarantee of the Viral tier is out of reach under the shipped configuration: the campaign as it is stored when
  bought is exhausted at its 240th impression, so no number of further views brings it to the 5000 impressions it
  sold, and it is never completed.
\<close>
theorem viral_guarantee_out_of_reach:
  assumes "or_tier ord = map_of TIERS ''viral''" "or_cost ord = 100 * 1000" "or_hours ord = VIRAL_WINDOW_HOURS"
    and "divide_by (or_hours ord) (of_hundredths (or_cost ord)) = Inr hourly" "decimal_10_2 hourly = Inr budget"
  shows "impressions_served (serve_many n (Some default_boost_config) (new_boost ord budget t)) \<le> 240 \<and>
    bst_status (serve_many n (Some default_boost_config) (new_boost ord budget t)) \<noteq> B_completed"
proof -
  have "decimal_10_2 (dec_round (1000 / 24)) = Inr 4167" by code_simp
  then have "budget = 4167" using assms(2-5) by (auto simp: divide_by_def VIRAL_WINDOW_HOURS_def of_hundredths_def)
  then have "viral_at 0 (new_boost ord budget t)"
    using assms(1,2) by (simp add: viral_at_def new_boost_def TIERS_def)
  then show ?thesis by (rule viral_run) simp_all
qed

definition viral_order :: boost_order where
  "viral_order = example_order\<lparr>or_tier := map_of TIERS ''viral'', or_cost := 100000, or_hours := 24\<rparr>"

theorem viral_guarantee_out_of_reach_witness:
  "impressions_served (serve_many 5000 (Some default_boost_config) (new_boost viral_order 4167 0)) \<le> 240"
proof -
  have "divide_by 24 (of_hundredths 100000) = Inr (dec_round (1000 / 24))" by (simp add: divide_by_def of_hundredths_def)
  moreover have "decimal_10_2 (dec_round (1000 / 24)) = Inr 4167" by code_simp
  ultimately show ?thesis
    using viral_guarantee_out_of_reach [of viral_order "dec_round (1000 / 24)" 4167 5000 0]
    by (simp add: viral_order_def VIRAL_WINDOW_HOURS_def)
qed

section \<open>Where the code falls short\<close>

text \<open>The refund of a cancelled boost goes to \<open>profile.coins\<close> and never reaches the wallet that paid for it.\<close>

lemma refund_misses_wallet:
  "balances (snd (cancel_boost_campaign u i db)) = balances db" "coin_ledger (snd (cancel_boost_campaign u i db)) = coin_ledger db"
proof -
  have "balances db' = balances db \<and> coin_ledger db' = coin_ledger db"
    if "claim_cancel u i k (fst (config_or_create db)) (snd (config_or_create db)) = (r, db')" for k r db'
    using that by (cases rule: claim_cancel_cases) simp_all
  then have "balances (snd (claim_cancel u i k (fst (config_or_create db)) (snd (config_or_create db)))) = balances db \<and>
      coin_ledger (snd (claim_cancel u i k (fst (config_or_create db)) (snd (config_or_create db)))) = coin_ledger db" for k
    by (metis prod.collapse)
  then show "balances (snd (cancel_boost_campaign u i db)) = balances db" "coin_ledger (snd (cancel_boost_campaign u i db)) = coin_ledger db"
    by (auto simp: cancel_boost_campaign_def split_beta split: option.splits)
qed

text \<open>A campaign whose refund would be less than one coin cannot be cancelled: the credit of zero coins raises.\<close>

lemma small_refund_cannot_be_cancelled:
  assumes "bst_status (boosts db ! i) = B_active" "0 < final_refund c k" "final_refund c k < 1"
  shows "\<exists>e. claim_cancel u i k c db = (B_crash e, db)"
proof -
  have "trunc (final_refund c k) = 0" using assms(2,3) by (simp add: trunc_def floor_eq_iff)
  then show ?thesis using assms by (cases "decimal_10_2 (final_refund c k)") (simp_all add: claim_cancel_def add_profile_coins_def Let_def)
qed

text \<open>
  A view that loaded the campaign before it was cancelled writes the whole old row back: the campaign that has
  been refunded is active again, with its coins, and can be refunded a second time.
\<close>

lemma stale_view_revives_cancelled:
  "bst_status (boosts cancelled_boost_db ! 0) = B_cancelled"
  "let k = (boosts cancelled_boost_db ! 0)\<lparr>bst_status := B_active, coins_remaining := 20000, refund_amount := 0\<rparr>;
       k' = boosts (snd (record_on 2 0 k cancelled_boost_db)) ! 0
   in bst_status k' = B_active \<and> coins_remaining k' = 19900"
  by code_simp+

text \<open>Pacing never pauses a campaign, and fails whenever there is one to look at.\<close>

lemma pacing_never_paces:
  "boosts (snd (check_pacing_engine db)) = boosts db"
  "list_ex (boost_is_active (now db)) (boosts db) \<Longrightarrow> \<exists>e. fst (check_pacing_engine db) = B_crash e"
  by (auto simp: check_pacing_engine_def split_beta Let_def)

text \<open>One live campaign that targets an audience takes the endpoint down for everybody it could be shown to.\<close>

lemma eligible_untargeted: "eligible_loop u db ks = Inr rs \<Longrightarrow> (i, k) \<in> set ks \<Longrightarrow> for_viewer u db k \<Longrightarrow> \<not> targets_someone k"
proof (induction ks arbitrary: rs)
  case (Cons a ks)
  obtain j m where a: "a = (j, m)" by (cases a) auto
  show ?case
  proof (cases "eligible_loop u db ks")
    case (Inl e)
    with Cons a show ?thesis by (auto split: if_splits)
  next
    case (Inr rs')
    with Cons a show ?thesis by (auto split: if_splits)
  qed
qed simp

lemma targeted_boost_breaks_eligible:
  assumes "k \<in> set (boosts db)" "boost_is_active (now db) k" "for_viewer u db k" "targets_someone k"
  shows "get_eligible_boosts u db \<noteq> B_reels rs"
proof -
  obtain i where "(i, k) \<in> set (filter (boost_is_active (now db) \<circ> snd) (rev (numbered db)))"
    using assms(1,2) by (force simp: numbered_def set_zip in_set_conv_nth)
  with eligible_untargeted [OF _ this assms(3)] assms(4)
  have "\<not> (\<exists>rs. eligible_loop u db (filter (boost_is_active (now db) \<circ> snd) (rev (numbered db))) = Inr rs)" by blast
  then obtain r where e: "eligible_loop u db (filter (boost_is_active (now db) \<circ> snd) (rev (numbered db))) = Inl r"
    by (cases "eligible_loop u db (filter (boost_is_active (now db) \<circ> snd) (rev (numbered db)))") auto
  have "eligible_loop u db ks = Inl r \<Longrightarrow> r \<noteq> B_reels rs" for ks
  proof (induction ks)
    case (Cons a ks)
    then show ?case by (cases a; cases "eligible_loop u db ks") (auto split: if_splits)
  qed simp
  with e show ?thesis by (auto simp: get_eligible_boosts_def split: option.splits)
qed

text \<open>
  The daily limit compares the day in Addis Ababa a boost was made on with the day in UTC: a boost bought in the last
  three hours of the UTC day is not counted by the purchases that follow it.
\<close>

lemma daily_limit_misses_late_boosts:
  assumes "21 * one_hour \<le> t mod one_day" "start_time k = t"
  shows "boosts_on u (utc_date t) (db\<lparr>boosts := boosts db @ [k]\<rparr>) = boosts_on u (utc_date t) db"
proof -
  have "t < one_day * (t div one_day) + one_day" "t = one_day * (t div one_day) + t mod one_day"
    using pos_mod_bound [of one_day t] div_mult_mod_eq [of t one_day] by (simp_all add: one_day_def one_hour_def)
  then have "(t + utc_offset) div one_day = t div one_day + 1"
    using assms(1) by (intro int_div_pos_eq [where r = "t mod one_day - 21 * one_hour"]) (simp_all add: utc_offset_def one_day_def one_hour_def)
  then show ?thesis using assms(2) by (simp add: boosts_on_def local_date_def utc_date_def)
qed

text \<open>A campaign that has served nothing reports that half of it is done.\<close>

lemma fresh_boost_half_done: "0 < coins_spent k \<Longrightarrow> coins_remaining k = coins_spent k \<Longrightarrow> get_progress_percent k = 50"
proof -
  assume k: "0 < coins_spent k" "coins_remaining k = coins_spent k"
  then have "(of_int (coins_spent k) / of_int (coins_spent k + coins_remaining k) :: rat) = 1 / 2" by simp
  moreover have "trunc (dec_round (dec_round (1 / 2) * 100)) = 50" by code_simp
  ultimately show ?thesis using k by (simp add: get_progress_percent_def Let_def)
qed

text \<open>Six hours are listed with the configuration at 250 coins and computed at 273.90.\<close>

lemma six_hours_price: "calculate_cost default_boost_config 6 False = Inr 27390"
proof -
  have exact: "dec_round 300 = 300" "dec_round (17 / 100) = 17 / 100" "dec_round (83 / 100) = 83 / 100" "dec_round 249 = 249"
    "dec_round (1 / 10) = 1 / 10" "dec_round (11 / 10) = 11 / 10" "dec_round (2739 / 10) = 2739 / 10"
    using dec_round_hundredths [of 30000] dec_round_hundredths [of 17] dec_round_hundredths [of 83]
      dec_round_hundredths [of 24900] dec_round_hundredths [of 10] dec_round_hundredths [of 110] dec_round_hundredths [of 27390]
    by (simp_all add: of_hundredths_def)
  have "exact_cost default_boost_config 6 False = of_hundredths 27390"
    by (simp add: exact_cost_def default_boost_config_def duration_discount_def percent_def of_hundredths_def Let_def exact)
  moreover have "half_even (of_hundredths 27390 * 100) = 27390" using half_even_of_int [of 27390] by (simp add: of_hundredths_def)
  ultimately show ?thesis by (simp add: calculate_cost_def quantize2_def)
qed

end
