(* ===== verification/Engagement.thy ===== *)
theory Engagement
  imports Campaign_Eligibility
begin

text \<open>
  Engagement with posts: the charges of \<open>api/services/campaign_charges.py\<close>, the \<open>vote\<close>, \<open>share\<close> and
  \<open>comments\<close> actions of \<open>ReelViewSet\<close> in \<open>api/views/core.py\<close> with the signals they fire, the engagement score
  of \<open>api/services/scoring/leaderboard.py\<close>, and the campaign entry of \<open>api/views/campaign_user.py\<close>. Checking
  and storing an upload is not modelled: a request says what came of it. Requests run one after another.
\<close>

section \<open>Rows\<close>

record reel_row =
  rl_owner :: nat
  rl_campaign_post :: bool
  rl_ready :: bool
  rl_votes :: int
  rl_shares :: int
  rl_upload_id :: string

definition new_reel :: "nat \<Rightarrow> bool \<Rightarrow> string \<Rightarrow> reel_row" where
  "new_reel uid camp key =
     \<lparr>rl_owner = uid, rl_campaign_post = camp, rl_ready = False, rl_votes = 0, rl_shares = 0, rl_upload_id = key\<rparr>"

record comment_row =
  cm_user :: nat
  cm_reel :: nat
  cm_text :: string
  cm_deleted :: bool

record notice =
  nt_recipient :: nat
  nt_sender :: nat
  nt_type :: string
  nt_reel :: nat

record entry_campaign = competition +
  ec_status :: string
  ec_themes :: "nat list"

record user_campaign_stats =
  days_participated :: nat
  current_streak :: nat
  longest_streak :: nat
  last_post_date :: "int option"

record engage_db = sub_db +
  reel_rows :: "nat \<Rightarrow> reel_row option"
  next_reel :: nat
  vote_rows :: "(nat \<times> nat) list"
  comment_rows :: "comment_row list"
  notices :: "notice list"
  wants_likes :: "nat \<Rightarrow> bool"
  wants_comments :: "nat \<Rightarrow> bool"
  is_staff :: "nat \<Rightarrow> bool"
  entry_campaigns :: "nat \<Rightarrow> entry_campaign option"
  post_scores :: "post_score list"
  campaign_stats :: "nat \<Rightarrow> nat \<Rightarrow> user_campaign_stats option"

section \<open>Charges\<close>

definition ACTIONS :: "(string \<times> (wallet_config \<Rightarrow> int) \<times> (wallet_config \<Rightarrow> int) \<times> string \<times> string) list" where
  "ACTIONS =
     [(''like'', \<lambda>c. cost_like (cfg_action_costs c), \<lambda>c. cost_like_non_campaign (cfg_non_campaign_costs c), ''campaign_like'', ''Like''),
      (''comment'', \<lambda>c. cost_comment (cfg_action_costs c), \<lambda>c. cost_comment_non_campaign (cfg_non_campaign_costs c), ''campaign_comment'', ''Comment''),
      (''share'', \<lambda>c. cost_share (cfg_action_costs c), \<lambda>c. cost_share_non_campaign (cfg_non_campaign_costs c), ''campaign_share'', ''Share''),
      (''post'', \<lambda>c. cost_post_create (cfg_action_costs c), \<lambda>c. cost_post_create_non_campaign (cfg_non_campaign_costs c), ''campaign_join'', ''Post'')]"

datatype charge_error = Raised exn | InsufficientCoins int int message

definition engagement_cost :: "reel_row \<Rightarrow> string \<Rightarrow> 'a engage_db_scheme \<Rightarrow> int result" where
  "engagement_cost r action db =
     (case map_of ACTIONS action of
        None \<Rightarrow> Inl (ValueError (''Unknown engagement action: '' @ action, []))
      | Some (campaign_field, ordinary_field, _, _) \<Rightarrow>
          Inr ((if rl_campaign_post r then campaign_field else ordinary_field) (wallet_cfg db)))"

definition tx_type_of :: "string \<Rightarrow> string" where
  "tx_type_of action = (case map_of ACTIONS action of None \<Rightarrow> [] | Some (_, _, ty, _) \<Rightarrow> ty)"

definition title_of :: "string \<Rightarrow> string" where
  "title_of action = (case map_of ACTIONS action of None \<Rightarrow> [] | Some (_, _, _, ti) \<Rightarrow> ti)"

definition engagement_row :: "nat \<Rightarrow> nat \<Rightarrow> string \<Rightarrow> coin_transaction \<Rightarrow> bool" where
  "engagement_row uid rid ty t \<longleftrightarrow> tx_user t = uid \<and> reel t = Some rid \<and> transaction_type t = ty \<and> is_successful t"

definition already_charged :: "nat \<Rightarrow> nat \<Rightarrow> string \<Rightarrow> 'a engage_db_scheme \<Rightarrow> bool" where
  "already_charged uid rid action db \<longleftrightarrow> list_ex (engagement_row uid rid (tx_type_of action)) (coin_ledger db)"

text \<open>\<open>_spend\<close>; the balance it reports is that of the row as \<open>get_or_create\<close> returned it.\<close>

definition spend_for ::
  "nat \<Rightarrow> int \<Rightarrow> string \<Rightarrow> nat \<Rightarrow> message \<Rightarrow> 'a engage_db_scheme \<Rightarrow> charge_error + (int \<times> 'a engage_db_scheme)" where
  "spend_for uid cost action rid descr db =
     (let b = (case balances db uid of None \<Rightarrow> new_balance | Some b \<Rightarrow> b)
      in case spend_coins b uid cost (tx_type_of action) False
           [Kw_reel (Some rid),
            Kw_description (if fst descr = [] then (title_of action @ '' on campaign post #{}'', [int rid]) else descr)] db of
           Inr (_, _, db') \<Rightarrow> Inr (cost, db')
         | Inl (ValueError m) \<Rightarrow> Inl (InsufficientCoins cost (balance b) m)
         | Inl e \<Rightarrow> Inl (Raised e))"

definition charge_engagement ::
  "nat option \<Rightarrow> nat \<Rightarrow> reel_row \<Rightarrow> string \<Rightarrow> bool \<Rightarrow> message \<Rightarrow> 'a engage_db_scheme \<Rightarrow>
   charge_error + (int \<times> 'a engage_db_scheme)" where
  "charge_engagement user rid r action once descr db =
     (case user of None \<Rightarrow> Inr (0, db)
      | Some uid \<Rightarrow>
          if rl_owner r = uid then Inr (0, db)
          else case engagement_cost r action db of
            Inl e \<Rightarrow> Inl (Raised e)
          | Inr cost \<Rightarrow>
              if cost \<le> 0 then Inr (0, db)
              else (let db1 = get_or_create_balance uid db
                    in if once \<and> already_charged uid rid action db1 then Inr (0, db1)
                       else spend_for uid cost action rid descr db1))"

section \<open>Liking, sharing, commenting\<close>

definition get_object :: "nat \<Rightarrow> nat \<Rightarrow> 'a engage_db_scheme \<Rightarrow> reel_row option" where
  "get_object uid rid db =
     (case reel_rows db rid of None \<Rightarrow> None
      | Some r \<Rightarrow> if is_staff db uid \<or> rl_ready r \<or> rl_owner r = uid then Some r else None)"

datatype reply =
    Refused refusal
  | Not_found
  | Bad_request string
  | Insufficient int int message
  | Voted bool int
  | Shared int int
  | Commented nat

definition notify_row :: "nat \<Rightarrow> nat \<Rightarrow> string \<Rightarrow> nat \<Rightarrow> 'a engage_db_scheme \<Rightarrow> 'a engage_db_scheme" where
  "notify_row recip sender ty rid db =
     db\<lparr>notices := notices db @ [\<lparr>nt_recipient = recip, nt_sender = sender, nt_type = ty, nt_reel = rid\<rparr>]\<rparr>"

definition forget_like :: "nat \<Rightarrow> nat \<Rightarrow> nat \<Rightarrow> 'a engage_db_scheme \<Rightarrow> 'a engage_db_scheme" where
  "forget_like recip sender rid db =
     db\<lparr>notices := filter (\<lambda>n. \<not> (nt_recipient n = recip \<and> nt_sender n = sender \<and> nt_type n = ''like'' \<and> nt_reel n = rid)) (notices db)\<rparr>"

text \<open>The receivers on \<open>Vote\<close> and \<open>Comment\<close>.\<close>

definition create_like_notification :: "nat \<Rightarrow> nat \<Rightarrow> reel_row \<Rightarrow> 'a engage_db_scheme \<Rightarrow> 'a engage_db_scheme" where
  "create_like_notification uid rid r db =
     (if uid \<noteq> rl_owner r \<and> wants_likes db (rl_owner r) then notify_row (rl_owner r) uid ''like'' rid db else db)"

definition create_comment_notification :: "nat \<Rightarrow> nat \<Rightarrow> reel_row \<Rightarrow> 'a engage_db_scheme \<Rightarrow> 'a engage_db_scheme" where
  "create_comment_notification uid rid r db =
     (if uid \<noteq> rl_owner r \<and> wants_comments db (rl_owner r) then notify_row (rl_owner r) uid ''comment'' rid db else db)"

definition delete_like_notification :: "nat \<Rightarrow> nat \<Rightarrow> reel_row \<Rightarrow> 'a engage_db_scheme \<Rightarrow> 'a engage_db_scheme" where
  "delete_like_notification uid rid r db = forget_like (rl_owner r) uid rid db"

definition update_reel :: "nat \<Rightarrow> (reel_row \<Rightarrow> reel_row) \<Rightarrow> 'a engage_db_scheme \<Rightarrow> 'a engage_db_scheme" where
  "update_reel rid f db = db\<lparr>reel_rows := (reel_rows db)(rid := map_option f (reel_rows db rid))\<rparr>"

definition votes_of :: "nat \<Rightarrow> 'a engage_db_scheme \<Rightarrow> int" where
  "votes_of rid db = (case reel_rows db rid of None \<Rightarrow> 0 | Some r \<Rightarrow> rl_votes r)"

definition shares_of :: "nat \<Rightarrow> 'a engage_db_scheme \<Rightarrow> int" where
  "shares_of rid db = (case reel_rows db rid of None \<Rightarrow> 0 | Some r \<Rightarrow> rl_shares r)"

definition like_new :: "nat \<Rightarrow> nat \<Rightarrow> reel_row \<Rightarrow> 'a engage_db_scheme \<Rightarrow> (reply \<times> 'a engage_db_scheme) result" where
  "like_new uid rid r db =
     (case charge_engagement (Some uid) rid r ''like'' False ([], [])
        (create_like_notification uid rid r (db\<lparr>vote_rows := vote_rows db @ [(uid, rid)]\<rparr>)) of
        Inl (InsufficientCoins required available m) \<Rightarrow> Inr (Insufficient required available m, db)
      | Inl (Raised e) \<Rightarrow> Inl e
      | Inr (_, db1) \<Rightarrow>
          (let db2 = update_reel rid (\<lambda>x. x\<lparr>rl_votes := rl_votes x + 1\<rparr>) db1;
               db3 = (if rl_owner r \<noteq> uid then notify_row (rl_owner r) uid ''like'' rid db2 else db2)
           in Inr (Voted True (votes_of rid db3), db3)))"

definition unlike :: "nat \<Rightarrow> nat \<Rightarrow> reel_row \<Rightarrow> 'a engage_db_scheme \<Rightarrow> reply \<times> 'a engage_db_scheme" where
  "unlike uid rid r db =
     (let db1 = delete_like_notification uid rid r (db\<lparr>vote_rows := removeAll (uid, rid) (vote_rows db)\<rparr>);
          db2 = update_reel rid (\<lambda>x. x\<lparr>rl_votes := max (rl_votes x - 1) 0\<rparr>) db1;
          db3 = (if rl_owner r \<noteq> uid then forget_like (rl_owner r) uid rid db2 else db2)
      in (Voted False (votes_of rid db3), db3))"

definition vote :: "nat \<Rightarrow> nat \<Rightarrow> 'a engage_db_scheme \<Rightarrow> (reply \<times> 'a engage_db_scheme) result" where
  "vote uid rid db =
     (case subscriber_action_refusal (Some uid) ''like'' db of
        Some rf \<Rightarrow> Inr (Refused rf, db)
      | None \<Rightarrow>
          (case get_object uid rid db of
             None \<Rightarrow> Inr (Not_found, db)
           | Some r \<Rightarrow> if (uid, rid) \<in> set (vote_rows db) then Inr (unlike uid rid r db) else like_new uid rid r db))"

definition share :: "nat \<Rightarrow> nat \<Rightarrow> 'a engage_db_scheme \<Rightarrow> (reply \<times> 'a engage_db_scheme) result" where
  "share uid rid db =
     (case subscriber_action_refusal (Some uid) ''share'' db of
        Some rf \<Rightarrow> Inr (Refused rf, db)
      | None \<Rightarrow>
          (case get_object uid rid db of
             None \<Rightarrow> Inr (Not_found, db)
           | Some r \<Rightarrow>
               (case charge_engagement (Some uid) rid r ''share'' True ([], []) db of
                  Inl (InsufficientCoins required available m) \<Rightarrow> Inr (Insufficient required available m, db)
                | Inl (Raised e) \<Rightarrow> Inl e
                | Inr (charged, db1) \<Rightarrow>
                    (let db2 = update_reel rid (\<lambda>x. x\<lparr>rl_shares := rl_shares x + 1\<rparr>) db1
                     in Inr (Shared charged (shares_of rid db2), db2)))))"

definition post_comment :: "nat \<Rightarrow> nat \<Rightarrow> string \<Rightarrow> 'a engage_db_scheme \<Rightarrow> (reply \<times> 'a engage_db_scheme) result" where
  "post_comment uid rid body db =
     (case get_object uid rid db of
        None \<Rightarrow> Inr (Not_found, db)
      | Some r \<Rightarrow>
          (case subscriber_action_refusal (Some uid) ''comment'' db of
             Some rf \<Rightarrow> Inr (Refused rf, db)
           | None \<Rightarrow>
               if strip body = [] then Inr (Bad_request ''Comment text is required'', db)
               else (let row = \<lparr>cm_user = uid, cm_reel = rid, cm_text = strip body, cm_deleted = False\<rparr>;
                         db1 = create_comment_notification uid rid r (db\<lparr>comment_rows := comment_rows db @ [row]\<rparr>)
                     in case charge_engagement (Some uid) rid r ''comment'' False ([], []) db1 of
                          Inl (InsufficientCoins required available m) \<Rightarrow> Inr (Insufficient required available m, db)
                        | Inl (Raised e) \<Rightarrow> Inl e
                        | Inr (_, db2) \<Rightarrow> Inr (Commented (length (comment_rows db)), db2))))"

section \<open>The engagement score\<close>

record counts_of_engagement =
  n_likes :: int
  n_comments :: int
  n_shares :: int
  n_gifts :: int

definition DEFAULT_WEIGHTS :: counts_of_engagement where
  "DEFAULT_WEIGHTS = \<lparr>n_likes = 1, n_comments = 2, n_shares = 5, n_gifts = 10\<rparr>"

definition compute_score :: "counts_of_engagement \<Rightarrow> counts_of_engagement \<Rightarrow> int" where
  "compute_score c w =
     n_likes c * n_likes w + n_comments c * n_comments w + n_shares c * n_shares w + n_gifts c * n_gifts w"

text \<open>Weights are whole numbers, as the defaults are. The gifts of a post are counted in another table and passed in.\<close>

definition reel_engagement :: "nat \<Rightarrow> int \<Rightarrow> 'a engage_db_scheme \<Rightarrow> counts_of_engagement" where
  "reel_engagement rid gift_rows db =
     \<lparr>n_likes = int (length (filter (\<lambda>v. snd v = rid) (vote_rows db))),
      n_comments = int (length (filter (\<lambda>c. cm_reel c = rid \<and> \<not> cm_deleted c) (comment_rows db))),
      n_shares = max 0 (shares_of rid db), n_gifts = gift_rows\<rparr>"

section \<open>Entering a campaign\<close>

definition campaign_open :: "int \<Rightarrow> entry_campaign \<Rightarrow> bool" where
  "campaign_open t c =
     (case (cp_start c, cp_deadline c) of
        (Some s, Some e) \<Rightarrow> ec_status c = ''active'' \<and> instant s \<le> t \<and> t \<le> instant e
      | _ \<Rightarrow> ec_status c = ''active'')"

definition is_client_char :: "char \<Rightarrow> bool" where
  "is_client_char c \<longleftrightarrow> is_upper c \<or> is_lower c \<or> is_digit c \<or> c \<in> set ''_.:-''"

definition read_client_upload_id :: "string \<Rightarrow> string \<Rightarrow> string option" where
  "read_client_upload_id header form =
     (let raw = strip (if header \<noteq> [] then header else form)
      in if raw = [] then Some []
         else if list_all is_client_char raw \<and> 8 \<le> length raw \<and> length raw \<le> 64 then Some raw else None)"

definition existing_post :: "nat \<Rightarrow> string \<Rightarrow> 'a engage_db_scheme \<Rightarrow> nat option" where
  "existing_post uid key db =
     (if key = [] then None
      else find (\<lambda>i. case reel_rows db i of None \<Rightarrow> False | Some r \<Rightarrow> rl_owner r = uid \<and> rl_upload_id r = key) [0..<next_reel db])"

record entry_request =
  er_campaign :: nat
  er_theme :: "nat option"
  er_has_file :: bool
  er_header :: string
  er_form_key :: string
  er_valid :: bool \<comment> \<open>\<open>validate_upload\<close> accepts the file\<close>
  er_stored :: bool \<comment> \<open>\<open>store_source\<close> reaches the storage\<close>

datatype entry_reply =
    E_refused refusal
  | E_not_found string
  | E_bad string
  | E_used_today nat nat
  | E_unavailable
  | E_insufficient int int message
  | E_failed
  | E_existing nat
  | E_created nat nat

text \<open>The streak and the days of the entrant's statistics, written after the entry has committed.\<close>

definition new_stats :: user_campaign_stats where
  "new_stats = \<lparr>days_participated = 0, current_streak = 0, longest_streak = 0, last_post_date = None\<rparr>"

definition next_streak :: "int \<Rightarrow> user_campaign_stats \<Rightarrow> nat" where
  "next_streak today st =
     (case last_post_date st of
        None \<Rightarrow> 1
      | Some d \<Rightarrow> if today - d = 0 then current_streak st
                  else if today - d = 1 then current_streak st + 1
                  else if today - d > 1 then 1 else current_streak st)"

definition days_entered :: "nat \<Rightarrow> nat \<Rightarrow> post_score list \<Rightarrow> int set" where
  "days_entered uid c ps = (\<lambda>p. local_date (sc_created_at p)) ` set (filter (\<lambda>p. sc_user p = uid \<and> sc_campaign p = c) ps)"

definition entry_stats :: "int \<Rightarrow> user_campaign_stats \<Rightarrow> int set \<Rightarrow> user_campaign_stats" where
  "entry_stats today st days =
     (let streak = next_streak today st
      in \<lparr>days_participated = card (insert today days), current_streak = streak,
          longest_streak = max (longest_streak st) streak, last_post_date = Some today\<rparr>)"

definition stats_of :: "nat \<Rightarrow> nat \<Rightarrow> 'a engage_db_scheme \<Rightarrow> user_campaign_stats" where
  "stats_of uid c db = (case campaign_stats db uid c of None \<Rightarrow> new_stats | Some st \<Rightarrow> st)"

definition update_stats :: "nat \<Rightarrow> nat \<Rightarrow> 'a engage_db_scheme \<Rightarrow> 'a engage_db_scheme" where
  "update_stats uid c db =
     db\<lparr>campaign_stats := (campaign_stats db)(uid := (campaign_stats db uid)(c \<mapsto>
        entry_stats (local_date (now db)) (stats_of uid c db) (days_entered uid c (post_scores db))))\<rparr>"

definition store_entry :: "nat \<Rightarrow> nat \<Rightarrow> string \<Rightarrow> 'a engage_db_scheme \<Rightarrow> entry_reply \<times> 'a engage_db_scheme" where
  "store_entry uid c key db =
     (let rid = next_reel db;
          r = new_reel uid True key;
          score = \<lparr>sc_user = uid, sc_campaign = c, sc_created_at = now db, sc_moderation = ''pending''\<rparr>;
          db1 = db\<lparr>reel_rows := (reel_rows db)(rid \<mapsto> r), next_reel := rid + 1, post_scores := post_scores db @ [score]\<rparr>
      in case charge_engagement (Some uid) rid r ''post'' False (''Campaign entry for {}'', [int c]) db1 of
           Inl (InsufficientCoins required available m) \<Rightarrow> (E_insufficient required available m, db)
         | Inl (Raised e) \<Rightarrow> (E_failed, db)
         | Inr (_, db2) \<Rightarrow> (E_created rid (length (post_scores db)), update_stats uid c db2))"

definition create_campaign_post :: "nat \<Rightarrow> entry_request \<Rightarrow> 'a engage_db_scheme \<Rightarrow> entry_reply \<times> 'a engage_db_scheme" where
  "create_campaign_post uid q db =
     (case subscriber_action_refusal (Some uid) ''campaign'' db of
        Some rf \<Rightarrow> (E_refused rf, db)
      | None \<Rightarrow>
     (case entry_campaigns db (er_campaign q) of
        None \<Rightarrow> (E_not_found ''Campaign not found'', db)
      | Some c \<Rightarrow>
          if \<not> campaign_open (now db) c then (E_bad ''Campaign is not accepting entries'', db)
          else if (case er_theme q of None \<Rightarrow> False | Some th \<Rightarrow> th \<notin> set (ec_themes c)) then (E_not_found ''Theme not found'', db)
          else if \<not> er_has_file q then (E_bad ''No media file provided'', db)
          else case read_client_upload_id (er_header q) (er_form_key q) of
            None \<Rightarrow> (E_bad ''invalid_idempotency_key'', db)
          | Some key \<Rightarrow>
              (case existing_post uid key db of
                 Some rid \<Rightarrow> (E_existing rid, db)
               | None \<Rightarrow>
                   (case daily_entry_refusal uid (er_campaign q) (now db) (post_scores db) of
                      Some (used, most) \<Rightarrow> (E_used_today used most, db)
                    | None \<Rightarrow>
                        if \<not> er_valid q then (E_bad ''media rejected'', db)
                        else if \<not> er_stored q then (E_unavailable, db)
                        else store_entry uid (er_campaign q) key db))))"

section \<open>What a charge does\<close>

definition extends :: "'a engage_db_scheme \<Rightarrow> coin_transaction list \<Rightarrow> 'a engage_db_scheme \<Rightarrow> bool" where
  "extends db l db' \<longleftrightarrow> (\<exists>b. db' = db\<lparr>balances := b, coin_ledger := coin_ledger db @ l\<rparr>)"

lemma extends_same: "extends db [] db"
  by (auto simp: extends_def intro: exI [of _ "balances db"])

lemma extends_get_or_create: "extends db [] (get_or_create_balance uid db)"
proof (cases "balances db uid")
  case None
  then show ?thesis by (auto simp: extends_def get_or_create_balance_def)
qed (auto simp: get_or_create_balance_def extends_same)

lemma get_or_create_keeps:
  "coin_inv db \<Longrightarrow> coin_inv (get_or_create_balance uid db)"
  "coin_balance_of (get_or_create_balance uid db) u = coin_balance_of db u"
  "coin_ledger (get_or_create_balance uid db) = coin_ledger db"
  by (auto simp: coin_inv_def coin_balance_of_def get_or_create_balance_def new_balance_def wf_balance_def split: option.splits)

lemma spend_for_row:
  assumes "spend_for uid cost action rid d db = Inr (c, db')"
  obtains tx where "c = cost" "extends db [tx] db'" "engagement_row uid rid (tx_type_of action) tx" "coins tx = - cost" "0 < cost"
    "coin_inv db \<Longrightarrow> coin_inv db'"
    "\<And>u. coin_inv db \<Longrightarrow> coin_balance_of db' u = coin_balance_of db u - (if u = uid then cost else 0)"
proof -
  define b where "b = (case balances db uid of None \<Rightarrow> new_balance | Some b \<Rightarrow> b)"
  define ks where "ks = [Kw_reel (Some rid),
    Kw_description (if fst d = [] then (title_of action @ '' on campaign post #{}'', [int rid]) else d)]"
  from assms obtain s tx where c: "c = cost" and r: "spend_coins b uid cost (tx_type_of action) False ks db = Inr (s, tx, db')"
    unfolding spend_for_def Let_def b_def [symmetric] ks_def [symmetric] by (auto split: sum.splits prod.splits exn.splits)
  have st: "steps uid (- cost) (spend_coins b uid cost (tx_type_of action) False ks db) db" by (rule spend_coins_steps)
  from st r obtain row' where m: "moves uid (- cost) row' tx db db'" unfolding steps_def by blast
  have pos: "0 < cost" using r by (auto simp: spend_coins_def split: if_splits)
  have "apply_kwargs ks (new_transaction uid (tx_type_of action) (- cost) (now db)) = Inr tx"
    using r pos unfolding spend_coins_def
    by (auto simp: bind_result_Inr_iff Let_def new_transaction_def elim!: save_and_log_Inr)
  then have "engagement_row uid rid (tx_type_of action) tx" "coins tx = - cost"
    by (auto simp: ks_def engagement_row_def new_transaction_def)
  moreover have "extends db [tx] db'" using m by (auto simp: moves_def extends_def)
  ultimately show thesis using c pos steps_wf [OF st r] steps_balance [OF st r] by (intro that [of tx]) auto
qed

text \<open>
  Everything a successful charge may have done: nothing, or one ledger row of exactly the configured cost for a
  post of somebody else.
\<close>

lemma charge_cases:
  assumes "charge_engagement (Some uid) rid r action once d db = Inr (c, db')"
  obtains (free) "c = 0" "extends db [] db'" "coin_inv db \<Longrightarrow> coin_inv db'" "\<And>u. coin_balance_of db' u = coin_balance_of db u"
  | (paid) tx where "extends db [tx] db'" "engagement_row uid rid (tx_type_of action) tx" "coins tx = - c" "0 < c"
      "rl_owner r \<noteq> uid" "engagement_cost r action db = Inr c" "\<not> (once \<and> already_charged uid rid action db)"
      "coin_inv db \<Longrightarrow> coin_inv db'"
      "\<And>u. coin_inv db \<Longrightarrow> coin_balance_of db' u = coin_balance_of db u - (if u = uid then c else 0)"
proof (cases "rl_owner r = uid")
  case True
  with assms show ?thesis by (auto simp: charge_engagement_def intro: free extends_same)
next
  case False
  let ?db1 = "get_or_create_balance uid db"
  from assms False obtain cost where cost: "engagement_cost r action db = Inr cost"
    by (auto simp: charge_engagement_def split: sum.splits)
  consider "cost \<le> 0" | "0 < cost" "once \<and> already_charged uid rid action ?db1" | "0 < cost" "\<not> (once \<and> already_charged uid rid action ?db1)"
    by linarith
  then show ?thesis
  proof cases
    case 1
    with assms False cost show ?thesis by (auto simp: charge_engagement_def intro: free extends_same)
  next
    case 2
    with assms False cost have "c = 0" "db' = ?db1" by (auto simp: charge_engagement_def Let_def)
    then show ?thesis using extends_get_or_create [of db uid] get_or_create_keeps [where db = db and uid = uid] by (intro free) auto
  next
    case 3
    with assms False cost have "spend_for uid cost action rid d ?db1 = Inr (c, db')" by (auto simp: charge_engagement_def Let_def)
    then obtain tx where tx: "c = cost" "extends ?db1 [tx] db'" "engagement_row uid rid (tx_type_of action) tx" "coins tx = - cost"
      "coin_inv ?db1 \<Longrightarrow> coin_inv db'"
      "\<And>u. coin_inv ?db1 \<Longrightarrow> coin_balance_of db' u = coin_balance_of ?db1 u - (if u = uid then cost else 0)"
      by (rule spend_for_row) blast
    have "extends db [tx] db'" using tx(2) extends_get_or_create [of db uid] by (auto simp: extends_def)
    moreover have "already_charged uid rid action ?db1 = already_charged uid rid action db"
      by (simp add: already_charged_def get_or_create_keeps)
    ultimately show ?thesis using tx 3 False cost get_or_create_keeps [where db = db and uid = uid] by (intro paid) auto
  qed
qed

section \<open>Requests\<close>

datatype engage_op =
    Like nat nat
  | Share nat nat
  | Say nat nat string
  | Enter nat entry_request
  | Moderate nat string
  | Processed nat
  | Wait nat

text \<open>
  Besides the handlers: a moderator's verdict on an entry, the end of media processing, and time passing.
\<close>

fun exec_engage :: "engage_op \<Rightarrow> 'a engage_db_scheme \<Rightarrow> 'a engage_db_scheme result" where
  "exec_engage (Like u i) db = bind_result (vote u i db) (\<lambda>x. Inr (snd x))"
| "exec_engage (Share u i) db = bind_result (share u i db) (\<lambda>x. Inr (snd x))"
| "exec_engage (Say u i body) db = bind_result (post_comment u i body db) (\<lambda>x. Inr (snd x))"
| "exec_engage (Enter u q) db = Inr (snd (create_campaign_post u q db))"
| "exec_engage (Moderate i verdict) db =
     Inr (if i < length (post_scores db)
          then db\<lparr>post_scores := (post_scores db)[i := (post_scores db ! i)\<lparr>sc_moderation := verdict\<rparr>]\<rparr> else db)"
| "exec_engage (Processed i) db = Inr (update_reel i (\<lambda>r. r\<lparr>rl_ready := True\<rparr>) db)"
| "exec_engage (Wait n) db = Inr (db\<lparr>now := now db + int n\<rparr>)"

lemma extends_frame:
  assumes "extends db l db'"
  shows "coin_ledger db' = coin_ledger db @ l" "reel_rows db' = reel_rows db" "next_reel db' = next_reel db"
    "vote_rows db' = vote_rows db" "comment_rows db' = comment_rows db" "post_scores db' = post_scores db"
    "campaign_stats db' = campaign_stats db" "now db' = now db" "wallet_cfg db' = wallet_cfg db"
  using assms by (auto simp: extends_def)

text \<open>The ways a request that succeeds may end, one rule per handler.\<close>

lemma vote_cases:
  assumes "vote uid rid db = Inr (rep, db')"
  obtains (same) "db' = db"
  | (liked) r c db1 where "get_object uid rid db = Some r" "(uid, rid) \<notin> set (vote_rows db)"
      "charge_engagement (Some uid) rid r ''like'' False ([], [])
         (create_like_notification uid rid r (db\<lparr>vote_rows := vote_rows db @ [(uid, rid)]\<rparr>)) = Inr (c, db1)"
      "\<exists>ns. db' = (update_reel rid (\<lambda>x. x\<lparr>rl_votes := rl_votes x + 1\<rparr>) db1)\<lparr>notices := ns\<rparr>"
  | (unliked) r where "get_object uid rid db = Some r" "(uid, rid) \<in> set (vote_rows db)"
      "\<exists>ns. db' = (update_reel rid (\<lambda>x. x\<lparr>rl_votes := max (rl_votes x - 1) 0\<rparr>) db)
         \<lparr>vote_rows := removeAll (uid, rid) (vote_rows db), notices := ns\<rparr>"
proof (cases "subscriber_action_refusal (Some uid) ''like'' db")
  case (Some rf)
  with assms show ?thesis by (auto simp: vote_def intro: same)
next
  case None
  show ?thesis
  proof (cases "get_object uid rid db")
    case None': None
    with None assms show ?thesis by (auto simp: vote_def intro: same)
  next
    case r: (Some r)
    show ?thesis
    proof (cases "(uid, rid) \<in> set (vote_rows db)")
      case True
      then have "db' = snd (unlike uid rid r db)" using None r assms by (simp add: vote_def)
      then have "\<exists>ns. db' = (update_reel rid (\<lambda>x. x\<lparr>rl_votes := max (rl_votes x - 1) 0\<rparr>) db)
          \<lparr>vote_rows := removeAll (uid, rid) (vote_rows db), notices := ns\<rparr>"
        by (intro exI [of _ "notices db'"] engage_db.equality)
           (simp_all add: unlike_def Let_def delete_like_notification_def forget_like_def update_reel_def)
      with r True show ?thesis by (rule unliked)
    next
      case False
      then have l: "like_new uid rid r db = Inr (rep, db')" using None r assms by (simp add: vote_def)
      let ?ch = "charge_engagement (Some uid) rid r ''like'' False ([], [])
         (create_like_notification uid rid r (db\<lparr>vote_rows := vote_rows db @ [(uid, rid)]\<rparr>))"
      show ?thesis
      proof (cases ?ch)
        case (Inl e)
        with l show ?thesis by (cases e) (auto simp: like_new_def intro: same)
      next
        case (Inr x)
        then obtain c db1 where ch: "?ch = Inr (c, db1)" by (cases x) auto
        with l have "\<exists>ns. db' = (update_reel rid (\<lambda>x. x\<lparr>rl_votes := rl_votes x + 1\<rparr>) db1)\<lparr>notices := ns\<rparr>"
          by (cases "rl_owner r = uid")
             (auto simp: like_new_def Let_def notify_row_def update_reel_def intro: exI [of _ "notices db1"])
        with r False ch show ?thesis by (rule liked)
      qed
    qed
  qed
qed

lemma share_cases:
  assumes "share uid rid db = Inr (rep, db')"
  obtains (same) "db' = db"
  | (shared) r c db1 where "get_object uid rid db = Some r"
      "charge_engagement (Some uid) rid r ''share'' True ([], []) db = Inr (c, db1)"
      "db' = update_reel rid (\<lambda>x. x\<lparr>rl_shares := rl_shares x + 1\<rparr>) db1"
proof (cases "subscriber_action_refusal (Some uid) ''share'' db")
  case (Some rf)
  with assms show ?thesis by (auto simp: share_def intro: same)
next
  case None
  show ?thesis
  proof (cases "get_object uid rid db")
    case None': None
    with None assms show ?thesis by (auto simp: share_def intro: same)
  next
    case r: (Some r)
    let ?ch = "charge_engagement (Some uid) rid r ''share'' True ([], []) db"
    show ?thesis
    proof (cases ?ch)
      case (Inl e)
      with None r assms show ?thesis by (cases e) (auto simp: share_def intro: same)
    next
      case (Inr x)
      then obtain c db1 where ch: "?ch = Inr (c, db1)" by (cases x) auto
      with None r assms have "db' = update_reel rid (\<lambda>x. x\<lparr>rl_shares := rl_shares x + 1\<rparr>) db1" by (auto simp: share_def Let_def)
      with r ch show ?thesis by (rule shared)
    qed
  qed
qed

lemma comment_cases:
  assumes "post_comment uid rid body db = Inr (rep, db')"
  obtains (same) "db' = db"
  | (said) r c db0 where "get_object uid rid db = Some r" "\<exists>ns cs. db0 = db\<lparr>comment_rows := cs, notices := ns\<rparr>"
      "charge_engagement (Some uid) rid r ''comment'' False ([], []) db0 = Inr (c, db')"
proof (cases "get_object uid rid db")
  case None
  with assms show ?thesis by (auto simp: post_comment_def intro: same)
next
  case r: (Some r)
  show ?thesis
  proof (cases "subscriber_action_refusal (Some uid) ''comment'' db \<noteq> None \<or> strip body = []")
    case True
    with r assms show ?thesis by (auto simp: post_comment_def intro: same split: option.splits)
  next
    case False
    let ?db0 = "create_comment_notification uid rid r (db\<lparr>comment_rows := comment_rows db @
      [\<lparr>cm_user = uid, cm_reel = rid, cm_text = strip body, cm_deleted = False\<rparr>]\<rparr>)"
    let ?ch = "charge_engagement (Some uid) rid r ''comment'' False ([], []) ?db0"
    have form: "\<exists>ns cs. ?db0 = db\<lparr>comment_rows := cs, notices := ns\<rparr>"
      by (intro exI [of _ "notices ?db0"] exI [of _ "comment_rows ?db0"] engage_db.equality)
         (simp_all add: create_comment_notification_def notify_row_def)
    show ?thesis
    proof (cases ?ch)
      case (Inl e)
      with False r assms show ?thesis by (cases e) (auto simp: post_comment_def Let_def intro: same)
    next
      case (Inr x)
      with False r assms have "?ch = Inr (fst x, db')" by (cases x) (auto simp: post_comment_def Let_def)
      with r form show ?thesis by (rule said)
    qed
  qed
qed

lemma entry_cases:
  obtains (same) "snd (create_campaign_post uid q db) = db"
  | (entered) key rid where
      "subscriber_action_refusal (Some uid) ''campaign'' db = None"
      "read_client_upload_id (er_header q) (er_form_key q) = Some key" "existing_post uid key db = None"
      "entries_today uid (er_campaign q) (now db) (post_scores db) = 0"
      "snd (create_campaign_post uid q db) = update_stats uid (er_campaign q)
         (db\<lparr>reel_rows := (reel_rows db)(next_reel db \<mapsto> new_reel uid True key), next_reel := next_reel db + 1,
             post_scores := post_scores db @ [\<lparr>sc_user = uid, sc_campaign = er_campaign q, sc_created_at = now db,
               sc_moderation = ''pending''\<rparr>]\<rparr>)"
proof (cases "snd (create_campaign_post uid q db) = db")
  case True
  then show ?thesis by (rule same)
next
  case False
  then obtain key where key: "subscriber_action_refusal (Some uid) ''campaign'' db = None"
      "read_client_upload_id (er_header q) (er_form_key q) = Some key" "existing_post uid key db = None"
    and today: "daily_entry_refusal uid (er_campaign q) (now db) (post_scores db) = None"
    and st: "create_campaign_post uid q db = store_entry uid (er_campaign q) key db"
    unfolding create_campaign_post_def by (auto split: option.splits if_splits prod.splits)
  have "rl_owner (new_reel uid True key) = uid" by (simp add: new_reel_def)
  with key today st show ?thesis
    by (intro entered) (auto simp: store_entry_def charge_engagement_def Let_def daily_entry_refusal_def
        MAX_ENTRIES_PER_DAY_def split: if_splits)
qed

section \<open>Who pays\<close>

definition same_coins :: "'a engage_db_scheme \<Rightarrow> 'a engage_db_scheme \<Rightarrow> bool" where
  "same_coins x y \<longleftrightarrow> balances x = balances y \<and> coin_ledger x = coin_ledger y"

lemma same_coinsD:
  assumes "same_coins x y"
  shows "coin_ledger x = coin_ledger y" "coin_inv x = coin_inv y" "coin_balance_of x u = coin_balance_of y u" "coin_logged x u = coin_logged y u"
  using assms by (auto simp: same_coins_def coin_inv_def coin_balance_of_def coin_logged_def)

lemma same_coins_refl [simp]: "same_coins x x"
  by (simp add: same_coins_def)

text \<open>A ledger row that an action on a post of somebody else may have added.\<close>

definition fair_row :: "'a engage_db_scheme \<Rightarrow> coin_transaction \<Rightarrow> bool" where
  "fair_row db tx \<longleftrightarrow>
     (\<exists>u i r a. engagement_row u i (tx_type_of a) tx \<and> reel_rows db i = Some r \<and> rl_owner r \<noteq> u \<and>
        a \<in> {''like'', ''comment'', ''share''} \<and> (a = ''share'' \<longrightarrow> \<not> already_charged u i ''share'' db))"

definition pays :: "'a engage_db_scheme \<Rightarrow> 'a engage_db_scheme \<Rightarrow> bool" where
  "pays db db' \<longleftrightarrow>
     (coin_ledger db' = coin_ledger db \<or> (\<exists>tx. coin_ledger db' = coin_ledger db @ [tx] \<and> fair_row db tx)) \<and>
     (coin_inv db \<longrightarrow> coin_inv db' \<and> (\<forall>u. coin_balance_of db' u - coin_balance_of db u = coin_logged db' u - coin_logged db u))"

lemma pays_same: "same_coins db db' \<Longrightarrow> pays db db'"
  unfolding pays_def using same_coinsD [of db db'] by auto

lemma charge_pays:
  assumes "charge_engagement (Some uid) rid r a once d db0 = Inr (c, db1)"
    and "same_coins db db0" "same_coins db1 db'" "reel_rows db rid = Some r"
    and "a \<in> {''like'', ''comment'', ''share''}" "a = ''share'' \<Longrightarrow> once"
  shows "pays db db'"
  using assms(1)
proof (cases rule: charge_cases)
  case free
  then show ?thesis
    using extends_frame(1) [OF free(2)] same_coinsD [OF assms(2)] same_coinsD [OF assms(3)]
    by (auto simp: pays_def coin_logged_def)
next
  case (paid tx)
  have row: "tx_user tx = uid" "is_successful tx" using paid(2) by (auto simp: engagement_row_def)
  have led: "coin_ledger db' = coin_ledger db @ [tx]"
    using extends_frame(1) [OF paid(1)] same_coinsD [OF assms(2)] same_coinsD [OF assms(3)] by simp
  moreover have "coin_logged db' u = coin_logged db u - (if u = uid then c else 0)" for u
    using led row paid(3) by (auto simp: coin_logged_def)
  moreover have "fair_row db tx"
    using paid(2,5,7) assms(4-6) same_coinsD(1) [OF assms(2)] unfolding fair_row_def already_charged_def by auto
  ultimately show ?thesis
    using paid(8,9) same_coinsD [OF assms(2)] same_coinsD [OF assms(3)] by (auto simp: pays_def)
qed

lemma get_object_row: "get_object uid rid db = Some r \<Longrightarrow> reel_rows db rid = Some r"
  by (auto simp: get_object_def split: option.splits if_splits)

lemma exec_pays:
  assumes "exec_engage op db = Inr db'"
  shows "pays db db'"
proof (cases op)
  case (Like u i)
  with assms obtain rep where v: "vote u i db = Inr (rep, db')" by (auto simp: bind_result_Inr_iff)
  then show ?thesis
  proof (cases rule: vote_cases)
    case (liked r c db1)
    then show ?thesis
      by (intro charge_pays [OF liked(3)])
         (auto simp: same_coins_def create_like_notification_def notify_row_def update_reel_def dest: get_object_row)
  next
    case (unliked r)
    then show ?thesis by (auto intro!: pays_same simp: same_coins_def update_reel_def)
  qed (auto intro: pays_same)
next
  case (Share u i)
  with assms obtain rep where v: "share u i db = Inr (rep, db')" by (auto simp: bind_result_Inr_iff)
  then show ?thesis
  proof (cases rule: share_cases)
    case (shared r c db1)
    then show ?thesis
      by (intro charge_pays [OF shared(2)]) (auto simp: same_coins_def update_reel_def dest: get_object_row)
  qed (auto intro: pays_same)
next
  case (Say u i body)
  with assms obtain rep where v: "post_comment u i body db = Inr (rep, db')" by (auto simp: bind_result_Inr_iff)
  then show ?thesis
  proof (cases rule: comment_cases)
    case (said r c db0)
    then show ?thesis
      by (intro charge_pays [OF said(3)]) (auto simp: same_coins_def dest: get_object_row)
  qed (auto intro: pays_same)
next
  case (Enter u q)
  with assms have e: "db' = snd (create_campaign_post u q db)" by simp
  show ?thesis
    by (rule entry_cases [of u q db]) (auto simp: e update_stats_def Let_def same_coins_def intro!: pays_same)
qed (use assms in \<open>auto intro!: pays_same simp: same_coins_def update_reel_def split: if_splits\<close>)

text \<open>The wallets under engagement are a ledger.\<close>

interpretation engagement_wallet: ledger exec_engage coin_balance_of coin_logged coin_inv
proof
  fix op u and db db' :: "'a engage_db_scheme"
  show "coin_inv db \<Longrightarrow> 0 \<le> coin_balance_of db u" by (rule coin_balance_nonneg)
  assume "coin_inv db" "exec_engage op db = Inr db'"
  then show "coin_inv db'" "coin_balance_of db' u - coin_balance_of db u = coin_logged db' u - coin_logged db u"
    using exec_pays [of op db db'] by (auto simp: pays_def)
qed

lemma charge_reels:
  "charge_engagement (Some uid) rid r a once d db = Inr (c, db') \<Longrightarrow> reel_rows db' = reel_rows db"
  by (erule charge_cases) (auto dest: extends_frame)

lemma update_reel_row: "reel_rows (update_reel i f db) j = (if j = i then map_option f (reel_rows db i) else reel_rows db j)"
  by (simp add: update_reel_def)

text \<open>Posts with a number not given out yet do not exist, and votes are on posts that do.\<close>

definition reels_ok :: "'a engage_db_scheme \<Rightarrow> bool" where
  "reels_ok db \<longleftrightarrow> (\<forall>i. next_reel db \<le> i \<longrightarrow> reel_rows db i = None) \<and> (\<forall>u i. (u, i) \<in> set (vote_rows db) \<longrightarrow> reel_rows db i \<noteq> None)"

text \<open>The counter of every post is the number of its votes, and nobody votes twice.\<close>

definition likes_ok :: "'a engage_db_scheme \<Rightarrow> bool" where
  "likes_ok db \<longleftrightarrow> reels_ok db \<and> distinct (vote_rows db) \<and>
     (\<forall>i r. reel_rows db i = Some r \<longrightarrow> rl_votes r = int (length (filter (\<lambda>v. snd v = i) (vote_rows db))))"

lemma likes_okD:
  assumes "likes_ok db"
  shows "reels_ok db" "distinct (vote_rows db)"
    "reel_rows db i = Some r \<Longrightarrow> rl_votes r = int (length (filter (\<lambda>v. snd v = i) (vote_rows db)))"
  using assms by (auto simp: likes_ok_def)

lemma likes_ok_frame:
  assumes "likes_ok db" "vote_rows db' = vote_rows db" "next_reel db' = next_reel db"
    and "\<And>i. map_option rl_votes (reel_rows db' i) = map_option rl_votes (reel_rows db i)"
  shows "likes_ok db'"
proof -
  have none: "reel_rows db' i = None \<longleftrightarrow> reel_rows db i = None" for i using assms(4) [of i] by (metis option.map_disc_iff)
  have "rl_votes r = int (length (filter (\<lambda>v. snd v = i) (vote_rows db)))" if "reel_rows db' i = Some r" for i r
    using that assms(4) [of i] likes_okD(3) [OF assms(1)] by (cases "reel_rows db i") auto
  then show ?thesis using assms(1-3) none by (auto simp: likes_ok_def reels_ok_def)
qed

lemma count_removed:
  "distinct vs \<Longrightarrow> (u, i) \<in> set vs \<Longrightarrow>
   length (filter (\<lambda>v. snd v = j) vs) = length (filter (\<lambda>v. snd v = j) (removeAll (u, i) vs)) + (if j = i then 1 else 0)"
  by (induction vs) (auto simp: removeAll_id)

lemma vote_likes:
  assumes "vote uid rid db = Inr (rep, db')" "likes_ok db"
  shows "likes_ok db'"
  using assms(1)
proof (cases rule: vote_cases)
  case same
  then show ?thesis using assms by simp
next
  case (liked r c db1)
  note row = get_object_row [OF liked(1)]
  obtain l where ex: "extends (create_like_notification uid rid r (db\<lparr>vote_rows := vote_rows db @ [(uid, rid)]\<rparr>)) l db1"
    using liked(3) by (rule charge_cases) blast+
  have fr: "vote_rows db1 = vote_rows db @ [(uid, rid)]" "reel_rows db1 = reel_rows db" "next_reel db1 = next_reel db"
    using extends_frame [OF ex] by (auto simp: create_like_notification_def notify_row_def)
  from liked(4) have db': "vote_rows db' = vote_rows db @ [(uid, rid)]" "next_reel db' = next_reel db"
    "\<And>i. reel_rows db' i = (if i = rid then Some (r\<lparr>rl_votes := rl_votes r + 1\<rparr>) else reel_rows db i)"
    using fr row by (auto simp: update_reel_def)
  show ?thesis unfolding likes_ok_def reels_ok_def db'
    using assms(2) liked(2) row by (auto simp: likes_ok_def reels_ok_def)
next
  case (unliked r)
  note row = get_object_row [OF unliked(1)]
  from unliked(3) have db': "vote_rows db' = removeAll (uid, rid) (vote_rows db)" "next_reel db' = next_reel db"
    "\<And>i. reel_rows db' i = (if i = rid then Some (r\<lparr>rl_votes := max (rl_votes r - 1) 0\<rparr>) else reel_rows db i)"
    using row by (auto simp: update_reel_def)
  note cnt = count_removed [OF likes_okD(2) [OF assms(2)] unliked(2)]
  have "rl_votes r = int (length (filter (\<lambda>v. snd v = rid) (vote_rows db)))" using likes_okD(3) [OF assms(2) row] .
  then have "max (rl_votes r - 1) 0 = int (length (filter (\<lambda>v. snd v = rid) (removeAll (uid, rid) (vote_rows db))))"
    using cnt [of rid] by simp
  moreover have "reel_rows db i = Some q \<Longrightarrow> i \<noteq> rid \<Longrightarrow>
      rl_votes q = int (length (filter (\<lambda>v. snd v = i) (removeAll (uid, rid) (vote_rows db))))" for i q
    using cnt [of i] likes_okD(3) [OF assms(2)] by simp
  ultimately have "\<forall>i q. reel_rows db' i = Some q \<longrightarrow> rl_votes q = int (length (filter (\<lambda>v. snd v = i) (vote_rows db')))"
    unfolding db' by (auto split: if_splits)
  moreover have "reels_ok db'" using likes_okD(1) [OF assms(2)] row unfolding reels_ok_def db' by auto
  moreover have "distinct (vote_rows db')" using likes_okD(2) [OF assms(2)] unfolding db' by (rule distinct_removeAll)
  ultimately show ?thesis unfolding likes_ok_def by blast
qed

lemma entry_likes:
  assumes "likes_ok db"
  shows "likes_ok (snd (create_campaign_post uid q db))"
proof (rule entry_cases [of uid q db])
  assume "snd (create_campaign_post uid q db) = db"
  with assms show ?thesis by simp
next
  fix key
  assume e: "snd (create_campaign_post uid q db) = update_stats uid (er_campaign q)
         (db\<lparr>reel_rows := (reel_rows db)(next_reel db \<mapsto> new_reel uid True key), next_reel := next_reel db + 1,
             post_scores := post_scores db @ [\<lparr>sc_user = uid, sc_campaign = er_campaign q, sc_created_at = now db,
               sc_moderation = ''pending''\<rparr>]\<rparr>)"
  have none: "reel_rows db (next_reel db) = None" using assms by (simp add: likes_ok_def reels_ok_def)
  then have "i \<noteq> next_reel db" if "(u, i) \<in> set (vote_rows db)" for u i
    using that assms unfolding likes_ok_def reels_ok_def by metis
  then have "filter (\<lambda>v. snd v = next_reel db) (vote_rows db) = []" by (auto simp: filter_empty_conv)
  then show ?thesis using assms unfolding e
    by (auto simp: likes_ok_def reels_ok_def update_stats_def Let_def new_reel_def)
qed

lemma exec_likes:
  assumes "likes_ok db" "exec_engage op db = Inr db'"
  shows "likes_ok db'"
proof (cases op)
  case (Like u i)
  with assms show ?thesis by (auto simp: bind_result_Inr_iff intro: vote_likes)
next
  case (Share u i)
  with assms obtain rep where v: "share u i db = Inr (rep, db')" by (auto simp: bind_result_Inr_iff)
  then show ?thesis
  proof (cases rule: share_cases)
    case (shared r c db1)
    obtain l where ex: "extends db l db1" using shared(2) by (rule charge_cases) blast+
    show ?thesis using extends_frame [OF ex] shared(3)
      by (intro likes_ok_frame [OF assms(1)]) (auto simp: update_reel_def option.map_comp comp_def)
  qed (use assms in simp)
next
  case (Say u i body)
  with assms obtain rep where v: "post_comment u i body db = Inr (rep, db')" by (auto simp: bind_result_Inr_iff)
  then show ?thesis
  proof (cases rule: comment_cases)
    case (said r c db0)
    obtain l where ex: "extends db0 l db'" using said(3) by (rule charge_cases) blast+
    show ?thesis using extends_frame [OF ex] said(2) by (intro likes_ok_frame [OF assms(1)]) auto
  qed (use assms in simp)
next
  case (Enter u q)
  with assms entry_likes show ?thesis by auto
next
  case (Processed i)
  with assms show ?thesis
    by (intro likes_ok_frame [OF assms(1)]) (auto simp: update_reel_def option.map_comp comp_def)
qed (use assms in \<open>auto intro!: likes_ok_frame [OF assms(1)] split: if_splits\<close>)

section \<open>Engagement is charged fairly\<close>

text \<open>Posts keep their owner and are never removed.\<close>

definition keeps_reels :: "'a engage_db_scheme \<Rightarrow> 'a engage_db_scheme \<Rightarrow> bool" where
  "keeps_reels db db' \<longleftrightarrow> (\<forall>i r. reel_rows db i = Some r \<longrightarrow> (\<exists>r'. reel_rows db' i = Some r' \<and> rl_owner r' = rl_owner r))"

lemma keeps_reels_update: "reel_rows db1 = reel_rows db \<Longrightarrow> (\<And>r. rl_owner (f r) = rl_owner r) \<Longrightarrow> keeps_reels db (update_reel i f db1)"
  by (auto simp: keeps_reels_def update_reel_row)

lemma keeps_reels_same: "reel_rows db' = reel_rows db \<Longrightarrow> keeps_reels db db'"
  by (simp add: keeps_reels_def)

lemma exec_keeps_reels:
  assumes "likes_ok db" "exec_engage op db = Inr db'"
  shows "keeps_reels db db'"
proof (cases op)
  case (Like u i)
  with assms obtain rep where v: "vote u i db = Inr (rep, db')" by (auto simp: bind_result_Inr_iff)
  then show ?thesis
  proof (cases rule: vote_cases)
    case (liked r c db1)
    have "reel_rows db1 = reel_rows db"
      using charge_reels [OF liked(3)] by (simp add: create_like_notification_def notify_row_def)
    then show ?thesis using liked(4) keeps_reels_update [of db1 db "\<lambda>x. x\<lparr>rl_votes := rl_votes x + 1\<rparr>" i] by (auto simp: keeps_reels_def)
  next
    case (unliked r)
    then show ?thesis using keeps_reels_update [of db db "\<lambda>x. x\<lparr>rl_votes := max (rl_votes x - 1) 0\<rparr>" i] by (auto simp: keeps_reels_def)
  qed (simp add: keeps_reels_same)
next
  case (Share u i)
  with assms obtain rep where v: "share u i db = Inr (rep, db')" by (auto simp: bind_result_Inr_iff)
  then show ?thesis
  proof (cases rule: share_cases)
    case (shared r c db1)
    then show ?thesis using charge_reels [OF shared(2)] by (auto intro: keeps_reels_update)
  qed (simp add: keeps_reels_same)
next
  case (Say u i body)
  with assms obtain rep where v: "post_comment u i body db = Inr (rep, db')" by (auto simp: bind_result_Inr_iff)
  then show ?thesis
  proof (cases rule: comment_cases)
    case (said r c db0)
    then show ?thesis using charge_reels [OF said(3)] by (auto intro: keeps_reels_same)
  qed (simp add: keeps_reels_same)
next
  case (Enter u q)
  then have e: "db' = snd (create_campaign_post u q db)" using assms by simp
  have none: "reel_rows db (next_reel db) = None" using assms(1) by (simp add: likes_ok_def reels_ok_def)
  show ?thesis
    by (rule entry_cases [of u q db]) (auto simp: e none update_stats_def Let_def keeps_reels_def)
next
  case (Processed i)
  then show ?thesis using assms by (auto intro: keeps_reels_update)
qed (use assms in \<open>auto intro!: keeps_reels_same split: if_splits\<close>)

definition others_post :: "'a engage_db_scheme \<Rightarrow> coin_transaction \<Rightarrow> bool" where
  "others_post db tx \<longleftrightarrow>
     (\<exists>i r. reel tx = Some i \<and> reel_rows db i = Some r \<and> rl_owner r \<noteq> tx_user tx) \<and>
     transaction_type tx \<in> {''campaign_like'', ''campaign_comment'', ''campaign_share''}"

lemma tx_types: "tx_type_of ''like'' = ''campaign_like''" "tx_type_of ''comment'' = ''campaign_comment''"
  "tx_type_of ''share'' = ''campaign_share''"
  by (simp_all add: tx_type_of_def ACTIONS_def)

lemma others_post_keeps: "others_post db tx \<Longrightarrow> keeps_reels db db' \<Longrightarrow> others_post db' tx"
  unfolding others_post_def keeps_reels_def by metis

lemma fair_row_others: "fair_row db tx \<Longrightarrow> others_post db tx"
  by (auto simp: fair_row_def others_post_def engagement_row_def tx_types)

definition shares_paid :: "nat \<Rightarrow> nat \<Rightarrow> 'a engage_db_scheme \<Rightarrow> nat" where
  "shares_paid u i db = length (filter (engagement_row u i ''campaign_share'') (coin_ledger db))"

lemma pays_shares:
  assumes "pays db db'" "shares_paid u i db \<le> 1"
  shows "shares_paid u i db' \<le> 1"
proof -
  have first: "shares_paid u i db = 0" if "fair_row db tx" and tx: "engagement_row u i ''campaign_share'' tx" for tx
  proof -
    from that obtain u' i' a where row: "engagement_row u' i' (tx_type_of a) tx" "a \<in> {''like'', ''comment'', ''share''}"
      and new: "a = ''share'' \<longrightarrow> \<not> already_charged u' i' ''share'' db" unfolding fair_row_def by blast
    have "u' = u" "i' = i" "tx_type_of a = ''campaign_share''" using row(1) tx by (auto simp: engagement_row_def)
    moreover have "a = ''share''" using row(2) calculation(3) by (auto simp: tx_types)
    ultimately have "\<not> list_ex (engagement_row u i ''campaign_share'') (coin_ledger db)"
      using new by (simp add: already_charged_def tx_types)
    then show ?thesis by (simp add: shares_paid_def filter_empty_conv list_ex_iff)
  qed
  from assms(1) consider "coin_ledger db' = coin_ledger db" | tx where "coin_ledger db' = coin_ledger db @ [tx]" "fair_row db tx"
    unfolding pays_def by blast
  then show ?thesis
  proof cases
    case 1
    then show ?thesis using assms(2) by (simp add: shares_paid_def)
  next
    case (2 tx)
    then show ?thesis using assms(2) first [OF 2(2)] by (cases "engagement_row u i ''campaign_share'' tx") (simp_all add: shares_paid_def)
  qed
qed

definition charged_from :: "'a engage_db_scheme \<Rightarrow> 'a engage_db_scheme \<Rightarrow> bool" where
  "charged_from db0 db \<longleftrightarrow> likes_ok db \<and> (\<forall>tx \<in> set (coin_ledger db). tx \<in> set (coin_ledger db0) \<or> others_post db tx) \<and>
     (\<forall>u i. shares_paid u i db0 \<le> 1 \<longrightarrow> shares_paid u i db \<le> 1)"

lemma exec_charged_from:
  assumes "charged_from db0 db" "exec_engage op db = Inr db'"
  shows "charged_from db0 db'"
proof -
  have ok: "likes_ok db" using assms(1) by (simp add: charged_from_def)
  note p = exec_pays [OF assms(2)] and k = exec_keeps_reels [OF ok assms(2)]
  have "tx \<in> set (coin_ledger db0) \<or> others_post db' tx" if "tx \<in> set (coin_ledger db')" for tx
  proof -
    have "tx \<in> set (coin_ledger db) \<or> fair_row db tx" using that p by (auto simp: pays_def)
    then show ?thesis using assms(1) others_post_keeps [OF _ k] fair_row_others unfolding charged_from_def by blast
  qed
  then show ?thesis
    using exec_likes [OF ok assms(2)] pays_shares [OF p] assms(1) unfolding charged_from_def by blast
qed

section \<open>Entries and streaks\<close>

definition day_entry :: "nat \<Rightarrow> nat \<Rightarrow> int \<Rightarrow> post_score \<Rightarrow> bool" where
  "day_entry u c d p \<longleftrightarrow> sc_user p = u \<and> sc_campaign p = c \<and> local_date (sc_created_at p) = d \<and> sc_moderation p \<noteq> ''rejected''"

lemma day_bounds_local:
  "day * one_day - utc_offset \<le> x \<and> x < day * one_day - utc_offset + one_day \<longleftrightarrow> local_date x = day"
proof -
  have D: "0 < one_day" by simp
  have "local_date x * one_day \<le> x + utc_offset" "x + utc_offset < local_date x * one_day + one_day"
    using pos_mod_bound [OF D, of "x + utc_offset"] pos_mod_sign [OF D, of "x + utc_offset"]
      div_mult_mod_eq [of "x + utc_offset" one_day] unfolding local_date_def by linarith+
  moreover have "local_date x = day" if "day * one_day \<le> x + utc_offset" "x + utc_offset < day * one_day + one_day"
    unfolding local_date_def using that D
    by (intro int_div_pos_eq [of _ _ _ "x + utc_offset - day * one_day"]) (auto simp: algebra_simps)
  ultimately show ?thesis by force
qed

lemma entries_today_count: "entries_today u c t ps = length (filter (day_entry u c (local_date t)) ps)"
proof -
  have "(sc_user p = u \<and> sc_campaign p = c \<and> local_date t * one_day - utc_offset \<le> sc_created_at p \<and>
      sc_created_at p < local_date t * one_day - utc_offset + one_day \<and> sc_moderation p \<noteq> ''rejected'') = day_entry u c (local_date t) p" for p
    using day_bounds_local [of "local_date t" "sc_created_at p"] by (auto simp: day_entry_def)
  then show ?thesis by (simp add: entries_today_def day_bounds_def Let_def)
qed

text \<open>What an operation does to the entries: one more on a free day, or a verdict on one.\<close>

lemma exec_scores:
  assumes "exec_engage op db = Inr db'"
  obtains (same) "post_scores db' = post_scores db" "campaign_stats db' = campaign_stats db" "now db \<le> now db'"
  | (entered) u c p where "sc_user p = u" "sc_campaign p = c" "sc_created_at p = now db" "sc_moderation p = ''pending''"
      "length (filter (day_entry u c (local_date (now db))) (post_scores db)) = 0" "post_scores db' = post_scores db @ [p]"
      "now db' = now db" "campaign_stats db' = (campaign_stats db)(u := (campaign_stats db u)(c \<mapsto>
         entry_stats (local_date (now db)) (stats_of u c db) (days_entered u c (post_scores db'))))"
  | (verdict) i v where "op = Moderate i v" "i < length (post_scores db)" "now db' = now db" "campaign_stats db' = campaign_stats db"
      "post_scores db' = (post_scores db)[i := (post_scores db ! i)\<lparr>sc_moderation := v\<rparr>]"
proof (cases op)
  case (Like u i)
  with assms obtain rep where v: "vote u i db = Inr (rep, db')" by (auto simp: bind_result_Inr_iff)
  then show ?thesis
  proof (cases rule: vote_cases)
    case (liked r c db1)
    obtain l where ex: "extends (create_like_notification u i r (db\<lparr>vote_rows := vote_rows db @ [(u, i)]\<rparr>)) l db1"
      using liked(3) by (rule charge_cases) blast+
    show ?thesis using extends_frame [OF ex] liked(4)
      by (intro same) (auto simp: create_like_notification_def notify_row_def update_reel_def)
  qed (auto intro!: same simp: update_reel_def)
next
  case (Share u i)
  with assms obtain rep where v: "share u i db = Inr (rep, db')" by (auto simp: bind_result_Inr_iff)
  then show ?thesis
  proof (cases rule: share_cases)
    case (shared r c db1)
    obtain l where ex: "extends db l db1" using shared(2) by (rule charge_cases) blast+
    show ?thesis using extends_frame [OF ex] shared(3) by (intro same) (auto simp: update_reel_def)
  qed (auto intro!: same)
next
  case (Say u i body)
  with assms obtain rep where v: "post_comment u i body db = Inr (rep, db')" by (auto simp: bind_result_Inr_iff)
  then show ?thesis
  proof (cases rule: comment_cases)
    case (said r c db0)
    obtain l where ex: "extends db0 l db'" using said(3) by (rule charge_cases) blast+
    show ?thesis using extends_frame [OF ex] said(2) by (intro same) auto
  qed (auto intro!: same)
next
  case (Enter u q)
  then have e: "db' = snd (create_campaign_post u q db)" using assms by simp
  let ?p = "\<lparr>sc_user = u, sc_campaign = er_campaign q, sc_created_at = now db, sc_moderation = ''pending''\<rparr>"
  show ?thesis
  proof (rule entry_cases [of u q db])
    assume "snd (create_campaign_post u q db) = db"
    then show ?thesis using e by (intro same) simp_all
  next
    fix key
    let ?dbm = "db\<lparr>reel_rows := (reel_rows db)(next_reel db \<mapsto> new_reel u True key), next_reel := next_reel db + 1,
      post_scores := post_scores db @ [?p]\<rparr>"
    assume "entries_today u (er_campaign q) (now db) (post_scores db) = 0"
      and "snd (create_campaign_post u q db) = update_stats u (er_campaign q) ?dbm"
    then show ?thesis using e
      by (intro entered [of ?p u "er_campaign q"]) (simp_all add: entries_today_count update_stats_def stats_of_def)
  qed
next
  case (Moderate i v)
  with assms show ?thesis by (cases "i < length (post_scores db)") (auto intro: same verdict)
qed (use assms in \<open>auto intro!: same simp: update_reel_def\<close>)

definition entries_ok :: "'a engage_db_scheme \<Rightarrow> bool" where
  "entries_ok db \<longleftrightarrow> (\<forall>u c d. length (filter (day_entry u c d) (post_scores db)) \<le> 1)"

text \<open>A sequence in which no moderator takes a rejection back.\<close>

fun settled_verdicts :: "engage_op list \<Rightarrow> 'a engage_db_scheme \<Rightarrow> bool" where
  "settled_verdicts [] db = True"
| "settled_verdicts (op # ops) db =
     ((case op of Moderate i v \<Rightarrow> v = ''rejected'' \<or> length (post_scores db) \<le> i \<or> sc_moderation (post_scores db ! i) \<noteq> ''rejected''
       | _ \<Rightarrow> True) \<and>
      settled_verdicts ops (case exec_engage op db of Inl _ \<Rightarrow> db | Inr db' \<Rightarrow> db'))"

lemma filter_update_le:
  assumes "i < length xs" "P y \<longrightarrow> P (xs ! i)"
  shows "length (filter P (xs[i := y])) \<le> length (filter P xs)"
  using assms
proof (induction xs arbitrary: i)
  case (Cons x xs)
  then show ?case by (cases i) (auto intro: le_SucI)
qed simp

lemma exec_entries:
  assumes "exec_engage op db = Inr db'" "entries_ok db"
    and "\<And>i v. op = Moderate i v \<Longrightarrow> i < length (post_scores db) \<Longrightarrow> v = ''rejected'' \<or> sc_moderation (post_scores db ! i) \<noteq> ''rejected''"
  shows "entries_ok db'"
  using assms(1)
proof (cases rule: exec_scores)
  case same
  then show ?thesis using assms(2) by (simp add: entries_ok_def)
next
  case (entered u c p)
  have "length (filter (day_entry u' c' d) (post_scores db')) \<le> 1" for u' c' d
    using entered(5) assms(2) by (cases "day_entry u' c' d p") (auto simp: entered(6) entries_ok_def day_entry_def entered(1-3))
  then show ?thesis by (simp add: entries_ok_def)
next
  case (verdict i v)
  have "length (filter (day_entry u c d) (post_scores db')) \<le> length (filter (day_entry u c d) (post_scores db))" for u c d
    unfolding verdict(5) using assms(3) [OF verdict(1,2)] by (intro filter_update_le [OF verdict(2)]) (auto simp: day_entry_def)
  then show ?thesis using assms(2) unfolding entries_ok_def by (meson le_trans)
qed

lemma run_entries:
  assumes "entries_ok db" "settled_verdicts ops db"
  shows "entries_ok (run_requests exec_engage ops db)"
  using assms
proof (induction ops arbitrary: db)
  case (Cons op ops)
  show ?case
  proof (cases "exec_engage op db")
    case (Inl e)
    with Cons show ?thesis by simp
  next
    case (Inr db')
    have "entries_ok db'" using Cons.prems by (intro exec_entries [OF Inr]) auto
    with Cons Inr show ?thesis by simp
  qed
qed simp

lemma distinct_days:
  assumes "\<And>d. length (filter (day_entry u c d) qs) \<le> 1"
  shows "distinct (map (\<lambda>p. local_date (sc_created_at p)) (filter (counts u (Some c) start stop) qs))"
  using assms
proof (induction qs)
  case (Cons q qs)
  have less: "length (filter (day_entry u c d) qs) \<le> 1" for d using Cons.prems [of d] by (cases "day_entry u c d q") auto
  have "local_date (sc_created_at p) \<noteq> local_date (sc_created_at q)"
    if "p \<in> set qs" "counts u (Some c) start stop p" "counts u (Some c) start stop q" for p
  proof
    assume "local_date (sc_created_at p) = local_date (sc_created_at q)"
    with that have "day_entry u c (local_date (sc_created_at q)) p" "day_entry u c (local_date (sc_created_at q)) q"
      by (auto simp: day_entry_def counts_def)
    moreover have "filter (day_entry u c (local_date (sc_created_at q))) qs = []"
      using Cons.prems [of "local_date (sc_created_at q)"] calculation(2) by simp
    ultimately show False using that(1) by (auto simp: filter_empty_conv)
  qed
  then show ?case using Cons.IH [OF less] by (cases "counts u (Some c) start stop q") fastforce+
qed simp

text \<open>The streak is a run of consecutive days on which the user really entered.\<close>

definition streak_ok :: "int \<Rightarrow> int set \<Rightarrow> user_campaign_stats \<Rightarrow> bool" where
  "streak_ok today days st \<longleftrightarrow>
     (\<exists>d. last_post_date st = Some d \<and> d \<le> today \<and> 1 \<le> current_streak st \<and> {d - int (current_streak st) + 1..d} \<subseteq> days) \<and>
     current_streak st \<le> longest_streak st \<and> longest_streak st \<le> days_participated st \<and> days_participated st = card days"

definition stats_ok :: "'a engage_db_scheme \<Rightarrow> bool" where
  "stats_ok db \<longleftrightarrow> (\<forall>u c st. campaign_stats db u c = Some st \<longrightarrow> streak_ok (local_date (now db)) (days_entered u c (post_scores db)) st)"

lemma entry_stats_ok:
  assumes "st = new_stats \<or> streak_ok today days st" "finite days"
  shows "streak_ok today (insert today days) (entry_stats today st (insert today days))"
proof -
  let ?s = "next_streak today st"
  have old: "longest_streak st \<le> card days" and pos: "1 \<le> ?s"
    using assms(1) by (auto simp: new_stats_def next_streak_def streak_ok_def split: if_splits)
  have run: "{today - int ?s + 1..today} \<subseteq> insert today days"
  proof (cases "last_post_date st")
    case None
    then show ?thesis by (simp add: next_streak_def)
  next
    case (Some d)
    with assms(1) have ok: "d \<le> today" "{d - int (current_streak st) + 1..d} \<subseteq> days" by (auto simp: new_stats_def streak_ok_def)
    consider "today = d" | "today = d + 1" | "d + 1 < today" using ok(1) by linarith
    then show ?thesis
    proof cases
      case 1
      then show ?thesis using ok Some by (auto simp: next_streak_def)
    next
      case 2
      then have "{today - int ?s + 1..today} = insert today {d - int (current_streak st) + 1..d}" using Some by (auto simp: next_streak_def)
      then show ?thesis using ok by blast
    next
      case 3
      then show ?thesis using Some by (simp add: next_streak_def)
    qed
  qed
  have "card {today - int ?s + 1..today} \<le> card (insert today days)" using run assms(2) by (intro card_mono) auto
  then have "?s \<le> card (insert today days)" by simp
  moreover have "card days \<le> card (insert today days)" using assms(2) by (simp add: card_insert_le)
  ultimately show ?thesis using run pos old by (auto simp: streak_ok_def entry_stats_def Let_def)
qed

lemma days_entered_frame: "days_entered u c (ps @ [p]) =
    (if sc_user p = u \<and> sc_campaign p = c then insert (local_date (sc_created_at p)) (days_entered u c ps) else days_entered u c ps)"
  "finite (days_entered u c ps)"
  by (auto simp: days_entered_def)

lemma days_entered_verdict:
  assumes "i < length ps"
  shows "days_entered u c (ps[i := (ps ! i)\<lparr>sc_moderation := v\<rparr>]) = days_entered u c ps"
proof -
  have "map (\<lambda>p. (sc_user p, sc_campaign p, sc_created_at p)) (ps[i := (ps ! i)\<lparr>sc_moderation := v\<rparr>]) =
      map (\<lambda>p. (sc_user p, sc_campaign p, sc_created_at p)) ps"
    using assms by (intro nth_equalityI) (auto simp: nth_list_update)
  moreover have "days_entered u c qs = {local_date t |t. (u, c, t) \<in> set (map (\<lambda>p. (sc_user p, sc_campaign p, sc_created_at p)) qs)}" for qs
    by (force simp: days_entered_def)
  ultimately show ?thesis by presburger
qed

lemma streak_ok_later: "streak_ok today days st \<Longrightarrow> today \<le> today' \<Longrightarrow> streak_ok today' days st"
  by (auto simp: streak_ok_def)

lemma exec_stats:
  assumes "exec_engage op db = Inr db'" "stats_ok db"
  shows "stats_ok db'"
  using assms(1)
proof (cases rule: exec_scores)
  case same
  then show ?thesis using assms(2) local_date_mono [OF same(3)] streak_ok_later unfolding stats_ok_def by fastforce
next
  case (entered u c p)
  have "stats_of u c db = new_stats \<or> streak_ok (local_date (now db)) (days_entered u c (post_scores db)) (stats_of u c db)"
    using assms(2) by (auto simp: stats_of_def stats_ok_def split: option.splits)
  from entry_stats_ok [OF this days_entered_frame(2)]
  show ?thesis using assms(2) entered(1-3,6,8)
    by (auto simp: stats_ok_def entered(7) days_entered_frame split: if_splits)
next
  case (verdict i v)
  then show ?thesis using assms(2) by (simp add: stats_ok_def days_entered_verdict)
qed

section \<open>A concrete store\<close>

definition example_engage :: engage_db where
  "example_engage =
     \<lparr>balances = (\<lambda>_. None)(2 \<mapsto> new_balance\<lparr>bonus_balance := 20, balance := 20\<rparr>), coin_ledger = [], packages = (\<lambda>_. None), now = 0,
      profiles = (\<lambda>_. None), point_ledger = [],
      wallet_cfg = default_config, withdrawals = (\<lambda>_. None), next_withdrawal = 0,
      tiers = (\<lambda>_. None), tier_ids = [], plans = (\<lambda>_. None), plan_ids = [],
      payments = (\<lambda>_. None), payment_ids = [], legacy_subscriptions = (\<lambda>_. Some (Some (9 * one_day))),
      reel_rows = (\<lambda>_. None)(0 \<mapsto> (new_reel 1 True [])\<lparr>rl_ready := True\<rparr>), next_reel = 1, vote_rows = [], comment_rows = [], notices = [],
      wants_likes = (\<lambda>_. True), wants_comments = (\<lambda>_. False), is_staff = (\<lambda>_. False),
      entry_campaigns = (\<lambda>_. None)(5 \<mapsto> \<lparr>cp_id = 5, cp_type = ''weekly'', cp_start = None, cp_deadline = None, ec_status = ''active'', ec_themes = []\<rparr>),
      post_scores = [], campaign_stats = (\<lambda>_ _. None)\<rparr>"

definition an_entry :: entry_request where
  "an_entry = \<lparr>er_campaign = 5, er_theme = None, er_has_file = True, er_header = [], er_form_key = [], er_valid = True, er_stored = True\<rparr>"

definition two_entries :: "engage_op list" where
  "two_entries = [Enter 2 an_entry, Enter 2 an_entry]"

definition two_shares :: "engage_op list" where
  "two_shares = [Share 2 0, Share 2 0]"

lemma example_engage_ok: "coin_inv example_engage" "likes_ok example_engage" "shares_paid u i example_engage = 0"
  "entries_ok example_engage" "stats_ok example_engage"
proof -
  show "coin_inv example_engage"
    by (auto simp: example_engage_def coin_inv_def wf_balance_def new_balance_def split: if_splits)
  show "likes_ok example_engage"
    by (auto simp: example_engage_def likes_ok_def reels_ok_def new_reel_def split: if_splits)
qed (simp_all add: example_engage_def shares_paid_def entries_ok_def stats_ok_def)

section \<open>Properties\<close>









end
