(* ===== verification/Scoring.thy ===== *)
theory Scoring
  imports Engagement "HOL-Library.Product_Lexorder" "HOL-Library.Multiset"
begin

text \<open>
  Scores and standings: \<open>CampaignScoringConfig\<close> of \<open>api/models/campaign_extended.py\<close>, the score calculations of
  \<open>api/services/scoring/engine.py\<close>, and the participant totals and the ranking of
  \<open>api/services/scoring/leaderboard.py\<close>. Numbers the code holds as floats are rationals. The rows of \<open>PostScore\<close>
  and \<open>GiftTransaction\<close> are arguments; likes, comments and shares are those of the engagement tables.
\<close>

section \<open>Configuration\<close>

record engagement_weights =
  likes_weight :: rat
  comments_weight :: rat
  shares_weight :: rat
  gifts_weight :: rat

record daily_settings =
  d_weights :: engagement_weights
  d_spin_reward :: rat
  d_coin_gift :: rat
  d_login_bonus :: rat
  daily_post_points :: rat
  win_cooldown_days :: int

record weekly_settings =
  w_weights :: engagement_weights
  w_spin_reward :: rat
  w_coin_gift :: rat
  consistency_boost :: rat
  streak_3day :: rat
  streak_5day :: rat
  streak_7day :: rat
  decay_per_missed_day :: rat
  decay_max_days :: int

record monthly_settings =
  m_weights :: engagement_weights
  m_spin_reward :: rat
  m_coin_gift :: rat
  consistency_multiplier :: rat
  weekly_winner_bonus :: rat
  multiplier_7day :: rat
  multiplier_14day :: rat
  multiplier_21day :: rat
  high_engagement_threshold :: int
  high_engagement_bonus :: rat

record grand_settings =
  q_weights :: engagement_weights
  qualification_percentage :: int
  judging_weight :: rat
  voting_weight :: rat
  creativity_max :: rat
  quality_max :: rat
  theme_max :: rat
  impact_max :: rat

record scoring_config =
  cfg_daily :: daily_settings
  cfg_weekly :: weekly_settings
  cfg_monthly :: monthly_settings
  cfg_grand :: grand_settings
  daily_win_limit_per_month :: int
  weekly_win_limit_per_month :: int
  monthly_win_limit_per_period :: int
  grand_win_limit_per_campaign :: int

definition platform_weights :: engagement_weights where
  "platform_weights = \<lparr>likes_weight = 1, comments_weight = 2, shares_weight = 5, gifts_weight = 10\<rparr>"

definition default_scoring_config :: scoring_config where
  "default_scoring_config =
     \<lparr>cfg_daily = \<lparr>d_weights = platform_weights, d_spin_reward = 5, d_coin_gift = 2, d_login_bonus = 3,
        daily_post_points = 10, win_cooldown_days = 7\<rparr>,
      cfg_weekly = \<lparr>w_weights = platform_weights, w_spin_reward = 3, w_coin_gift = 3 / 2, consistency_boost = 5,
        streak_3day = 10, streak_5day = 25, streak_7day = 50, decay_per_missed_day = 5, decay_max_days = 3\<rparr>,
      cfg_monthly = \<lparr>m_weights = platform_weights, m_spin_reward = 2, m_coin_gift = 1, consistency_multiplier = 3 / 2,
        weekly_winner_bonus = 20, multiplier_7day = 6 / 5, multiplier_14day = 3 / 2, multiplier_21day = 2,
        high_engagement_threshold = 100, high_engagement_bonus = 15\<rparr>,
      cfg_grand = \<lparr>q_weights = platform_weights, qualification_percentage = 20, judging_weight = 7 / 10,
        voting_weight = 3 / 10, creativity_max = 30, quality_max = 25, theme_max = 20, impact_max = 25\<rparr>,
      daily_win_limit_per_month = 1, weekly_win_limit_per_month = 1, monthly_win_limit_per_period = 1,
      grand_win_limit_per_campaign = 1\<rparr>"

text \<open>
  \<open>resolve_weights\<close> without a campaign, or with one whose configuration is read for its type; an unknown type is
  given the daily section by \<open>get_config_for_type\<close>.
\<close>

definition resolve_weights :: "(scoring_config \<times> string) option \<Rightarrow> engagement_weights" where
  "resolve_weights camp =
     (case camp of
        None \<Rightarrow> platform_weights
      | Some (c, ty) \<Rightarrow>
          if ty = ''weekly'' then w_weights (cfg_weekly c)
          else if ty = ''monthly'' then m_weights (cfg_monthly c)
          else if ty = ''grand'' then q_weights (cfg_grand c)
          else d_weights (cfg_daily c))"

definition weigh :: "engagement_weights \<Rightarrow> counts_of_engagement \<Rightarrow> rat" where
  "weigh w c =
     of_int (n_likes c) * likes_weight w + of_int (n_comments c) * comments_weight w +
     of_int (n_shares c) * shares_weight w + of_int (n_gifts c) * gifts_weight w"

section \<open>Engagement of a participant's posts\<close>

record scored_post = post_score +
  sp_reel :: nat

definition approved_between :: "nat \<Rightarrow> nat \<Rightarrow> int \<Rightarrow> int \<Rightarrow> scored_post list \<Rightarrow> scored_post list" where
  "approved_between uid camp s e ps =
     filter (\<lambda>p. sc_user p = uid \<and> sc_campaign p = camp \<and> s \<le> sc_created_at p \<and> sc_created_at p \<le> e \<and>
       sc_moderation p = ''approved'') ps"

text \<open>Gift rows are pairs of post and sender; the engine counts the different senders.\<close>

definition gifters :: "nat \<Rightarrow> (nat \<times> nat) list \<Rightarrow> int" where
  "gifters rid gifts = int (length (remdups (map snd (filter (\<lambda>g. fst g = rid) gifts))))"

definition add_counts :: "counts_of_engagement \<Rightarrow> counts_of_engagement \<Rightarrow> counts_of_engagement" where
  "add_counts a b =
     \<lparr>n_likes = n_likes a + n_likes b, n_comments = n_comments a + n_comments b, n_shares = n_shares a + n_shares b,
      n_gifts = n_gifts a + n_gifts b\<rparr>"

definition no_counts :: counts_of_engagement where
  "no_counts = \<lparr>n_likes = 0, n_comments = 0, n_shares = 0, n_gifts = 0\<rparr>"

fun engagement_totals :: "(nat \<times> nat) list \<Rightarrow> 'a engage_db_scheme \<Rightarrow> scored_post list \<Rightarrow> counts_of_engagement" where
  "engagement_totals gifts db [] = no_counts"
| "engagement_totals gifts db (p # ps) =
     add_counts (reel_engagement (sp_reel p) (gifters (sp_reel p) gifts) db) (engagement_totals gifts db ps)"

section \<open>Scores\<close>

record gamification =
  spin_rewards :: int
  coin_gifts_received :: int
  login_bonus :: int
  posted_today :: bool

definition get_daily_gamification :: "nat \<Rightarrow> int \<Rightarrow> gamification" where
  "get_daily_gamification uid day = \<lparr>spin_rewards = 0, coin_gifts_received = 0, login_bonus = 0, posted_today = False\<rparr>"

record score_report =
  total_score :: rat
  rp_engagement :: rat
  rp_gamification :: rat
  rp_consistency :: rat
  rp_counts :: counts_of_engagement
  rp_days :: int

definition midnight :: "int \<Rightarrow> int" where
  "midnight day = fst (day_bounds day)"

definition calculate_daily_score ::
  "daily_settings \<Rightarrow> nat \<Rightarrow> nat \<Rightarrow> int \<Rightarrow> scored_post list \<Rightarrow> (nat \<times> nat) list \<Rightarrow> 'a engage_db_scheme \<Rightarrow> score_report" where
  "calculate_daily_score c uid camp day ps gifts db =
     (let posts = approved_between uid camp (midnight day) (midnight day + one_day) ps;
          counts = engagement_totals gifts db posts;
          engagement = weigh (d_weights c) counts;
          g = get_daily_gamification uid day;
          gam = of_int (spin_rewards g) * d_spin_reward c + of_int (coin_gifts_received g) * d_coin_gift c +
                of_int (login_bonus g) * d_login_bonus c;
          consistency = (if posts \<noteq> [] then daily_post_points c else 0)
      in \<lparr>total_score = engagement + gam + consistency, rp_engagement = engagement, rp_gamification = gam,
          rp_consistency = consistency, rp_counts = counts, rp_days = (if posts \<noteq> [] then 1 else 0)\<rparr>)"

definition week_gamification :: "weekly_settings \<Rightarrow> nat \<Rightarrow> int \<Rightarrow> rat" where
  "week_gamification c uid start =
     sum_list (map (\<lambda>k. of_int (spin_rewards (get_daily_gamification uid (start + int k))) * w_spin_reward c +
       of_int (coin_gifts_received (get_daily_gamification uid (start + int k))) * w_coin_gift c) [0..<7])"

definition week_participated :: "nat \<Rightarrow> int \<Rightarrow> int" where
  "week_participated uid start =
     int (length (filter (\<lambda>k. posted_today (get_daily_gamification uid (start + int k))) [0..<7]))"

definition streak_bonus :: "weekly_settings \<Rightarrow> int \<Rightarrow> rat" where
  "streak_bonus c days =
     (if 7 \<le> days then streak_7day c else if 5 \<le> days then streak_5day c else if 3 \<le> days then streak_3day c else 0)"

definition decay_penalty :: "weekly_settings \<Rightarrow> int \<Rightarrow> rat" where
  "decay_penalty c days = of_int (min (7 - days) (decay_max_days c)) * decay_per_missed_day c"

definition calculate_weekly_score ::
  "weekly_settings \<Rightarrow> nat \<Rightarrow> nat \<Rightarrow> int \<Rightarrow> scored_post list \<Rightarrow> (nat \<times> nat) list \<Rightarrow> 'a engage_db_scheme \<Rightarrow> score_report" where
  "calculate_weekly_score c uid camp start ps gifts db =
     (let posts = approved_between uid camp (midnight start) (midnight (start + 7)) ps;
          counts = engagement_totals gifts db posts;
          engagement = weigh (w_weights c) counts;
          days = week_participated uid start;
          gam = week_gamification c uid start + of_int days * consistency_boost c;
          score = engagement + gam + streak_bonus c days - decay_penalty c days
      in \<lparr>total_score = max 0 score, rp_engagement = engagement, rp_gamification = gam,
          rp_consistency = streak_bonus c days - decay_penalty c days, rp_counts = counts, rp_days = days\<rparr>)"

text \<open>The month a day is in: the last month that begins on or before it.\<close>

function month_from :: "int \<Rightarrow> int \<Rightarrow> int" where
  "month_from k n = (if first_ordinal (k + 1) \<le> n then month_from (k + 1) n else k)"
  by pat_completeness auto

termination month_from
proof (relation "measure (\<lambda>(k, n). nat (n + 1 - first_ordinal k))")
  fix k n :: int
  assume "first_ordinal (k + 1) \<le> n"
  then show "((k + 1, n), k, n) \<in> measure (\<lambda>(k, n). nat (n + 1 - first_ordinal k))"
    using first_ordinal_step [of k] by simp
qed simp

declare month_from.simps [simp del]

definition month_of :: "int \<Rightarrow> int" where
  "month_of n = month_from (12 * (n div 366)) n"

text \<open>From the first instant of the month to the last microsecond of its last day.\<close>

definition month_range :: "int \<Rightarrow> int \<times> int" where
  "month_range day =
     (let month_start = first_ordinal (month_of day); month_end = first_ordinal (month_of day + 1) - 1
      in (midnight month_start, midnight month_end + one_day - 1))"

text \<open>The running maximum over the sorted days.\<close>

fun streak_loop :: "int \<Rightarrow> nat \<Rightarrow> nat \<Rightarrow> int list \<Rightarrow> nat" where
  "streak_loop prev current longest [] = longest"
| "streak_loop prev current longest (d # ds) =
     (if d - prev = 1 then streak_loop d (current + 1) (max longest (current + 1)) ds
      else streak_loop d 1 longest ds)"

definition longest_run :: "int list \<Rightarrow> nat" where
  "longest_run days = (case days of [] \<Rightarrow> 0 | d # ds \<Rightarrow> streak_loop d 1 1 ds)"

definition calculate_longest_streak :: "nat \<Rightarrow> nat \<Rightarrow> int \<Rightarrow> int \<Rightarrow> scored_post list \<Rightarrow> nat" where
  "calculate_longest_streak uid camp first_day last_day ps =
     longest_run (sort (remdups (map (\<lambda>p. local_date (sc_created_at p))
       (filter (\<lambda>p. sc_user p = uid \<and> sc_campaign p = camp \<and> first_day \<le> local_date (sc_created_at p) \<and>
          local_date (sc_created_at p) \<le> last_day \<and> sc_moderation p = ''approved'') ps))))"

definition streak_multiplier :: "monthly_settings \<Rightarrow> nat \<Rightarrow> rat" where
  "streak_multiplier c n =
     (if 21 \<le> n then multiplier_21day c else if 14 \<le> n then multiplier_14day c
      else if 7 \<le> n then multiplier_7day c else 1)"

text \<open>\<open>wins\<close>: user, type of the campaign and time of every selected winner.\<close>

definition calculate_monthly_score ::
  "monthly_settings \<Rightarrow> nat \<Rightarrow> nat \<Rightarrow> int \<Rightarrow> scored_post list \<Rightarrow> (nat \<times> nat) list \<Rightarrow> (nat \<times> string \<times> int) list \<Rightarrow>
   'a engage_db_scheme \<Rightarrow> score_report" where
  "calculate_monthly_score c uid camp day ps gifts wins db =
     (let month_start = first_ordinal (month_of day);
          month_end = first_ordinal (month_of day + 1) - 1;
          (s, e) = month_range day;
          posts = approved_between uid camp s e ps;
          counts = engagement_totals gifts db posts;
          engagement = weigh (m_weights c) counts;
          high = length (filter (\<lambda>p. high_engagement_threshold c \<le> n_likes (reel_engagement (sp_reel p) 0 db)) posts);
          active_days = remdups (map (\<lambda>p. utc_date (sc_created_at p)) posts);
          base = sum_list (map (\<lambda>d. of_int (spin_rewards (get_daily_gamification uid d)) * m_spin_reward c +
                    of_int (coin_gifts_received (get_daily_gamification uid d)) * m_coin_gift c) active_days);
          gam = (if 7 \<le> length active_days then base * consistency_multiplier c else base);
          before = engagement + of_nat high * high_engagement_bonus c + gam;
          mult = streak_multiplier c (calculate_longest_streak uid camp month_start month_end ps);
          weekly_wins = length (filter (\<lambda>(u, ty, t). u = uid \<and> ty = ''weekly'' \<and> s \<le> t \<and> t \<le> e) wins)
      in \<lparr>total_score = before * mult + of_nat weekly_wins * weekly_winner_bonus c, rp_engagement = engagement,
          rp_gamification = gam, rp_consistency = before * (mult - 1), rp_counts = counts,
          rp_days = int (length active_days)\<rparr>)"

text \<open>The grand final: qualification between two dates, then judges and votes.\<close>

definition qualification_period :: "int option \<Rightarrow> int option \<Rightarrow> int \<Rightarrow> int \<times> int" where
  "qualification_period start voting t =
     (case (start, voting) of
        (Some s, Some v) \<Rightarrow> (s, v)
      | (Some s, None) \<Rightarrow> (s, t)
      | (None, _) \<Rightarrow> (t - 30 * one_day, t))"

definition calculate_grand_qualification_score ::
  "grand_settings \<Rightarrow> nat \<Rightarrow> nat \<Rightarrow> int option \<Rightarrow> int option \<Rightarrow> scored_post list \<Rightarrow> (nat \<times> nat) list \<Rightarrow> 'a engage_db_scheme \<Rightarrow>
   rat \<times> counts_of_engagement \<times> nat" where
  "calculate_grand_qualification_score c uid camp start voting ps gifts db =
     (let (s, e) = qualification_period start voting (now db);
          posts = approved_between uid camp s e ps;
          counts = engagement_totals gifts db posts
      in (weigh (q_weights c) counts, counts, length posts))"

record judge_scores =
  creativity :: rat
  quality :: rat
  theme :: rat
  impact :: rat

definition judge_normalized :: "grand_settings \<Rightarrow> judge_scores \<Rightarrow> rat" where
  "judge_normalized c j =
     (let most = creativity_max c + quality_max c + theme_max c + impact_max c
      in if 0 < most then (creativity j + quality j + theme j + impact j) / most * 100 else 0)"

definition vote_normalized :: "int \<Rightarrow> rat" where
  "vote_normalized votes = min 100 (of_int votes / 1000 * 100)"

definition calculate_grand_final_score :: "grand_settings \<Rightarrow> judge_scores \<Rightarrow> int \<Rightarrow> rat" where
  "calculate_grand_final_score c j votes = judge_normalized c j * judging_weight c + vote_normalized votes * voting_weight c"

section \<open>Standings\<close>

record standing =
  sd_user :: nat
  sd_counts :: counts_of_engagement
  sd_posts :: int
  sd_score :: rat

definition all_actions :: "counts_of_engagement \<Rightarrow> int" where
  "all_actions c = n_likes c + n_comments c + n_shares c + n_gifts c"

definition rank_key :: "standing \<Rightarrow> rat \<times> int \<times> int" where
  "rank_key r = (- sd_score r, - all_actions (sd_counts r), int (sd_user r))"

definition rank_rows :: "standing list \<Rightarrow> (nat \<times> standing) list" where
  "rank_rows rows = zip [1..<Suc (length rows)] (sort_key rank_key rows)"

text \<open>\<open>values('reel_id').annotate(n=Count('id'))\<close>: one row for each post that has any.\<close>

definition grouped :: "nat list \<Rightarrow> (nat \<times> int) list" where
  "grouped rids = map (\<lambda>r. (r, int (count_list rids r))) (remdups rids)"

definition add_rows :: "(nat \<times> nat) list \<Rightarrow> (nat \<times> int) list \<Rightarrow> nat \<Rightarrow> int" where
  "add_rows reel_to_user rows =
     fold (\<lambda>(rid, n) tot. case map_of reel_to_user rid of None \<Rightarrow> tot | Some u \<Rightarrow> tot(u := tot u + n)) rows (\<lambda>_. 0)"

definition campaign_participant_totals ::
  "engagement_weights \<Rightarrow> (nat \<times> nat) list \<Rightarrow> (nat \<times> nat) list \<Rightarrow> 'a engage_db_scheme \<Rightarrow> (nat \<times> standing) list" where
  "campaign_participant_totals w reel_to_user gifts db =
     (if reel_to_user = [] then []
      else (let rids = map fst reel_to_user;
                posts = fold (\<lambda>u tot. tot(u := tot u + 1)) (map snd reel_to_user) (\<lambda>_. 0 :: int);
                likes = add_rows reel_to_user (grouped (filter (\<lambda>r. r \<in> set rids) (map snd (vote_rows db))));
                comments = add_rows reel_to_user
                  (grouped (filter (\<lambda>r. r \<in> set rids) (map cm_reel (filter (\<lambda>c. \<not> cm_deleted c) (comment_rows db)))));
                given = add_rows reel_to_user (grouped (filter (\<lambda>r. r \<in> set rids) (map fst gifts)));
                shares = add_rows reel_to_user (map (\<lambda>r. (r, max 0 (shares_of r db))) rids)
            in rank_rows (map (\<lambda>u.
                 let c = \<lparr>n_likes = likes u, n_comments = comments u, n_shares = shares u, n_gifts = given u\<rparr>
                 in \<lparr>sd_user = u, sd_counts = c, sd_posts = posts u, sd_score = weigh w c\<rparr>)
               (remdups (map snd reel_to_user)))))"

text \<open>The reference: what one post earned, summed over the posts of a participant.\<close>

definition own_reels :: "(nat \<times> nat) list \<Rightarrow> nat \<Rightarrow> nat list" where
  "own_reels reel_to_user u = map fst (filter (\<lambda>p. snd p = u) reel_to_user)"

definition post_engagement :: "(nat \<times> nat) list \<Rightarrow> 'a engage_db_scheme \<Rightarrow> nat \<Rightarrow> counts_of_engagement" where
  "post_engagement gifts db r = reel_engagement r (int (length (filter (\<lambda>g. fst g = r) gifts))) db"

definition participant_counts :: "(nat \<times> nat) list \<Rightarrow> (nat \<times> nat) list \<Rightarrow> 'a engage_db_scheme \<Rightarrow> nat \<Rightarrow> counts_of_engagement" where
  "participant_counts reel_to_user gifts db u =
     foldr (\<lambda>r. add_counts (post_engagement gifts db r)) (own_reels reel_to_user u) no_counts"

section \<open>The month of a day\<close>

lemma month_from_spec:
  assumes "first_ordinal k \<le> n"
  shows "first_ordinal (month_from k n) \<le> n \<and> n < first_ordinal (month_from k n + 1)"
  using assms by (induction k n rule: month_from.induct) (metis linorder_not_le month_from.simps)

lemma month_guess: "1 \<le> n \<Longrightarrow> first_ordinal (12 * (n div 366)) \<le> n"
proof -
  assume "1 \<le> n"
  define q where "q = n div 366"
  have q: "366 * q \<le> n" "0 \<le> q" using \<open>1 \<le> n\<close> by (auto simp: q_def pos_imp_zdiv_nonneg_iff)
  have "(12 * q - 1) div 12 = q - 1" "(12 * q - 1) mod 12 = 11" by presburger+
  then have "first_ordinal (12 * q) \<le> days_before_year (q - 1) + 336"
    by (simp add: first_ordinal_def days_before_month_def)
  moreover have "days_before_year (q - 1) + 336 \<le> max 1 (366 * q)"
  proof (cases "q < 2")
    case True
    then have "q = 0 \<or> q = 1" using q by linarith
    then show ?thesis by (auto simp: days_before_year_def)
  next
    case False
    then have "(q - 2) div 4 \<le> q - 2" "(q - 2) div 400 \<le> (q - 2) div 100"
      by (auto simp: zdiv_mono2 intro: order_trans [OF zdiv_mono2 [of "q - 2" 1 4]])
    then show ?thesis using False by (simp add: days_before_year_def)
  qed
  ultimately show ?thesis using q \<open>1 \<le> n\<close> by (simp add: q_def)
qed

lemma month_of_spec: "1 \<le> n \<Longrightarrow> first_ordinal (month_of n) \<le> n \<and> n < first_ordinal (month_of n + 1)"
  unfolding month_of_def by (rule month_from_spec) (rule month_guess)

lemma month_of_eq_iff:
  assumes "1 \<le> n"
  shows "month_of n = k \<longleftrightarrow> first_ordinal k \<le> n \<and> n < first_ordinal (k + 1)"
proof
  assume r: "first_ordinal k \<le> n \<and> n < first_ordinal (k + 1)"
  note s = month_of_spec [OF assms]
  have "\<not> month_of n + 1 \<le> k" using first_ordinal_mono [of "month_of n + 1" k] r s by linarith
  moreover have "\<not> k + 1 \<le> month_of n" using first_ordinal_mono [of "k + 1" "month_of n"] r s by linarith
  ultimately show "month_of n = k" by linarith
qed (use month_of_spec [OF assms] in auto)

lemma from_midnight: "midnight d \<le> t \<longleftrightarrow> d \<le> local_date t"
proof -
  define x where "x = t + utc_offset"
  have "d \<le> x div 86400000000 \<longleftrightarrow> d * 86400000000 \<le> x"
    using div_mult_mod_eq [of x 86400000000] pos_mod_bound [of 86400000000 x] pos_mod_sign [of 86400000000 x] by linarith
  then show ?thesis by (auto simp: midnight_def day_bounds_def local_date_def x_def one_day_def one_hour_def)
qed

lemma before_midnight: "t < midnight d \<longleftrightarrow> local_date t < d"
  using from_midnight [of d t] by linarith

lemma in_month_range:
  assumes "1 \<le> day" "1 \<le> local_date t"
  shows "fst (month_range day) \<le> t \<and> t \<le> snd (month_range day) \<longleftrightarrow> month_of (local_date t) = month_of day"
proof -
  have "t \<le> snd (month_range day) \<longleftrightarrow> t < midnight (first_ordinal (month_of day + 1))"
    by (auto simp: month_range_def Let_def midnight_def day_bounds_def algebra_simps)
  then show ?thesis
    using month_of_eq_iff [OF assms(2), of "month_of day"] from_midnight [of _ t] before_midnight [of t]
    by (auto simp: month_range_def Let_def)
qed

section \<open>Streaks\<close>

text \<open>Whether \<open>k\<close> days in a row end a run that has reached \<open>current\<close> days on the day \<open>prev\<close>, or lie among later days.\<close>

definition runs :: "int set \<Rightarrow> nat \<Rightarrow> bool" where
  "runs D k \<longleftrightarrow> (\<exists>d. {d..<d + int k} \<subseteq> D)"

lemma runs_zero [simp]: "runs D 0"
  by (simp add: runs_def)

lemma runs_mono: "runs D k \<Longrightarrow> j \<le> k \<Longrightarrow> runs D j"
  by (fastforce simp: runs_def)

lemma runs_cut:
  assumes "\<forall>x\<in>A. x < d" "\<forall>x\<in>B. d < x"
  shows "runs (A \<union> B) k \<longleftrightarrow> runs A k \<or> runs B k"
proof
  assume "runs (A \<union> B) k"
  then obtain e where e: "{e..<e + int k} \<subseteq> A \<union> B" by (auto simp: runs_def)
  have "d \<notin> A \<union> B" using assms by auto
  then have "d \<notin> {e..<e + int k}" using e by blast
  then have "(\<forall>x\<in>{e..<e + int k}. x < d) \<or> (\<forall>x\<in>{e..<e + int k}. d < x)" by auto
  then show "runs A k \<or> runs B k"
  proof
    assume "\<forall>x\<in>{e..<e + int k}. x < d"
    then have "{e..<e + int k} \<subseteq> A" using e assms(2) by fastforce
    then show ?thesis by (auto simp: runs_def)
  next
    assume "\<forall>x\<in>{e..<e + int k}. d < x"
    then have "{e..<e + int k} \<subseteq> B" using e assms(1) by fastforce
    then show ?thesis by (auto simp: runs_def)
  qed
qed (auto simp: runs_def)

lemma runs_interval: "runs {prev + 1 - int c..prev} k \<longleftrightarrow> k \<le> c"
proof
  assume "runs {prev + 1 - int c..prev} k"
  then obtain d where d: "{d..<d + int k} \<subseteq> {prev + 1 - int c..prev}" by (auto simp: runs_def)
  then have "card {d..<d + int k} \<le> card {prev + 1 - int c..prev}" by (intro card_mono) auto
  then show "k \<le> c" by simp
next
  assume "k \<le> c"
  then have "{prev + 1 - int k..<prev + 1 - int k + int k} \<subseteq> {prev + 1 - int c..prev}" by auto
  then show "runs {prev + 1 - int c..prev} k" unfolding runs_def by blast
qed

lemma streak_loop_spec:
  assumes "sorted_wrt (<) (prev # ds)" "1 \<le> current" "current \<le> longest"
  shows "k \<le> streak_loop prev current longest ds \<longleftrightarrow> k \<le> longest \<or> runs ({prev + 1 - int current..prev} \<union> set ds) k"
  using assms
proof (induction prev current longest ds rule: streak_loop.induct)
  case (1 prev current longest)
  then show ?case by (auto simp: runs_interval)
next
  case (2 prev current longest d ds)
  show ?case
  proof (cases "d - prev = 1")
    case True
    let ?A = "{d + 1 - int (current + 1)..d} \<union> set ds"
    have A: "{prev + 1 - int current..prev} \<union> set (d # ds) = ?A" using True 2(4) by auto
    have "runs {d + 1 - int (current + 1)..d} (current + 1)" by (simp only: runs_interval)
    then have "runs ?A (current + 1)" by (fastforce simp: runs_def)
    then have "k \<le> current + 1 \<Longrightarrow> runs ?A k" by (rule runs_mono)
    moreover have "k \<le> streak_loop d (current + 1) (max longest (current + 1)) ds \<longleftrightarrow> k \<le> max longest (current + 1) \<or> runs ?A k"
      using 2 True by auto
    ultimately show ?thesis unfolding A using True by (auto simp: le_max_iff_disj)
  next
    case False
    have "runs ({prev + 1 - int current..prev} \<union> set (d # ds)) k \<longleftrightarrow> k \<le> current \<or> runs (set (d # ds)) k"
      using runs_cut [of "{prev + 1 - int current..prev}" "prev + 1" "set (d # ds)"] 2(3) False
      by (fastforce simp: runs_interval)
    moreover have "k \<le> streak_loop d 1 longest ds \<longleftrightarrow> k \<le> longest \<or> runs (set (d # ds)) k"
      using 2 False by auto
    ultimately show ?thesis using False 2(5) by auto
  qed
qed

lemma longest_run_spec:
  assumes "sorted_wrt (<) days"
  shows "k \<le> longest_run days \<longleftrightarrow> runs (set days) k"
proof (cases days)
  case Nil
  then show ?thesis by (auto simp: longest_run_def runs_def)
next
  case (Cons d ds)
  have "runs {d} 1" using runs_interval [of d 1 1] by simp
  then have "k \<le> 1 \<Longrightarrow> runs (set days) k" unfolding Cons by (intro runs_mono [of _ 1 k]) (auto simp: runs_def)
  then show ?thesis using streak_loop_spec [of d ds 1 1 k] assms by (auto simp: longest_run_def Cons)
qed

definition posting_days :: "nat \<Rightarrow> nat \<Rightarrow> int \<Rightarrow> int \<Rightarrow> scored_post list \<Rightarrow> int set" where
  "posting_days uid camp first_day last_day ps =
     {local_date (sc_created_at p) |p. p \<in> set ps \<and> sc_user p = uid \<and> sc_campaign p = camp \<and>
        sc_moderation p = ''approved''} \<inter> {first_day..last_day}"

text \<open>
  C26. The streak that multiplies a monthly score is the longest one there is: the loop returns at least \<open>k\<close> exactly
  when the participant has approved posts on \<open>k\<close> days in a row within the period.
\<close>

theorem streak_is_longest:
  "k \<le> calculate_longest_streak uid camp first_day last_day ps \<longleftrightarrow>
     (\<exists>d. {d..<d + int k} \<subseteq> posting_days uid camp first_day last_day ps)"
proof -
  let ?l = "sort (remdups (map (\<lambda>p. local_date (sc_created_at p))
       (filter (\<lambda>p. sc_user p = uid \<and> sc_campaign p = camp \<and> first_day \<le> local_date (sc_created_at p) \<and>
          local_date (sc_created_at p) \<le> last_day \<and> sc_moderation p = ''approved'') ps)))"
  have "sorted_wrt (<) ?l" by (simp add: strict_sorted_iff)
  moreover have "set ?l = posting_days uid camp first_day last_day ps" by (auto simp: posting_days_def)
  ultimately show ?thesis using longest_run_spec [of ?l k] by (simp add: calculate_longest_streak_def runs_def)
qed

section \<open>The ranking\<close>

definition precedes :: "standing \<Rightarrow> standing \<Rightarrow> bool" where
  "precedes a b \<longleftrightarrow>
     sd_score b < sd_score a \<or> sd_score a = sd_score b \<and>
       (all_actions (sd_counts b) < all_actions (sd_counts a) \<or> all_actions (sd_counts a) = all_actions (sd_counts b) \<and>
          sd_user a < sd_user b)"

lemma rank_key_less: "rank_key a < rank_key b \<longleftrightarrow> precedes a b"
  by (auto simp: rank_key_def precedes_def less_prod_def)

lemma rank_key_inj: "distinct (map sd_user rows) \<Longrightarrow> inj_on rank_key (set rows)"
  by (auto simp: rank_key_def inj_on_def distinct_map)

lemma rank_rows_ranks: "map fst (rank_rows rows) = [1..<Suc (length rows)]"
  unfolding rank_rows_def by (rule map_fst_zip) (simp del: upt_Suc)

lemma rank_rows_all: "mset (map snd (rank_rows rows)) = mset rows"
proof -
  have "map snd (rank_rows rows) = sort_key rank_key rows" unfolding rank_rows_def by (rule map_snd_zip) (simp del: upt_Suc)
  then show ?thesis by simp
qed

lemma rank_rows_order:
  assumes "distinct (map sd_user rows)"
  shows "sorted_wrt precedes (map snd (rank_rows rows))"
proof -
  let ?s = "sort_key rank_key rows"
  have "distinct (map rank_key ?s)" using assms rank_key_inj [OF assms] by (simp add: distinct_map)
  then have "sorted_wrt (<) (map rank_key ?s)" by (simp add: strict_sorted_iff)
  then have "sorted_wrt precedes ?s" by (simp add: sorted_wrt_map rank_key_less)
  then show ?thesis by (simp add: rank_rows_def)
qed

lemma rank_rows_perm:
  assumes "distinct (map sd_user rows)" "mset rows' = mset rows"
  shows "rank_rows rows' = rank_rows rows"
proof -
  have "mset (map sd_user rows') = mset (map sd_user rows)" using assms(2) by simp
  then have d: "distinct (map sd_user rows')"
    using assms(1) by (metis card_distinct distinct_card mset_eq_length mset_eq_setD)
  have "set rows' = set rows" "length rows' = length rows" using assms(2) by (auto dest: mset_eq_setD mset_eq_length)
  moreover from this have "sort_key rank_key rows' = sort_key rank_key rows"
    using rank_key_inj [OF assms(1)] assms(1) d
    by (intro map_sorted_distinct_set_unique [of rank_key]) (auto simp: distinct_map)
  ultimately show ?thesis by (simp add: rank_rows_def)
qed

text \<open>
  C24. The ranking rewards the score and nothing else: participants stand by score, equal scores by the number of
  actions, equal numbers by the older account; the ranks are 1, 2, 3 and so on with every participant placed once, and the order
  in which the rows were read changes nothing.
\<close>

theorem ranking_is_fair:
  assumes "distinct (map sd_user rows)" "mset rows' = mset rows"
  shows "rank_rows rows' = rank_rows rows \<and> map fst (rank_rows rows) = [1..<Suc (length rows)] \<and>
    mset (map snd (rank_rows rows)) = mset rows \<and> sorted_wrt precedes (map snd (rank_rows rows))"
  using rank_rows_perm [OF assms] rank_rows_order [OF assms(1)] rank_rows_ranks [of rows] rank_rows_all [of rows] by blast

section \<open>Totals of a participant\<close>

lemma add_rows_fold:
  "fold (\<lambda>(rid, n) tot. case map_of ru rid of None \<Rightarrow> tot | Some u \<Rightarrow> tot(u := tot u + n)) rows t u =
     t u + (\<Sum>p\<leftarrow>rows. if map_of ru (fst p) = Some u then snd p else (0::int))"
  by (induction rows arbitrary: t) (auto split: option.splits)

lemma add_rows_sum: "add_rows ru rows u = (\<Sum>p\<leftarrow>rows. if map_of ru (fst p) = Some u then snd p else 0)"
  by (simp add: add_rows_def add_rows_fold)

lemma own_reels_distinct: "distinct (map fst ru) \<Longrightarrow> distinct (own_reels ru u)"
  unfolding own_reels_def by (induction ru) auto

lemma own_reels_set: "distinct (map fst ru) \<Longrightarrow> set (own_reels ru u) = {r. map_of ru r = Some u}"
  by (force simp: own_reels_def)

lemma count_list_kept: "P r \<Longrightarrow> count_list (filter P xs) r = count_list xs r"
  by (induction xs) auto

lemma grouped_sum:
  assumes "distinct (map fst ru)"
  shows "add_rows ru (grouped (filter (\<lambda>r. r \<in> set (map fst ru)) xs)) u = (\<Sum>r\<leftarrow>own_reels ru u. int (count_list xs r))"
proof -
  let ?ys = "filter (\<lambda>r. r \<in> set (map fst ru)) xs"
  let ?f = "\<lambda>r. if map_of ru r = Some u then int (count_list ?ys r) else 0"
  have "add_rows ru (grouped ?ys) u = (\<Sum>r\<leftarrow>remdups ?ys. ?f r)"
    unfolding add_rows_sum grouped_def map_map o_def fst_conv snd_conv ..
  also have "\<dots> = (\<Sum>r\<in>set ?ys. ?f r)" by (simp add: sum_list_distinct_conv_sum_set)
  also have "\<dots> = (\<Sum>r\<in>set ?ys \<union> {r. map_of ru r = Some u}. ?f r)"
    by (rule sum.mono_neutral_left) (auto simp: count_list_0_iff simp flip: own_reels_set [OF assms])
  also have "\<dots> = (\<Sum>r\<in>{r. map_of ru r = Some u}. ?f r)"
    by (rule sum.mono_neutral_right) (auto intro: rev_finite_subset [of "set (own_reels ru u)"] simp: own_reels_set [OF assms])
  also have "\<dots> = (\<Sum>r\<in>set (own_reels ru u). int (count_list xs r))"
    unfolding own_reels_set [OF assms] by (rule sum.cong) (auto simp: map_of_eq_Some_iff [OF assms] intro!: count_list_kept rev_image_eqI)
  finally show ?thesis by (simp add: sum_list_distinct_conv_sum_set own_reels_distinct [OF assms])
qed

lemma shares_sum:
  assumes "distinct (map fst ru)"
  shows "add_rows ru (map (\<lambda>r. (r, g r)) (map fst ru)) u = (\<Sum>r\<leftarrow>own_reels ru u. g r)"
proof -
  have "add_rows ru (map (\<lambda>r. (r, g r)) (map fst ru)) u = (\<Sum>p\<leftarrow>ru. if snd p = u then g (fst p) else 0)"
    unfolding add_rows_sum map_map by (rule arg_cong [where f = sum_list]) (auto simp: map_of_eq_Some_iff [OF assms] dest: eq_key_imp_eq_value [OF assms])
  also have "\<dots> = (\<Sum>r\<leftarrow>own_reels ru u. g r)" unfolding own_reels_def by (induction ru) auto
  finally show ?thesis .
qed

lemma posts_sum: "fold (\<lambda>u tot. tot(u := tot u + 1)) us t u = t u + int (count_list us u)"
  by (induction us arbitrary: t) auto

lemma own_reels_count: "count_list (map snd ru) u = length (own_reels ru u)"
  unfolding own_reels_def by (induction ru) auto

lemma participant_counts_fields:
  "participant_counts ru gifts db u =
     \<lparr>n_likes = (\<Sum>r\<leftarrow>own_reels ru u. int (count_list (map snd (vote_rows db)) r)),
      n_comments = (\<Sum>r\<leftarrow>own_reels ru u. int (count_list (map cm_reel (filter (\<lambda>c. \<not> cm_deleted c) (comment_rows db))) r)),
      n_shares = (\<Sum>r\<leftarrow>own_reels ru u. max 0 (shares_of r db)),
      n_gifts = (\<Sum>r\<leftarrow>own_reels ru u. int (count_list (map fst gifts) r))\<rparr>"
  unfolding participant_counts_def
  by (rule list.induct [of _ "own_reels ru u"])
     (auto simp: no_counts_def add_counts_def post_engagement_def reel_engagement_def count_list_eq_length_filter filter_map o_def
        intro!: arg_cong [where f = length] filter_cong)

definition participant_standing ::
  "engagement_weights \<Rightarrow> (nat \<times> nat) list \<Rightarrow> (nat \<times> nat) list \<Rightarrow> 'a engage_db_scheme \<Rightarrow> nat \<Rightarrow> standing" where
  "participant_standing w reel_to_user gifts db u =
     \<lparr>sd_user = u, sd_counts = participant_counts reel_to_user gifts db u,
      sd_posts = int (length (own_reels reel_to_user u)), sd_score = weigh w (participant_counts reel_to_user gifts db u)\<rparr>"

text \<open>
  C25. The grouped queries of the leaderboard count what a walk over the posts would: every participant stands with the
  sum, over the participant's own posts, of the likes, the comments that are not deleted, the shares and the gifts of the post;
  the separate queries neither multiply nor lose a row.
\<close>

theorem totals_are_sums:
  assumes "distinct (map fst reel_to_user)"
  shows "campaign_participant_totals w reel_to_user gifts db =
    rank_rows (map (participant_standing w reel_to_user gifts db) (remdups (map snd reel_to_user)))"
proof (cases "reel_to_user = []")
  case True
  then show ?thesis by (simp add: campaign_participant_totals_def rank_rows_def)
next
  case False
  then show ?thesis
    unfolding campaign_participant_totals_def Let_def
    by (simp only: False if_False grouped_sum [OF assms] shares_sum [OF assms] posts_sum own_reels_count
        participant_standing_def [abs_def] participant_counts_fields add_0)
qed

section \<open>Periods of the scores\<close>

text \<open>
  The monthly score takes exactly the approved posts of the calendar month: a post counts for the month of a
  day if and only if its local date lies in the same month, so no post counts for two months or for none.
\<close>

theorem month_posts_exact:
  assumes "1 \<le> day" "list_all (\<lambda>p. 1 \<le> local_date (sc_created_at p)) ps"
  shows "approved_between uid camp (fst (month_range day)) (snd (month_range day)) ps =
    filter (\<lambda>p. sc_user p = uid \<and> sc_campaign p = camp \<and> month_of (local_date (sc_created_at p)) = month_of day \<and>
      sc_moderation p = ''approved'') ps"
  unfolding approved_between_def using assms in_month_range [OF assms(1)]
  by (intro filter_cong) (auto simp: list_all_iff)

lemma midnight_post_scores_twice:
  assumes "p \<in> set ps" "sc_created_at p = midnight (d + 1)" "sc_moderation p = ''approved''"
  shows "p \<in> set (approved_between (sc_user p) (sc_campaign p) (midnight d) (midnight d + one_day) ps) \<and>
    p \<in> set (approved_between (sc_user p) (sc_campaign p) (midnight (d + 1)) (midnight (d + 1) + one_day) ps)"
  using assms by (auto simp: approved_between_def midnight_def day_bounds_def algebra_simps one_day_def one_hour_def)

lemma week_participated_zero [simp]: "week_participated uid start = 0"
  by (simp add: week_participated_def get_daily_gamification_def)

lemma week_gamification_zero [simp]: "week_gamification c uid start = 0"
  by (simp add: week_gamification_def get_daily_gamification_def)

lemma weekly_streak_never_paid:
  "total_score (calculate_weekly_score c uid camp start ps gifts db) =
     max 0 (rp_engagement (calculate_weekly_score c uid camp start ps gifts db) -
       of_int (min 7 (decay_max_days c)) * decay_per_missed_day c)"
  by (simp add: calculate_weekly_score_def Let_def streak_bonus_def decay_penalty_def)

lemma weigh_nonneg:
  assumes "0 \<le> likes_weight w" "0 \<le> comments_weight w" "0 \<le> shares_weight w" "0 \<le> gifts_weight w"
    "0 \<le> n_likes c" "0 \<le> n_comments c" "0 \<le> n_shares c" "0 \<le> n_gifts c"
  shows "0 \<le> weigh w c"
  using assms by (simp add: weigh_def)

lemma final_score_bounds:
  assumes "0 \<le> creativity j" "creativity j \<le> creativity_max c" "0 \<le> quality j" "quality j \<le> quality_max c"
    "0 \<le> theme j" "theme j \<le> theme_max c" "0 \<le> impact j" "impact j \<le> impact_max c"
    "0 \<le> votes" "0 \<le> judging_weight c" "0 \<le> voting_weight c" "judging_weight c + voting_weight c = 1"
  shows "0 \<le> calculate_grand_final_score c j votes \<and> calculate_grand_final_score c j votes \<le> 100"
proof -
  have j: "0 \<le> judge_normalized c j" "judge_normalized c j \<le> 100"
    using assms(1-8) by (auto simp: judge_normalized_def Let_def field_simps)
  have v: "0 \<le> vote_normalized votes" "vote_normalized votes \<le> 100"
    using assms(9) by (auto simp: vote_normalized_def)
  have "judge_normalized c j * judging_weight c \<le> 100 * judging_weight c"
    "vote_normalized votes * voting_weight c \<le> 100 * voting_weight c"
    using j v assms(10,11) by (auto intro: mult_right_mono)
  moreover have "0 \<le> judge_normalized c j * judging_weight c" "0 \<le> vote_normalized votes * voting_weight c"
    using j v assms(10,11) by auto
  ultimately show ?thesis using assms(12) unfolding calculate_grand_final_score_def by linarith
qed

section \<open>Witnesses\<close>

definition row_of :: "nat \<Rightarrow> rat \<Rightarrow> int \<Rightarrow> standing" where
  "row_of u s n = \<lparr>sd_user = u, sd_counts = no_counts\<lparr>n_likes := n\<rparr>, sd_posts = 1, sd_score = s\<rparr>"

theorem ranking_is_fair_witness:
  "rank_rows [row_of 3 5 2, row_of 1 5 2, row_of 2 5 4] = rank_rows [row_of 1 5 2, row_of 2 5 4, row_of 3 5 2] \<and>
   map (sd_user \<circ> snd) (rank_rows [row_of 1 5 2, row_of 2 5 4, row_of 3 5 2]) = [2, 1, 3]"
proof -
  have "rank_rows [row_of 3 5 2, row_of 1 5 2, row_of 2 5 4] = rank_rows [row_of 1 5 2, row_of 2 5 4, row_of 3 5 2]"
    using ranking_is_fair [of "[row_of 1 5 2, row_of 2 5 4, row_of 3 5 2]" "[row_of 3 5 2, row_of 1 5 2, row_of 2 5 4]"]
    by (simp add: row_of_def)
  then show ?thesis by (simp add: rank_rows_def rank_key_def row_of_def all_actions_def no_counts_def)
qed

definition scored_engage :: engage_db where
  "scored_engage = example_engage\<lparr>vote_rows := [(1, 7), (2, 7), (2, 8)],
     comment_rows := [\<lparr>cm_user = 2, cm_reel = 7, cm_text = [], cm_deleted = True\<rparr>,
       \<lparr>cm_user = 2, cm_reel = 8, cm_text = [], cm_deleted = False\<rparr>]\<rparr>"

theorem totals_are_sums_witness:
  "map (\<lambda>(k, s). (k, sd_user s, sd_posts s, n_likes (sd_counts s), n_comments (sd_counts s)))
     (campaign_participant_totals platform_weights [(7, 1), (8, 2)] [] scored_engage) = [(1, 2, 1, 1, 1), (2, 1, 1, 2, 0)]"
proof -
  have "campaign_participant_totals platform_weights [(7, 1), (8, 2)] [] scored_engage =
    rank_rows (map (participant_standing platform_weights [(7, 1), (8, 2)] [] scored_engage) [1, 2])"
    using totals_are_sums [of "[(7, 1), (8, 2)]" platform_weights "[]" scored_engage] by simp
  then show ?thesis
    by (simp add: rank_rows_def rank_key_def participant_standing_def participant_counts_fields own_reels_def all_actions_def
        weigh_def platform_weights_def scored_engage_def shares_of_def example_engage_def)
qed

theorem month_posts_exact_witness:
  "approved_between 1 2 (fst (month_range 738000)) (snd (month_range 738000))
     [\<lparr>sc_user = 1, sc_campaign = 2, sc_created_at = midnight 738000 + 5, sc_moderation = ''approved'', sp_reel = 9\<rparr>] \<noteq> []"
proof -
  have "local_date (midnight 738000 + 5) = 738000"
    by (simp add: local_date_def midnight_def day_bounds_def one_day_def one_hour_def)
  then show ?thesis
    using month_posts_exact [of 738000 "[\<lparr>sc_user = 1, sc_campaign = 2, sc_created_at = midnight 738000 + 5,
      sc_moderation = ''approved'', sp_reel = 9\<rparr>]" 1 2] by simp
qed

end
