(* ===== verification/Prizes.thy ===== *)
theory Prizes
  imports Subscription
begin

text \<open>
  Prizes: what each tier pays (\<open>api/services/prize_structure.py\<close>), awarding and delivering
  (\<open>api/services/prize_delivery.py\<close> with \<open>WinnerGiftTransaction\<close> of \<open>api/models/gift.py\<close>), the scheduled run
  (\<open>api/tasks/prizes.py\<close>) and the winner-gift part of the B2C callback (\<open>api/views/direct_debit.py\<close>). The CRM
  and telebirr are outside the repository: an attempt carries the answer it got. Amounts are whole birr or
  megabytes. A prize is identified by its position in the table.
\<close>

section \<open>The prize structure\<close>

definition CRM :: string where "CRM = ''crm''"
definition TELEBIRR :: string where "TELEBIRR = ''telebirr_b2c''"
definition ONE_GB_IN_MB :: int where "ONE_GB_IN_MB = 1024"

record prize_tier =
  pt_tier :: string
  winner_count :: nat
  gift_type :: string
  channel :: string
  pt_amount :: int
  pt_description :: string
  delivery_days :: "int option"
  requires_phone_contact :: bool

definition is_cash :: "prize_tier \<Rightarrow> bool" where
  "is_cash p \<longleftrightarrow> gift_type p = ''cash''"

definition deadline_from :: "prize_tier \<Rightarrow> int option \<Rightarrow> int option" where
  "deadline_from p ended =
     (case (delivery_days p, ended) of (Some d, Some t) \<Rightarrow> Some (t + d * one_day) | _ \<Rightarrow> None)"

definition PRIZES :: "(string \<times> prize_tier) list" where
  "PRIZES =
     [(''daily'', \<lparr>pt_tier = ''daily'', winner_count = 20, gift_type = ''data'', channel = CRM, pt_amount = ONE_GB_IN_MB,
        pt_description = ''1 GB weekly data package'', delivery_days = Some 1, requires_phone_contact = False\<rparr>),
      (''weekly'', \<lparr>pt_tier = ''weekly'', winner_count = 10, gift_type = ''cash'', channel = TELEBIRR, pt_amount = 1000,
        pt_description = ''1,000 ETB via Telebirr'', delivery_days = Some 10, requires_phone_contact = False\<rparr>),
      (''monthly'', \<lparr>pt_tier = ''monthly'', winner_count = 5, gift_type = ''cash'', channel = TELEBIRR, pt_amount = 5000,
        pt_description = ''5,000 ETB via Telebirr'', delivery_days = Some 10, requires_phone_contact = False\<rparr>),
      (''grand'', \<lparr>pt_tier = ''grand'', winner_count = 1, gift_type = ''cash'', channel = TELEBIRR, pt_amount = 300000,
        pt_description = ''300,000 ETB via Telebirr'', delivery_days = Some 20, requires_phone_contact = True\<rparr>)]"

definition prize_for :: "string \<Rightarrow> prize_tier result" where
  "prize_for tier = of_option (ValueError (''No prize defined for competition tier: '' @ tier, [])) (map_of PRIZES tier)"

definition winner_count_for :: "string \<Rightarrow> nat result" where
  "winner_count_for tier = bind_result (prize_for tier) (\<lambda>p. Inr (winner_count p))"

definition amount_for :: "string \<Rightarrow> int result" where
  "amount_for tier = bind_result (prize_for tier) (\<lambda>p. Inr (pt_amount p))"

section \<open>Rows\<close>

datatype prize_status = P_pending | P_processing | P_success | P_failed | P_skipped

record prize =
  pz_winner :: nat
  pz_tier :: string
  pz_campaign :: "nat option"
  pz_amount :: int
  pz_method :: string
  pz_msisdn :: string
  pz_originator :: string
  pz_conversation :: string
  pz_transaction :: string
  pz_status :: prize_status
  pz_error :: string
  pz_key :: "string option"
  pz_attempts :: nat
  pz_deadline :: "int option"
  pz_delivered :: "int option"
  pz_updated :: int

record gift_package_row =
  gp_gift_type :: string
  gp_method :: string
  gp_amount :: int
  gp_active :: bool

record prize_db =
  prizes :: "prize list"
  prize_packages :: "string \<Rightarrow> gift_package_row option"
  phone_of :: "nat \<Rightarrow> string option"
  paid_by_telebirr :: "nat \<Rightarrow> bool"
  campaign_dates :: "nat \<Rightarrow> int option" \<comment> \<open>\<open>entry_deadline or start_date\<close>\<close>
  offering_id :: string
  prize_now :: int
  told :: "(nat \<times> string) list" \<comment> \<open>notifications to winners\<close>

definition is_settled :: "prize \<Rightarrow> bool" where
  "is_settled p \<longleftrightarrow> pz_status p \<in> {P_success, P_skipped}"

definition is_overdue :: "int \<Rightarrow> prize \<Rightarrow> bool" where
  "is_overdue t p \<longleftrightarrow> (case pz_deadline p of None \<Rightarrow> False | Some d \<Rightarrow> pz_status p \<noteq> P_success \<and> t > d)"

definition is_owed :: "prize \<Rightarrow> bool" where
  "is_owed p \<longleftrightarrow> pz_status p \<noteq> P_success"

definition set_prize :: "nat \<Rightarrow> (prize \<Rightarrow> prize) \<Rightarrow> prize_db \<Rightarrow> prize_db" where
  "set_prize i f db =
     (if i < length (prizes db) then db\<lparr>prizes := (prizes db)[i := (f (prizes db ! i))\<lparr>pz_updated := prize_now db\<rparr>]\<rparr> else db)"

definition mark_skipped :: "string \<Rightarrow> nat \<Rightarrow> prize_db \<Rightarrow> prize_db" where
  "mark_skipped reason i = set_prize i (\<lambda>p. p\<lparr>pz_status := P_skipped, pz_error := reason\<rparr>)"

definition mark_failed :: "string \<Rightarrow> nat \<Rightarrow> prize_db \<Rightarrow> prize_db" where
  "mark_failed reason i = set_prize i (\<lambda>p. p\<lparr>pz_status := P_failed, pz_error := reason\<rparr>)"

definition mark_success :: "string \<Rightarrow> nat \<Rightarrow> prize_db \<Rightarrow> prize_db" where
  "mark_success txid i db =
     (let was = (i < length (prizes db) \<and> pz_status (prizes db ! i) = P_success);
          db1 = set_prize i (\<lambda>p. p\<lparr>pz_status := P_success, pz_transaction := (if txid \<noteq> [] then txid else pz_transaction p),
            pz_delivered := Some (prize_now db)\<rparr>) db
      in if was \<or> length (prizes db) \<le> i then db1
         else db1\<lparr>told := told db1 @ [(pz_winner (prizes db ! i), ''prize_delivered'')]\<rparr>)"

section \<open>Awarding\<close>

definition idempotency_key :: "nat option \<Rightarrow> nat \<Rightarrow> string \<Rightarrow> string" where
  "idempotency_key camp winner tier =
     (case camp of None \<Rightarrow> ''none'' | Some c \<Rightarrow> if c = 0 then ''none'' else show_nat c) @ '':'' @ tier @ '':'' @ show_nat winner"

definition package_for :: "string \<Rightarrow> prize_db \<Rightarrow> prize_db result" where
  "package_for tier db =
     bind_result (prize_for tier) (\<lambda>p.
       Inr (db\<lparr>prize_packages := (prize_packages db)(tier \<mapsto>
         \<lparr>gp_gift_type = gift_type p, gp_method = channel p, gp_amount = pt_amount p, gp_active = True\<rparr>)\<rparr>))"

definition normalize_local_phone :: "string \<Rightarrow> string" where
  "normalize_local_phone s =
     (let n = filter (\<lambda>c. c \<notin> set '' -+'') s
      in if startswith ''251'' n then ''0'' @ drop 3 n
         else if \<not> startswith ''0'' n then ''0'' @ n else n)"

definition winner_msisdn :: "nat \<Rightarrow> prize_db \<Rightarrow> string" where
  "winner_msisdn w db = (case phone_of db w of None \<Rightarrow> [] | Some s \<Rightarrow> if s = [] then [] else normalize_local_phone s)"

definition campaign_close :: "nat option \<Rightarrow> prize_db \<Rightarrow> int" where
  "campaign_close camp db =
     (case camp of None \<Rightarrow> prize_now db | Some c \<Rightarrow> (case campaign_dates db c of None \<Rightarrow> prize_now db | Some t \<Rightarrow> t))"

definition new_prize :: "nat option \<Rightarrow> nat \<Rightarrow> string \<Rightarrow> prize_tier \<Rightarrow> int option \<Rightarrow> prize_db \<Rightarrow> prize" where
  "new_prize camp winner tier spec ended db =
     \<lparr>pz_winner = winner, pz_tier = tier, pz_campaign = camp, pz_amount = pt_amount spec, pz_method = channel spec,
      pz_msisdn = winner_msisdn winner db, pz_originator = [], pz_conversation = [], pz_transaction = [], pz_status = P_pending,
      pz_error = [], pz_key = Some (idempotency_key camp winner tier), pz_attempts = 0,
      pz_deadline = deadline_from spec (Some (case ended of Some t \<Rightarrow> t | None \<Rightarrow> campaign_close camp db)),
      pz_delivered = None, pz_updated = prize_now db\<rparr>"

definition award :: "nat option \<Rightarrow> nat \<Rightarrow> string \<Rightarrow> int option \<Rightarrow> prize_db \<Rightarrow> (nat \<times> bool \<times> prize_db) result" where
  "award camp winner tier ended db =
     bind_result (prize_for tier) (\<lambda>spec.
       case find_index (\<lambda>p. pz_key p = Some (idempotency_key camp winner tier)) (prizes db) of
         Some i \<Rightarrow> Inr (i, False, db)
       | None \<Rightarrow>
           bind_result (package_for tier db) (\<lambda>db1.
             Inr (length (prizes db), True,
               db1\<lparr>prizes := prizes db @ [new_prize camp winner tier spec ended db], told := told db1 @ [(winner, ''prize_won'')]\<rparr>)))"

fun award_each :: "nat option \<Rightarrow> nat list \<Rightarrow> string \<Rightarrow> int option \<Rightarrow> prize_db \<Rightarrow> (nat list \<times> prize_db) result" where
  "award_each camp [] tier ended db = Inr ([], db)"
| "award_each camp (w # ws) tier ended db =
     bind_result (award camp w tier ended db) (\<lambda>(i, _, db1).
     bind_result (award_each camp ws tier ended db1) (\<lambda>(js, db2). Inr (i # js, db2)))"

definition award_all :: "nat option \<Rightarrow> nat list \<Rightarrow> string \<Rightarrow> int option \<Rightarrow> prize_db \<Rightarrow> (nat list \<times> prize_db) result" where
  "award_all camp winners tier ended db =
     bind_result (prize_for tier) (\<lambda>spec. award_each camp (take (winner_count spec) winners) tier ended db)"

section \<open>Delivering\<close>

datatype channel_answer =
    Accepted string string \<comment> \<open>the CRM provisioned (its id) or telebirr took the instruction (its two ids)\<close>
  | Refused_with string
  | Call_raised string

definition MAX_DELIVERY_ATTEMPTS :: nat where "MAX_DELIVERY_ATTEMPTS = 5"
definition STUCK_AFTER_HOURS :: int where "STUCK_AFTER_HOURS = 24"

text \<open>One of the two channels on the row as read back; the result says whether a call was made.\<close>

definition deliver_data :: "string option \<Rightarrow> channel_answer \<Rightarrow> nat \<Rightarrow> prize \<Rightarrow> prize_db \<Rightarrow> bool \<times> string \<times> bool \<times> prize_db" where
  "deliver_data offer ans i p db =
     (if pz_msisdn p = [] then (False, ''No phone number on the winner'', False, mark_failed ''No phone number on the winner'' i db)
      else if (case offer of Some o1 \<Rightarrow> o1 | None \<Rightarrow> offering_id db) = []
      then (False, ''No data package configured'', False, mark_failed ''No data package configured (DATA_PRIZE_OFFERING_ID)'' i db)
      else case ans of
        Accepted txid m \<Rightarrow> (True, if m = [] then ''Data prize provisioned'' else m, True, mark_success txid i db)
      | Refused_with m \<Rightarrow>
          (let why = (if m = [] then ''CRM provisioning failed'' else m) in (False, why, True, mark_failed why i db))
      | Call_raised e \<Rightarrow> (False, e, True, mark_failed e i db))"

definition deliver_cash :: "channel_answer \<Rightarrow> nat \<Rightarrow> prize \<Rightarrow> prize_db \<Rightarrow> bool \<times> string \<times> bool \<times> prize_db" where
  "deliver_cash ans i p db =
     (if pz_msisdn p = [] then (False, ''No phone number on the winner'', False, mark_failed ''No phone number on the winner'' i db)
      else if \<not> paid_by_telebirr db (pz_winner p)
      then (let why = ''Winner has no Telebirr account; needs paying another way'' in (False, why, False, mark_skipped why i db))
      else case ans of
        Accepted orig conv \<Rightarrow>
          (True, ''Payout initiated; awaiting Telebirr confirmation'', True,
           set_prize i (\<lambda>q. q\<lparr>pz_originator := orig, pz_conversation := conv, pz_status := P_processing\<rparr>) db)
      | Refused_with e \<Rightarrow> (False, e, True, mark_failed e i db)
      | Call_raised e \<Rightarrow> (False, e, True, mark_failed e i db))"

text \<open>\<open>loaded\<close> is the row the caller holds: the guards look at it, the writes go to the table.\<close>

definition deliver ::
  "prize \<Rightarrow> bool \<Rightarrow> string option \<Rightarrow> channel_answer \<Rightarrow> nat \<Rightarrow> prize_db \<Rightarrow> bool \<times> string \<times> bool \<times> prize_db" where
  "deliver loaded force offer ans i db =
     (if is_settled loaded \<and> \<not> force then (False, ''Prize is already settled; not delivering again'', False, db)
      else if pz_status loaded = P_processing \<and> \<not> force
      then (False, ''Delivery already in progress; awaiting confirmation'', False, db)
      else (let db1 = (if i < length (prizes db)
                  then db\<lparr>prizes := (prizes db)[i := (prizes db ! i)\<lparr>pz_attempts := pz_attempts (prizes db ! i) + 1, pz_status := P_processing\<rparr>]\<rparr>
                  else db);
                p = prizes db1 ! i
            in if pz_method p = CRM then deliver_data offer ans i p db1
               else if pz_method p = TELEBIRR then deliver_cash ans i p db1
               else (False, ''No delivery channel'', False, mark_failed ''No delivery channel'' i db1)))"

definition retry :: "prize \<Rightarrow> string option \<Rightarrow> channel_answer \<Rightarrow> nat \<Rightarrow> prize_db \<Rightarrow> bool \<times> string \<times> bool \<times> prize_db" where
  "retry loaded offer ans i db =
     (if is_settled loaded then (False, ''Prize is already settled; nothing to retry'', False, db)
      else if pz_status loaded = P_processing then (False, ''Delivery already in progress; awaiting confirmation'', False, db)
      else if MAX_DELIVERY_ATTEMPTS \<le> pz_attempts loaded then (False, ''Given up after {} attempts'', False, db)
      else deliver loaded False offer ans i db)"

text \<open>The winner-gift part of \<open>telebirr_b2c_webhook\<close>.\<close>

definition b2c_webhook_prize :: "string \<Rightarrow> bool \<Rightarrow> string \<Rightarrow> string \<Rightarrow> prize_db \<Rightarrow> prize_db" where
  "b2c_webhook_prize orig ok txid why db =
     (if orig = [] then db
      else case find_index (\<lambda>p. pz_originator p = orig) (prizes db) of
        None \<Rightarrow> db
      | Some i \<Rightarrow> if pz_status (prizes db ! i) \<noteq> P_processing then db
                  else if ok then mark_success txid i db else mark_failed why i db)"

section \<open>What an operator sees\<close>

definition indices_where :: "(prize \<Rightarrow> bool) \<Rightarrow> prize_db \<Rightarrow> nat list" where
  "indices_where P db = filter (\<lambda>i. P (prizes db ! i)) [0..<length (prizes db)]"

definition for_campaign :: "nat option \<Rightarrow> prize \<Rightarrow> bool" where
  "for_campaign camp p \<longleftrightarrow> (case camp of None \<Rightarrow> True | Some c \<Rightarrow> pz_campaign p = Some c)"

definition pending_deliveries :: "nat option \<Rightarrow> prize_db \<Rightarrow> nat list" where
  "pending_deliveries camp = indices_where (\<lambda>p. pz_status p \<in> {P_pending, P_processing} \<and> for_campaign camp p)"

definition failed_deliveries :: "nat option \<Rightarrow> prize_db \<Rightarrow> nat list" where
  "failed_deliveries camp = indices_where (\<lambda>p. pz_status p = P_failed \<and> for_campaign camp p)"

definition successful_deliveries :: "nat option \<Rightarrow> prize_db \<Rightarrow> nat list" where
  "successful_deliveries camp = indices_where (\<lambda>p. pz_status p = P_success \<and> for_campaign camp p)"

definition skipped_deliveries :: "nat option \<Rightarrow> prize_db \<Rightarrow> nat list" where
  "skipped_deliveries camp = indices_where (\<lambda>p. pz_status p = P_skipped \<and> for_campaign camp p)"

definition owed_deliveries :: "nat option \<Rightarrow> prize_db \<Rightarrow> nat list" where
  "owed_deliveries camp = indices_where (\<lambda>p. pz_status p \<noteq> P_success \<and> for_campaign camp p)"

definition stuck_deliveries :: "int option \<Rightarrow> prize_db \<Rightarrow> nat list" where
  "stuck_deliveries hours db =
     indices_where (\<lambda>p. pz_status p = P_processing \<and>
       pz_updated p < prize_now db - (case hours of Some h \<Rightarrow> h | None \<Rightarrow> STUCK_AFTER_HOURS) * one_hour) db"

definition deliverable :: "nat option \<Rightarrow> prize_db \<Rightarrow> nat list" where
  "deliverable camp =
     indices_where (\<lambda>p. pz_status p \<in> {P_pending, P_failed} \<and> pz_attempts p < MAX_DELIVERY_ATTEMPTS \<and> for_campaign camp p)"

definition abandoned_deliveries :: "nat option \<Rightarrow> prize_db \<Rightarrow> nat list" where
  "abandoned_deliveries camp =
     indices_where (\<lambda>p. pz_status p = P_failed \<and> MAX_DELIVERY_ATTEMPTS \<le> pz_attempts p \<and> for_campaign camp p)"

definition overdue_deliveries :: "nat option \<Rightarrow> prize_db \<Rightarrow> nat list" where
  "overdue_deliveries camp db =
     indices_where (\<lambda>p. (case pz_deadline p of None \<Rightarrow> False | Some d \<Rightarrow> d < prize_now db) \<and> pz_status p \<noteq> P_success \<and> for_campaign camp p) db"

section \<open>The scheduled run\<close>

definition BATCH_SIZE :: nat where "BATCH_SIZE = 50"

text \<open>\<open>order_by('deadline_at')\<close>: rows without a deadline come last.\<close>

definition by_deadline :: "prize_db \<Rightarrow> nat list \<Rightarrow> nat list" where
  "by_deadline db js =
     (let deadline = (\<lambda>i. pz_deadline (prizes db ! i))
      in sort_key (\<lambda>i. the (deadline i)) (filter (\<lambda>i. deadline i \<noteq> None) js) @ filter (\<lambda>i. deadline i = None) js)"

record run_counts =
  n_delivered :: nat
  n_initiated :: nat
  n_failed :: nat
  n_skipped :: nat

definition run_tally :: "bool \<Rightarrow> string \<Rightarrow> prize \<Rightarrow> run_counts \<Rightarrow> run_counts" where
  "run_tally ok m p c =
     (if \<not> ok then
        (if re_search [lits ''already'', lits ''in progress''] m then c\<lparr>n_skipped := n_skipped c + 1\<rparr> else c\<lparr>n_failed := n_failed c + 1\<rparr>)
      else if pz_status p = P_success then c\<lparr>n_delivered := n_delivered c + 1\<rparr> else c\<lparr>n_initiated := n_initiated c + 1\<rparr>)"

text \<open>The loop over the batch, each row as the query returned it; \<open>ask i\<close> is the answer of the channel for it.\<close>

fun deliver_batch :: "(nat \<Rightarrow> channel_answer) \<Rightarrow> (nat \<times> prize) list \<Rightarrow> prize_db \<Rightarrow> run_counts \<Rightarrow> run_counts \<times> prize_db" where
  "deliver_batch ask [] db c = (c, db)"
| "deliver_batch ask ((i, loaded) # rest) db c =
     (let (ok, m, _, db1) = deliver loaded False None (ask i) i db
      in deliver_batch ask rest db1 (run_tally ok m (prizes db1 ! i) c))"

definition deliver_pending_prizes :: "(nat \<Rightarrow> channel_answer) \<Rightarrow> prize_db \<Rightarrow> run_counts \<times> prize_db" where
  "deliver_pending_prizes ask db =
     deliver_batch ask (map (\<lambda>i. (i, prizes db ! i)) (take BATCH_SIZE (by_deadline db (deliverable None db)))) db
       \<lparr>n_delivered = 0, n_initiated = 0, n_failed = 0, n_skipped = 0\<rparr>"

section \<open>The world around\<close>

text \<open>
  What was really sent: the instructions telebirr took, with the id of each, and the bundles the CRM provisioned.
\<close>

record prize_world =
  wd :: prize_db
  instructed :: "(nat \<times> string) list"
  provisioned :: "nat list"

datatype prize_event =
    Award "nat option" nat string "int option"
  | Deliver nat "string option" channel_answer
  | Retry nat "string option" channel_answer
  | Callback string bool string string
  | Pass_time nat

definition sent :: "nat \<Rightarrow> prize \<Rightarrow> channel_answer \<Rightarrow> bool \<times> string \<times> bool \<times> prize_db \<Rightarrow> prize_world \<Rightarrow> prize_world" where
  "sent i p ans res w =
     (case res of (ok, _, called, db) \<Rightarrow>
        (case ans of
           Accepted orig _ \<Rightarrow>
             if \<not> called then w\<lparr>wd := db\<rparr>
             else if pz_method p = CRM then w\<lparr>wd := db, provisioned := provisioned w @ [i]\<rparr>
             else w\<lparr>wd := db, instructed := instructed w @ [(i, orig)]\<rparr>
         | _ \<Rightarrow> w\<lparr>wd := db\<rparr>))"

definition exec_prize :: "prize_event \<Rightarrow> prize_world \<Rightarrow> prize_world" where
  "exec_prize e w =
     (case e of
        Award camp winner tier ended \<Rightarrow> (case award camp winner tier ended (wd w) of Inl _ \<Rightarrow> w | Inr (_, _, db) \<Rightarrow> w\<lparr>wd := db\<rparr>)
      | Deliver i offer ans \<Rightarrow>
          if i < length (prizes (wd w))
          then (let p = prizes (wd w) ! i in sent i p ans (deliver p False offer ans i (wd w)) w) else w
      | Retry i offer ans \<Rightarrow>
          if i < length (prizes (wd w))
          then (let p = prizes (wd w) ! i in sent i p ans (retry p offer ans i (wd w)) w) else w
      | Callback orig ok txid why \<Rightarrow> w\<lparr>wd := b2c_webhook_prize orig ok txid why (wd w)\<rparr>
      | Pass_time n \<Rightarrow> w\<lparr>wd := (wd w)\<lparr>prize_now := prize_now (wd w) + int n\<rparr>\<rparr>)"

text \<open>
  The channels keep their word: an id telebirr gives out is new, and its callbacks say what became of the
  instruction. That a call which was refused or raised sent nothing is in \<open>sent\<close>.
\<close>

definition honest :: "(string \<Rightarrow> bool) \<Rightarrow> prize_world \<Rightarrow> prize_event \<Rightarrow> bool" where
  "honest fate w e =
     (case e of
        Deliver _ _ (Accepted orig _) \<Rightarrow> orig \<noteq> [] \<and> orig \<notin> snd ` set (instructed w)
      | Retry _ _ (Accepted orig _) \<Rightarrow> orig \<noteq> [] \<and> orig \<notin> snd ` set (instructed w)
      | Callback orig ok _ _ \<Rightarrow> ok = fate orig
      | _ \<Rightarrow> True)"

fun run_prizes :: "prize_event list \<Rightarrow> prize_world \<Rightarrow> prize_world" where
  "run_prizes [] w = w"
| "run_prizes (e # es) w = run_prizes es (exec_prize e w)"

fun honest_run :: "(string \<Rightarrow> bool) \<Rightarrow> prize_event list \<Rightarrow> prize_world \<Rightarrow> bool" where
  "honest_run fate [] w = True"
| "honest_run fate (e # es) w = (honest fate w e \<and> honest_run fate es (exec_prize e w))"

text \<open>How often the prize \<open>i\<close> was really paid.\<close>

definition times_paid :: "(string \<Rightarrow> bool) \<Rightarrow> prize_world \<Rightarrow> nat \<Rightarrow> nat" where
  "times_paid fate w i =
     length (filter (\<lambda>x. fst x = i \<and> fate (snd x)) (instructed w)) + length (filter (\<lambda>j. j = i) (provisioned w))"

section \<open>Writes to one row\<close>

lemma set_prize_simps [simp]:
  "length (prizes (set_prize i f db)) = length (prizes db)"
  "j \<noteq> i \<Longrightarrow> prizes (set_prize i f db) ! j = prizes db ! j"
  "i < length (prizes db) \<Longrightarrow> prizes (set_prize i f db) ! i = (f (prizes db ! i))\<lparr>pz_updated := prize_now db\<rparr>"
  by (simp_all add: set_prize_def)

lemma mark_simps [simp]:
  "length (prizes (mark_failed r i db)) = length (prizes db)"
  "length (prizes (mark_skipped r i db)) = length (prizes db)"
  "length (prizes (mark_success t i db)) = length (prizes db)"
  by (simp_all add: mark_failed_def mark_skipped_def mark_success_def Let_def)

text \<open>What every write to a prize leaves alone.\<close>

definition same_prize :: "prize \<Rightarrow> prize \<Rightarrow> bool" where
  "same_prize p q \<longleftrightarrow> pz_winner q = pz_winner p \<and> pz_tier q = pz_tier p \<and> pz_campaign q = pz_campaign p \<and>
     pz_amount q = pz_amount p \<and> pz_method q = pz_method p \<and> pz_key q = pz_key p \<and> pz_deadline q = pz_deadline p"

lemma same_prize_refl [simp]: "same_prize p p"
  by (simp add: same_prize_def)

definition writes_row :: "nat \<Rightarrow> prize \<Rightarrow> prize_db \<Rightarrow> prize_db \<Rightarrow> bool" where
  "writes_row i q db db' \<longleftrightarrow> length (prizes db') = length (prizes db) \<and> (\<forall>j. j \<noteq> i \<longrightarrow> prizes db' ! j = prizes db ! j) \<and>
     prizes db' ! i = q \<and> same_prize (prizes db ! i) q"

definition writes_status :: "nat \<Rightarrow> prize_status \<Rightarrow> prize_db \<Rightarrow> prize_db \<Rightarrow> bool" where
  "writes_status i st db db' \<longleftrightarrow> (\<exists>q. writes_row i q db db' \<and> pz_status q = st \<and>
     pz_originator q = pz_originator (prizes db ! i) \<and> pz_attempts q = pz_attempts (prizes db ! i))"

lemma marks_write:
  assumes "i < length (prizes db)"
  shows "writes_status i P_failed db (mark_failed r i db)" "writes_status i P_skipped db (mark_skipped r i db)"
    "writes_status i P_success db (mark_success t i db)"
  unfolding writes_status_def writes_row_def
  using assms by (auto simp: mark_failed_def mark_skipped_def mark_success_def Let_def same_prize_def)

text \<open>One attempt: refused with nothing changed, or a write to the row that says how it went.\<close>

lemma deliver_cases:
  assumes "i < length (prizes db)" and "deliver (prizes db ! i) False offer ans i db = (ok, m, called, db')"
    and "pz_method (prizes db ! i) \<in> {CRM, TELEBIRR}"
  obtains (refused) "db' = db" "\<not> called" "\<not> ok"
  | (unsent) q where "writes_row i q db db'" "pz_status q \<in> {P_failed, P_skipped}" "pz_originator q = pz_originator (prizes db ! i)"
      "pz_status (prizes db ! i) \<in> {P_pending, P_failed}" "\<not> ok" "called \<longrightarrow> (\<forall>a b. ans \<noteq> Accepted a b)"
      "pz_attempts q = pz_attempts (prizes db ! i) + 1"
  | (data) q a b where "writes_row i q db db'" "pz_status q = P_success" "pz_originator q = pz_originator (prizes db ! i)"
      "pz_status (prizes db ! i) \<in> {P_pending, P_failed}" "called" "ok" "ans = Accepted a b" "pz_method (prizes db ! i) = CRM"
      "pz_attempts q = pz_attempts (prizes db ! i) + 1"
  | (cash) q a b where "writes_row i q db db'" "pz_status q = P_processing" "pz_originator q = a"
      "pz_status (prizes db ! i) \<in> {P_pending, P_failed}" "called" "ok" "ans = Accepted a b" "pz_method (prizes db ! i) = TELEBIRR"
      "pz_attempts q = pz_attempts (prizes db ! i) + 1"
proof (cases "is_settled (prizes db ! i) \<or> pz_status (prizes db ! i) = P_processing")
  case True
  then have "db' = db \<and> \<not> called \<and> \<not> ok" using assms(2) by (auto simp: deliver_def split: if_splits)
  then show ?thesis using refused by blast
next
  case False
  then have open': "pz_status (prizes db ! i) \<in> {P_pending, P_failed}" by (cases "pz_status (prizes db ! i)") (auto simp: is_settled_def)
  let ?q = "(prizes db ! i)\<lparr>pz_attempts := pz_attempts (prizes db ! i) + 1, pz_status := P_processing\<rparr>"
  let ?db = "db\<lparr>prizes := (prizes db)[i := ?q]\<rparr>"
  have lft: "writes_row i q db d" if "writes_row i q ?db d" for q d
    using that assms(1) by (auto simp: writes_row_def same_prize_def)
  have row: "prizes ?db ! i = ?q" "i < length (prizes ?db)" using assms(1) by simp_all
  have stat: "\<exists>q. writes_row i q db d \<and> pz_status q = st \<and> pz_originator q = pz_originator (prizes db ! i) \<and>
      pz_attempts q = pz_attempts (prizes db ! i) + 1" if "writes_status i st ?db d" for st d
    using that lft row unfolding writes_status_def by auto
  note marks = marks_write [OF row(2)]
  show ?thesis
  proof (cases "pz_method (prizes db ! i) = CRM")
    case True
    then have d: "deliver_data offer ans i ?q ?db = (ok, m, called, db')"
      using assms(1,2) False row by (auto simp: deliver_def Let_def)
    show ?thesis
    proof (cases "called \<and> (\<exists>a b. ans = Accepted a b)")
      case acc: True
      then obtain a b where ab: "ans = Accepted a b" by blast
      with d acc have ok: "db' = mark_success a i ?db" "ok" by (auto simp: deliver_data_def split: if_splits)
      obtain q where q: "writes_row i q db db'" "pz_status q = P_success" "pz_originator q = pz_originator (prizes db ! i)"
        "pz_attempts q = pz_attempts (prizes db ! i) + 1" using stat [OF marks(3) [of a]] ok by blast
      show ?thesis using open' acc ab True ok q(4) by (intro data [OF q(1-3)]) auto
    next
      case nacc: False
      then obtain r where no: "db' = mark_failed r i ?db" "\<not> ok"
        using d by (auto simp: deliver_data_def Let_def split: if_splits channel_answer.splits)
      obtain q where q: "writes_row i q db db'" "pz_status q = P_failed" "pz_originator q = pz_originator (prizes db ! i)"
        "pz_attempts q = pz_attempts (prizes db ! i) + 1" using stat [OF marks(1) [of r]] no by blast
      show ?thesis using open' nacc no q(2-4) by (intro unsent [OF q(1)]) auto
    qed
  next
    case ncrm: False
    then have tb: "pz_method (prizes db ! i) = TELEBIRR" using assms(3) by simp
    then have d: "deliver_cash ans i ?q ?db = (ok, m, called, db')"
      using assms(1,2) False row ncrm by (auto simp: deliver_def Let_def)
    show ?thesis
    proof (cases "called \<and> (\<exists>a b. ans = Accepted a b)")
      case acc: True
      then obtain a b where ab: "ans = Accepted a b" by blast
      with d acc have db': "db' = set_prize i (\<lambda>q. q\<lparr>pz_originator := a, pz_conversation := b, pz_status := P_processing\<rparr>) ?db" and "ok"
        by (auto simp: deliver_cash_def Let_def split: if_splits)
      have w: "writes_row i (?q\<lparr>pz_originator := a, pz_conversation := b, pz_status := P_processing, pz_updated := prize_now db\<rparr>) ?db db'"
        using row by (auto simp: db' writes_row_def same_prize_def)
      show ?thesis using open' acc ab tb \<open>ok\<close> by (intro cash [OF lft [OF w]]) auto
    next
      case nacc: False
      then have no: "\<not> ok" and "(\<exists>r. db' = mark_failed r i ?db) \<or> (\<exists>r. db' = mark_skipped r i ?db)"
        using d by (auto simp: deliver_cash_def Let_def split: if_splits channel_answer.splits)
      then obtain st where st: "writes_status i st ?db db'" "st \<in> {P_failed, P_skipped}" using marks(1,2) by blast
      obtain q where q: "writes_row i q db db'" "pz_status q = st" "pz_originator q = pz_originator (prizes db ! i)"
        "pz_attempts q = pz_attempts (prizes db ! i) + 1" using stat [OF st(1)] by blast
      show ?thesis using open' nacc no st(2) q(2-4) by (intro unsent [OF q(1)]) auto
    qed
  qed
qed

section \<open>Paid once\<close>

definition ids_of :: "prize_world \<Rightarrow> nat \<Rightarrow> string set" where
  "ids_of w i = {x. (i, x) \<in> set (instructed w)}"

definition bundles_of :: "prize_world \<Rightarrow> nat \<Rightarrow> nat" where
  "bundles_of w i = length (filter (\<lambda>j. j = i) (provisioned w))"

text \<open>What the instructions \<open>ids\<close> of a cash prize may have done by its status, \<open>orig\<close> being the id on the row.\<close>

fun cash_ok :: "(string \<Rightarrow> bool) \<Rightarrow> string set \<Rightarrow> string \<Rightarrow> prize_status \<Rightarrow> bool" where
  "cash_ok fate ids orig P_processing = (orig \<in> ids \<and> (\<forall>x \<in> ids. fate x \<longrightarrow> x = orig))"
| "cash_ok fate ids orig P_success = (orig \<in> ids \<and> fate orig \<and> (\<forall>x \<in> ids. fate x \<longrightarrow> x = orig))"
| "cash_ok fate ids orig st = (\<forall>x \<in> ids. \<not> fate x)"

fun data_ok :: "nat \<Rightarrow> prize_status \<Rightarrow> bool" where
  "data_ok n P_processing = False"
| "data_ok n P_success = (n = 1)"
| "data_ok n st = (n = 0)"

definition prize_row_ok :: "(string \<Rightarrow> bool) \<Rightarrow> string set \<Rightarrow> nat \<Rightarrow> prize \<Rightarrow> bool" where
  "prize_row_ok fate ids n p \<longleftrightarrow>
     (pz_originator p \<noteq> [] \<longrightarrow> pz_originator p \<in> ids) \<and>
     (pz_method p = TELEBIRR \<and> n = 0 \<and> cash_ok fate ids (pz_originator p) (pz_status p) \<or>
      pz_method p = CRM \<and> ids = {} \<and> data_ok n (pz_status p))"

definition prizes_ok :: "(string \<Rightarrow> bool) \<Rightarrow> prize_world \<Rightarrow> bool" where
  "prizes_ok fate w \<longleftrightarrow>
     distinct (map snd (instructed w)) \<and> [] \<notin> snd ` set (instructed w) \<and>
     (\<forall>i. length (prizes (wd w)) \<le> i \<longrightarrow> ids_of w i = {} \<and> bundles_of w i = 0) \<and>
     (\<forall>i < length (prizes (wd w)). prize_row_ok fate (ids_of w i) (bundles_of w i) (prizes (wd w) ! i))"

lemma TELEBIRR_not_CRM [simp]: "TELEBIRR \<noteq> CRM" "CRM \<noteq> TELEBIRR"
  by (simp_all add: TELEBIRR_def CRM_def)

lemma prize_row_ok_method: "prize_row_ok fate ids n p \<Longrightarrow> pz_method p \<in> {CRM, TELEBIRR}"
  by (auto simp: prize_row_ok_def)

lemma sent_books [simp]:
  "ids_of (w\<lparr>wd := d\<rparr>) j = ids_of w j" "bundles_of (w\<lparr>wd := d\<rparr>) j = bundles_of w j"
  "ids_of (w\<lparr>wd := d, instructed := instructed w @ [(i, a)]\<rparr>) j = (if j = i then insert a (ids_of w j) else ids_of w j)"
  "bundles_of (w\<lparr>wd := d, instructed := l\<rparr>) j = bundles_of w j"
  "ids_of (w\<lparr>wd := d, provisioned := l'\<rparr>) j = ids_of w j"
  "bundles_of (w\<lparr>wd := d, provisioned := provisioned w @ [i]\<rparr>) j = bundles_of w j + (if j = i then 1 else 0)"
  by (auto simp: ids_of_def bundles_of_def)

lemma prizes_ok_upd:
  assumes "prizes_ok fate w" "i < length (prizes (wd w))" "writes_row i q (wd w) db'" "wd w' = db'"
    and "prize_row_ok fate (ids_of w' i) (bundles_of w' i) q"
    and "\<And>j. j \<noteq> i \<Longrightarrow> ids_of w' j = ids_of w j \<and> bundles_of w' j = bundles_of w j"
    and "distinct (map snd (instructed w'))" "[] \<notin> snd ` set (instructed w')"
  shows "prizes_ok fate w'"
proof -
  have "prize_row_ok fate (ids_of w' j) (bundles_of w' j) (prizes db' ! j)" if "j < length (prizes db')" for j
    using assms(1-3,5,6) that by (cases "j = i") (auto simp: prizes_ok_def writes_row_def)
  moreover have "ids_of w' j = {} \<and> bundles_of w' j = 0" if "length (prizes db') \<le> j" for j
  proof -
    have "j \<noteq> i" "length (prizes (wd w)) \<le> j" using that assms(2,3) by (auto simp: writes_row_def)
    then show ?thesis using assms(1,6) by (simp add: prizes_ok_def)
  qed
  ultimately show ?thesis using assms(4,7,8) by (simp add: prizes_ok_def)
qed

lemma deliver_keeps_ok:
  assumes ok: "prizes_ok fate w" and i: "i < length (prizes (wd w))"
    and fresh: "\<And>a b. ans = Accepted a b \<Longrightarrow> a \<noteq> [] \<and> a \<notin> snd ` set (instructed w)"
  shows "prizes_ok fate (sent i (prizes (wd w) ! i) ans (deliver (prizes (wd w) ! i) False offer ans i (wd w)) w)"
proof -
  obtain g m called db' where d: "deliver (prizes (wd w) ! i) False offer ans i (wd w) = (g, m, called, db')" by (metis prod_cases4)
  have row: "prize_row_ok fate (ids_of w i) (bundles_of w i) (prizes (wd w) ! i)" using ok i by (simp add: prizes_ok_def)
  have dist: "distinct (map snd (instructed w))" "[] \<notin> snd ` set (instructed w)" using ok by (simp_all add: prizes_ok_def)
  have "prizes_ok fate (sent i (prizes (wd w) ! i) ans (g, m, called, db') w)" (is ?ok) using i d prize_row_ok_method [OF row]
  proof (cases rule: deliver_cases)
    case refused
    then show ?ok using ok by (cases ans) (simp_all add: sent_def)
  next
    case (unsent q)
    have s: "sent i (prizes (wd w) ! i) ans (g, m, called, db') w = w\<lparr>wd := db'\<rparr>" using unsent(6) by (cases ans) (auto simp: sent_def)
    have "prize_row_ok fate (ids_of w i) (bundles_of w i) q"
      using unsent(1-4) row by (auto simp: prize_row_ok_def writes_row_def same_prize_def)
    then show ?ok unfolding s using dist by (intro prizes_ok_upd [OF ok i unsent(1)]) simp_all
  next
    case (data q a b)
    have s: "sent i (prizes (wd w) ! i) ans (g, m, called, db') w = w\<lparr>wd := db', provisioned := provisioned w @ [i]\<rparr>"
      using data(5,7,8) by (simp add: sent_def)
    have "prize_row_ok fate (ids_of w i) (bundles_of w i + 1) q"
      using data(1-4,8) row by (auto simp: prize_row_ok_def writes_row_def same_prize_def)
    then show ?ok unfolding s using dist by (intro prizes_ok_upd [OF ok i data(1)]) simp_all
  next
    case (cash q a b)
    have s: "sent i (prizes (wd w) ! i) ans (g, m, called, db') w = w\<lparr>wd := db', instructed := instructed w @ [(i, a)]\<rparr>"
      using cash(5,7,8) by (simp add: sent_def)
    have "prize_row_ok fate (insert a (ids_of w i)) (bundles_of w i) q"
      using cash(1-4,8) row by (auto simp: prize_row_ok_def writes_row_def same_prize_def)
    then show ?ok unfolding s using dist fresh [OF cash(7)] by (intro prizes_ok_upd [OF ok i cash(1)]) auto
  qed
  then show ?thesis unfolding d .
qed

lemma retry_deliver:
  "(\<exists>m. retry p offer ans i db = (False, m, False, db)) \<or> retry p offer ans i db = deliver p False offer ans i db"
  by (auto simp: retry_def)

lemma retry_ok:
  assumes "prizes_ok fate w" "i < length (prizes (wd w))"
    and "\<And>a b. ans = Accepted a b \<Longrightarrow> a \<noteq> [] \<and> a \<notin> snd ` set (instructed w)"
  shows "prizes_ok fate (sent i (prizes (wd w) ! i) ans (retry (prizes (wd w) ! i) offer ans i (wd w)) w)"
  using retry_deliver [of "prizes (wd w) ! i" offer ans i "wd w"]
proof
  assume "retry (prizes (wd w) ! i) offer ans i (wd w) = deliver (prizes (wd w) ! i) False offer ans i (wd w)"
  then show ?thesis using deliver_keeps_ok [OF assms] by simp
next
  assume "\<exists>m. retry (prizes (wd w) ! i) offer ans i (wd w) = (False, m, False, wd w)"
  then show ?thesis using assms(1) by (cases ans) (auto simp: sent_def)
qed

text \<open>A callback touches only the row that carries its id, while that row is in flight.\<close>

lemma callback_ok:
  assumes "prizes_ok fate w"
  shows "prizes_ok fate (w\<lparr>wd := b2c_webhook_prize orig (fate orig) txid why (wd w)\<rparr>)"
proof (cases "orig = [] \<or> find_index (\<lambda>p. pz_originator p = orig) (prizes (wd w)) = None")
  case True
  then show ?thesis using assms by (auto simp: b2c_webhook_prize_def)
next
  case False
  then obtain i where "find_index (\<lambda>p. pz_originator p = orig) (prizes (wd w)) = Some i" by blast
  note fi = this and i = find_index_Some [OF this]
  show ?thesis
  proof (cases "pz_status (prizes (wd w) ! i) = P_processing")
    case no: False
    then show ?thesis using assms False fi by (simp add: b2c_webhook_prize_def)
  next
    case yes: True
    have row: "prize_row_ok fate (ids_of w i) (bundles_of w i) (prizes (wd w) ! i)" using assms i by (simp add: prizes_ok_def)
    let ?st = "if fate orig then P_success else P_failed"
    have "writes_status i ?st (wd w) (b2c_webhook_prize orig (fate orig) txid why (wd w))"
      using yes fi False marks_write i by (simp add: b2c_webhook_prize_def)
    then obtain q where q: "writes_row i q (wd w) (b2c_webhook_prize orig (fate orig) txid why (wd w))" "pz_status q = ?st"
      "pz_originator q = orig" using i unfolding writes_status_def by auto
    have "prize_row_ok fate (ids_of w i) (bundles_of w i) q"
      using row yes i q False by (auto simp: prize_row_ok_def writes_row_def same_prize_def)
    then show ?thesis using assms by (intro prizes_ok_upd [OF assms _ q(1)]) (simp_all add: i prizes_ok_def)
  qed
qed

lemma award_Inr:
  assumes "award camp winner tier ended db = Inr (i, created, db')"
  obtains (old) spec where "prize_for tier = Inr spec" "\<not> created" "db' = db"
      "find_index (\<lambda>p. pz_key p = Some (idempotency_key camp winner tier)) (prizes db) = Some i"
  | (new) spec where "prize_for tier = Inr spec" "created" "i = length (prizes db)"
      "prizes db' = prizes db @ [new_prize camp winner tier spec ended db]"
      "find_index (\<lambda>p. pz_key p = Some (idempotency_key camp winner tier)) (prizes db) = None"
  using assms
  by (cases "find_index (\<lambda>p. pz_key p = Some (idempotency_key camp winner tier)) (prizes db)")
     (auto simp: award_def bind_result_Inr_iff package_for_def)

lemma prize_for_channel: "prize_for tier = Inr spec \<Longrightarrow> channel spec \<in> {CRM, TELEBIRR}"
  by (auto simp: prize_for_def PRIZES_def split: if_splits)

lemma award_ok:
  assumes "prizes_ok fate w" "award camp winner tier ended (wd w) = Inr (i, created, db')"
  shows "prizes_ok fate (w\<lparr>wd := db'\<rparr>)"
  using assms(2)
proof (cases rule: award_Inr)
  case (old spec)
  then show ?thesis using assms(1) by simp
next
  case (new spec)
  have "ids_of w (length (prizes (wd w))) = {}" "bundles_of w (length (prizes (wd w))) = 0" using assms(1) by (simp_all add: prizes_ok_def)
  then have "prize_row_ok fate (ids_of w j) (bundles_of w j) (prizes db' ! j)" if "j < length (prizes db')" for j
    using that assms(1) new prize_for_channel [OF new(1)]
    by (cases "j = length (prizes (wd w))") (auto simp: prize_row_ok_def nth_append prizes_ok_def new_prize_def)
  then show ?thesis using assms(1) new(4) by (simp add: prizes_ok_def)
qed

lemma exec_prize_ok:
  assumes "prizes_ok fate w" "honest fate w e"
  shows "prizes_ok fate (exec_prize e w)"
proof (cases e)
  case (Award camp winner tier ended)
  then show ?thesis using assms(1) award_ok by (cases "award camp winner tier ended (wd w)") (auto simp: exec_prize_def)
next
  case (Deliver i offer ans)
  then have "a \<noteq> [] \<and> a \<notin> snd ` set (instructed w)" if "ans = Accepted a b" for a b using assms(2) that by (simp add: honest_def)
  then show ?thesis using Deliver assms deliver_keeps_ok [of fate w i ans offer] by (simp add: exec_prize_def Let_def)
next
  case (Retry i offer ans)
  then have "a \<noteq> [] \<and> a \<notin> snd ` set (instructed w)" if "ans = Accepted a b" for a b using assms(2) that by (simp add: honest_def)
  then show ?thesis using Retry assms retry_ok [of fate w i ans offer] by (simp add: exec_prize_def Let_def)
next
  case (Callback orig ok txid why)
  then show ?thesis using assms callback_ok [OF assms(1)] by (simp add: exec_prize_def honest_def)
next
  case (Pass_time n)
  then show ?thesis using assms(1) by (simp add: exec_prize_def prizes_ok_def)
qed

lemma run_prizes_ok: "prizes_ok fate w \<Longrightarrow> honest_run fate es w \<Longrightarrow> prizes_ok fate (run_prizes es w)"
  by (induction es arbitrary: w) (auto intro: exec_prize_ok)

lemma times_paid_row:
  assumes "prizes_ok fate w" "i < length (prizes (wd w))"
  shows "times_paid fate w i =
    (case pz_status (prizes (wd w) ! i) of P_success \<Rightarrow> 1
     | P_processing \<Rightarrow> if fate (pz_originator (prizes (wd w) ! i)) then 1 else 0 | _ \<Rightarrow> 0)"
proof -
  let ?p = "prizes (wd w) ! i"
  have row: "prize_row_ok fate (ids_of w i) (bundles_of w i) ?p" and dist: "distinct (map snd (instructed w))"
    using assms by (simp_all add: prizes_ok_def)
  have inj: "length (filter (\<lambda>x. fst x = i \<and> fate (snd x)) (instructed w)) = card {x \<in> ids_of w i. fate x}"
  proof -
    have d: "distinct (map snd (filter (\<lambda>x. fst x = i \<and> fate (snd x)) (instructed w)))" using dist by (rule distinct_map_filter)
    have "set (map snd (filter (\<lambda>x. fst x = i \<and> fate (snd x)) (instructed w))) = {x \<in> ids_of w i. fate x}"
      by (force simp: ids_of_def)
    with distinct_card [OF d] show ?thesis by simp
  qed
  have paid: "times_paid fate w i = card {x \<in> ids_of w i. fate x} + bundles_of w i"
    by (simp add: times_paid_def inj bundles_of_def)
  show ?thesis
  proof (cases "pz_method ?p = CRM")
    case True
    then have "ids_of w i = {}" "data_ok (bundles_of w i) (pz_status ?p)" using row by (auto simp: prize_row_ok_def)
    then show ?thesis by (cases "pz_status ?p") (auto simp: paid)
  next
    case False
    then have b: "bundles_of w i = 0" and c: "cash_ok fate (ids_of w i) (pz_originator ?p) (pz_status ?p)" using row by (auto simp: prize_row_ok_def)
    have eq: "{x \<in> ids_of w i. fate x} = (if pz_status ?p \<in> {P_success, P_processing} \<and> fate (pz_originator ?p) then {pz_originator ?p} else {})"
      using c by (cases "pz_status ?p") auto
    show ?thesis unfolding paid eq using b c by (cases "pz_status ?p") simp_all
  qed
qed

section \<open>The awards table\<close>

text \<open>Every prize was awarded from the structure, under its own key.\<close>

definition awards_ok :: "prize_db \<Rightarrow> bool" where
  "awards_ok db \<longleftrightarrow> distinct (map pz_key (prizes db)) \<and>
     (\<forall>p \<in> set (prizes db). pz_key p = Some (idempotency_key (pz_campaign p) (pz_winner p) (pz_tier p)) \<and>
        (\<exists>spec. prize_for (pz_tier p) = Inr spec \<and> pz_amount p = pt_amount spec \<and> pz_method p = channel spec))"

lemma awards_ok_write:
  assumes "awards_ok db" "i < length (prizes db)" "writes_row i q db db'"
  shows "awards_ok db'"
proof -
  have nth: "same_prize (prizes db ! j) (prizes db' ! j)" for j using assms(3) by (cases "j = i") (auto simp: writes_row_def)
  have len: "length (prizes db') = length (prizes db)" using assms(3) by (simp add: writes_row_def)
  have "map pz_key (prizes db') = map pz_key (prizes db)"
    using nth len by (intro nth_equalityI) (auto simp: same_prize_def)
  moreover have "\<exists>p' \<in> set (prizes db). same_prize p' p" if "p \<in> set (prizes db')" for p
    using that nth len by (metis in_set_conv_nth)
  ultimately show ?thesis using assms(1) unfolding awards_ok_def same_prize_def by metis
qed

lemma awards_ok_status: "awards_ok db \<Longrightarrow> i < length (prizes db) \<Longrightarrow> writes_status i st db db' \<Longrightarrow> awards_ok db'"
  unfolding writes_status_def by (blast intro: awards_ok_write)

lemma awards_method: "awards_ok db \<Longrightarrow> i < length (prizes db) \<Longrightarrow> pz_method (prizes db ! i) \<in> {CRM, TELEBIRR}"
  unfolding awards_ok_def using prize_for_channel by (metis nth_mem)

lemma deliver_awards:
  assumes "awards_ok db" "i < length (prizes db)" "deliver (prizes db ! i) False offer ans i db = (g, m, called, db')"
  shows "awards_ok db'"
  using assms(2,3) awards_method [OF assms(1,2)]
  by (cases rule: deliver_cases) (use assms awards_ok_write in blast)+

lemma award_awards:
  assumes "awards_ok db" "award camp winner tier ended db = Inr (i, created, db')"
  shows "awards_ok db'"
  using assms(2)
proof (cases rule: award_Inr)
  case (old spec)
  with assms(1) show ?thesis by simp
next
  case (new spec)
  have "Some (idempotency_key camp winner tier) \<notin> set (map pz_key (prizes db))"
    using new(5) by (auto simp: find_index_None)
  then show ?thesis using assms(1) new(1,4) by (auto simp: awards_ok_def new_prize_def)
qed

lemma sent_wd: "wd (sent i p ans res w) = snd (snd (snd res))"
  by (cases ans) (auto simp: sent_def split: prod.splits)

lemma exec_prize_awards:
  assumes "awards_ok (wd w)"
  shows "awards_ok (wd (exec_prize e w))"
proof (cases e)
  case (Award camp winner tier ended)
  then show ?thesis using assms award_awards by (cases "award camp winner tier ended (wd w)") (auto simp: exec_prize_def)
next
  case (Deliver i offer ans)
  then show ?thesis using assms deliver_awards [OF assms, of i offer ans]
    by (cases "deliver (prizes (wd w) ! i) False offer ans i (wd w)") (auto simp: exec_prize_def Let_def sent_wd)
next
  case (Retry i offer ans)
  show ?thesis
  proof (cases "i < length (prizes (wd w))")
    case True
    then show ?thesis using Retry assms deliver_awards [OF assms True, of offer ans] retry_deliver [of "prizes (wd w) ! i" offer ans i "wd w"]
      by (cases "deliver (prizes (wd w) ! i) False offer ans i (wd w)") (auto simp: exec_prize_def Let_def sent_wd)
  qed (use Retry assms in \<open>simp add: exec_prize_def\<close>)
next
  case (Callback orig ok txid why)
  have "awards_ok (b2c_webhook_prize orig ok txid why (wd w))"
  proof (cases "find_index (\<lambda>p. pz_originator p = orig) (prizes (wd w))")
    case None
    then show ?thesis using assms by (simp add: b2c_webhook_prize_def)
  next
    case (Some i)
    then have "i < length (prizes (wd w))" using find_index_Some by blast
    then have "awards_ok (mark_failed why i (wd w))" "awards_ok (mark_success txid i (wd w))"
      using awards_ok_status [OF assms] marks_write by blast+
    then show ?thesis using assms Some by (simp add: b2c_webhook_prize_def)
  qed
  with Callback show ?thesis by (simp add: exec_prize_def)
next
  case (Pass_time n)
  then show ?thesis using assms by (simp add: exec_prize_def awards_ok_def)
qed

lemma run_prizes_awards: "awards_ok (wd w) \<Longrightarrow> awards_ok (wd (run_prizes es w))"
  by (induction es arbitrary: w) (auto intro: exec_prize_awards)

text \<open>The key tells prizes apart.\<close>

lemma split_at_colon:
  assumes "a @ '':'' @ b = a' @ '':'' @ b'" "CHR '':'' \<notin> set a" "CHR '':'' \<notin> set a'"
  shows "a = a' \<and> b = b'"
proof -
  have "takeWhile (\<lambda>c. c \<noteq> CHR '':'') (x @ '':'' @ y) = x" if "CHR '':'' \<notin> set x" for x y
    using that by (induction x) auto
  then have "a = a'" using assms by metis
  then show ?thesis using assms(1) by simp
qed

lemma show_nat_plain: "CHR '':'' \<notin> set (show_nat n)" "show_nat n \<noteq> ''none''"
proof -
  have d: "\<forall>c \<in> set (show_nat n). is_digit c" using show_nat_digits by (simp add: list_all_iff)
  then show "CHR '':'' \<notin> set (show_nat n)" by (auto simp: is_digit_def code_def)
  show "show_nat n \<noteq> ''none''"
  proof
    assume "show_nat n = ''none''"
    then have "is_digit (CHR ''n'')" using d by simp
    then show False by (simp add: is_digit_def code_def)
  qed
qed

lemma tier_plain: "prize_for tier = Inr spec \<Longrightarrow> CHR '':'' \<notin> set tier"
  by (auto simp: prize_for_def PRIZES_def split: if_splits)

lemma idempotency_key_inj:
  assumes "prize_for t = Inr s" "prize_for t' = Inr s'" "c \<noteq> Some 0" "c' \<noteq> Some 0"
  shows "idempotency_key c w t = idempotency_key c' w' t' \<longleftrightarrow> c = c' \<and> w = w' \<and> t = t'"
proof
  assume eq: "idempotency_key c w t = idempotency_key c' w' t'"
  let ?h = "\<lambda>c. case c of None \<Rightarrow> ''none'' | Some c \<Rightarrow> if c = 0 then ''none'' else show_nat c"
  have plain: "CHR '':'' \<notin> set (?h c)" for c using show_nat_plain by (auto split: option.split)
  from eq have "?h c @ '':'' @ (t @ '':'' @ show_nat w) = ?h c' @ '':'' @ (t' @ '':'' @ show_nat w')"
    by (simp only: idempotency_key_def)
  from split_at_colon [OF this plain plain] have h: "?h c = ?h c'" and r: "t @ '':'' @ show_nat w = t' @ '':'' @ show_nat w'" by blast+
  have "c = c'" using h assms(3,4) show_nat_plain(2) show_nat_inj by (auto split: option.splits if_splits)
  then show "c = c' \<and> w = w' \<and> t = t'"
    using split_at_colon [OF r tier_plain [OF assms(1)] tier_plain [OF assms(2)]] show_nat_inj by blast
qed simp

section \<open>The scheduled run does single deliveries\<close>

definition deliver_one :: "(nat \<Rightarrow> channel_answer) \<Rightarrow> nat \<Rightarrow> prize_db \<Rightarrow> prize_db" where
  "deliver_one ask i db = snd (snd (snd (deliver (prizes db ! i) False None (ask i) i db)))"

lemma deliver_frame:
  assumes "deliver p f offer ans i db = (g, m, called, db')"
  shows "length (prizes db') = length (prizes db)" "j \<noteq> i \<Longrightarrow> prizes db' ! j = prizes db ! j"
proof -
  let ?d = "if i < length (prizes db)
    then db\<lparr>prizes := (prizes db)[i := (prizes db ! i)\<lparr>pz_attempts := pz_attempts (prizes db ! i) + 1, pz_status := P_processing\<rparr>]\<rparr> else db"
  have frame: "length (prizes ?d) = length (prizes db)" "j \<noteq> i \<Longrightarrow> prizes ?d ! j = prizes db ! j" by simp_all
  have "db' = db \<or> (\<exists>r. db' = mark_failed r i ?d) \<or> (\<exists>r. db' = mark_skipped r i ?d) \<or> (\<exists>r. db' = mark_success r i ?d) \<or>
      (\<exists>h. db' = set_prize i h ?d)"
    using assms unfolding deliver_def Let_def deliver_data_def deliver_cash_def
    by (auto split: if_split_asm channel_answer.split_asm)
  then show "length (prizes db') = length (prizes db)" "j \<noteq> i \<Longrightarrow> prizes db' ! j = prizes db ! j"
    using frame by (auto simp: mark_failed_def mark_skipped_def mark_success_def Let_def)
qed

lemma deliver_batch_steps:
  assumes "distinct (map fst xs)" "\<And>i p. (i, p) \<in> set xs \<Longrightarrow> prizes db ! i = p"
  shows "snd (deliver_batch ask xs db c) = fold (deliver_one ask) (map fst xs) db"
  using assms
proof (induction xs arbitrary: db c)
  case (Cons x xs)
  obtain i p where x: "x = (i, p)" by (cases x)
  obtain g m called db1 where d: "deliver p False None (ask i) i db = (g, m, called, db1)" by (metis prod_cases4)
  have "prizes db ! i = p" using Cons.prems(2) x by simp
  then have one: "deliver_one ask i db = db1" by (simp add: deliver_one_def d)
  have "prizes db1 ! j = q" if "(j, q) \<in> set xs" for j q
  proof -
    have "j \<noteq> i" using that Cons.prems(1) x by force
    then show ?thesis using deliver_frame(2) [OF d] Cons.prems(2) [of j q] that by simp
  qed
  then show ?case using Cons.IH [of db1] Cons.prems(1) x d one by simp
qed simp

lemma deliverable_iff:
  "i \<in> set (deliverable None db) \<longleftrightarrow>
     i < length (prizes db) \<and> pz_status (prizes db ! i) \<in> {P_pending, P_failed} \<and> pz_attempts (prizes db ! i) < MAX_DELIVERY_ATTEMPTS"
  by (auto simp: deliverable_def indices_where_def for_campaign_def)

lemma by_deadline_perm: "set (by_deadline db js) = set js" "distinct js \<Longrightarrow> distinct (by_deadline db js)"
  by (auto simp: by_deadline_def Let_def)

definition batch_of :: "prize_db \<Rightarrow> nat list" where
  "batch_of db = take BATCH_SIZE (by_deadline db (deliverable None db))"

lemma batch_facts: "distinct (batch_of db)" "i \<in> set (batch_of db) \<Longrightarrow> i \<in> set (deliverable None db)" "length (batch_of db) \<le> BATCH_SIZE"
proof -
  have "distinct (deliverable None db)" by (simp add: deliverable_def indices_where_def)
  then show "distinct (batch_of db)" by (simp add: batch_of_def by_deadline_perm distinct_take)
  show "i \<in> set (batch_of db) \<Longrightarrow> i \<in> set (deliverable None db)"
    using set_take_subset [of BATCH_SIZE "by_deadline db (deliverable None db)"] by (auto simp: batch_of_def by_deadline_perm(1))
  show "length (batch_of db) \<le> BATCH_SIZE" by (simp add: batch_of_def)
qed

lemma run_is_fold: "snd (deliver_pending_prizes ask db) = fold (deliver_one ask) (batch_of db) db"
proof -
  have "snd (deliver_pending_prizes ask db) = fold (deliver_one ask) (map fst (map (\<lambda>i. (i, prizes db ! i)) (batch_of db))) db"
    unfolding deliver_pending_prizes_def batch_of_def [symmetric]
    by (rule deliver_batch_steps) (auto simp: comp_def batch_facts(1))
  then show ?thesis by (simp add: comp_def)
qed

lemma fold_other:
  assumes "i \<notin> set js"
  shows "prizes (fold (deliver_one ask) js db) ! i = prizes db ! i"
  using assms
proof (induction js arbitrary: db)
  case (Cons j js)
  obtain g m called db' where d: "deliver (prizes db ! j) False None (ask j) j db = (g, m, called, db')" by (metis prod_cases4)
  then have one: "deliver_one ask j db = db'" by (simp add: deliver_one_def)
  have "prizes db' ! i = prizes db ! i" using deliver_frame(2) [OF d] Cons.prems by auto
  then show ?case using Cons one by simp
qed simp

lemma deliver_one_row:
  assumes "awards_ok db" "i < length (prizes db)"
  shows "pz_attempts (prizes (deliver_one ask i db) ! i) \<le> pz_attempts (prizes db ! i) + 1" "awards_ok (deliver_one ask i db)"
    "length (prizes (deliver_one ask i db)) = length (prizes db)"
proof -
  obtain g m called db' where d: "deliver (prizes db ! i) False None (ask i) i db = (g, m, called, db')" by (metis prod_cases4)
  then have one: "deliver_one ask i db = db'" by (simp add: deliver_one_def)
  show "awards_ok (deliver_one ask i db)" unfolding one by (rule deliver_awards [OF assms d])
  show "length (prizes (deliver_one ask i db)) = length (prizes db)" unfolding one by (rule deliver_frame(1) [OF d])
  show "pz_attempts (prizes (deliver_one ask i db) ! i) \<le> pz_attempts (prizes db ! i) + 1"
    unfolding one using assms(2) d awards_method [OF assms] by (cases rule: deliver_cases) (auto simp: writes_row_def)
qed

lemma fold_attempts:
  assumes "awards_ok db" "distinct js" "i \<in> set js" "\<forall>j \<in> set js. j < length (prizes db)"
  shows "pz_attempts (prizes (fold (deliver_one ask) js db) ! i) \<le> pz_attempts (prizes db ! i) + 1"
  using assms
proof (induction js arbitrary: db)
  case (Cons j js)
  note one = deliver_one_row [OF Cons.prems(1), of j ask]
  show ?case
  proof (cases "j = i")
    case True
    then show ?thesis using Cons.prems one fold_other [of i js ask] by simp
  next
    case False
    have "prizes (deliver_one ask j db) ! i = prizes db ! i" using fold_other [of i "[j]" ask db] False by simp
    moreover have "pz_attempts (prizes (fold (deliver_one ask) js (deliver_one ask j db)) ! i) \<le> pz_attempts (prizes (deliver_one ask j db) ! i) + 1"
      using Cons.prems False one by (intro Cons.IH) auto
    ultimately show ?thesis by simp
  qed
qed simp

section \<open>A concrete table\<close>

definition empty_world :: prize_world where
  "empty_world = \<lparr>wd = \<lparr>prizes = [], prize_packages = (\<lambda>_. None), phone_of = (\<lambda>_. Some ''251911000000''), paid_by_telebirr = (\<lambda>_. True),
     campaign_dates = (\<lambda>_. None), offering_id = ''G1'', prize_now = 0, told = []\<rparr>, instructed = [], provisioned = []\<rparr>"

lemma empty_world_ok: "prizes_ok fate empty_world" "awards_ok (wd empty_world)"
  by (simp_all add: empty_world_def prizes_ok_def awards_ok_def ids_of_def bundles_of_def)

definition weekly_story :: "prize_event list" where
  "weekly_story = [Award (Some 3) 7 ''weekly'' None, Deliver 0 None (Accepted ''a'' ''b''), Callback ''a'' False [] ''no'',
     Retry 0 None (Accepted ''c'' ''d''), Deliver 0 None (Accepted ''e'' ''f''), Callback ''a'' False [] ''no'', Callback ''c'' True ''t'' []]"

section \<open>Properties\<close>



text \<open>One prize per winner, tier and campaign, at the published amount. After any events, awarding a known tier names a
  row of exactly that winner, tier and campaign that pays the published amount over the published channel; it makes
  a new row exactly when there was none, and an unknown tier raises and records nothing.
\<close>
theorem award_names_the_prize:
  assumes "camp \<noteq> Some 0" and "\<forall>p \<in> set (prizes (wd (run_prizes es empty_world))). pz_campaign p \<noteq> Some 0"
  shows "case award camp winner tier ended (wd (run_prizes es empty_world)) of
      Inl _ \<Rightarrow> tier \<notin> {''daily'', ''weekly'', ''monthly'', ''grand''}
    | Inr (i, created, db') \<Rightarrow> i < length (prizes db') \<and> pz_winner (prizes db' ! i) = winner \<and> pz_tier (prizes db' ! i) = tier \<and>
        pz_campaign (prizes db' ! i) = camp \<and> amount_for tier = Inr (pz_amount (prizes db' ! i)) \<and>
        (created \<longleftrightarrow> \<not> (\<exists>p \<in> set (prizes (wd (run_prizes es empty_world))). pz_winner p = winner \<and> pz_tier p = tier \<and> pz_campaign p = camp)) \<and>
        prizes db' = prizes (wd (run_prizes es empty_world)) @ (if created then [prizes db' ! i] else [])"
proof -
  let ?db = "wd (run_prizes es empty_world)" and ?key = "idempotency_key camp winner tier"
  have ok: "awards_ok ?db" by (rule run_prizes_awards [OF empty_world_ok(2)])
  have same: "pz_key p = Some ?key \<longleftrightarrow> pz_winner p = winner \<and> pz_tier p = tier \<and> pz_campaign p = camp"
    if p: "p \<in> set (prizes ?db)" and sp: "prize_for tier = Inr spec" for p spec
  proof -
    obtain s where "prize_for (pz_tier p) = Inr s" "pz_key p = Some (idempotency_key (pz_campaign p) (pz_winner p) (pz_tier p))"
      using ok p by (auto simp: awards_ok_def)
    then show ?thesis using idempotency_key_inj [OF _ sp, of "pz_tier p" s "pz_campaign p" camp "pz_winner p" winner] assms p by auto
  qed
  show ?thesis
  proof (cases "award camp winner tier ended ?db")
    case (Inl e)
    then have "prize_for tier = Inl e" by (auto simp: award_def bind_result_Inl_iff package_for_def split: option.splits)
    then show ?thesis using Inl by (auto simp: prize_for_def PRIZES_def split: if_splits)
  next
    case (Inr r)
    obtain i created db' where r: "r = (i, created, db')" by (cases r) auto
    have "award camp winner tier ended ?db = Inr (i, created, db')" using Inr r by simp
    then show ?thesis
    proof (cases rule: award_Inr)
      case (old spec)
      note f = find_index_Some [OF old(4)]
      then have "pz_winner (prizes ?db ! i) = winner \<and> pz_tier (prizes ?db ! i) = tier \<and> pz_campaign (prizes ?db ! i) = camp"
        using same [OF nth_mem old(1)] by blast
      moreover have "pz_amount (prizes ?db ! i) = pt_amount spec"
        using ok f old(1) calculation unfolding awards_ok_def by (metis nth_mem sum.inject(2))
      ultimately show ?thesis using Inr r old f by (auto simp: amount_for_def)
    next
      case (new spec)
      have "\<not> (\<exists>p \<in> set (prizes ?db). pz_winner p = winner \<and> pz_tier p = tier \<and> pz_campaign p = camp)"
        using new(5) same [OF _ new(1)] by (auto simp: find_index_None)
      then show ?thesis using Inr r new by (auto simp: amount_for_def new_prize_def)
    qed
  qed
qed

theorem award_names_the_prize_witness:
  "case award (Some 3) 7 ''weekly'' None (wd (run_prizes weekly_story empty_world)) of
     Inl _ \<Rightarrow> False | Inr (i, created, db') \<Rightarrow> i = 0 \<and> \<not> created \<and> amount_for ''weekly'' = Inr (pz_amount (prizes db' ! 0))"
proof -
  have rows: "\<forall>p \<in> set (prizes (wd (run_prizes weekly_story empty_world))). pz_campaign p \<noteq> Some 0"
    and a: "(case award (Some 3) 7 ''weekly'' None (wd (run_prizes weekly_story empty_world)) of
      Inl _ \<Rightarrow> False | Inr (i, created, db') \<Rightarrow> i = 0 \<and> \<not> created)" by code_simp+
  have "(Some 3 :: nat option) \<noteq> Some 0" by simp
  from award_names_the_prize [OF this rows, where winner = 7 and tier = "''weekly''" and ended = None] a show ?thesis by (auto split: sum.splits)
qed

text \<open>C14.
  A scheduled run is a sequence of single deliveries, each on the row as it is then: the first \<open>BATCH_SIZE\<close> prizes
  that are deliverable, by deadline, each attempted once. A prize that is delivered, skipped, in flight or has used
  its attempts is left as it was, so runs alone never attempt a prize more than \<open>MAX_DELIVERY_ATTEMPTS\<close> times.
\<close>
theorem scheduled_run_refines_deliveries:
  assumes "awards_ok db"
  shows "snd (deliver_pending_prizes ask db) = fold (deliver_one ask) (batch_of db) db \<and>
    length (batch_of db) \<le> BATCH_SIZE \<and>
    (\<forall>i < length (prizes db).
       (pz_status (prizes db ! i) \<notin> {P_pending, P_failed} \<or> MAX_DELIVERY_ATTEMPTS \<le> pz_attempts (prizes db ! i) \<longrightarrow>
          prizes (snd (deliver_pending_prizes ask db)) ! i = prizes db ! i) \<and>
       pz_attempts (prizes (snd (deliver_pending_prizes ask db)) ! i) \<le> max MAX_DELIVERY_ATTEMPTS (pz_attempts (prizes db ! i)))"
proof -
  have b: "j < length (prizes db)" if "j \<in> set (batch_of db)" for j using batch_facts(2) [OF that] by (simp add: deliverable_iff)
  have "prizes (fold (deliver_one ask) (batch_of db) db) ! i = prizes db ! i"
    if "pz_status (prizes db ! i) \<notin> {P_pending, P_failed} \<or> MAX_DELIVERY_ATTEMPTS \<le> pz_attempts (prizes db ! i)" for i
    using that batch_facts(2) [of i db] by (intro fold_other) (auto simp: deliverable_iff)
  moreover have "pz_attempts (prizes (fold (deliver_one ask) (batch_of db) db) ! i) \<le> max MAX_DELIVERY_ATTEMPTS (pz_attempts (prizes db ! i))" for i
  proof (cases "i \<in> set (batch_of db)")
    case True
    then have "pz_attempts (prizes db ! i) < MAX_DELIVERY_ATTEMPTS" using batch_facts(2) [OF True] by (simp add: deliverable_iff)
    moreover have "pz_attempts (prizes (fold (deliver_one ask) (batch_of db) db) ! i) \<le> pz_attempts (prizes db ! i) + 1"
      using b by (intro fold_attempts [OF assms batch_facts(1) True]) auto
    ultimately show ?thesis by simp
  qed (simp add: fold_other)
  ultimately show ?thesis using batch_facts(3) by (simp add: run_is_fold)
qed

theorem scheduled_run_refines_deliveries_witness:
  "snd (deliver_pending_prizes (\<lambda>_. Call_raised ''x'') (wd (run_prizes weekly_story empty_world))) =
   fold (deliver_one (\<lambda>_. Call_raised ''x'')) (batch_of (wd (run_prizes weekly_story empty_world))) (wd (run_prizes weekly_story empty_world))"
  using scheduled_run_refines_deliveries [OF run_prizes_awards [OF empty_world_ok(2)], of "\<lambda>_. Call_raised ''x''" weekly_story] by blast

text \<open>
  Two workers that have both read a pending row before either wrote to it: the guards of \<open>deliver\<close> look at what was
  read, so both instruct telebirr.
\<close>
lemma concurrent_deliveries_instruct_twice:
  "let db = wd (exec_prize (Award None 7 ''grand'' None) empty_world); p = prizes db ! 0;
       (ok1, _, _, db1) = deliver p False None (Accepted ''a'' ''b'') 0 db;
       (ok2, _, _, db2) = deliver p False None (Accepted ''c'' ''d'') 0 db1
   in ok1 \<and> ok2 \<and> pz_amount (prizes db2 ! 0) = 300000 \<and> pz_attempts (prizes db2 ! 0) = 2"
  by code_simp

end
