(* ===== verification/Winners.thy ===== *)
theory Winners
  imports Scoring Prizes
begin

text \<open>
  Choosing and paying winners: \<open>WinnerFrequencyRecord\<close>, \<open>Leaderboard\<close>, \<open>WinnerSelection\<close> and
  \<open>SelectedWinner\<close> of \<open>api/models/campaign_extended.py\<close>, the selectors of \<open>api/services/scoring/engine.py\<close>, and the
  scheduled tasks of \<open>api/tasks/leaderboards.py\<close>, joined to the points ledger and to the prizes. A selector is one transaction: an
  exception leaves nothing of it behind. The task that calls it is not one.
\<close>

section \<open>Rows\<close>

record win_record =
  wf_user :: nat
  wf_campaign :: "nat option"
  wf_type :: string
  wf_won_at :: int
  wf_start :: int
  wf_end :: int

record winner_selection =
  ws_campaign :: nat
  ws_type :: string
  ws_at :: int

record selected_winner =
  sw_campaign :: nat \<comment> \<open>the campaign of its selection\<close>
  sw_user :: nat
  sw_rank :: nat
  sw_score :: rat
  sw_method :: string
  sw_at :: int

record board_entry =
  en_user :: nat
  en_rank :: nat
  en_score :: rat
  en_posts :: int

record leaderboard =
  lb_campaign :: nat
  lb_period :: string
  lb_start :: int
  lb_end :: int
  lb_current :: bool
  lb_entries :: "board_entry list"

text \<open>The columns of \<open>UserCampaignStats\<close> that selection and leaderboards use; the others are in the engagement tables.\<close>

record stat_row =
  st_user :: nat
  st_campaign :: nat
  st_total_score :: rat
  st_approved :: int
  st_ranks :: "string \<Rightarrow> nat option" \<comment> \<open>\<open>daily_rank\<close>, \<open>weekly_rank\<close>, \<open>monthly_rank\<close>\<close>
  st_won :: bool
  st_last_win :: "int option"

record winner_db = engage_db +
  campaign_ids :: "nat list"
  own_winner_count :: "nat \<Rightarrow> nat"
  scoring_configs :: "nat \<Rightarrow> scoring_config option"
  win_records :: "win_record list"
  selections :: "winner_selection list"
  selected_winners :: "selected_winner list"
  leaderboards :: "leaderboard list"
  stat_rows :: "stat_row list"
  win_rewards :: winner_points
  announced :: "nat \<Rightarrow> bool"
  prize_tables :: prize_db

section \<open>Periods in UTC\<close>

definition utc_midnight :: "int \<Rightarrow> int" where
  "utc_midnight t = utc_date t * one_day"

definition weekday :: "int \<Rightarrow> int" where
  "weekday t = (utc_date t + 6) mod 7"

definition week_start :: "int \<Rightarrow> int" where
  "week_start t = utc_midnight (t - weekday t * one_day)"

definition month_start :: "int \<Rightarrow> int" where
  "month_start t = first_ordinal (month_of (utc_date t)) * one_day"

definition month_stop :: "int \<Rightarrow> int" where
  "month_stop t = month_start (month_start t + 32 * one_day)"

section \<open>The restriction on winning again\<close>

definition RESTRICTION_DAYS :: int where "RESTRICTION_DAYS = 30"

definition wins_of :: "nat \<Rightarrow> string \<Rightarrow> win_record list \<Rightarrow> win_record list" where
  "wins_of uid ty = filter (\<lambda>r. wf_user r = uid \<and> wf_type r = ty)"

definition limit_for :: "string \<Rightarrow> scoring_config option \<Rightarrow> int" where
  "limit_for ty config =
     (case config of None \<Rightarrow> 1
      | Some c \<Rightarrow> if ty = ''daily'' then daily_win_limit_per_month c
                 else if ty = ''weekly'' then weekly_win_limit_per_month c
                 else if ty = ''monthly'' then monthly_win_limit_per_period c
                 else grand_win_limit_per_campaign c)"

definition in_cooldown :: "nat \<Rightarrow> string \<Rightarrow> scoring_config option \<Rightarrow> int \<Rightarrow> win_record list \<Rightarrow> bool" where
  "in_cooldown uid ty config t records =
     (let days = (case config of None \<Rightarrow> 0 | Some c \<Rightarrow> win_cooldown_days (cfg_daily c))
      in ty = ''daily'' \<and> days \<noteq> 0 \<and>
         (case sort_desc wf_won_at (wins_of uid ''daily'' records) of [] \<Rightarrow> False | last_win # _ \<Rightarrow> wf_won_at last_win > t - days * one_day))"

definition check_frequency_eligibility :: "nat \<Rightarrow> string \<Rightarrow> nat option \<Rightarrow> 'a winner_db_scheme \<Rightarrow> bool \<times> int \<times> int" where
  "check_frequency_eligibility uid ty camp db =
     (let config = (case camp of None \<Rightarrow> None | Some c \<Rightarrow> scoring_configs db c); limit = limit_for ty config
      in if ty = ''grand'' then
           (let wins = filter (\<lambda>r. camp = None \<or> wf_campaign r = camp) (wins_of uid ''grand'' (win_records db));
                n = int (length wins)
            in (n < limit, n, limit))
         else if ty \<notin> {''daily'', ''weekly'', ''monthly''} then (True, 0, 1)
         else
           (let window_start = now db - RESTRICTION_DAYS * one_day;
                n = int (length (filter (\<lambda>r. window_start \<le> wf_won_at r) (wins_of uid ty (win_records db))))
            in if limit \<le> n then (False, n, limit)
               else if in_cooldown uid ty config (now db) (win_records db) then (False, n, limit)
               else (True, n, limit)))"

definition win_period :: "string \<Rightarrow> int \<Rightarrow> (int \<times> int) result" where
  "win_period ty t =
     (if ty = ''daily'' then Inr (utc_midnight t, utc_midnight t + one_day)
      else if ty = ''weekly'' then Inr (week_start t, week_start t + 7 * one_day)
      else if ty = ''monthly'' then Inr (month_start t, month_stop t)
      else if ty = ''grand'' then Inr (utc_midnight t, t + 365 * one_day)
      else Inl (IntegrityError ''period_start''))"

definition record_win :: "nat \<Rightarrow> string \<Rightarrow> nat option \<Rightarrow> 'a winner_db_scheme \<Rightarrow> (bool \<times> 'a winner_db_scheme) result" where
  "record_win uid ty camp db =
     bind_result (win_period ty (now db)) (\<lambda>(s, e).
       if \<exists>r \<in> set (wins_of uid ty (win_records db)). wf_start r = s then Inr (False, db)
       else Inr (True, db\<lparr>win_records := win_records db @
         [\<lparr>wf_user = uid, wf_campaign = camp, wf_type = ty, wf_won_at = now db, wf_start = s, wf_end = e\<rparr>]\<rparr>))"

section \<open>Selecting\<close>

record winner =
  wn_rank :: nat
  wn_user :: nat
  wn_score :: rat
  wn_method :: string
  wn_points :: int

definition engine :: "entry_campaign \<Rightarrow> 'a winner_db_scheme \<Rightarrow> 'a winner_db_scheme" where
  "engine c db =
     (case scoring_configs db (cp_id c) of
        Some _ \<Rightarrow> db
      | None \<Rightarrow> db\<lparr>scoring_configs := (scoring_configs db)(cp_id c \<mapsto> default_scoring_config)\<rparr>)"

definition documented_winner_count :: "entry_campaign \<Rightarrow> 'a winner_db_scheme \<Rightarrow> nat" where
  "documented_winner_count c db =
     (case map_of PRIZES (cp_type c) of None \<Rightarrow> own_winner_count db (cp_id c) | Some p \<Rightarrow> winner_count p)"

definition qualifies :: "nat \<Rightarrow> string \<Rightarrow> entry_campaign \<Rightarrow> 'a winner_db_scheme \<Rightarrow> bool result" where
  "qualifies uid ty c db =
     bind_result (campaign_eligibility (Some uid) (competition.truncate c) (post_scores db)) (\<lambda>e.
       if \<not> eligible e then Inr False else Inr (fst (check_frequency_eligibility uid ty (Some (cp_id c)) db)))"

fun filter_result :: "('a \<Rightarrow> bool result) \<Rightarrow> 'a list \<Rightarrow> 'a list result" where
  "filter_result f [] = Inr []"
| "filter_result f (x # xs) =
     bind_result (f x) (\<lambda>b. bind_result (filter_result f xs) (\<lambda>ys. Inr (if b then x # ys else ys)))"

definition recent_win :: "nat \<Rightarrow> entry_campaign \<Rightarrow> 'a winner_db_scheme \<Rightarrow> bool" where
  "recent_win uid c db =
     (let config = (case scoring_configs db (cp_id c) of None \<Rightarrow> default_scoring_config | Some k \<Rightarrow> k);
          cutoff = now db - win_cooldown_days (cfg_daily config) * one_day
      in list_ex (\<lambda>w. sw_campaign w = cp_id c \<and> sw_user w = uid \<and> cutoff \<le> sw_at w) (selected_winners db))"

definition find_stat :: "nat \<Rightarrow> nat \<Rightarrow> 'a winner_db_scheme \<Rightarrow> nat option" where
  "find_stat uid cid db = find_index (\<lambda>s. st_user s = uid \<and> st_campaign s = cid) (stat_rows db)"

definition won_this_cycle :: "nat \<Rightarrow> nat \<Rightarrow> 'a winner_db_scheme \<Rightarrow> bool" where
  "won_this_cycle uid cid db = (case find_stat uid cid db of None \<Rightarrow> False | Some i \<Rightarrow> st_won (stat_rows db ! i))"

definition new_stat :: "nat \<Rightarrow> nat \<Rightarrow> stat_row" where
  "new_stat uid cid =
     \<lparr>st_user = uid, st_campaign = cid, st_total_score = 0, st_approved = 0, st_ranks = (\<lambda>_. None), st_won = False, st_last_win = None\<rparr>"

definition mark_won :: "nat \<Rightarrow> nat \<Rightarrow> 'a winner_db_scheme \<Rightarrow> 'a winner_db_scheme" where
  "mark_won uid cid db =
     (let upd = (\<lambda>s. s\<lparr>st_won := True, st_last_win := Some (now db)\<rparr>)
      in case find_stat uid cid db of
           Some i \<Rightarrow> db\<lparr>stat_rows := (stat_rows db)[i := upd (stat_rows db ! i)]\<rparr>
         | None \<Rightarrow> db\<lparr>stat_rows := stat_rows db @ [upd (new_stat uid cid)]\<rparr>)"

text \<open>The body of the four award loops; only the weekly and the monthly one mark the cycle.\<close>

definition award_win :: "string \<Rightarrow> int \<Rightarrow> nat \<Rightarrow> entry_campaign \<Rightarrow> 'a winner_db_scheme \<Rightarrow> 'a winner_db_scheme result" where
  "award_win ty reward uid c db =
     bind_result (add_points uid reward (Some P_points_earned_total) (Some ''campaign_reward'') ([], []) db) (\<lambda>db1.
     bind_result (record_win uid ty (Some (cp_id c)) db1) (\<lambda>(_, db2).
       Inr (if ty \<in> {''weekly'', ''monthly''} then mark_won uid (cp_id c) db2 else db2)))"

fun award_places ::
  "string \<Rightarrow> string \<Rightarrow> int \<Rightarrow> nat \<Rightarrow> board_entry list \<Rightarrow> entry_campaign \<Rightarrow> 'a winner_db_scheme \<Rightarrow>
   (winner list \<times> 'a winner_db_scheme) result" where
  "award_places ty method reward idx [] c db = Inr ([], db)"
| "award_places ty method reward idx (e # es) c db =
     bind_result (award_win ty reward (en_user e) c db) (\<lambda>db1.
     bind_result (award_places ty method reward (idx + 1) es c db1) (\<lambda>(ws, db2).
       Inr (\<lparr>wn_rank = idx, wn_user = en_user e, wn_score = en_score e, wn_method = method, wn_points = reward\<rparr> # ws, db2)))"

definition select_top ::
  "string \<Rightarrow> string \<Rightarrow> int \<Rightarrow> (board_entry \<Rightarrow> bool result) \<Rightarrow> nat option \<Rightarrow> board_entry list \<Rightarrow> entry_campaign \<Rightarrow> 'a winner_db_scheme \<Rightarrow>
   (winner list \<times> 'a winner_db_scheme) result" where
  "select_top ty method reward test quota entries c db =
     (let n = (case quota of None \<Rightarrow> documented_winner_count c db | Some n \<Rightarrow> n)
      in bind_result (filter_result test entries) (\<lambda>candidates.
           award_places ty method reward 1 (take n (sort_desc en_score candidates)) c db))"

definition select_daily_winners where
  "select_daily_winners entries quota c (db :: 'a winner_db_scheme) =
     select_top ''daily'' ''top_scorer'' (daily_winner_points (win_rewards db))
       (\<lambda>e. if recent_win (en_user e) c db then Inr False else qualifies (en_user e) ''daily'' c db) quota entries c db"

definition select_weekly_winners where
  "select_weekly_winners entries quota c (db :: 'a winner_db_scheme) =
     select_top ''weekly'' ''top_scorer'' (weekly_winner_points (win_rewards db))
       (\<lambda>e. if won_this_cycle (en_user e) (cp_id c) db then Inr False else qualifies (en_user e) ''weekly'' c db) quota entries c db"

definition select_monthly_winners where
  "select_monthly_winners entries quota c (db :: 'a winner_db_scheme) =
     select_top ''monthly'' ''top_scorer'' (monthly_winner_points (win_rewards db))
       (\<lambda>e. if won_this_cycle (en_user e) (cp_id c) db then Inr False else qualifies (en_user e) ''monthly'' c db) quota entries c db"

definition select_grand_winners where
  "select_grand_winners entries quota c (db :: 'a winner_db_scheme) =
     select_top ''grand'' ''final_score'' (grand_winner_points (win_rewards db)) (\<lambda>e. qualifies (en_user e) ''grand'' c db) quota entries c db"

definition select_winners ::
  "board_entry list \<Rightarrow> nat option \<Rightarrow> entry_campaign \<Rightarrow> 'a winner_db_scheme \<Rightarrow> (winner list \<times> 'a winner_db_scheme) result" where
  "select_winners entries quota c db =
     (let ty = cp_type c
      in if ty = ''daily'' then select_daily_winners entries quota c db
         else if ty = ''weekly'' then select_weekly_winners entries quota c db
         else if ty = ''monthly'' then select_monthly_winners entries quota c db
         else if ty = ''grand'' then select_grand_winners entries quota c db
         else Inl (ValueError (''Unknown campaign type: '' @ ty, [])))"

text \<open>
  The finalists of a grand campaign. \<open>floor_share\<close> is the product of the number of entries and the percentage divided by
  one hundred, computed in floating point and truncated. The points are credited one by one, outside any transaction.
\<close>

fun credit_finalists :: "int \<Rightarrow> board_entry list \<Rightarrow> 'a winner_db_scheme \<Rightarrow> exn option \<times> 'a winner_db_scheme" where
  "credit_finalists reward [] db = (None, db)"
| "credit_finalists reward (e # es) db =
     (case add_points (en_user e) reward (Some P_points_earned_total) (Some ''campaign_reward'') ([], []) db of
        Inl x \<Rightarrow> (Some x, db)
      | Inr db1 \<Rightarrow> credit_finalists reward es db1)"

definition select_grand_finalists ::
  "(nat \<Rightarrow> int \<Rightarrow> int) \<Rightarrow> int \<Rightarrow> board_entry list \<Rightarrow> 'a winner_db_scheme \<Rightarrow> (exn + winner list) \<times> 'a winner_db_scheme" where
  "select_grand_finalists floor_share percentage entries db =
     (let n = nat (max 1 (floor_share (length entries) percentage));
          finalists = take n (sort_desc en_score entries);
          reward = grand_finalist_points (win_rewards db)
      in case credit_finalists reward finalists db of
           (Some x, db1) \<Rightarrow> (Inl x, db1)
         | (None, db1) \<Rightarrow> (Inr (map (\<lambda>(i, e). \<lparr>wn_rank = i + 1, wn_user = en_user e, wn_score = en_score e, wn_method = [],
             wn_points = reward\<rparr>) (enumerate 0 finalists)), db1))"

section \<open>Leaderboards\<close>

definition period_bounds :: "string \<Rightarrow> int \<Rightarrow> int \<times> int" where
  "period_bounds ty t =
     (if ty = ''daily'' then (utc_midnight (t - one_day), utc_midnight (t - one_day) + one_day)
      else if ty = ''weekly'' then (week_start t, week_start t + 7 * one_day)
      else (month_start t, month_stop t))"

definition is_board :: "nat \<Rightarrow> string \<Rightarrow> leaderboard \<Rightarrow> bool" where
  "is_board cid ty b \<longleftrightarrow> lb_campaign b = cid \<and> lb_period b = ty"

definition standing_stats :: "nat \<Rightarrow> 'a winner_db_scheme \<Rightarrow> stat_row list" where
  "standing_stats cid db = sort_desc st_total_score (filter (\<lambda>s. st_campaign s = cid) (stat_rows db))"

definition entry_of :: "nat \<times> stat_row \<Rightarrow> board_entry" where
  "entry_of p = \<lparr>en_user = st_user (snd p), en_rank = fst p, en_score = st_total_score (snd p), en_posts = st_approved (snd p)\<rparr>"

definition set_rank :: "string \<Rightarrow> nat \<Rightarrow> board_entry list \<Rightarrow> stat_row \<Rightarrow> stat_row" where
  "set_rank ty cid entries s =
     (if st_campaign s \<noteq> cid then s
      else case find_index (\<lambda>e. en_user e = st_user s) entries of
        None \<Rightarrow> s
      | Some i \<Rightarrow> s\<lparr>st_ranks := (st_ranks s)(ty := Some (en_rank (entries ! i)))\<rparr>)"

definition generate_for :: "string \<Rightarrow> nat \<Rightarrow> 'a winner_db_scheme \<Rightarrow> 'a winner_db_scheme" where
  "generate_for ty cid db =
     (let (s, e) = period_bounds ty (now db)
      in if list_ex (\<lambda>b. is_board cid ty b \<and> lb_start b = s) (leaderboards db) then db
         else (let old = map (\<lambda>b. if is_board cid ty b then b\<lparr>lb_current := False\<rparr> else b) (leaderboards db);
                   entries = map entry_of (enumerate 1 (standing_stats cid db))
               in db\<lparr>leaderboards := old @ [\<lparr>lb_campaign = cid, lb_period = ty, lb_start = s, lb_end = e, lb_current = True,
                        lb_entries = entries\<rparr>],
                     stat_rows := map (set_rank ty cid entries) (stat_rows db)\<rparr>))"

definition BOARD_TYPES :: "(string \<times> string list) list" where
  "BOARD_TYPES =
     [(''daily'', [''daily'', ''weekly'', ''monthly'', ''grand'']), (''weekly'', [''weekly'', ''monthly'', ''grand'']),
      (''monthly'', [''monthly'', ''grand''])]"

definition generate_period_leaderboard :: "string \<Rightarrow> string list \<Rightarrow> 'a winner_db_scheme \<Rightarrow> 'a winner_db_scheme" where
  "generate_period_leaderboard ty types db =
     fold (generate_for ty)
       (filter (\<lambda>i. case entry_campaigns db i of None \<Rightarrow> False | Some c \<Rightarrow> ec_status c = ''active'' \<and> cp_type c \<in> set types) (campaign_ids db)) db"

definition generate_leaderboards :: "string \<Rightarrow> 'a winner_db_scheme \<Rightarrow> 'a winner_db_scheme" where
  "generate_leaderboards ty db =
     (case map_of BOARD_TYPES ty of None \<Rightarrow> db | Some types \<Rightarrow> generate_period_leaderboard ty types db)"

definition latest_board :: "(leaderboard \<Rightarrow> bool) \<Rightarrow> 'a winner_db_scheme \<Rightarrow> leaderboard option" where
  "latest_board P db = (case sort_desc lb_start (filter P (leaderboards db)) of [] \<Rightarrow> None | b # _ \<Rightarrow> Some b)"

fun first_board :: "string list \<Rightarrow> nat \<Rightarrow> 'a winner_db_scheme \<Rightarrow> leaderboard option" where
  "first_board [] cid db = latest_board (\<lambda>b. lb_campaign b = cid) db"
| "first_board (ty # tys) cid db =
     (case latest_board (is_board cid ty) db of Some b \<Rightarrow> Some b | None \<Rightarrow> first_board tys cid db)"

definition leaderboard_for :: "entry_campaign \<Rightarrow> 'a winner_db_scheme \<Rightarrow> leaderboard option" where
  "leaderboard_for c db =
     first_board ((if cp_type c \<in> {''daily'', ''weekly'', ''monthly''} then [cp_type c] else []) @ [''overall'']) (cp_id c) db"

section \<open>Deciding a campaign that has ended\<close>

definition selection_type :: "entry_campaign \<Rightarrow> string" where
  "selection_type c = (if cp_type c \<in> {''daily'', ''weekly'', ''monthly''} then cp_type c else ''grand'')"

definition selected_row :: "entry_campaign \<Rightarrow> int \<Rightarrow> winner \<Rightarrow> selected_winner" where
  "selected_row c t w =
     \<lparr>sw_campaign = cp_id c, sw_user = wn_user w, sw_rank = wn_rank w, sw_score = wn_score w, sw_method = wn_method w, sw_at = t\<rparr>"

definition claim_completed :: "entry_campaign \<Rightarrow> 'a winner_db_scheme \<Rightarrow> bool \<times> 'a winner_db_scheme" where
  "claim_completed c db =
     (let (claimed, table) = claim_transition ec_status (\<lambda>r. r\<lparr>ec_status := ''completed''\<rparr>) [''active''] (cp_id c) (entry_campaigns db)
      in (claimed, if claimed then db\<lparr>entry_campaigns := table, announced := (announced db)(cp_id c := True)\<rparr> else db))"

definition store_winners :: "entry_campaign \<Rightarrow> winner list \<Rightarrow> 'a winner_db_scheme \<Rightarrow> 'a winner_db_scheme" where
  "store_winners c ws db =
     db\<lparr>selections := selections db @ [\<lparr>ws_campaign = cp_id c, ws_type = selection_type c, ws_at = now db\<rparr>],
        selected_winners := selected_winners db @ map (selected_row c (now db)) ws\<rparr>"

definition owe_prizes :: "entry_campaign \<Rightarrow> winner list \<Rightarrow> 'a winner_db_scheme \<Rightarrow> 'a winner_db_scheme result" where
  "owe_prizes c ws db =
     bind_result (award_all (Some (cp_id c)) (map wn_user ws) (selection_type c) (map_option instant (cp_deadline c))
         ((prize_tables db)\<lparr>prize_now := now db\<rparr>)) (\<lambda>(_, t).
       Inr (db\<lparr>prize_tables := t\<rparr>))"

text \<open>One turn of the loop: the exception it raised, if any, and what the database holds then.\<close>

definition decide_campaign :: "entry_campaign \<Rightarrow> 'a winner_db_scheme \<Rightarrow> exn option \<times> 'a winner_db_scheme" where
  "decide_campaign c db =
     (case leaderboard_for c db of
        None \<Rightarrow> (None, db)
      | Some b \<Rightarrow>
          (let (claimed, db1) = claim_completed c db
           in if \<not> claimed then (None, db)
              else (let db2 = engine c db1
                    in case select_winners (sort_key en_rank (lb_entries b)) None c db2 of
                         Inl x \<Rightarrow> (Some x, db2)
                       | Inr (ws, db3) \<Rightarrow>
                           (let db4 = store_winners c ws db3
                            in case owe_prizes c ws db4 of Inl x \<Rightarrow> (Some x, db4) | Inr db5 \<Rightarrow> (None, db5)))))"

definition has_ended :: "'a winner_db_scheme \<Rightarrow> entry_campaign \<Rightarrow> bool" where
  "has_ended db c \<longleftrightarrow> ec_status c = ''active'' \<and> (case cp_deadline c of None \<Rightarrow> False | Some d \<Rightarrow> instant d < now db) \<and>
     \<not> list_ex (\<lambda>s. ws_campaign s = cp_id c) (selections db)"

definition ended_campaigns :: "'a winner_db_scheme \<Rightarrow> entry_campaign list" where
  "ended_campaigns db = filter (has_ended db) (List.map_filter (entry_campaigns db) (campaign_ids db))"

fun decide_each :: "entry_campaign list \<Rightarrow> 'a winner_db_scheme \<Rightarrow> exn option \<times> 'a winner_db_scheme" where
  "decide_each [] db = (None, db)"
| "decide_each (c # cs) db =
     (case decide_campaign c db of (Some x, db1) \<Rightarrow> (Some x, db1) | (None, db1) \<Rightarrow> decide_each cs db1)"

definition auto_select_campaign_winners :: "'a winner_db_scheme \<Rightarrow> exn option \<times> 'a winner_db_scheme" where
  "auto_select_campaign_winners db = decide_each (ended_campaigns db) db"

section \<open>What awarding writes\<close>

lemma filter_result_Inr:
  "filter_result f xs = Inr ys \<Longrightarrow> ys = filter (\<lambda>x. f x = Inr True) xs \<and> (\<forall>x \<in> set xs. \<exists>b. f x = Inr b)"
  by (induction xs arbitrary: ys) (auto simp: bind_result_Inr_iff split: if_splits)

definition with_awards :: "'a winner_db_scheme \<Rightarrow> 'a winner_db_scheme \<Rightarrow> 'a winner_db_scheme" where
  "with_awards db db' =
     db\<lparr>profiles := profiles db', point_ledger := point_ledger db', win_records := win_records db', stat_rows := stat_rows db'\<rparr>"

definition only_awards :: "'a winner_db_scheme \<Rightarrow> 'a winner_db_scheme \<Rightarrow> bool" where
  "only_awards db db' \<longleftrightarrow> with_awards db db' = db'"

lemma with_awards_frame [simp]:
  "now (with_awards db db') = now db" "scoring_configs (with_awards db db') = scoring_configs db" "selections (with_awards db db') = selections db"
  "selected_winners (with_awards db db') = selected_winners db" "prize_tables (with_awards db db') = prize_tables db"
  "leaderboards (with_awards db db') = leaderboards db" "entry_campaigns (with_awards db db') = entry_campaigns db"
  "campaign_ids (with_awards db db') = campaign_ids db" "post_scores (with_awards db db') = post_scores db"
  "announced (with_awards db db') = announced db" "win_rewards (with_awards db db') = win_rewards db"
  by (simp_all add: with_awards_def)

lemma only_awards_frame:
  assumes "only_awards db db'"
  shows "now db' = now db" "scoring_configs db' = scoring_configs db" "selections db' = selections db"
    "selected_winners db' = selected_winners db" "prize_tables db' = prize_tables db" "leaderboards db' = leaderboards db"
    "entry_campaigns db' = entry_campaigns db" "campaign_ids db' = campaign_ids db" "post_scores db' = post_scores db"
    "announced db' = announced db" "win_rewards db' = win_rewards db"
  using assms with_awards_frame [of db db'] by (simp_all add: only_awards_def)

lemma only_awards_refl [simp]: "only_awards db db"
  by (simp add: only_awards_def with_awards_def)

lemma only_awards_trans:
  assumes "only_awards a b" "only_awards b c"
  shows "only_awards a c"
proof -
  have "with_awards (with_awards a b) c = with_awards a c" by (simp add: with_awards_def)
  then show ?thesis using assms by (simp add: only_awards_def)
qed

lemma add_points_writes:
  assumes "add_points uid n (Some P_points_earned_total) r d db = Inr db'"
  shows "\<exists>p l. db' = db\<lparr>profiles := p, point_ledger := l\<rparr>"
    "points_of db' u = points_of db u + (if u = uid then n else 0)" "0 < n"
proof -
  have a: "apply_delta uid P_points n (Some P_points_earned_total) r d db = Inr db'" and n: "0 < n"
    using assms by (auto simp: add_points_def split: if_splits)
  then show "\<exists>p l. db' = db\<lparr>profiles := p, point_ledger := l\<rparr>" and "0 < n"
    by (auto simp: apply_delta_def Let_def bind_result_Inr_iff split: if_splits)
  show "points_of db' u = points_of db u + (if u = uid then n else 0)"
    using apply_delta_points(1) [OF a] by (simp add: is_total_def)
qed

lemma record_win_writes:
  assumes "record_win uid ty camp db = Inr (b, db')"
  obtains s e where "win_period ty (now db) = Inr (s, e)"
    "db' = db\<lparr>win_records := win_records db @ (if b then [\<lparr>wf_user = uid, wf_campaign = camp, wf_type = ty, wf_won_at = now db,
       wf_start = s, wf_end = e\<rparr>] else [])\<rparr>"
    "b \<longleftrightarrow> \<not> (\<exists>r \<in> set (wins_of uid ty (win_records db)). wf_start r = s)"
proof -
  obtain s e where w: "win_period ty (now db) = Inr (s, e)" using assms by (auto simp: record_win_def bind_result_Inr_iff)
  show thesis
  proof (cases "\<exists>r \<in> set (wins_of uid ty (win_records db)). wf_start r = s")
    case True
    then show thesis using assms w by (intro that [of s e]) (auto simp: record_win_def)
  next
    case False
    then show thesis using assms w by (intro that [of s e]) (auto simp: record_win_def)
  qed
qed

lemma mark_won_writes: "\<exists>s. mark_won uid cid db = db\<lparr>stat_rows := s\<rparr>"
  by (auto simp: mark_won_def Let_def split: option.split)

lemma mark_won_keeps [simp]:
  "win_records (mark_won uid cid db) = win_records db" "profiles (mark_won uid cid db) = profiles db" "now (mark_won uid cid db) = now db"
  by (simp_all add: mark_won_def Let_def split: option.split)

lemma award_win_writes:
  assumes "award_win ty reward uid c db = Inr db'"
  obtains s e where "only_awards db db'" "win_period ty (now db) = Inr (s, e)" "0 < reward"
    "\<And>u. points_of db' u = points_of db u + (if u = uid then reward else 0)"
    "win_records db' = win_records db @ (if \<exists>r \<in> set (wins_of uid ty (win_records db)). wf_start r = s then [] else
       [\<lparr>wf_user = uid, wf_campaign = Some (cp_id c), wf_type = ty, wf_won_at = now db, wf_start = s, wf_end = e\<rparr>])"
proof -
  obtain db1 b db2 where 1: "add_points uid reward (Some P_points_earned_total) (Some ''campaign_reward'') ([], []) db = Inr db1"
    and 2: "record_win uid ty (Some (cp_id c)) db1 = Inr (b, db2)"
    and 3: "db' = (if ty \<in> {''weekly'', ''monthly''} then mark_won uid (cp_id c) db2 else db2)"
    using assms by (auto simp: award_win_def bind_result_Inr_iff)
  obtain p l where db1: "db1 = db\<lparr>profiles := p, point_ledger := l\<rparr>" using add_points_writes(1) [OF 1] by blast
  obtain s e where w: "win_period ty (now db1) = Inr (s, e)"
    "db2 = db1\<lparr>win_records := win_records db1 @ (if b then [\<lparr>wf_user = uid, wf_campaign = Some (cp_id c), wf_type = ty, wf_won_at = now db1,
       wf_start = s, wf_end = e\<rparr>] else [])\<rparr>"
    "b \<longleftrightarrow> \<not> (\<exists>r \<in> set (wins_of uid ty (win_records db1)). wf_start r = s)"
    using record_win_writes [OF 2] by blast
  obtain t where m: "mark_won uid (cp_id c) db2 = db2\<lparr>stat_rows := t\<rparr>" using mark_won_writes by blast
  have "only_awards db db1" by (simp add: only_awards_def with_awards_def db1)
  moreover have "only_awards db1 db2" by (simp add: only_awards_def with_awards_def w(2))
  moreover have "only_awards db2 db'" by (simp add: 3 m only_awards_def with_awards_def)
  ultimately have "only_awards db db'" by (blast intro: only_awards_trans)
  moreover have "points_of db' u = points_of db u + (if u = uid then reward else 0)" for u
  proof -
    have "points_of db' u = points_of db1 u" using w(2) by (simp add: 3 points_of_def)
    then show ?thesis using add_points_writes(2) [OF 1] by simp
  qed
  ultimately show thesis using that [of s e] w db1 3 add_points_writes(3) [OF 1] by simp
qed

lemma award_places_writes:
  assumes "award_places ty m reward idx es c db = Inr (ws, db')" "distinct (map en_user es)"
  shows "only_awards db db' \<and> map wn_user ws = map en_user es \<and> map wn_rank ws = [idx..<idx + length es] \<and>
    map wn_score ws = map en_score es \<and> list_all (\<lambda>w. wn_points w = reward) ws \<and>
    (\<forall>u. points_of db' u = points_of db u + (if u \<in> en_user ` set es then reward else 0)) \<and>
    (\<exists>new. win_records db' = win_records db @ new \<and>
      (\<forall>r \<in> set new. wf_user r \<in> en_user ` set es \<and> wf_type r = ty \<and> wf_won_at r = now db \<and>
         win_period ty (now db) = Inr (wf_start r, wf_end r)) \<and>
      (\<forall>s e. win_period ty (now db) = Inr (s, e) \<longrightarrow> (\<forall>x \<in> set es.
         (\<forall>r \<in> set (wins_of (en_user x) ty (win_records db)). wf_start r \<noteq> s) \<longrightarrow> (\<exists>r \<in> set new. wf_user r = en_user x))))"
  using assms
proof (induction es arbitrary: idx db ws)
  case Nil
  then show ?case by auto
next
  case (Cons x xs)
  obtain db1 vs where 1: "award_win ty reward (en_user x) c db = Inr db1"
    and 2: "award_places ty m reward (idx + 1) xs c db1 = Inr (vs, db')"
    and ws: "ws = \<lparr>wn_rank = idx, wn_user = en_user x, wn_score = en_score x, wn_method = m, wn_points = reward\<rparr> # vs"
    using Cons.prems(1) by (auto simp: bind_result_Inr_iff)
  obtain s e where a: "only_awards db db1" "win_period ty (now db) = Inr (s, e)"
    "\<And>u. points_of db1 u = points_of db u + (if u = en_user x then reward else 0)"
    and r: "win_records db1 = win_records db @ (if \<exists>r \<in> set (wins_of (en_user x) ty (win_records db)). wf_start r = s then [] else
       [\<lparr>wf_user = en_user x, wf_campaign = Some (cp_id c), wf_type = ty, wf_won_at = now db, wf_start = s, wf_end = e\<rparr>])"
    by (rule award_win_writes [OF 1], rule that)
  note f = only_awards_frame [OF a(1)]
  define hd_new where "hd_new = (if \<exists>r \<in> set (wins_of (en_user x) ty (win_records db)). wf_start r = s then [] else
       [\<lparr>wf_user = en_user x, wf_campaign = Some (cp_id c), wf_type = ty, wf_won_at = now db, wf_start = s, wf_end = e\<rparr>])"
  have r: "win_records db1 = win_records db @ hd_new" unfolding hd_new_def by (fact r)
  have hd_rows: "\<forall>r \<in> set hd_new. wf_user r = en_user x \<and> wf_type r = ty \<and> wf_won_at r = now db \<and> wf_start r = s \<and> wf_end r = e"
    by (simp add: hd_new_def)
  have hd_found: "\<exists>r \<in> set hd_new. wf_user r = en_user x"
    if "\<forall>r \<in> set (wins_of (en_user x) ty (win_records db)). wf_start r \<noteq> s"
    using that by (auto simp: hd_new_def)
  have "distinct (map en_user xs)" and new_user: "en_user x \<notin> en_user ` set xs" using Cons.prems(2) by auto
  note ih = Cons.IH [OF 2 this(1)]
  then obtain new where new: "win_records db' = win_records db1 @ new"
      "\<forall>r \<in> set new. wf_user r \<in> en_user ` set xs \<and> wf_type r = ty \<and> wf_won_at r = now db \<and>
         win_period ty (now db) = Inr (wf_start r, wf_end r)"
      "\<forall>y \<in> set xs. (\<forall>r \<in> set (wins_of (en_user y) ty (win_records db1)). wf_start r \<noteq> s) \<longrightarrow> (\<exists>r \<in> set new. wf_user r = en_user y)"
    using a(2) unfolding f(1) by blast
  have same: "wins_of (en_user y) ty (win_records db1) = wins_of (en_user y) ty (win_records db)" if "y \<in> set xs" for y
    using that new_user hd_rows by (auto simp: r wins_of_def filter_empty_conv)
  have c1: "win_records db' = win_records db @ (hd_new @ new)" using new(1) r by simp
  have c2: "\<forall>r \<in> set (hd_new @ new). wf_user r \<in> en_user ` set (x # xs) \<and> wf_type r = ty \<and> wf_won_at r = now db \<and>
         win_period ty (now db) = Inr (wf_start r, wf_end r)" using new(2) a(2) hd_rows by auto
  have c3: "\<forall>y \<in> set (x # xs). (\<forall>r \<in> set (wins_of (en_user y) ty (win_records db)). wf_start r \<noteq> s) \<longrightarrow>
      (\<exists>r \<in> set (hd_new @ new). wf_user r = en_user y)"
  proof (intro ballI impI)
    fix y
    assume y: "y \<in> set (x # xs)" and none: "\<forall>r \<in> set (wins_of (en_user y) ty (win_records db)). wf_start r \<noteq> s"
    show "\<exists>r \<in> set (hd_new @ new). wf_user r = en_user y"
    proof (cases "y \<in> set xs")
      case True
      then have "\<exists>r \<in> set new. wf_user r = en_user y" using new(3) none same by metis
      then show ?thesis by auto
    next
      case False
      then have "y = x" using y by simp
      then show ?thesis using hd_found none by auto
    qed
  qed
  have c4: "only_awards db db'" using a(1) ih only_awards_trans by blast
  have c5: "points_of db' u = points_of db u + (if u \<in> en_user ` set (x # xs) then reward else 0)" for u
    using ih a(3) new_user by auto
  have c6: "map wn_rank ws = [idx..<idx + length (x # xs)]" using ih by (simp add: ws upt_conv_Cons del: upt_Suc)
  have c7: "map wn_user ws = map en_user (x # xs)" "map wn_score ws = map en_score (x # xs)" "list_all (\<lambda>w. wn_points w = reward) ws"
    using ih by (auto simp: ws)
  have c8: "\<forall>s' e'. win_period ty (now db) = Inr (s', e') \<longrightarrow> (\<forall>y \<in> set (x # xs).
      (\<forall>r \<in> set (wins_of (en_user y) ty (win_records db)). wf_start r \<noteq> s') \<longrightarrow> (\<exists>r \<in> set (hd_new @ new). wf_user r = en_user y))"
    unfolding a(2) using c3 by simp
  have "\<exists>new. win_records db' = win_records db @ new \<and>
      (\<forall>r \<in> set new. wf_user r \<in> en_user ` set (x # xs) \<and> wf_type r = ty \<and> wf_won_at r = now db \<and>
         win_period ty (now db) = Inr (wf_start r, wf_end r)) \<and>
      (\<forall>s e. win_period ty (now db) = Inr (s, e) \<longrightarrow> (\<forall>x \<in> set (x # xs).
         (\<forall>r \<in> set (wins_of (en_user x) ty (win_records db)). wf_start r \<noteq> s) \<longrightarrow> (\<exists>r \<in> set new. wf_user r = en_user x)))"
    by (rule exI [of _ "hd_new @ new"], intro conjI, rule c1, rule c2, rule c8)
  then show ?case using c4 c5 c6 c7 by (simp only: simp_thms)
qed

lemmas award_places_frame = award_places_writes [THEN conjunct1]
lemmas award_places_users = award_places_writes [THEN conjunct2, THEN conjunct1]
lemmas award_places_ranks = award_places_writes [THEN conjunct2, THEN conjunct2, THEN conjunct1]
lemmas award_places_scores = award_places_writes [THEN conjunct2, THEN conjunct2, THEN conjunct2, THEN conjunct1]
lemmas award_places_points = award_places_writes [THEN conjunct2, THEN conjunct2, THEN conjunct2, THEN conjunct2, THEN conjunct2, THEN conjunct1]
lemmas award_places_records = award_places_writes [THEN conjunct2, THEN conjunct2, THEN conjunct2, THEN conjunct2, THEN conjunct2, THEN conjunct2]

definition TIERS_OF_WIN :: "string list" where
  "TIERS_OF_WIN = [''daily'', ''weekly'', ''monthly'', ''grand'']"

definition reward_for :: "string \<Rightarrow> winner_points \<Rightarrow> int" where
  "reward_for ty r =
     (if ty = ''daily'' then daily_winner_points r else if ty = ''weekly'' then weekly_winner_points r
      else if ty = ''monthly'' then monthly_winner_points r else grand_winner_points r)"

text \<open>What bars an entry before the two general questions are asked.\<close>

definition already_won :: "entry_campaign \<Rightarrow> 'a winner_db_scheme \<Rightarrow> board_entry \<Rightarrow> bool" where
  "already_won c db e \<longleftrightarrow>
     (if cp_type c = ''daily'' then recent_win (en_user e) c db
      else cp_type c \<noteq> ''grand'' \<and> won_this_cycle (en_user e) (cp_id c) db)"

definition may_win :: "entry_campaign \<Rightarrow> 'a winner_db_scheme \<Rightarrow> board_entry \<Rightarrow> bool" where
  "may_win c db e \<longleftrightarrow> \<not> already_won c db e \<and> qualifies (en_user e) (cp_type c) c db = Inr True"

definition quota_for :: "nat option \<Rightarrow> entry_campaign \<Rightarrow> 'a winner_db_scheme \<Rightarrow> nat" where
  "quota_for quota c db = (case quota of None \<Rightarrow> documented_winner_count c db | Some n \<Rightarrow> n)"

lemma select_winners_Inr:
  assumes "select_winners entries quota c db = Inr (ws, db')"
  obtains m where "cp_type c \<in> set TIERS_OF_WIN"
    "award_places (cp_type c) m (reward_for (cp_type c) (win_rewards db)) 1
       (take (quota_for quota c db) (sort_desc en_score (filter (may_win c db) entries))) c db = Inr (ws, db')"
proof -
  define test where "test = (\<lambda>e. if already_won c db e then Inr False else qualifies (en_user e) (cp_type c) c db)"
  have ty: "cp_type c \<in> set TIERS_OF_WIN"
    using assms by (auto simp: select_winners_def TIERS_OF_WIN_def Let_def split: if_splits)
  have "\<exists>m. select_top (cp_type c) m (reward_for (cp_type c) (win_rewards db)) test quota entries c db = Inr (ws, db')"
    using assms ty unfolding select_winners_def select_daily_winners_def select_weekly_winners_def select_monthly_winners_def
      select_grand_winners_def test_def already_won_def reward_for_def TIERS_OF_WIN_def Let_def
    by (auto split: if_splits cong: if_cong)
  then obtain m where "select_top (cp_type c) m (reward_for (cp_type c) (win_rewards db)) test quota entries c db = Inr (ws, db')" by blast
  then obtain ys where ys: "filter_result test entries = Inr ys"
    and p: "award_places (cp_type c) m (reward_for (cp_type c) (win_rewards db)) 1 (take (quota_for quota c db) (sort_desc en_score ys)) c db = Inr (ws, db')"
    by (auto simp: select_top_def Let_def bind_result_Inr_iff quota_for_def)
  have "test e = Inr True \<longleftrightarrow> may_win c db e" for e by (auto simp: test_def may_win_def)
  then have "ys = filter (may_win c db) entries" using filter_result_Inr [OF ys] by simp
  with p ty that show thesis by blast
qed

lemma take_sort_distinct: "distinct (map f xs) \<Longrightarrow> distinct (map f (take n (sort_desc k (filter P xs))))"
  by (simp add: take_map [symmetric] distinct_map_filter)

lemma take_sort_users: "set (take n (sort_desc k (filter P xs))) \<subseteq> {x \<in> set xs. P x}"
  using set_take_subset [of n "sort_desc k (filter P xs)"] by auto

section \<open>The best entries that qualify\<close>

text \<open>
  C16. The winners of a campaign are the best entries that qualify: a selection that succeeds names at most the documented
  number of different participants, ranked from 1 by falling score, each of whom took part often enough and is allowed to win again;
  every qualifying entry left out scores no more than any winner, and is left out only because the places are taken. Each winner's points
  rise by the configured reward and nobody else's change.
\<close>

theorem best_entries_win:
  assumes "distinct (map en_user entries)" "select_winners entries quota c db = Inr (ws, db')"
  shows "length ws = min (quota_for quota c db) (length (filter (may_win c db) entries)) \<and>
    map wn_rank ws = [1..<1 + length ws] \<and> distinct (map wn_user ws) \<and> descending wn_score ws \<and>
    list_all (\<lambda>w. \<exists>e \<in> set entries. en_user e = wn_user w \<and> en_score e = wn_score w \<and> may_win c db e) ws \<and>
    list_all (\<lambda>e. may_win c db e \<longrightarrow> en_user e \<in> wn_user ` set ws \<or>
      length ws = quota_for quota c db \<and> list_all (\<lambda>w. en_score e \<le> wn_score w) ws) entries \<and>
    (\<forall>u. points_of db' u = points_of db u + (if u \<in> wn_user ` set ws then reward_for (cp_type c) (win_rewards db) else 0))"
proof -
  define es where "es = sort_desc en_score (filter (may_win c db) entries)"
  define n where "n = quota_for quota c db"
  obtain m where p: "award_places (cp_type c) m (reward_for (cp_type c) (win_rewards db)) 1 (take n es) c db = Inr (ws, db')"
    unfolding es_def n_def by (rule select_winners_Inr [OF assms(2)])
  have d: "distinct (map en_user (take n es))" unfolding es_def by (rule take_sort_distinct) (fact assms(1))
  have w: "map wn_user ws = map en_user (take n es)" "map wn_rank ws = [1..<1 + length (take n es)]"
    "map wn_score ws = map en_score (take n es)"
    "\<forall>u. points_of db' u = points_of db u + (if u \<in> en_user ` set (take n es) then reward_for (cp_type c) (win_rewards db) else 0)"
    by (fact award_places_users [OF p d] award_places_ranks [OF p d] award_places_scores [OF p d] award_places_points [OF p d])+
  have len: "length ws = length (take n es)" using w(1) map_eq_imp_length_eq by blast
  have users: "wn_user ` set ws = en_user ` set (take n es)" using w(1) by (metis list.set_map)
  have scores: "wn_score ` set ws = en_score ` set (take n es)" using w(3) by (metis list.set_map)
  have sorted: "descending en_score es" by (simp add: es_def)
  have "descending en_score (take n es)" using sorted by (simp add: descending_def sorted_wrt_take)
  then have "sorted_wrt (\<lambda>x y. y \<le> x) (map wn_score ws)" unfolding w(3) by (simp add: descending_def sorted_wrt_map)
  then have desc: "descending wn_score ws" by (simp add: descending_def sorted_wrt_map)
  have each: "\<exists>e \<in> set entries. en_user e = wn_user w \<and> en_score e = wn_score w \<and> may_win c db e" if "w \<in> set ws" for w
  proof -
    from that obtain i where i: "i < length ws" "ws ! i = w" by (auto simp: in_set_conv_nth)
    have "take n es ! i \<in> set (take n es)" by (rule nth_mem) (use i len in simp)
    then have "take n es ! i \<in> {e \<in> set entries. may_win c db e}" unfolding es_def by (rule subsetD [OF take_sort_users])
    moreover have "map wn_user ws ! i = map en_user (take n es) ! i" "map wn_score ws ! i = map en_score (take n es) ! i"
      unfolding w(1,3) by (rule refl)+
    then have "en_user (take n es ! i) = wn_user w" "en_score (take n es ! i) = wn_score w"
      using i(1) len unfolding i(2) [symmetric] by (simp_all only: nth_map)
    ultimately show ?thesis by blast
  qed
  have out: "en_user e \<in> wn_user ` set ws \<or> length ws = n \<and> list_all (\<lambda>w. en_score e \<le> wn_score w) ws"
    if "e \<in> set entries" "may_win c db e" for e
  proof (cases "e \<in> set (take n es)")
    case True
    then show ?thesis using users by blast
  next
    case False
    moreover have "e \<in> set es" using that by (simp add: es_def)
    ultimately have "e \<in> set (drop n es)" by (metis Un_iff append_take_drop_id set_append)
    then have "\<forall>x \<in> set (take n es). en_score e \<le> en_score x" "n < length es"
      using descending_take_drop [OF sorted] by (auto simp: not_le [symmetric])
    moreover from this have "\<forall>s \<in> wn_score ` set ws. en_score e \<le> s" unfolding scores by blast
    ultimately show ?thesis using len by (auto simp: list_all_iff)
  qed
  have "length es = length (filter (may_win c db) entries)" by (simp add: es_def)
  then show ?thesis unfolding n_def [symmetric] using len w(2,4) d desc each out
    by (simp add: list_all_iff users w(1) min.commute del: upt_Suc)
qed

section \<open>A month between two wins\<close>

lemma qualifies_frequency:
  "qualifies uid ty c db = Inr True \<Longrightarrow> fst (check_frequency_eligibility uid ty (Some (cp_id c)) db)"
  by (auto simp: qualifies_def bind_result_Inr_iff split: if_splits)

definition tight :: "scoring_config \<Rightarrow> bool" where
  "tight c \<longleftrightarrow> daily_win_limit_per_month c \<le> 1 \<and> weekly_win_limit_per_month c \<le> 1"

definition limits_tight :: "'a winner_db_scheme \<Rightarrow> bool" where
  "limits_tight db \<longleftrightarrow> (\<forall>i c. scoring_configs db i = Some c \<longrightarrow> tight c)"

lemma default_tight [simp]: "tight default_scoring_config"
  by (simp add: tight_def default_scoring_config_def)

lemma frequency_old_wins:
  assumes "fst (check_frequency_eligibility uid ty camp db)" "ty = ''daily'' \<or> ty = ''weekly''" "limits_tight db"
    "r \<in> set (wins_of uid ty (win_records db))"
  shows "wf_won_at r < now db - RESTRICTION_DAYS * one_day"
proof (rule ccontr)
  assume "\<not> ?thesis"
  then have "r \<in> set (filter (\<lambda>r. now db - RESTRICTION_DAYS * one_day \<le> wf_won_at r) (wins_of uid ty (win_records db)))"
    (is "r \<in> set ?l") using assms(4) by simp
  then have "1 \<le> length ?l" by (cases ?l) auto
  moreover have "limit_for ty (case camp of None \<Rightarrow> None | Some c \<Rightarrow> scoring_configs db c) \<le> 1"
    using assms(2,3) by (auto simp: limit_for_def limits_tight_def tight_def split: option.split)
  ultimately show False using assms(1,2) by (auto simp: check_frequency_eligibility_def Let_def)
qed

lemma win_period_bounds:
  assumes "win_period ty t = Inr (s, e)" "ty = ''daily'' \<or> ty = ''weekly''"
  shows "s \<le> t \<and> t < s + 7 * one_day"
proof -
  have d: "utc_midnight t \<le> t" "t < utc_midnight t + one_day" for t
    using div_mult_mod_eq [of t one_day] pos_mod_bound [of one_day t] pos_mod_sign [of one_day t]
    by (simp_all add: utc_midnight_def utc_date_def one_day_def one_hour_def)
  have w: "0 \<le> weekday t" "weekday t \<le> 6" using pos_mod_bound [of 7 "utc_date t + 6"] by (simp_all add: weekday_def)
  have "utc_midnight (t - k * one_day) = utc_midnight t - k * one_day" for k
  proof -
    have "(t + (- k) * one_day) div one_day = - k + t div one_day"
      by (rule div_mult_self1) (simp add: one_day_def one_hour_def)
    then have "(t - k * one_day) div one_day = t div one_day - k" by simp
    then show ?thesis by (simp only: utc_midnight_def utc_date_def left_diff_distrib)
  qed
  then show ?thesis using assms d [of t] w
    by (auto simp: win_period_def week_start_def one_day_def one_hour_def split: if_splits)
qed

text \<open>Histories: selections by hand or by the task, leaderboards, and time; the history kept holds every win that was paid.\<close>

type_synonym win_log = "(nat \<times> string \<times> int) list"

datatype winner_op =
    Select nat "board_entry list" "nat option"
  | Decide nat \<comment> \<open>one turn of the task's loop\<close>
  | Boards string
  | Pass nat

fun exec_winner :: "winner_op \<Rightarrow> 'a winner_db_scheme \<times> win_log \<Rightarrow> 'a winner_db_scheme \<times> win_log" where
  "exec_winner (Select cid entries quota) (db, hist) =
     (case entry_campaigns db cid of
        None \<Rightarrow> (db, hist)
      | Some c \<Rightarrow>
          (case select_winners entries quota c (engine c db) of
             Inl _ \<Rightarrow> (engine c db, hist)
           | Inr (ws, db1) \<Rightarrow> (db1, hist @ map (\<lambda>w. (wn_user w, cp_type c, now db)) ws)))"
| "exec_winner (Decide cid) (db, hist) =
     (case entry_campaigns db cid of
        None \<Rightarrow> (db, hist)
      | Some c \<Rightarrow>
          if \<not> has_ended db c then (db, hist)
          else (let db1 = snd (decide_campaign c db)
                in (db1, hist @ map (\<lambda>w. (sw_user w, cp_type c, sw_at w)) (drop (length (selected_winners db)) (selected_winners db1)))))"
| "exec_winner (Boards ty) (db, hist) = (generate_leaderboards ty db, hist)"
| "exec_winner (Pass n) (db, hist) = (db\<lparr>now := now db + int n\<rparr>, hist)"

fun one_entry_each :: "winner_op \<Rightarrow> bool" where
  "one_entry_each (Select cid entries quota) \<longleftrightarrow> distinct (map en_user entries)"
| "one_entry_each _ \<longleftrightarrow> True"

definition short_tier :: "string \<Rightarrow> bool" where
  "short_tier ty \<longleftrightarrow> ty = ''daily'' \<or> ty = ''weekly''"

definition month_apart :: "nat \<times> string \<times> int \<Rightarrow> nat \<times> string \<times> int \<Rightarrow> bool" where
  "month_apart a b \<longleftrightarrow>
     (case (a, b) of ((u, ty, t), (v, ty', t')) \<Rightarrow> u = v \<and> ty = ty' \<and> short_tier ty \<longrightarrow> 30 * one_day < t' - t)"

definition stats_unique :: "'a winner_db_scheme \<Rightarrow> bool" where
  "stats_unique db \<longleftrightarrow> distinct (map (\<lambda>s. (st_user s, st_campaign s)) (stat_rows db))"

definition boards_unique :: "'a winner_db_scheme \<Rightarrow> bool" where
  "boards_unique db \<longleftrightarrow> (\<forall>b \<in> set (leaderboards db). distinct (map en_user (lb_entries b)))"

definition records_dated :: "'a winner_db_scheme \<Rightarrow> bool" where
  "records_dated db \<longleftrightarrow> (\<forall>r \<in> set (win_records db). wf_won_at r \<le> now db \<and>
     (short_tier (wf_type r) \<longrightarrow> win_period (wf_type r) (wf_won_at r) = Inr (wf_start r, wf_end r)))"

definition wins_recorded :: "win_log \<Rightarrow> 'a winner_db_scheme \<Rightarrow> bool" where
  "wins_recorded hist db \<longleftrightarrow> (\<forall>(u, ty, t) \<in> set hist. short_tier ty \<longrightarrow> (\<exists>r \<in> set (wins_of u ty (win_records db)). wf_won_at r = t))"

definition wins_ok :: "'a winner_db_scheme \<times> win_log \<Rightarrow> bool" where
  "wins_ok w \<longleftrightarrow> (case w of (db, hist) \<Rightarrow>
     limits_tight db \<and> stats_unique db \<and> boards_unique db \<and> records_dated db \<and> wins_recorded hist db \<and> sorted_wrt month_apart hist)"

lemma short_cases: "short_tier ty \<longleftrightarrow> ty = ''daily'' \<or> ty = ''weekly''"
  by (simp add: short_tier_def)

lemma may_win_old:
  assumes "may_win c db e" "short_tier (cp_type c)" "limits_tight db" "r \<in> set (wins_of (en_user e) (cp_type c) (win_records db))"
  shows "wf_won_at r < now db - 30 * one_day"
  using frequency_old_wins [OF qualifies_frequency, of "en_user e" "cp_type c" c db r] assms
  by (simp add: may_win_def short_tier_def RESTRICTION_DAYS_def)

text \<open>No win of a winner lies in the period that is being recorded.\<close>

lemma may_win_fresh:
  assumes "may_win c db e" "short_tier (cp_type c)" "limits_tight db" "records_dated db"
    "win_period (cp_type c) (now db) = Inr (s, t)" "r \<in> set (wins_of (en_user e) (cp_type c) (win_records db))"
  shows "wf_start r \<noteq> s"
proof
  assume "wf_start r = s"
  have r: "r \<in> set (win_records db)" "wf_type r = cp_type c" using assms(6) by (auto simp: wins_of_def)
  then have "win_period (cp_type c) (wf_won_at r) = Inr (s, wf_end r)"
    using assms(2,4) \<open>wf_start r = s\<close> by (auto simp: records_dated_def)
  then have "s \<le> wf_won_at r" using win_period_bounds assms(2) short_cases by blast
  moreover have "now db < s + 7 * one_day" using win_period_bounds [OF assms(5)] assms(2) short_cases by blast
  moreover have "wf_won_at r < now db - 30 * one_day" by (rule may_win_old [OF assms(1-3,6)])
  ultimately show False by (simp add: one_day_def one_hour_def)
qed

lemma award_win_stats:
  assumes "award_win ty reward uid c db = Inr db'" "stats_unique db"
  shows "stats_unique db'"
proof -
  obtain db1 b db2 where 1: "add_points uid reward (Some P_points_earned_total) (Some ''campaign_reward'') ([], []) db = Inr db1"
    and 2: "record_win uid ty (Some (cp_id c)) db1 = Inr (b, db2)"
    and 3: "db' = (if ty \<in> {''weekly'', ''monthly''} then mark_won uid (cp_id c) db2 else db2)"
    using assms(1) by (auto simp: award_win_def bind_result_Inr_iff)
  obtain p l where "db1 = db\<lparr>profiles := p, point_ledger := l\<rparr>" using add_points_writes(1) [OF 1] by blast
  then have "stat_rows db1 = stat_rows db" by simp
  moreover have "stat_rows db2 = stat_rows db1" by (rule record_win_writes [OF 2]) simp
  ultimately have u: "stats_unique db2" using assms(2) by (simp add: stats_unique_def)
  have "stats_unique (mark_won uid (cp_id c) db2)"
  proof (cases "find_stat uid (cp_id c) db2")
    case None
    then have "\<forall>x \<in> set (stat_rows db2). st_user x = uid \<longrightarrow> st_campaign x \<noteq> cp_id c"
      by (simp add: find_stat_def find_index_None)
    moreover have "stat_rows (mark_won uid (cp_id c) db2) =
      stat_rows db2 @ [(new_stat uid (cp_id c))\<lparr>st_won := True, st_last_win := Some (now db2)\<rparr>]"
      using None by (simp add: mark_won_def)
    ultimately show ?thesis using u by (auto simp: stats_unique_def new_stat_def)
  next
    case (Some i)
    then have "i < length (stat_rows db2)" unfolding find_stat_def using find_index_Some by blast
    then have "map (\<lambda>s. (st_user s, st_campaign s)) (stat_rows (mark_won uid (cp_id c) db2)) =
      map (\<lambda>s. (st_user s, st_campaign s)) (stat_rows db2)"
      using Some by (auto simp: mark_won_def nth_list_update intro!: nth_equalityI)
    then show ?thesis using u unfolding stats_unique_def by metis
  qed
  then show ?thesis using u by (simp add: 3)
qed

lemma award_places_stats:
  "award_places ty m reward idx es c db = Inr (ws, db') \<Longrightarrow> stats_unique db \<Longrightarrow> stats_unique db'"
proof (induction es arbitrary: idx db ws)
  case (Cons x xs)
  then obtain db1 vs where "award_win ty reward (en_user x) c db = Inr db1"
    "award_places ty m reward (idx + 1) xs c db1 = Inr (vs, db')"
    by (auto simp: bind_result_Inr_iff)
  then show ?case using Cons award_win_stats by blast
qed simp

lemma select_winners_writes:
  assumes "select_winners entries quota c db = Inr (ws, db')" "distinct (map en_user entries)"
  obtains es new where "only_awards db db'" "map wn_user ws = map en_user es" "set es \<subseteq> {e \<in> set entries. may_win c db e}"
    "distinct (map wn_user ws)" "win_records db' = win_records db @ new" "stats_unique db \<Longrightarrow> stats_unique db'"
    "\<forall>r \<in> set new. wf_user r \<in> en_user ` set es \<and> wf_type r = cp_type c \<and> wf_won_at r = now db \<and>
       win_period (cp_type c) (now db) = Inr (wf_start r, wf_end r)"
    "\<forall>s e. win_period (cp_type c) (now db) = Inr (s, e) \<longrightarrow> (\<forall>x \<in> set es.
       (\<forall>r \<in> set (wins_of (en_user x) (cp_type c) (win_records db)). wf_start r \<noteq> s) \<longrightarrow> (\<exists>r \<in> set new. wf_user r = en_user x))"
proof -
  define es where "es = take (quota_for quota c db) (sort_desc en_score (filter (may_win c db) entries))"
  obtain m where p: "award_places (cp_type c) m (reward_for (cp_type c) (win_rewards db)) 1 es c db = Inr (ws, db')"
    unfolding es_def by (rule select_winners_Inr [OF assms(1)])
  have d: "distinct (map en_user es)" unfolding es_def by (rule take_sort_distinct) (fact assms(2))
  have sub: "set es \<subseteq> {e \<in> set entries. may_win c db e}" unfolding es_def by (rule take_sort_users)
  have dw: "distinct (map wn_user ws)" using d unfolding award_places_users [OF p d] .
  have st: "stats_unique db \<Longrightarrow> stats_unique db'" by (rule award_places_stats [OF p])
  from award_places_records [OF p d] obtain new where n: "win_records db' = win_records db @ new"
    "\<forall>r \<in> set new. wf_user r \<in> en_user ` set es \<and> wf_type r = cp_type c \<and> wf_won_at r = now db \<and>
       win_period (cp_type c) (now db) = Inr (wf_start r, wf_end r)"
    "\<forall>s e. win_period (cp_type c) (now db) = Inr (s, e) \<longrightarrow> (\<forall>x \<in> set es.
       (\<forall>r \<in> set (wins_of (en_user x) (cp_type c) (win_records db)). wf_start r \<noteq> s) \<longrightarrow> (\<exists>r \<in> set new. wf_user r = en_user x))"
    by (elim exE conjE)
  show thesis
    by (rule that [OF award_places_frame [OF p d] award_places_users [OF p d] sub dw n(1) st n(2,3)])
qed

lemma sorted_wrt_appendI:
  "sorted_wrt P xs \<Longrightarrow> sorted_wrt P ys \<Longrightarrow> (\<And>x y. x \<in> set xs \<Longrightarrow> y \<in> set ys \<Longrightarrow> P x y) \<Longrightarrow> sorted_wrt P (xs @ ys)"
  by (simp add: sorted_wrt_append)

lemma wins_of_append [simp]: "wins_of u ty (xs @ ys) = wins_of u ty xs @ wins_of u ty ys"
  by (simp add: wins_of_def)

lemma wins_of_mem: "r \<in> set (wins_of u ty xs) \<longleftrightarrow> r \<in> set xs \<and> wf_user r = u \<and> wf_type r = ty"
  by (auto simp: wins_of_def)

lemma different_users_apart:
  "distinct (map wn_user ws) \<Longrightarrow> sorted_wrt month_apart (map (\<lambda>w. (wn_user w, ty, t)) ws)"
  by (induction ws) (auto simp: month_apart_def)

lemma select_keeps_wins:
  assumes ok: "wins_ok (db, hist)" and sel: "select_winners entries quota c db = Inr (ws, db')"
    and d: "distinct (map en_user entries)"
  shows "wins_ok (db', hist @ map (\<lambda>w. (wn_user w, cp_type c, now db)) ws)"
proof -
  have tight: "limits_tight db" and uniq: "stats_unique db" "boards_unique db" and dated: "records_dated db"
    and rec: "wins_recorded hist db" and sorted: "sorted_wrt month_apart hist"
    using ok by (simp_all add: wins_ok_def)
  obtain es new where w: "only_awards db db'" "map wn_user ws = map en_user es" "set es \<subseteq> {e \<in> set entries. may_win c db e}"
    "distinct (map wn_user ws)" "win_records db' = win_records db @ new" "stats_unique db \<Longrightarrow> stats_unique db'"
    and new: "\<forall>r \<in> set new. wf_user r \<in> en_user ` set es \<and> wf_type r = cp_type c \<and> wf_won_at r = now db \<and>
       win_period (cp_type c) (now db) = Inr (wf_start r, wf_end r)"
    and cover: "\<forall>s e. win_period (cp_type c) (now db) = Inr (s, e) \<longrightarrow> (\<forall>x \<in> set es.
       (\<forall>r \<in> set (wins_of (en_user x) (cp_type c) (win_records db)). wf_start r \<noteq> s) \<longrightarrow> (\<exists>r \<in> set new. wf_user r = en_user x))"
    by (rule select_winners_writes [OF sel d], rule that)
  note f = only_awards_frame [OF w(1)]
  have users: "wn_user ` set ws = en_user ` set es" using w(2) by (metis list.set_map)
  have recorded: "\<exists>r \<in> set (wins_of u (cp_type c) (win_records db')). wf_won_at r = now db"
    if short: "short_tier (cp_type c)" and u: "u \<in> wn_user ` set ws" for u
  proof -
    obtain x where x: "x \<in> set es" "u = en_user x" using u users by blast
    then have "may_win c db x" using w(3) by blast
    moreover obtain s t where p: "win_period (cp_type c) (now db) = Inr (s, t)" using short by (auto simp: short_tier_def win_period_def)
    ultimately have "\<forall>r \<in> set (wins_of u (cp_type c) (win_records db)). wf_start r \<noteq> s"
      using may_win_fresh short tight dated x(2) by blast
    then obtain r where "r \<in> set new" "wf_user r = u" using cover p x by blast
    then show ?thesis using new by (auto simp: w(5) wins_of_mem)
  qed
  have "wins_recorded (hist @ map (\<lambda>w. (wn_user w, cp_type c, now db)) ws) db'"
    using rec recorded by (fastforce simp: wins_recorded_def w(5))
  moreover have "records_dated db'" using dated new by (auto simp: records_dated_def w(5) f)
  moreover have "limits_tight db'" "boards_unique db'" "stats_unique db'"
    using tight uniq w(6) by (simp_all add: limits_tight_def boards_unique_def f)
  moreover have "sorted_wrt month_apart (hist @ map (\<lambda>w. (wn_user w, cp_type c, now db)) ws)"
  proof (rule sorted_wrt_appendI [OF sorted different_users_apart [OF w(4)]])
    fix a b
    assume a: "a \<in> set hist" and b: "b \<in> set (map (\<lambda>w. (wn_user w, cp_type c, now db)) ws)"
    obtain u ty t where a_eq: "a = (u, ty, t)" by (cases a)
    obtain v where v: "b = (v, cp_type c, now db)" "v \<in> wn_user ` set ws" using b by auto
    show "month_apart a b"
    proof (cases "u = v \<and> ty = cp_type c \<and> short_tier ty")
      case False
      then show ?thesis by (auto simp: month_apart_def a_eq v(1))
    next
      case True
      then obtain r where r: "r \<in> set (wins_of v (cp_type c) (win_records db))" "wf_won_at r = t"
        using rec a a_eq by (auto simp: wins_recorded_def)
      obtain x where x: "x \<in> set es" "v = en_user x" using v(2) users by blast
      have "may_win c db x" using w(3) x(1) by blast
      then have "wf_won_at r < now db - 30 * one_day" using may_win_old [of c db x r] True tight r(1) x(2) by auto
      then show ?thesis using r(2) by (simp add: month_apart_def a_eq v(1))
    qed
  qed
  ultimately show ?thesis by (simp add: wins_ok_def)
qed

lemma wins_ok_cong:
  assumes "scoring_configs db' = scoring_configs db" "stat_rows db' = stat_rows db" "leaderboards db' = leaderboards db"
    "win_records db' = win_records db" "now db \<le> now db'"
  shows "wins_ok (db, hist) \<Longrightarrow> wins_ok (db', hist)"
  using assms by (fastforce simp: wins_ok_def limits_tight_def stats_unique_def boards_unique_def records_dated_def wins_recorded_def)

lemma engine_keeps [simp]:
  "now (engine c db) = now db" "win_records (engine c db) = win_records db" "stat_rows (engine c db) = stat_rows db"
  "leaderboards (engine c db) = leaderboards db" "selected_winners (engine c db) = selected_winners db"
  "selections (engine c db) = selections db" "entry_campaigns (engine c db) = entry_campaigns db"
  "prize_tables (engine c db) = prize_tables db" "campaign_ids (engine c db) = campaign_ids db"
  by (simp_all add: engine_def split: option.split)

lemma engine_wins: "wins_ok (db, hist) \<Longrightarrow> wins_ok (engine c db, hist)"
  by (auto simp: wins_ok_def limits_tight_def stats_unique_def boards_unique_def records_dated_def wins_recorded_def engine_def
      split: option.split)

lemma claim_completed_keeps:
  assumes "claim_completed c db = (b, db1)"
  shows "now db1 = now db \<and> win_records db1 = win_records db \<and> stat_rows db1 = stat_rows db \<and> leaderboards db1 = leaderboards db \<and>
    selected_winners db1 = selected_winners db \<and> scoring_configs db1 = scoring_configs db \<and> selections db1 = selections db \<and>
    prize_tables db1 = prize_tables db \<and> campaign_ids db1 = campaign_ids db"
  using assms by (auto simp: claim_completed_def split: prod.splits if_splits)

lemma store_winners_keeps [simp]:
  "now (store_winners c ws db) = now db" "win_records (store_winners c ws db) = win_records db"
  "stat_rows (store_winners c ws db) = stat_rows db" "leaderboards (store_winners c ws db) = leaderboards db"
  "scoring_configs (store_winners c ws db) = scoring_configs db" "prize_tables (store_winners c ws db) = prize_tables db"
  "selected_winners (store_winners c ws db) = selected_winners db @ map (selected_row c (now db)) ws"
  "entry_campaigns (store_winners c ws db) = entry_campaigns db" "campaign_ids (store_winners c ws db) = campaign_ids db"
  by (simp_all add: store_winners_def)

lemma owe_prizes_keeps:
  "owe_prizes c ws db = Inr db' \<Longrightarrow> \<exists>t. db' = db\<lparr>prize_tables := t\<rparr>"
  by (auto simp: owe_prizes_def bind_result_Inr_iff)

text \<open>The ways a turn of the loop may end.\<close>

definition is_active_campaign :: "nat \<Rightarrow> 'a winner_db_scheme \<Rightarrow> bool" where
  "is_active_campaign cid db \<longleftrightarrow> (case entry_campaigns db cid of None \<Rightarrow> False | Some r \<Rightarrow> ec_status r = ''active'')"

lemma claim_completed_writes:
  assumes "claim_completed c db = (b, db1)"
  shows "b \<longleftrightarrow> is_active_campaign (cp_id c) db"
    "entry_campaigns db1 = (if b then (entry_campaigns db)(cp_id c := map_option (\<lambda>r. r\<lparr>ec_status := ''completed''\<rparr>) (entry_campaigns db (cp_id c)))
      else entry_campaigns db)"
  using assms by (auto simp: claim_completed_def claim_transition_def is_active_campaign_def split: option.splits if_splits)

lemma decide_cases:
  assumes "decide_campaign c db = (x, db')"
  obtains (skip) "x = None" "db' = db" "leaderboard_for c db = None \<or> \<not> is_active_campaign (cp_id c) db"
  | (failed) b db1 e where "leaderboard_for c db = Some b" "claim_completed c db = (True, db1)" "db' = engine c db1" "x = Some e"
      "select_winners (sort_key en_rank (lb_entries b)) None c (engine c db1) = Inl e"
  | (unpaid) b db1 ws db3 e where "leaderboard_for c db = Some b" "claim_completed c db = (True, db1)"
      "select_winners (sort_key en_rank (lb_entries b)) None c (engine c db1) = Inr (ws, db3)" "x = Some e" "db' = store_winners c ws db3"
      "owe_prizes c ws db' = Inl e"
  | (decided) b db1 ws db3 where "leaderboard_for c db = Some b" "claim_completed c db = (True, db1)"
      "select_winners (sort_key en_rank (lb_entries b)) None c (engine c db1) = Inr (ws, db3)" "x = None"
      "owe_prizes c ws (store_winners c ws db3) = Inr db'"
proof (cases "leaderboard_for c db")
  case None
  then show thesis using assms by (intro skip) (simp_all add: decide_campaign_def)
next
  case (Some b)
  obtain cl db1 where 1: "claim_completed c db = (cl, db1)" by fastforce
  show thesis
  proof (cases cl)
    case False
    then show thesis using assms Some 1 claim_completed_writes(1) [OF 1] by (intro skip) (simp_all add: decide_campaign_def)
  next
    case True
    show thesis
    proof (cases "select_winners (sort_key en_rank (lb_entries b)) None c (engine c db1)")
      case (Inl e)
      then show thesis using assms Some 1 True by (intro failed [of b db1 e]) (simp_all add: decide_campaign_def)
    next
      case (Inr r)
      obtain ws db3 where r: "r = (ws, db3)" by fastforce
      show thesis
      proof (cases "owe_prizes c ws (store_winners c ws db3)")
        case (Inl e)
        then show thesis using assms Some 1 True Inr r by (intro unpaid [of b db1 ws db3 e]) (simp_all add: decide_campaign_def)
      next
        case (Inr db5)
        then show thesis using assms Some 1 True r \<open>select_winners _ _ _ _ = _\<close>
          by (intro decided [of b db1 ws db3]) (simp_all add: decide_campaign_def)
      qed
    qed
  qed
qed

lemma latest_board_mem: "latest_board P db = Some b \<Longrightarrow> b \<in> set (leaderboards db) \<and> P b"
proof -
  assume a: "latest_board P db = Some b"
  then obtain bs where "sort_desc lb_start (filter P (leaderboards db)) = b # bs" by (auto simp: latest_board_def split: list.splits)
  then have "b \<in> set (sort_desc lb_start (filter P (leaderboards db)))" by simp
  then show ?thesis by simp
qed

lemma first_board_mem: "first_board tys cid db = Some b \<Longrightarrow> b \<in> set (leaderboards db) \<and> lb_campaign b = cid"
  by (induction tys) (auto split: option.splits dest: latest_board_mem simp: is_board_def)

lemma leaderboard_for_mem: "leaderboard_for c db = Some b \<Longrightarrow> b \<in> set (leaderboards db) \<and> lb_campaign b = cp_id c"
  unfolding leaderboard_for_def by (rule first_board_mem)

lemma distinct_sorted_entries: "distinct (map en_user xs) \<Longrightarrow> distinct (map en_user (sort_key en_rank xs))"
  by (metis distinct_map distinct_sort set_sort)

lemma generate_for_keeps:
  "wins_ok (db, hist) \<Longrightarrow> wins_ok (generate_for ty cid db, hist) \<and> now (generate_for ty cid db) = now db"
proof -
  assume ok: "wins_ok (db, hist)"
  obtain s e where p: "period_bounds ty (now db) = (s, e)" by fastforce
  show ?thesis
  proof (cases "list_ex (\<lambda>b. is_board cid ty b \<and> lb_start b = s) (leaderboards db)")
    case True
    then show ?thesis using ok by (simp add: generate_for_def p)
  next
    case False
    let ?db = "generate_for ty cid db"
    define es where "es = map entry_of (enumerate 1 (standing_stats cid db))"
    have uniq: "stats_unique db" "boards_unique db" using ok by (simp_all add: wins_ok_def)
    have key: "(st_user (set_rank ty cid es t), st_campaign (set_rank ty cid es t)) = (st_user t, st_campaign t)" for t
      by (simp add: set_rank_def split: option.split)
    have rows: "stat_rows ?db = map (set_rank ty cid es) (stat_rows db)" "now ?db = now db" "win_records ?db = win_records db"
      "scoring_configs ?db = scoring_configs db"
      using False by (simp_all add: generate_for_def p Let_def es_def)
    have "map en_user es = map st_user (standing_stats cid db)"
      by (simp add: es_def entry_of_def o_def) (metis (no_types, lifting) comp_apply map_eq_conv map_map map_snd_enumerate)
    moreover have "distinct (map st_user (filter (\<lambda>t. st_campaign t = cid) (stat_rows db)))"
      using uniq(1) unfolding stats_unique_def by (auto simp: distinct_map inj_on_def)
    ultimately have d: "distinct (map en_user es)" by (simp add: standing_stats_def)
    have "boards_unique ?db"
      using uniq(2) d False by (auto simp: boards_unique_def generate_for_def p Let_def es_def)
    moreover have "stats_unique ?db" using uniq(1) by (simp add: stats_unique_def rows o_def key)
    ultimately show ?thesis using ok rows
      by (simp add: wins_ok_def limits_tight_def records_dated_def wins_recorded_def)
  qed
qed

lemma generate_leaderboards_wins: "wins_ok (db, hist) \<Longrightarrow> wins_ok (generate_leaderboards ty db, hist)"
proof -
  have "wins_ok (db, hist) \<Longrightarrow> wins_ok (fold (generate_for ty) ids db, hist)" for ids ty
    by (induction ids arbitrary: db) (auto simp: generate_for_keeps)
  then show "wins_ok (db, hist) \<Longrightarrow> wins_ok (generate_leaderboards ty db, hist)"
    by (auto simp: generate_leaderboards_def generate_period_leaderboard_def split: option.split)
qed

lemma turn_keeps_wins:
  assumes ok: "wins_ok (db, hist)" and b: "leaderboard_for c db = Some b" and cl: "claim_completed c db = (True, db1)"
    and sel: "select_winners (sort_key en_rank (lb_entries b)) None c (engine c db1) = Inr (ws, db3)"
  shows "wins_ok (store_winners c ws db3, hist @ map (\<lambda>w. (wn_user w, cp_type c, now db)) ws)"
    and "selected_winners (store_winners c ws db3) = selected_winners db @ map (selected_row c (now db)) ws"
proof -
  note k = claim_completed_keeps [OF cl]
  have "wins_ok (engine c db1, hist)" using engine_wins [OF wins_ok_cong [OF _ _ _ _ _ ok], of db1 c] k by simp
  moreover have d: "distinct (map en_user (sort_key en_rank (lb_entries b)))"
    using ok leaderboard_for_mem [OF b] by (intro distinct_sorted_entries) (auto simp: wins_ok_def boards_unique_def)
  ultimately have 3: "wins_ok (db3, hist @ map (\<lambda>w. (wn_user w, cp_type c, now (engine c db1))) ws)"
    by (intro select_keeps_wins [OF _ sel])
  have fr: "only_awards (engine c db1) db3" by (rule select_winners_writes [OF sel d])
  show "wins_ok (store_winners c ws db3, hist @ map (\<lambda>w. (wn_user w, cp_type c, now db)) ws)"
    using 3 unfolding engine_keeps k [THEN conjunct1] by (rule wins_ok_cong [rotated -1]) simp_all
  show "selected_winners (store_winners c ws db3) = selected_winners db @ map (selected_row c (now db)) ws"
    using k only_awards_frame [OF fr] by simp
qed

lemma selected_row_win: "(\<lambda>w. (sw_user w, ty, sw_at w)) \<circ> selected_row c t = (\<lambda>w. (wn_user w, ty, t))"
  by (auto simp: selected_row_def)

lemma decide_keeps_wins:
  assumes ok: "wins_ok (db, hist)" and dec: "decide_campaign c db = (x, db')"
  shows "wins_ok (db', hist @ map (\<lambda>w. (sw_user w, cp_type c, sw_at w)) (drop (length (selected_winners db)) (selected_winners db')))"
  using dec
proof (cases rule: decide_cases)
  case skip
  then show ?thesis using ok by simp
next
  case (failed b db1 e)
  note k = claim_completed_keeps [OF failed(2)]
  then show ?thesis using engine_wins [OF wins_ok_cong [OF _ _ _ _ _ ok], of db1 c] failed(3) by simp
next
  case (unpaid b db1 ws db3 e)
  then show ?thesis using turn_keeps_wins [OF ok unpaid(1-3)] by (simp add: selected_row_win del: store_winners_keeps)
next
  case (decided b db1 ws db3)
  note t = turn_keeps_wins [OF ok decided(1-3)]
  obtain p where p: "db' = (store_winners c ws db3)\<lparr>prize_tables := p\<rparr>" using owe_prizes_keeps [OF decided(5)] by blast
  have "selected_winners db' = selected_winners db @ map (selected_row c (now db)) ws" using t(2) by (simp add: p)
  moreover have "wins_ok (db', hist @ map (\<lambda>w. (wn_user w, cp_type c, now db)) ws)"
    using t(1) by (rule wins_ok_cong [rotated -1]) (simp_all add: p)
  ultimately show ?thesis by (simp add: selected_row_win)
qed

lemma exec_winner_ok:
  assumes "wins_ok w" "one_entry_each x"
  shows "wins_ok (exec_winner x w)"
proof -
  obtain db hist where w: "w = (db, hist)" by fastforce
  show ?thesis
  proof (cases x)
    case (Select cid entries quota)
    then show ?thesis using assms engine_wins select_keeps_wins [of "engine c db" for c]
      by (fastforce simp: w split: option.split sum.split)
  next
    case (Decide cid)
    have "wins_ok (db, hist)" using assms(1) w by simp
    from decide_keeps_wins [OF this prod.collapse [symmetric]] show ?thesis
      using assms(1) by (simp add: w Decide Let_def split: option.split)
  next
    case (Boards ty)
    then show ?thesis using assms by (simp add: w generate_leaderboards_wins)
  next
    case (Pass n)
    have "wins_ok (db\<lparr>now := now db + int n\<rparr>, hist)" by (rule wins_ok_cong [where db = db]) (use assms(1) w in simp_all)
    then show ?thesis by (simp add: w Pass)
  qed
qed


section \<open>Every winner is owed one prize\<close>

definition prizes_named :: "prize_db \<Rightarrow> bool" where
  "prizes_named db \<longleftrightarrow> awards_ok db \<and> (\<forall>p \<in> set (prizes db). pz_campaign p \<noteq> Some 0)"

definition prize_of :: "nat \<Rightarrow> nat \<Rightarrow> string \<Rightarrow> prize \<Rightarrow> bool" where
  "prize_of cid uid ty p \<longleftrightarrow> pz_campaign p = Some cid \<and> pz_winner p = uid \<and> pz_tier p = ty"

lemma award_each_prizes:
  assumes "award_each (Some cid) us ty ended db = Inr (is, db')" "prizes_named db" "cid \<noteq> 0"
  shows "prizes_named db' \<and> set (prizes db) \<subseteq> set (prizes db') \<and> (\<forall>u \<in> set us. \<exists>p \<in> set (prizes db'). prize_of cid u ty p)"
  using assms(1,2)
proof (induction us arbitrary: "is" db)
  case (Cons u us)
  obtain i b db1 js where 1: "award (Some cid) u ty ended db = Inr (i, b, db1)"
    and 2: "award_each (Some cid) us ty ended db1 = Inr (js, db')"
    using Cons.prems(1) by (auto simp: bind_result_Inr_iff)
  have "prizes_named db1 \<and> set (prizes db) \<subseteq> set (prizes db1) \<and> (\<exists>p \<in> set (prizes db1). prize_of cid u ty p)"
    using 1
  proof (cases rule: award_Inr)
    case (old spec)
    let ?p = "prizes db ! i"
    have p: "?p \<in> set (prizes db)" "pz_key ?p = Some (idempotency_key (Some cid) u ty)"
      using find_index_Some [OF old(4)] by auto
    then obtain spec' where "prize_for (pz_tier ?p) = Inr spec'" "pz_key ?p = Some (idempotency_key (pz_campaign ?p) (pz_winner ?p) (pz_tier ?p))"
      "pz_campaign ?p \<noteq> Some 0" using Cons.prems(2) by (auto simp: prizes_named_def awards_ok_def)
    moreover from this have "pz_campaign ?p = Some cid \<and> pz_winner ?p = u \<and> pz_tier ?p = ty"
      using p(2) idempotency_key_inj [of "pz_tier ?p" spec' ty spec "pz_campaign ?p" "Some cid" "pz_winner ?p" u] old(1) assms(3) by simp
    ultimately have "prize_of cid u ty ?p" by (simp add: prize_of_def)
    then show ?thesis using p(1) old(3) Cons.prems(2) by auto
  next
    case (new spec)
    have "awards_ok db1" using award_awards [OF _ 1] Cons.prems(2) by (simp add: prizes_named_def)
    then show ?thesis using new(4) Cons.prems(2) assms(3) by (auto simp: prizes_named_def new_prize_def prize_of_def)
  qed
  then show ?case using Cons.IH [OF 2] by (auto simp: subset_iff)
qed simp

lemma unique_prize:
  assumes "prizes_named db" "p \<in> set (prizes db)" "prize_of cid u ty p"
  shows "length (filter (prize_of cid u ty) (prizes db)) = 1"
proof -
  have d: "distinct (map pz_key (prizes db))" and keys: "\<forall>q \<in> set (prizes db). pz_key q = Some (idempotency_key (pz_campaign q) (pz_winner q) (pz_tier q))"
    using assms(1) by (auto simp: prizes_named_def awards_ok_def)
  have "set (filter (prize_of cid u ty) (prizes db)) = {p}"
    using assms(2,3) d keys by (auto simp: prize_of_def distinct_map inj_on_def)
  moreover have "distinct (filter (prize_of cid u ty) (prizes db))" using d by (simp add: distinct_map)
  ultimately show ?thesis by (metis distinct_card card.empty card_insert_disjoint empty_iff finite.emptyI One_nat_def)
qed

lemma winners_fit:
  assumes "select_winners entries None c db = Inr (ws, db')" "distinct (map en_user entries)" "prize_for (selection_type c) = Inr spec"
  shows "length ws \<le> winner_count spec" "selection_type c = cp_type c"
proof -
  define es where "es = take (quota_for None c db) (sort_desc en_score (filter (may_win c db) entries))"
  obtain m where ty: "cp_type c \<in> set TIERS_OF_WIN"
    and p: "award_places (cp_type c) m (reward_for (cp_type c) (win_rewards db)) 1 es c db = Inr (ws, db')"
    unfolding es_def by (rule select_winners_Inr [OF assms(1)])
  have d: "distinct (map en_user es)" unfolding es_def by (rule take_sort_distinct) (fact assms(2))
  show t: "selection_type c = cp_type c" using ty by (auto simp: selection_type_def TIERS_OF_WIN_def)
  have "quota_for None c db = winner_count spec"
    using assms(3) unfolding t by (simp add: quota_for_def documented_winner_count_def prize_for_def split: option.split)
  then show "length ws \<le> winner_count spec"
    using award_places_users [OF p d] by (metis es_def length_map length_take min.cobounded2)
qed

text \<open>
  C17. Everybody the task selects is owed exactly one prize, and the ledger of prizes keeps every row it had: after a turn of the loop that
  ends without an exception, each participant it stored as a winner has one row of the prize table for that campaign and tier, however
  the campaign had been awarded before. The selector never names more winners than the tier pays, so none is cut off.
\<close>

theorem selected_winners_are_owed:
  assumes "decide_campaign c db = (None, db')" "prizes_named (prize_tables db)" "boards_unique db" "cp_id c \<noteq> 0"
  shows "prizes_named (prize_tables db') \<and> set (prizes (prize_tables db)) \<subseteq> set (prizes (prize_tables db')) \<and>
    list_all (\<lambda>w. length (filter (prize_of (cp_id c) (sw_user w) (selection_type c)) (prizes (prize_tables db'))) = 1)
      (drop (length (selected_winners db)) (selected_winners db'))"
  using assms(1)
proof (cases rule: decide_cases)
  case skip
  then show ?thesis using assms(2) by simp
next
  case (decided b db1 ws db3)
  note k = claim_completed_keeps [OF decided(2)]
  have d: "distinct (map en_user (sort_key en_rank (lb_entries b)))"
    using assms(3) leaderboard_for_mem [OF decided(1)] by (intro distinct_sorted_entries) (auto simp: boards_unique_def)
  have fr: "only_awards (engine c db1) db3" by (rule select_winners_writes [OF decided(3) d])
  obtain ids t where t: "db' = (store_winners c ws db3)\<lparr>prize_tables := t\<rparr>"
    and aw: "award_all (Some (cp_id c)) (map wn_user ws) (selection_type c) (map_option instant (cp_deadline c))
      ((prize_tables db3)\<lparr>prize_now := now db3\<rparr>) = Inr (ids, t)"
    using decided(5) by (auto simp: owe_prizes_def bind_result_Inr_iff)
  obtain spec where spec: "prize_for (selection_type c) = Inr spec" and each: "award_each (Some (cp_id c)) (take (winner_count spec) (map wn_user ws))
      (selection_type c) (map_option instant (cp_deadline c)) ((prize_tables db3)\<lparr>prize_now := now db3\<rparr>) = Inr (ids, t)"
    using aw by (auto simp: award_all_def bind_result_Inr_iff)
  have "take (winner_count spec) (map wn_user ws) = map wn_user ws" using winners_fit(1) [OF decided(3) d spec] by simp
  moreover have pt: "prize_tables db3 = prize_tables db" using k only_awards_frame [OF fr] by simp
  moreover from pt have "prizes_named ((prize_tables db3)\<lparr>prize_now := now db3\<rparr>)"
    using assms(2) by (simp add: prizes_named_def awards_ok_def)
  ultimately have r: "prizes_named t" "set (prizes (prize_tables db)) \<subseteq> set (prizes t)"
    "\<forall>u \<in> wn_user ` set ws. \<exists>p \<in> set (prizes t). prize_of (cp_id c) u (selection_type c) p"
    using award_each_prizes [OF each _ assms(4)] by simp_all
  have "selected_winners db' = selected_winners db @ map (selected_row c (now db3)) ws"
    using k only_awards_frame [OF fr] by (simp add: t)
  then have "list_all (\<lambda>w. length (filter (prize_of (cp_id c) (sw_user w) (selection_type c)) (prizes t)) = 1)
      (drop (length (selected_winners db)) (selected_winners db'))"
    using r(3) unique_prize [OF r(1)] by (auto simp: list_all_iff selected_row_def)
  then show ?thesis using r(1,2) by (simp add: t)
qed simp_all

section \<open>A campaign is decided once\<close>

lemma award_places_only: "award_places ty m reward idx es c db = Inr (ws, db') \<Longrightarrow> only_awards db db'"
proof (induction es arbitrary: idx db ws)
  case (Cons x xs)
  then obtain db1 vs where a: "award_win ty reward (en_user x) c db = Inr db1"
    and b: "award_places ty m reward (idx + 1) xs c db1 = Inr (vs, db')"
    by (auto simp: bind_result_Inr_iff)
  have "only_awards db db1" by (rule award_win_writes [OF a])
  then show ?case using Cons.IH [OF b] only_awards_trans by blast
qed simp

lemma select_winners_only: "select_winners entries quota c db = Inr (ws, db') \<Longrightarrow> only_awards db db'"
  by (rule select_winners_Inr, assumption) (rule award_places_only)

definition campaigns_keyed :: "'a winner_db_scheme \<Rightarrow> bool" where
  "campaigns_keyed db \<longleftrightarrow> (\<forall>i c. entry_campaigns db i = Some c \<longrightarrow> cp_id c = i)"

definition only_closes :: "'a winner_db_scheme \<Rightarrow> 'a winner_db_scheme \<Rightarrow> bool" where
  "only_closes db db' \<longleftrightarrow> leaderboards db' = leaderboards db \<and> now db' = now db \<and> campaign_ids db' = campaign_ids db \<and>
     set (selections db) \<subseteq> set (selections db') \<and>
     (\<forall>i. entry_campaigns db' i = entry_campaigns db i \<or> \<not> is_active_campaign i db')"

lemma only_closes_active: "only_closes db db' \<Longrightarrow> is_active_campaign i db' \<Longrightarrow> entry_campaigns db i = entry_campaigns db' i"
  unfolding only_closes_def by metis

lemma only_closes_trans: "only_closes a b \<Longrightarrow> only_closes b c \<Longrightarrow> only_closes a c"
  unfolding only_closes_def is_active_campaign_def by (metis subset_trans)

lemma leaderboard_for_cong: "leaderboards db' = leaderboards db \<Longrightarrow> leaderboard_for c db' = leaderboard_for c db"
proof -
  assume "leaderboards db' = leaderboards db"
  then have "first_board tys cid db' = first_board tys cid db" for tys cid by (induction tys) (auto simp: latest_board_def split: list.split)
  then show ?thesis by (simp add: leaderboard_for_def)
qed

lemma decide_closes:
  assumes "decide_campaign c db = (None, db')"
  shows "only_closes db db' \<and> (leaderboard_for c db = None \<or> \<not> is_active_campaign (cp_id c) db')"
  using assms
proof (cases rule: decide_cases)
  case skip
  then show ?thesis by (auto simp: only_closes_def)
next
  case (decided b db1 ws db3)
  note k = claim_completed_keeps [OF decided(2)]
  note e = claim_completed_writes(2) [OF decided(2)]
  note f = only_awards_frame [OF select_winners_only [OF decided(3)]]
  obtain p where p: "db' = (store_winners c ws db3)\<lparr>prize_tables := p\<rparr>" using owe_prizes_keeps [OF decided(5)] by blast
  have ec: "entry_campaigns db' = (entry_campaigns db)(cp_id c := map_option (\<lambda>r. r\<lparr>ec_status := ''completed''\<rparr>) (entry_campaigns db (cp_id c)))"
    using e f by (simp add: p)
  then have "\<not> is_active_campaign (cp_id c) db'" by (simp add: is_active_campaign_def split: option.split)
  moreover have "set (selections db) \<subseteq> set (selections db')" using f k by (auto simp: p store_winners_def)
  ultimately show ?thesis using f k ec by (auto simp: only_closes_def p)
qed simp_all

lemma decide_each_closes:
  assumes "decide_each cs db = (None, db')"
  shows "only_closes db db' \<and> (\<forall>c \<in> set cs. leaderboard_for c db = None \<or> \<not> is_active_campaign (cp_id c) db')"
  using assms
proof (induction cs arbitrary: db)
  case Nil
  then show ?case by (auto simp: only_closes_def)
next
  case (Cons c cs)
  obtain db1 where 1: "decide_campaign c db = (None, db1)" and 2: "decide_each cs db1 = (None, db')"
    using Cons.prems by (auto split: prod.splits option.splits)
  note a = decide_closes [OF 1]
  note b = Cons.IH [OF 2]
  have lb: "leaderboard_for d db1 = leaderboard_for d db" for d using a by (intro leaderboard_for_cong) (simp add: only_closes_def)
  have "\<not> is_active_campaign (cp_id c) db'" if "\<not> is_active_campaign (cp_id c) db1"
    using that b only_closes_active [of db1 db' "cp_id c"] by (auto simp: is_active_campaign_def)
  then show ?case using a b only_closes_trans by (auto simp: lb)
qed

lemma nothing_to_decide: "(\<forall>c \<in> set cs. leaderboard_for c db = None) \<Longrightarrow> decide_each cs db = (None, db)"
  by (induction cs) (simp_all add: decide_campaign_def)

text \<open>
  C18. A campaign is decided once: when the task has gone through without an exception, running it again at the same time --
  a retry, an overlapping schedule -- awards nothing, selects nobody and writes nothing at all.
\<close>

theorem auto_selection_runs_once:
  assumes "auto_select_campaign_winners db = (None, db')" "campaigns_keyed db"
  shows "auto_select_campaign_winners db' = (None, db')"
proof -
  note d = decide_each_closes [OF assms(1) [unfolded auto_select_campaign_winners_def]]
  have lb: "leaderboard_for c db' = leaderboard_for c db" for c using d by (intro leaderboard_for_cong) (simp add: only_closes_def)
  have "leaderboard_for c db' = None" if c: "c \<in> set (ended_campaigns db')" for c
  proof -
    obtain i where i: "i \<in> set (campaign_ids db')" "entry_campaigns db' i = Some c" and e: "has_ended db' c"
      using c by (auto simp: ended_campaigns_def List.map_filter_def)
    have act: "is_active_campaign i db'" using i(2) e by (simp add: is_active_campaign_def has_ended_def)
    then have same: "entry_campaigns db i = Some c" using only_closes_active d i(2) by metis
    then have "cp_id c = i" using assms(2) by (simp add: campaigns_keyed_def)
    moreover have "has_ended db c" using e d by (auto simp: has_ended_def only_closes_def list_ex_iff split: option.splits)
    then have "c \<in> set (ended_campaigns db)" using i(1) same d
      by (auto simp: ended_campaigns_def List.map_filter_def only_closes_def intro!: rev_image_eqI [of i])
    ultimately show ?thesis using d act lb by auto
  qed
  then show ?thesis unfolding auto_select_campaign_winners_def by (intro nothing_to_decide) blast
qed

section \<open>Leaderboards\<close>

definition current_boards :: "'a winner_db_scheme \<Rightarrow> leaderboard list" where
  "current_boards db = filter lb_current (leaderboards db)"

definition board_ok :: "leaderboard \<Rightarrow> bool" where
  "board_ok b \<longleftrightarrow> map en_rank (lb_entries b) = [1..<1 + length (lb_entries b)] \<and> descending en_score (lb_entries b) \<and>
     distinct (map en_user (lb_entries b))"

definition snapshots_ok :: "'a winner_db_scheme \<Rightarrow> bool" where
  "snapshots_ok db \<longleftrightarrow> stats_unique db \<and>
     distinct (map (\<lambda>b. (lb_campaign b, lb_period b, lb_start b)) (leaderboards db)) \<and>
     distinct (map (\<lambda>b. (lb_campaign b, lb_period b)) (current_boards db)) \<and> list_all board_ok (leaderboards db)"

lemma new_board_ok:
  assumes "stats_unique db"
  shows "board_ok \<lparr>lb_campaign = cid, lb_period = ty, lb_start = s, lb_end = e, lb_current = True,
    lb_entries = map entry_of (enumerate 1 (standing_stats cid db))\<rparr>"
proof -
  let ?l = "standing_stats cid db"
  have users: "map en_user (map entry_of (enumerate n xs)) = map st_user xs"
    and scores: "map en_score (map entry_of (enumerate n xs)) = map st_total_score xs"
    and ranks: "map en_rank (map entry_of (enumerate n xs)) = [n..<n + length xs]" for n xs
    by (induction xs arbitrary: n) (simp_all add: entry_of_def upt_conv_Cons del: upt_Suc)
  have "distinct (map st_user (filter (\<lambda>t. st_campaign t = cid) (stat_rows db)))"
    using assms unfolding stats_unique_def by (auto simp: distinct_map inj_on_def)
  then have "distinct (map st_user ?l)" by (simp add: standing_stats_def)
  moreover have "sorted_wrt (\<lambda>x y. y \<le> x) (map st_total_score ?l)"
    using descending_sort_desc [of st_total_score] by (simp add: standing_stats_def descending_def sorted_wrt_map)
  then have "sorted_wrt (\<lambda>x y. y \<le> x) (map en_score (map entry_of (enumerate 1 ?l)))" unfolding scores .
  then have "descending en_score (map entry_of (enumerate 1 ?l))"
    unfolding descending_def sorted_wrt_map .
  ultimately show ?thesis by (simp only: board_ok_def leaderboard.simps users ranks length_map length_enumerate)
qed

lemma generate_for_snapshots: "snapshots_ok db \<Longrightarrow> snapshots_ok (generate_for ty cid db)"
proof -
  assume ok: "snapshots_ok db"
  obtain s e where p: "period_bounds ty (now db) = (s, e)" by fastforce
  show ?thesis
  proof (cases "list_ex (\<lambda>b. is_board cid ty b \<and> lb_start b = s) (leaderboards db)")
    case True
    then show ?thesis using ok by (simp add: generate_for_def p)
  next
    case False
    define off where "off = (\<lambda>b. if is_board cid ty b then b\<lparr>lb_current := False\<rparr> else b)"
    define new where "new = \<lparr>lb_campaign = cid, lb_period = ty, lb_start = s, lb_end = e, lb_current = True,
      lb_entries = map entry_of (enumerate 1 (standing_stats cid db))\<rparr>"
    have lb: "leaderboards (generate_for ty cid db) = map off (leaderboards db) @ [new]"
      and st: "stat_rows (generate_for ty cid db) = map (set_rank ty cid (lb_entries new)) (stat_rows db)"
      using False by (simp_all add: generate_for_def p Let_def off_def new_def)
    have key: "(st_user (set_rank ty cid es t), st_campaign (set_rank ty cid es t)) = (st_user t, st_campaign t)" for es t
      by (simp add: set_rank_def split: option.split)
    have same: "(lb_campaign (off b), lb_period (off b), lb_start (off b)) = (lb_campaign b, lb_period b, lb_start b)"
      "board_ok (off b) = board_ok b" for b by (simp_all add: off_def board_ok_def)
    have "map off (filter (\<lambda>b. lb_current b \<and> \<not> is_board cid ty b) bs) = filter lb_current (map off bs)" for bs
      by (induction bs) (auto simp: off_def)
    moreover have "map off (filter (\<lambda>b. lb_current b \<and> \<not> is_board cid ty b) bs) = filter (\<lambda>b. lb_current b \<and> \<not> is_board cid ty b) bs" for bs
      by (induction bs) (auto simp: off_def)
    ultimately have cur: "current_boards (generate_for ty cid db) = filter (\<lambda>b. \<not> is_board cid ty b) (current_boards db) @ [new]"
      by (simp add: current_boards_def lb new_def conj_commute)
    have "distinct (map (\<lambda>b. (lb_campaign b, lb_period b)) (current_boards (generate_for ty cid db)))"
      using ok by (auto simp: cur snapshots_ok_def distinct_map_filter is_board_def new_def)
    moreover have "distinct (map (\<lambda>b. (lb_campaign b, lb_period b, lb_start b)) (leaderboards (generate_for ty cid db)))"
      using ok False by (auto simp: lb o_def same snapshots_ok_def new_def list_ex_iff is_board_def)
    moreover have "list_all board_ok (leaderboards (generate_for ty cid db))"
      using ok new_board_ok [of db cid ty s e] by (auto simp: lb snapshots_ok_def list_all_iff same new_def)
    moreover have "stats_unique (generate_for ty cid db)" using ok by (simp add: stats_unique_def snapshots_ok_def st o_def key)
    ultimately show ?thesis by (simp add: snapshots_ok_def)
  qed
qed

text \<open>
  C19. Leaderboards are sound snapshots: however often the daily, weekly and monthly tasks run, a campaign has one board for each
  period, at most one board of a kind is current, and on every board each participant stands once, ranked from 1 by falling score.
\<close>

theorem leaderboards_sound:
  assumes "snapshots_ok db"
  shows "snapshots_ok (generate_leaderboards ty db)"
proof -
  have "snapshots_ok (fold (generate_for ty) ids db)" for ids
    using assms by (induction ids arbitrary: db) (auto simp: generate_for_snapshots)
  then show ?thesis using assms by (simp add: generate_leaderboards_def generate_period_leaderboard_def split: option.split)
qed

section \<open>What goes wrong\<close>

text \<open>
  A monthly win later in a month in which the participant won already writes no record: the restriction, which looks back thirty days, lets
  a win on the last day of a long month through, and \<open>get_or_create\<close> finds the row of its first day.
\<close>

lemma late_monthly_win_unrecorded:
  assumes "r \<in> set (wins_of uid ''monthly'' (win_records db))" "wf_start r = month_start (now db)"
  shows "record_win uid ''monthly'' camp db = Inr (False, db)"
  using assms by (auto simp: record_win_def win_period_def)

lemma no_record_no_restriction:
  assumes "\<forall>r \<in> set (wins_of uid ''monthly'' (win_records db)). wf_won_at r < now db - 30 * one_day"
    "limit_for ''monthly'' (case camp of None \<Rightarrow> None | Some c \<Rightarrow> scoring_configs db c) = 1"
  shows "fst (check_frequency_eligibility uid ''monthly'' camp db)"
proof -
  have "filter (\<lambda>r. now db - RESTRICTION_DAYS * one_day \<le> wf_won_at r) (wins_of uid ''monthly'' (win_records db)) = []"
    using assms(1) by (auto simp: filter_empty_conv RESTRICTION_DAYS_def)
  then show ?thesis using assms(2) by (simp add: check_frequency_eligibility_def in_cooldown_def Let_def)
qed

text \<open>Two grand finals that one participant wins on one day share a record, which names the first campaign only.\<close>

lemma second_grand_win_unrecorded:
  assumes "r \<in> set (wins_of uid ''grand'' (win_records db))" "wf_start r = utc_midnight (now db)"
  shows "record_win uid ''grand'' camp db = Inr (False, db)"
  using assms by (auto simp: record_win_def win_period_def)

text \<open>An exception in the selector loses the campaign: it stays completed, without winners, and is not looked at again.\<close>

lemma failed_selection_is_final:
  assumes "decide_campaign c db = (Some e, db')" "campaigns_keyed db"
  shows "\<not> is_active_campaign (cp_id c) db' \<and> (\<forall>d \<in> set (ended_campaigns db'). campaigns_keyed db' \<longrightarrow> cp_id d \<noteq> cp_id c)"
proof -
  have "\<not> is_active_campaign (cp_id c) db'"
    using assms(1)
  proof (cases rule: decide_cases)
    case (failed b db1 x)
    then show ?thesis using claim_completed_writes(2) [OF failed(2)] by (simp add: is_active_campaign_def split: option.split)
  next
    case (unpaid b db1 ws db3 x)
    then show ?thesis using claim_completed_writes(2) [OF unpaid(2)] only_awards_frame [OF select_winners_only [OF unpaid(3)]]
      by (simp add: is_active_campaign_def split: option.split)
  qed simp_all
  then show ?thesis
    by (auto simp: ended_campaigns_def List.map_filter_def has_ended_def is_active_campaign_def campaigns_keyed_def)
qed

section \<open>A concrete campaign\<close>

definition demo_campaign :: entry_campaign where
  "demo_campaign = \<lparr>cp_id = 5, cp_type = ''daily'', cp_start = Some \<lparr>dt_year = 2026, dt_month = 3, dt_day = 1, dt_time = 0\<rparr>,
     cp_deadline = Some \<lparr>dt_year = 2026, dt_month = 3, dt_day = 2, dt_time = 0\<rparr>, ec_status = ''active'', ec_themes = []\<rparr>"

definition demo_post :: "nat \<Rightarrow> post_score" where
  "demo_post u = \<lparr>sc_user = u, sc_campaign = 5, sc_created_at = instant \<lparr>dt_year = 2026, dt_month = 3, dt_day = 1, dt_time = 7\<rparr>,
     sc_moderation = ''approved''\<rparr>"

definition demo_entries :: "board_entry list" where
  "demo_entries = [\<lparr>en_user = 1, en_rank = 1, en_score = 4, en_posts = 1\<rparr>, \<lparr>en_user = 2, en_rank = 2, en_score = 9, en_posts = 1\<rparr>,
     \<lparr>en_user = 3, en_rank = 3, en_score = 20, en_posts = 0\<rparr>]"

definition demo :: winner_db where
  "demo = engage_db.extend
     (example_engage\<lparr>now := instant \<lparr>dt_year = 2026, dt_month = 3, dt_day = 2, dt_time = 5\<rparr>,
        profiles := (\<lambda>_. Some new_profile), post_scores := map demo_post [1, 2], entry_campaigns := (\<lambda>_. None)(5 \<mapsto> demo_campaign)\<rparr>)
     \<lparr>campaign_ids = [5], own_winner_count = (\<lambda>_. 1), scoring_configs = (\<lambda>_. None), win_records = [], selections = [],
      selected_winners = [], leaderboards = [\<lparr>lb_campaign = 5, lb_period = ''daily'', lb_start = 0, lb_end = 0, lb_current = True,
        lb_entries = demo_entries\<rparr>],
      stat_rows = [new_stat 1 5, new_stat 2 5], win_rewards = default_winner_points, announced = (\<lambda>_. False),
      prize_tables = wd empty_world\<rparr>"

lemma demo_select:
  "case select_winners demo_entries None demo_campaign demo of Inl _ \<Rightarrow> False | Inr (ws, _) \<Rightarrow> map wn_user ws = [2, 1]"
  by code_simp

lemma demo_auto: "fst (auto_select_campaign_winners demo) = None"
  by code_simp

lemma demo_log:
  "map fst (snd (fold exec_winner [Select 5 demo_entries None, Pass 8, Select 5 demo_entries None] (demo, []))) = [2, 1]"
  by code_simp

lemma demo_turn:
  "fst (decide_campaign demo_campaign demo) = None \<and>
   map sw_user (drop (length (selected_winners demo)) (selected_winners (snd (decide_campaign demo_campaign demo)))) = [2, 1] \<and>
   selection_type demo_campaign = ''daily''"
  by code_simp

lemma demo_ok: "limits_tight demo" "stats_unique demo" "boards_unique demo" "win_records demo = []" "prizes_named (prize_tables demo)"
  "campaigns_keyed demo"
proof -
  show "limits_tight demo" by (simp add: demo_def engage_db.extend_def limits_tight_def)
  show "stats_unique demo" by (simp add: demo_def engage_db.extend_def stats_unique_def new_stat_def)
  show "boards_unique demo" by (simp add: demo_def engage_db.extend_def boards_unique_def demo_entries_def)
  show "win_records demo = []" by (simp add: demo_def engage_db.extend_def)
  show "prizes_named (prize_tables demo)" using empty_world_ok(2)
    by (simp add: demo_def engage_db.extend_def prizes_named_def empty_world_def)
  show "campaigns_keyed demo" by (simp add: demo_def engage_db.extend_def campaigns_keyed_def demo_campaign_def)
qed

lemma demo_boards_ok: "snapshots_ok (demo\<lparr>leaderboards := []\<rparr>)"
  using demo_ok(2) by (simp add: snapshots_ok_def stats_unique_def current_boards_def)

theorem best_entries_win_witness:
  "\<exists>ws db'. select_winners demo_entries None demo_campaign demo = Inr (ws, db') \<and> map wn_user ws = [2, 1] \<and>
     descending wn_score ws \<and> points_of db' 2 = points_of demo 2 + 500"
proof -
  obtain ws db' where s: "select_winners demo_entries None demo_campaign demo = Inr (ws, db')" "map wn_user ws = [2, 1]"
    using demo_select by (auto split: sum.splits)
  have d: "distinct (map en_user demo_entries)" by (simp add: demo_entries_def)
  have "2 \<in> set (map wn_user ws)" by (simp add: s(2))
  moreover have "reward_for (cp_type demo_campaign) (win_rewards demo) = 500"
    by (simp add: reward_for_def demo_campaign_def demo_def engage_db.extend_def default_winner_points_def)
  ultimately show ?thesis using s best_entries_win [OF d s(1)] by auto
qed


theorem selected_winners_are_owed_witness:
  "list_all (\<lambda>u. length (filter (prize_of 5 u ''daily'') (prizes (prize_tables (snd (decide_campaign demo_campaign demo))))) = 1) [2, 1]"
proof -
  let ?db = "snd (decide_campaign demo_campaign demo)"
  have "decide_campaign demo_campaign demo = (None, ?db)" using demo_turn by (metis prod.collapse)
  moreover have "cp_id demo_campaign = 5" by (simp add: demo_campaign_def)
  ultimately have "list_all (\<lambda>w. length (filter (prize_of 5 (sw_user w) ''daily'') (prizes (prize_tables ?db))) = 1)
      (drop (length (selected_winners demo)) (selected_winners ?db))"
    using selected_winners_are_owed [of demo_campaign demo ?db] demo_ok(3,5) demo_turn by simp
  then have "list_all (\<lambda>u. length (filter (prize_of 5 u ''daily'') (prizes (prize_tables ?db))) = 1)
      (map sw_user (drop (length (selected_winners demo)) (selected_winners ?db)))"
    by (simp add: list_all_iff)
  then show ?thesis using demo_turn by simp
qed

theorem auto_selection_runs_once_witness:
  "auto_select_campaign_winners (snd (auto_select_campaign_winners demo)) = (None, snd (auto_select_campaign_winners demo))"
  by (rule auto_selection_runs_once [OF _ demo_ok(6)]) (metis demo_auto prod.collapse)

theorem leaderboards_sound_witness: "snapshots_ok (generate_leaderboards ''daily'' (demo\<lparr>leaderboards := []\<rparr>))"
  by (rule leaderboards_sound [OF demo_boards_ok])

end
