(* ===== verification/Grand_Final.thy ===== *)
theory Grand_Final
  imports Winners
begin

text \<open>
  The second phase of a grand campaign: the finalists, the judges, the public vote and the final ranking of
  \<open>api/views/scoring.py\<close>, with \<open>GrandFinalist\<close>, \<open>JudgeScore\<close> and \<open>PublicVote\<close> of
  \<open>api/models/campaign_extended.py\<close>. No handler runs in a transaction. A vote checks one reading of the tables and is stored in
  the tables as they are then; \<open>cast_vote\<close> is the case in which nothing came in between.
\<close>

section \<open>Rows\<close>

record judge_row =
  jd_campaign :: nat
  jd_user :: nat
  jd_judge :: nat
  jd_scores :: judge_scores

record public_vote =
  pv_campaign :: nat
  pv_voter :: nat
  pv_finalist :: nat

record finalist =
  fn_campaign :: nat
  fn_user :: nat
  fn_qualification :: rat
  fn_qrank :: nat
  fn_judge :: rat
  fn_votes :: int
  fn_vote_score :: rat
  fn_final :: rat
  fn_rank :: "nat option"

record grand_db = winner_db +
  finalists :: "finalist list"
  judge_rows :: "judge_row list"
  public_votes :: "public_vote list"
  max_votes_of :: "nat \<Rightarrow> int" \<comment> \<open>\<open>grand_max_votes_per_user\<close> of the scoring configuration\<close>
  is_user :: "nat \<Rightarrow> bool"

datatype grand_reply = G_done nat | G_not_found | G_refused string | G_raised exn

section \<open>Handlers\<close>

definition grand_campaign :: "nat \<Rightarrow> 'a grand_db_scheme \<Rightarrow> entry_campaign option" where
  "grand_campaign cid db =
     (case entry_campaigns db cid of None \<Rightarrow> None | Some c \<Rightarrow> if cp_type c = ''grand'' then Some c else None)"

definition grand_config :: "nat \<Rightarrow> 'a grand_db_scheme \<Rightarrow> grand_settings" where
  "grand_config cid db = cfg_grand (case scoring_configs db cid of None \<Rightarrow> default_scoring_config | Some k \<Rightarrow> k)"

definition qualifying_entries :: "nat \<Rightarrow> 'a grand_db_scheme \<Rightarrow> board_entry list" where
  "qualifying_entries cid db =
     map (\<lambda>s. \<lparr>en_user = st_user s, en_rank = 0, en_score = st_total_score s, en_posts = 0\<rparr>)
       (filter (\<lambda>s. 0 < st_total_score s) (standing_stats cid db))"

definition new_finalist :: "nat \<Rightarrow> winner \<Rightarrow> finalist" where
  "new_finalist cid w =
     \<lparr>fn_campaign = cid, fn_user = wn_user w, fn_qualification = wn_score w, fn_qrank = wn_rank w, fn_judge = 0, fn_votes = 0,
      fn_vote_score = 0, fn_final = 0, fn_rank = None\<rparr>"

definition admin_qualify_finalists :: "(nat \<Rightarrow> int \<Rightarrow> int) \<Rightarrow> nat \<Rightarrow> 'a grand_db_scheme \<Rightarrow> grand_reply \<times> 'a grand_db_scheme" where
  "admin_qualify_finalists floor_share cid db =
     (case grand_campaign cid db of
        None \<Rightarrow> (G_not_found, db)
      | Some c \<Rightarrow>
          (case select_grand_finalists floor_share (qualification_percentage (grand_config cid (engine c db)))
                  (qualifying_entries cid db) (engine c db) of
             (Inl x, db1) \<Rightarrow> (G_raised x, db1)
           | (Inr ws, db1) \<Rightarrow>
               (G_done (length ws),
                db1\<lparr>finalists := filter (\<lambda>f. fn_campaign f \<noteq> cid) (finalists db1) @ map (new_finalist cid) ws\<rparr>)))"

definition is_finalist :: "nat \<Rightarrow> nat \<Rightarrow> 'a grand_db_scheme \<Rightarrow> bool" where
  "is_finalist cid uid db \<longleftrightarrow> list_ex (\<lambda>f. fn_campaign f = cid \<and> fn_user f = uid) (finalists db)"

definition average :: "rat list \<Rightarrow> rat" where
  "average xs = (if xs = [] then 0 else sum_list xs / of_nat (length xs))"

definition judge_total :: "nat \<Rightarrow> nat \<Rightarrow> judge_row list \<Rightarrow> rat" where
  "judge_total cid uid rows =
     (let mine = map jd_scores (filter (\<lambda>r. jd_campaign r = cid \<and> jd_user r = uid) rows)
      in average (map creativity mine) + average (map quality mine) + average (map theme mine) + average (map impact mine))"

definition put_judge_row :: "judge_row \<Rightarrow> judge_row list \<Rightarrow> judge_row list" where
  "put_judge_row row rows =
     (case find_index (\<lambda>r. jd_campaign r = jd_campaign row \<and> jd_user r = jd_user row \<and> jd_judge r = jd_judge row) rows of
        Some i \<Rightarrow> rows[i := row]
      | None \<Rightarrow> rows @ [row])"

definition admin_submit_judge_score ::
  "nat \<Rightarrow> nat \<Rightarrow> nat \<Rightarrow> judge_scores \<Rightarrow> 'a grand_db_scheme \<Rightarrow> grand_reply \<times> 'a grand_db_scheme" where
  "admin_submit_judge_score judge cid uid scores db =
     (if grand_campaign cid db = None \<or> \<not> is_user db uid then (G_not_found, db)
      else if \<not> is_finalist cid uid db then (G_refused ''User is not a finalist for this campaign'', db)
      else (let rows = put_judge_row \<lparr>jd_campaign = cid, jd_user = uid, jd_judge = judge, jd_scores = scores\<rparr> (judge_rows db);
                score = judge_total cid uid rows
            in (G_done uid, db\<lparr>judge_rows := rows,
                  finalists := map (\<lambda>f. if fn_campaign f = cid \<and> fn_user f = uid then f\<lparr>fn_judge := score\<rparr> else f) (finalists db)\<rparr>)))"

definition votes_for :: "nat \<Rightarrow> nat \<Rightarrow> public_vote list \<Rightarrow> int" where
  "votes_for cid uid vs = int (length (filter (\<lambda>v. pv_campaign v = cid \<and> pv_finalist v = uid) vs))"

definition spread :: "rat \<Rightarrow> judge_scores" where
  "spread t = \<lparr>creativity = t / 4, quality = t / 4, theme = t / 4, impact = t / 4\<rparr>"

definition score_finalist :: "grand_settings \<Rightarrow> public_vote list \<Rightarrow> finalist \<Rightarrow> finalist" where
  "score_finalist k vs f =
     (let n = votes_for (fn_campaign f) (fn_user f) vs
      in f\<lparr>fn_votes := n, fn_vote_score := vote_normalized n * voting_weight k,
           fn_final := calculate_grand_final_score k (spread (fn_judge f)) n\<rparr>)"

definition final_order :: "nat \<Rightarrow> 'a grand_db_scheme \<Rightarrow> finalist list" where
  "final_order cid db =
     sort_desc fn_final (map (score_finalist (grand_config cid db) (public_votes db))
       (sort_key fn_qrank (filter (\<lambda>f. fn_campaign f = cid) (finalists db))))"

definition rank_finalist :: "nat \<Rightarrow> finalist list \<Rightarrow> finalist \<Rightarrow> finalist" where
  "rank_finalist cid ordered f =
     (if fn_campaign f \<noteq> cid then f
      else case find_index (\<lambda>g. fn_user g = fn_user f) ordered of
        None \<Rightarrow> f
      | Some i \<Rightarrow> (ordered ! i)\<lparr>fn_rank := Some (i + 1)\<rparr>)"

definition admin_calculate_final_scores :: "nat \<Rightarrow> 'a grand_db_scheme \<Rightarrow> grand_reply \<times> 'a grand_db_scheme" where
  "admin_calculate_final_scores cid db =
     (case grand_campaign cid db of
        None \<Rightarrow> (G_not_found, db)
      | Some c \<Rightarrow>
          (let db1 = engine c db; ordered = final_order cid db1
           in (G_done (length ordered), db1\<lparr>finalists := map (rank_finalist cid ordered) (finalists db1)\<rparr>)))"

definition get_finalists_for_voting :: "nat \<Rightarrow> 'a grand_db_scheme \<Rightarrow> (grand_reply + (nat \<times> nat \<times> int) list)" where
  "get_finalists_for_voting cid db =
     (case grand_campaign cid db of
        None \<Rightarrow> Inl G_not_found
      | Some c \<Rightarrow>
          if ec_status c \<noteq> ''voting'' then Inl (G_refused ''Campaign is not in voting phase'')
          else Inr (map (\<lambda>f. (fn_user f, fn_qrank f, fn_votes f)) (sort_key fn_qrank (filter (\<lambda>f. fn_campaign f = cid) (finalists db)))))"

definition votes_by :: "nat \<Rightarrow> nat \<Rightarrow> public_vote list \<Rightarrow> int" where
  "votes_by cid voter vs = int (length (filter (\<lambda>v. pv_campaign v = cid \<and> pv_voter v = voter) vs))"

text \<open>The checks read \<open>old\<close>; the row goes into \<open>db\<close>, where a second vote for one finalist violates the unique constraint.\<close>

definition cast_vote_on :: "'a grand_db_scheme \<Rightarrow> nat \<Rightarrow> nat \<Rightarrow> nat \<Rightarrow> 'a grand_db_scheme \<Rightarrow> grand_reply \<times> 'a grand_db_scheme" where
  "cast_vote_on old voter cid uid db =
     (case grand_campaign cid old of
        None \<Rightarrow> (G_not_found, db)
      | Some c \<Rightarrow>
          if ec_status c \<noteq> ''voting'' then (G_refused ''Campaign is not in voting phase'', db)
          else if \<not> is_user old uid then (G_not_found, db)
          else if \<not> is_finalist cid uid old then (G_refused ''User is not a finalist'', db)
          else (let db1 = engine c db; vote = \<lparr>pv_campaign = cid, pv_voter = voter, pv_finalist = uid\<rparr>
                in if max_votes_of old cid \<le> votes_by cid voter (public_votes old) then (G_refused ''maximum of votes'', db1)
                   else if vote \<in> set (public_votes old) then (G_refused ''You have already voted for this finalist'', db1)
                   else if vote \<in> set (public_votes db1) then (G_raised (IntegrityError ''campaign, voter, finalist''), db1)
                   else (G_done uid, db1\<lparr>public_votes := public_votes db1 @ [vote]\<rparr>)))"

definition cast_vote :: "nat \<Rightarrow> nat \<Rightarrow> nat \<Rightarrow> 'a grand_db_scheme \<Rightarrow> grand_reply \<times> 'a grand_db_scheme" where
  "cast_vote voter cid uid db = cast_vote_on db voter cid uid db"

definition get_user_votes :: "nat \<Rightarrow> nat \<Rightarrow> 'a grand_db_scheme \<Rightarrow> nat list" where
  "get_user_votes voter cid db = map pv_finalist (filter (\<lambda>v. pv_campaign v = cid \<and> pv_voter v = voter) (rev (public_votes db)))"

section \<open>Histories\<close>

datatype grand_op =
    Qualify nat
  | Judge nat nat nat judge_scores
  | Vote nat nat nat
  | Final nat
  | Status nat string

fun exec_grand :: "(nat \<Rightarrow> int \<Rightarrow> int) \<Rightarrow> grand_op \<Rightarrow> 'a grand_db_scheme \<Rightarrow> 'a grand_db_scheme" where
  "exec_grand portion (Qualify cid) db = snd (admin_qualify_finalists portion cid db)"
| "exec_grand portion (Judge judge cid uid scores) db = snd (admin_submit_judge_score judge cid uid scores db)"
| "exec_grand portion (Vote voter cid uid) db = snd (cast_vote voter cid uid db)"
| "exec_grand portion (Final cid) db = snd (admin_calculate_final_scores cid db)"
| "exec_grand portion (Status cid s) db =
     db\<lparr>entry_campaigns := (entry_campaigns db)(cid := map_option (\<lambda>c. c\<lparr>ec_status := s\<rparr>) (entry_campaigns db cid))\<rparr>"

section \<open>Votes\<close>

definition votes_ok :: "'a grand_db_scheme \<Rightarrow> bool" where
  "votes_ok db \<longleftrightarrow> distinct (public_votes db) \<and>
     (\<forall>cid voter. votes_by cid voter (public_votes db) \<le> max 0 (max_votes_of db cid))"

lemma credit_finalists_writes:
  assumes "credit_finalists reward es db = (x, db')"
  shows "\<exists>p l. db' = db\<lparr>profiles := p, point_ledger := l\<rparr>"
    and "x = None \<Longrightarrow> distinct (map en_user es) \<Longrightarrow>
      points_of db' u = points_of db u + (if u \<in> en_user ` set es then reward else 0)"
proof -
  have same: "\<exists>p l. d = d\<lparr>profiles := p, point_ledger := l\<rparr>" for d :: "'a winner_db_scheme"
    by (intro exI [of _ "profiles d"] exI [of _ "point_ledger d"]) simp
  have "(\<exists>p l. db' = db\<lparr>profiles := p, point_ledger := l\<rparr>) \<and>
    (x = None \<longrightarrow> distinct (map en_user es) \<longrightarrow> points_of db' u = points_of db u + (if u \<in> en_user ` set es then reward else 0))"
    using assms
  proof (induction es arbitrary: db)
    case Nil
    then have "db' = db" "x = None" by simp_all
    then show ?case using same [of db] by auto
  next
    case (Cons e es)
    show ?case
    proof (cases "add_points (en_user e) reward (Some P_points_earned_total) (Some ''campaign_reward'') ([], []) db")
      case (Inl y)
      then have "db' = db" "x \<noteq> None" using Cons.prems by auto
      then show ?thesis using same [of db] by blast
    next
      case (Inr db1)
      then have "credit_finalists reward es db1 = (x, db')" using Cons.prems by simp
      note ih = Cons.IH [OF this]
      obtain p l where 1: "db1 = db\<lparr>profiles := p, point_ledger := l\<rparr>" using add_points_writes(1) [OF Inr] by blast
      show ?thesis using ih add_points_writes(2) [OF Inr, of u] by (auto simp: 1)
    qed
  qed
  then show "\<exists>p l. db' = db\<lparr>profiles := p, point_ledger := l\<rparr>"
    and "x = None \<Longrightarrow> distinct (map en_user es) \<Longrightarrow> points_of db' u = points_of db u + (if u \<in> en_user ` set es then reward else 0)"
    by blast+
qed

lemma select_finalists_writes:
  assumes "select_grand_finalists portion k es db = (r, db')"
  shows "\<exists>p l. db' = db\<lparr>profiles := p, point_ledger := l\<rparr>"
  using assms credit_finalists_writes(1)
  by (auto simp: select_grand_finalists_def Let_def split: prod.splits option.splits)

lemma engine_keeps_grand [simp]:
  "finalists (engine c db) = finalists db" "judge_rows (engine c db) = judge_rows db" "public_votes (engine c db) = public_votes db"
  "max_votes_of (engine c db) = max_votes_of db" "is_user (engine c db) = is_user db" "profiles (engine c db) = profiles db"
  "win_rewards (engine c db) = win_rewards db"
  by (simp_all add: engine_def split: option.split)

lemma qualify_keeps_votes [simp]:
  "public_votes (snd (admin_qualify_finalists portion cid db)) = public_votes db"
  "max_votes_of (snd (admin_qualify_finalists portion cid db)) = max_votes_of db"
proof -
  have "public_votes db1 = public_votes db \<and> max_votes_of db1 = max_votes_of db"
    if "select_grand_finalists portion k es (engine c db) = (r, db1)" for k es c r db1
    using select_finalists_writes [OF that] by auto
  then show "public_votes (snd (admin_qualify_finalists portion cid db)) = public_votes db"
    "max_votes_of (snd (admin_qualify_finalists portion cid db)) = max_votes_of db"
    by (auto simp: admin_qualify_finalists_def split: option.split prod.split sum.split)
qed

lemma others_keep_votes [simp]:
  "public_votes (snd (admin_submit_judge_score j cid uid sc db)) = public_votes db"
  "max_votes_of (snd (admin_submit_judge_score j cid uid sc db)) = max_votes_of db"
  "public_votes (snd (admin_calculate_final_scores cid db)) = public_votes db"
  "max_votes_of (snd (admin_calculate_final_scores cid db)) = max_votes_of db"
  by (auto simp: admin_submit_judge_score_def admin_calculate_final_scores_def Let_def split: option.split)

lemma votes_by_append: "votes_by cid voter (vs @ [v]) = votes_by cid voter vs + (if pv_campaign v = cid \<and> pv_voter v = voter then 1 else 0)"
  by (simp add: votes_by_def)

lemma cast_vote_cases:
  assumes "cast_vote_on old voter cid uid db = (r, db')"
  obtains (stored) c where "grand_campaign cid old = Some c" "ec_status c = ''voting''" "is_finalist cid uid old"
      "votes_by cid voter (public_votes old) < max_votes_of old cid" "r = G_done uid"
      "\<lparr>pv_campaign = cid, pv_voter = voter, pv_finalist = uid\<rparr> \<notin> set (public_votes db)"
      "public_votes db' = public_votes db @ [\<lparr>pv_campaign = cid, pv_voter = voter, pv_finalist = uid\<rparr>]" "max_votes_of db' = max_votes_of db"
  | (refused) "public_votes db' = public_votes db" "max_votes_of db' = max_votes_of db" "\<And>k. r \<noteq> G_done k"
proof (cases "grand_campaign cid old")
  case None
  then show thesis using assms by (intro refused) (auto simp: cast_vote_on_def)
next
  case (Some c)
  define v where "v = \<lparr>pv_campaign = cid, pv_voter = voter, pv_finalist = uid\<rparr>"
  show thesis
  proof (cases "ec_status c = ''voting'' \<and> is_user old uid \<and> is_finalist cid uid old \<and>
      votes_by cid voter (public_votes old) < max_votes_of old cid \<and> v \<notin> set (public_votes old) \<and> v \<notin> set (public_votes db)")
    case True
    then show thesis using assms Some by (intro stored [of c]) (auto simp: cast_vote_on_def Let_def v_def)
  next
    case False
    have "public_votes (snd (cast_vote_on old voter cid uid db)) = public_votes db"
      "max_votes_of (snd (cast_vote_on old voter cid uid db)) = max_votes_of db"
      "fst (cast_vote_on old voter cid uid db) \<noteq> G_done k" for k
      using False by (auto simp: cast_vote_on_def Some Let_def v_def not_le)
    then show thesis using assms by (intro refused) simp_all
  qed
qed

lemma cast_vote_ok: "votes_ok db \<Longrightarrow> votes_ok (snd (cast_vote voter cid uid db))"
proof -
  assume ok: "votes_ok db"
  obtain r db' where v: "cast_vote_on db voter cid uid db = (r, db')" by fastforce
  from v have "votes_ok db'"
  proof (cases rule: cast_vote_cases)
    case (stored c)
    then show ?thesis using ok by (auto simp: votes_ok_def votes_by_append)
  next
    case refused
    then show ?thesis using ok by (simp add: votes_ok_def)
  qed
  then show ?thesis by (simp add: cast_vote_def v)
qed

text \<open>
  C20. Nobody votes more often than allowed: over every sequence of qualifications, judgements, votes, final rankings and changes of
  status, a voter casts at most the configured number of votes in a campaign, and at most one for each finalist.
\<close>

theorem votes_within_limit:
  assumes "votes_ok db"
  shows "votes_by cid voter (public_votes (fold (exec_grand portion) ops db)) \<le> max 0 (max_votes_of db cid) \<and>
    distinct (public_votes (fold (exec_grand portion) ops db))"
proof -
  have "votes_ok (exec_grand portion x d) \<and> max_votes_of (exec_grand portion x d) = max_votes_of d" if "votes_ok d" for x d
  proof (cases x)
    case (Vote voter cid uid)
    obtain r d' where v: "cast_vote_on d voter cid uid d = (r, d')" by fastforce
    then have "max_votes_of d' = max_votes_of d" by (cases rule: cast_vote_cases) simp_all
    then show ?thesis using that cast_vote_ok [OF that, of voter cid uid] by (simp add: Vote cast_vote_def v)
  qed (use that in \<open>simp_all add: votes_ok_def\<close>)
  then have r: "votes_ok (fold (exec_grand portion) ops db) \<and> max_votes_of (fold (exec_grand portion) ops db) = max_votes_of db"
    using assms by (induction ops arbitrary: db) fastforce+
  then have "votes_by cid voter (public_votes (fold (exec_grand portion) ops db)) \<le> max 0 (max_votes_of (fold (exec_grand portion) ops db) cid)"
    unfolding votes_ok_def by blast
  then show ?thesis using r by (simp add: votes_ok_def)
qed

text \<open>Two overlapping requests of one voter for different finalists both pass the check of the number.\<close>

lemma stale_vote_exceeds_limit:
  assumes "grand_campaign cid old = Some c" "ec_status c = ''voting''" "is_user old uid" "is_finalist cid uid old"
    "votes_by cid voter (public_votes old) < max_votes_of old cid"
    "\<lparr>pv_campaign = cid, pv_voter = voter, pv_finalist = uid\<rparr> \<notin> set (public_votes old) \<union> set (public_votes db)"
    "votes_by cid voter (public_votes db) = max_votes_of db cid"
  shows "votes_by cid voter (public_votes (snd (cast_vote_on old voter cid uid db))) = max_votes_of db cid + 1"
  using assms by (simp add: cast_vote_on_def Let_def votes_by_append)

section \<open>The final ranking\<close>

lemma put_judge_once:
  assumes "distinct (map (\<lambda>r. (jd_campaign r, jd_user r, jd_judge r)) rows)"
  shows "distinct (map (\<lambda>r. (jd_campaign r, jd_user r, jd_judge r)) (put_judge_row row rows))"
proof (cases "find_index (\<lambda>r. jd_campaign r = jd_campaign row \<and> jd_user r = jd_user row \<and> jd_judge r = jd_judge row) rows")
  case None
  then have "put_judge_row row rows = rows @ [row]" by (simp add: put_judge_row_def)
  then show ?thesis using assms None by (auto simp: find_index_None)
next
  case (Some i)
  then have "i < length rows" "jd_campaign (rows ! i) = jd_campaign row \<and> jd_user (rows ! i) = jd_user row \<and> jd_judge (rows ! i) = jd_judge row"
    using find_index_Some by fastforce+
  then have "map (\<lambda>r. (jd_campaign r, jd_user r, jd_judge r)) (rows[i := row]) = map (\<lambda>r. (jd_campaign r, jd_user r, jd_judge r)) rows"
    by (auto intro!: nth_equalityI simp: nth_list_update)
  then show ?thesis using assms Some by (simp only: put_judge_row_def option.case)
qed

lemma score_finalist_keys [simp]:
  "fn_user (score_finalist k vs f) = fn_user f" "fn_campaign (score_finalist k vs f) = fn_campaign f" "fn_judge (score_finalist k vs f) = fn_judge f"
  by (simp_all add: score_finalist_def Let_def)

lemma find_index_key:
  "distinct (map f xs) \<Longrightarrow> i < length xs \<Longrightarrow> find_index (\<lambda>y. f y = f (xs ! i)) xs = Some i"
proof (induction xs arbitrary: i)
  case (Cons x xs)
  then show ?case by (cases i) auto
qed simp

lemma rank_finalist_at:
  assumes "distinct (map fn_user ordered)" "i < length ordered" "fn_user f = fn_user (ordered ! i)" "fn_campaign f = cid"
  shows "rank_finalist cid ordered f = (ordered ! i)\<lparr>fn_rank := Some (i + 1)\<rparr>"
  using find_index_key [OF assms(1,2)] assms(3,4) by (simp add: rank_finalist_def)

definition finals_of :: "nat \<Rightarrow> 'a grand_db_scheme \<Rightarrow> finalist list" where
  "finals_of cid db = filter (\<lambda>f. fn_campaign f = cid) (finalists db)"


section \<open>Qualifying twice\<close>

text \<open>Every qualification credits its finalists again, and forgets what the judges had given them.\<close>

lemma qualification_always_pays:
  assumes "admin_qualify_finalists portion cid db = (G_done n, db')" "stats_unique db"
  shows "\<exists>us. length us = n \<and> map fn_user (finals_of cid db') = us \<and>
    (\<forall>u. points_of db' u = points_of db u + (if u \<in> set us then grand_finalist_points (win_rewards db) else 0))"
proof -
  obtain c where c: "grand_campaign cid db = Some c" using assms(1) by (auto simp: admin_qualify_finalists_def split: option.splits)
  define es where "es = take (nat (max 1 (portion (length (qualifying_entries cid db)) (qualification_percentage (grand_config cid (engine c db))))))
    (sort_desc en_score (qualifying_entries cid db))"
  obtain x db1 where cr: "credit_finalists (grand_finalist_points (win_rewards db)) es (engine c db) = (x, db1)" by fastforce
  have x: "x = None" and n: "n = length es"
    and db': "db' = db1\<lparr>finalists := filter (\<lambda>f. fn_campaign f \<noteq> cid) (finalists db1) @
      map (new_finalist cid) (map (\<lambda>(i, e). \<lparr>wn_rank = i + 1, wn_user = en_user e, wn_score = en_score e, wn_method = [],
        wn_points = grand_finalist_points (win_rewards db)\<rparr>) (enumerate 0 es))\<rparr>"
    using assms(1) c cr by (auto simp: admin_qualify_finalists_def select_grand_finalists_def Let_def es_def split: option.splits)
  have "map fn_user (map (new_finalist cid) (map (\<lambda>(i, e). \<lparr>wn_rank = i + 1, wn_user = en_user e, wn_score = en_score e, wn_method = [],
        wn_points = r\<rparr>) (enumerate m xs))) = map en_user xs" for r m xs
    by (induction xs arbitrary: m) (simp_all add: new_finalist_def)
  then have users: "map fn_user (finals_of cid db') = map en_user es"
    by (auto simp: db' finals_of_def new_finalist_def filter_empty_conv o_def case_prod_beta)
  have "distinct (map st_user (filter (\<lambda>t. st_campaign t = cid) (stat_rows db)))"
    using assms(2) unfolding stats_unique_def by (auto simp: distinct_map inj_on_def)
  then have "distinct (map st_user (standing_stats cid db))" by (simp add: standing_stats_def)
  then have "distinct (map en_user (qualifying_entries cid db))" by (simp add: qualifying_entries_def o_def distinct_map_filter)
  then have "distinct (map en_user es)" by (simp add: es_def take_map [symmetric])
  then have "points_of db1 u = points_of (engine c db) u + (if u \<in> en_user ` set es then grand_finalist_points (win_rewards db) else 0)" for u
    by (rule credit_finalists_writes(2) [OF cr x])
  then have "\<forall>u. points_of db' u = points_of db u + (if u \<in> set (map en_user es) then grand_finalist_points (win_rewards db) else 0)"
    by (simp add: db' points_of_def)
  then show ?thesis using users n by auto
qed

section \<open>A concrete final\<close>

definition final_demo :: grand_db where
  "final_demo = winner_db.extend
     (demo\<lparr>entry_campaigns := (\<lambda>_. None)(5 \<mapsto> demo_campaign\<lparr>cp_type := ''grand'', ec_status := ''voting''\<rparr>)\<rparr>)
     \<lparr>finalists = map (\<lambda>(u, r). \<lparr>fn_campaign = 5, fn_user = u, fn_qualification = 0, fn_qrank = r, fn_judge = 40, fn_votes = 0,
        fn_vote_score = 0, fn_final = 0, fn_rank = None\<rparr>) [(1, 1), (2, 2)],
      judge_rows = [], public_votes = [], max_votes_of = (\<lambda>_. 1), is_user = (\<lambda>_. True)\<rparr>"

theorem votes_within_limit_witness:
  "votes_by 5 7 (public_votes (fold (exec_grand (\<lambda>_ _. 1)) [Vote 7 5 2, Vote 7 5 1] final_demo)) \<le> max 0 (max_votes_of final_demo 5) \<and>
   length (public_votes (fold (exec_grand (\<lambda>_ _. 1)) [Vote 7 5 2, Vote 7 5 1] final_demo)) = 1"
proof -
  have "votes_ok final_demo" by (simp add: votes_ok_def votes_by_def final_demo_def winner_db.extend_def demo_def engage_db.extend_def)
  moreover have "length (public_votes (fold (exec_grand (\<lambda>_ _. 1)) [Vote 7 5 2, Vote 7 5 1] final_demo)) = 1" by code_simp
  ultimately show ?thesis using votes_within_limit by blast
qed

definition voted_demo :: grand_db where
  "voted_demo = final_demo\<lparr>public_votes := [\<lparr>pv_campaign = 5, pv_voter = 7, pv_finalist = 2\<rparr>]\<rparr>"

lemma voted_calculated:
  "fst (admin_calculate_final_scores 5 voted_demo) = G_done 2 \<and>
   map (\<lambda>f. (fn_user f, fn_rank f)) (finals_of 5 (snd (admin_calculate_final_scores 5 voted_demo))) = [(1, Some 2), (2, Some 1)]"
  by code_simp


end
