(* ===== verification/Post_Scoring.thy ===== *)
theory Post_Scoring
  imports Winners
begin

text \<open>
  Moderation and the judged scores of campaign posts: \<open>PostScore\<close> and \<open>UserCampaignStats.update_stats\<close> of
  \<open>api/models/campaign_extended.py\<close>, the moderators' endpoints of \<open>api/views/campaign_admin.py\<close>, and the refresh of
  engagement and consistency scores in \<open>api/views/campaign_user.py\<close>. A column read from the database is a \<open>Decimal\<close>, what the
  code computes with \<open>float\<close> is a float, and Python refuses to add the two: values carry their type.
\<close>

section \<open>Numbers\<close>

datatype pynum = Dcm rat | Flt rat | Whole int

fun num_value :: "pynum \<Rightarrow> rat" where
  "num_value (Dcm x) = x"
| "num_value (Flt x) = x"
| "num_value (Whole n) = of_int n"

definition operand_error :: exn where
  "operand_error = TypeError ''unsupported operand type(s)''"

fun num_op :: "(rat \<Rightarrow> rat \<Rightarrow> rat) \<Rightarrow> (int \<Rightarrow> int \<Rightarrow> int) \<Rightarrow> pynum \<Rightarrow> pynum \<Rightarrow> pynum result" where
  "num_op f g (Whole a) (Whole b) = Inr (Whole (g a b))"
| "num_op f g (Dcm a) (Flt b) = Inl operand_error"
| "num_op f g (Flt a) (Dcm b) = Inl operand_error"
| "num_op f g (Dcm a) y = Inr (Dcm (f a (num_value y)))"
| "num_op f g x (Dcm b) = Inr (Dcm (f (num_value x) b))"
| "num_op f g x y = Inr (Flt (f (num_value x) (num_value y)))"

definition num_add :: "pynum \<Rightarrow> pynum \<Rightarrow> pynum result" where
  "num_add = num_op (+) (+)"

definition num_mult :: "pynum \<Rightarrow> pynum \<Rightarrow> pynum result" where
  "num_mult = num_op (*) (*)"

text \<open>\<open>min(float(m), x)\<close> gives its first argument unless the second is smaller.\<close>

definition capped_points :: "rat \<Rightarrow> pynum \<Rightarrow> pynum" where
  "capped_points m x = (if num_value x < m then x else Flt m)"

text \<open>Writing to a column with two decimals and \<open>d\<close> digits before them. A float stands for the number it was computed from.\<close>

definition column :: "nat \<Rightarrow> rat \<Rightarrow> rat result" where
  "column d x = (let n = half_even (x * 100) in if \<bar>n\<bar> < 10 ^ (d + 2) then Inr (of_int n / 100) else Inl (ArithmeticError ''InvalidOperation''))"

section \<open>Rows\<close>

record score_columns =
  sv_reel :: nat
  sv_creativity :: rat
  sv_engagement :: rat
  sv_consistency :: rat
  sv_quality :: rat
  sv_theme :: rat
  sv_total :: rat

record score_values =
  iv_creativity :: pynum
  iv_engagement :: pynum
  iv_consistency :: pynum
  iv_quality :: pynum
  iv_theme :: pynum
  iv_total :: pynum

record legacy_settings =
  max_creativity :: rat
  max_engagement :: rat
  max_consistency :: rat
  max_quality :: rat
  max_theme :: rat
  lg_likes_weight :: rat
  lg_comments_weight :: rat
  streak_points :: rat
  participation_points :: rat

definition default_legacy :: legacy_settings where
  "default_legacy = \<lparr>max_creativity = 30, max_engagement = 25, max_consistency = 20, max_quality = 15, max_theme = 10,
     lg_likes_weight = 6 / 10, lg_comments_weight = 3 / 2, streak_points = 1, participation_points = 1 / 2\<rparr>"

text \<open>The score columns of the rows of \<open>post_scores\<close>, in the same order; a campaign without a configuration has the default settings.\<close>

record score_db = winner_db +
  score_rows :: "score_columns list"
  legacy :: "nat \<Rightarrow> legacy_settings"

datatype score_reply = S_done | S_not_found | S_invalid | S_raised exn

definition loaded :: "score_columns \<Rightarrow> score_values" where
  "loaded c = \<lparr>iv_creativity = Dcm (sv_creativity c), iv_engagement = Dcm (sv_engagement c), iv_consistency = Dcm (sv_consistency c),
     iv_quality = Dcm (sv_quality c), iv_theme = Dcm (sv_theme c), iv_total = Dcm (sv_total c)\<rparr>"

definition saved :: "nat \<Rightarrow> score_values \<Rightarrow> score_columns result" where
  "saved rid v =
     bind_result (column 3 (num_value (iv_creativity v))) (\<lambda>a.
     bind_result (column 3 (num_value (iv_engagement v))) (\<lambda>b.
     bind_result (column 3 (num_value (iv_consistency v))) (\<lambda>c.
     bind_result (column 3 (num_value (iv_quality v))) (\<lambda>d.
     bind_result (column 3 (num_value (iv_theme v))) (\<lambda>e.
     bind_result (column 3 (num_value (iv_total v))) (\<lambda>t.
       Inr \<lparr>sv_reel = rid, sv_creativity = a, sv_engagement = b, sv_consistency = c, sv_quality = d, sv_theme = e, sv_total = t\<rparr>))))))"

definition store_score :: "nat \<Rightarrow> string \<Rightarrow> score_columns \<Rightarrow> 'a score_db_scheme \<Rightarrow> 'a score_db_scheme" where
  "store_score i verdict c db =
     db\<lparr>post_scores := (post_scores db)[i := (post_scores db ! i)\<lparr>sc_moderation := verdict\<rparr>], score_rows := (score_rows db)[i := c]\<rparr>"

definition config_row :: "nat \<Rightarrow> 'a score_db_scheme \<Rightarrow> 'a score_db_scheme" where
  "config_row cid db =
     (case scoring_configs db cid of
        Some _ \<Rightarrow> db
      | None \<Rightarrow> db\<lparr>scoring_configs := (scoring_configs db)(cid \<mapsto> default_scoring_config)\<rparr>)"

section \<open>\<open>PostScore\<close> and \<open>UserCampaignStats\<close>\<close>

definition total_of :: "score_values \<Rightarrow> pynum result" where
  "total_of v =
     bind_result (num_add (iv_creativity v) (iv_engagement v)) (\<lambda>a.
     bind_result (num_add a (iv_consistency v)) (\<lambda>b.
     bind_result (num_add b (iv_quality v)) (\<lambda>c. num_add c (iv_theme v))))"

text \<open>A method of a row ends with the exception it raised, if any, and what the database holds then.\<close>

definition calculate_total_score :: "nat \<Rightarrow> string \<Rightarrow> score_values \<Rightarrow> 'a score_db_scheme \<Rightarrow> exn option \<times> 'a score_db_scheme" where
  "calculate_total_score i verdict v db =
     (case total_of v of
        Inl x \<Rightarrow> (Some x, db)
      | Inr t \<Rightarrow>
          (case saved (sv_reel (score_rows db ! i)) (v\<lparr>iv_total := t\<rparr>) of
             Inl x \<Rightarrow> (Some x, db)
           | Inr c \<Rightarrow> (None, store_score i verdict c db)))"

definition engagement_points :: "legacy_settings \<Rightarrow> nat \<Rightarrow> 'a score_db_scheme \<Rightarrow> pynum" where
  "engagement_points l rid db =
     (let likes = length (filter (\<lambda>v. snd v = rid) (vote_rows db));
          comments = length (filter (\<lambda>c. cm_reel c = rid) (comment_rows db));
          raw = of_nat likes * lg_likes_weight l + of_nat comments * lg_comments_weight l
      in Flt (min (max_engagement l) (raw / 10)))"

definition update_engagement_score :: "nat \<Rightarrow> string \<Rightarrow> score_values \<Rightarrow> 'a score_db_scheme \<Rightarrow> exn option \<times> 'a score_db_scheme" where
  "update_engagement_score i verdict v db =
     (let cid = sc_campaign (post_scores db ! i); rid = sv_reel (score_rows db ! i);
          db1 = config_row cid db;
          v1 = v\<lparr>iv_engagement := engagement_points (legacy db cid) rid db\<rparr>
      in case saved rid v1 of
           Inl x \<Rightarrow> (Some x, db1)
         | Inr c \<Rightarrow> calculate_total_score i verdict v1 (store_score i verdict c db1))"

definition posts_of :: "string \<Rightarrow> nat \<Rightarrow> nat \<Rightarrow> 'a score_db_scheme \<Rightarrow> nat list" where
  "posts_of verdict uid cid db =
     filter (\<lambda>i. sc_user (post_scores db ! i) = uid \<and> sc_campaign (post_scores db ! i) = cid \<and> sc_moderation (post_scores db ! i) = verdict)
       [0..<length (post_scores db)]"

text \<open>A configuration that was just created still holds the floats of its defaults.\<close>

definition stats_total :: "nat \<Rightarrow> nat \<Rightarrow> 'a score_db_scheme \<Rightarrow> pynum result" where
  "stats_total uid cid db =
     (let posts = posts_of ''approved'' uid cid db;
          sum0 = (if posts = [] then Whole 0 else Dcm (sum_list (map (\<lambda>i. sv_total (score_rows db ! i)) posts)));
          kind = (if scoring_configs db cid = None then Flt else Dcm);
          st = stats_of uid cid db
      in bind_result (num_mult (Whole (int (current_streak st))) (kind (streak_points (legacy db cid)))) (\<lambda>a.
         bind_result (num_add sum0 a) (\<lambda>t1.
         bind_result (num_mult (Whole (int (days_participated st))) (kind (participation_points (legacy db cid)))) (\<lambda>b.
           num_add t1 b))))"

definition refresh_stats :: "nat \<Rightarrow> nat \<Rightarrow> 'a score_db_scheme \<Rightarrow> exn option \<times> 'a score_db_scheme" where
  "refresh_stats uid cid db =
     (let db1 = config_row cid db
      in case stats_total uid cid db of
           Inl x \<Rightarrow> (Some x, db1)
         | Inr t \<Rightarrow>
             (case column 8 (num_value t) of
                Inl x \<Rightarrow> (Some x, db1)
              | Inr q \<Rightarrow>
                  (None, db1\<lparr>stat_rows := map (\<lambda>s. if st_user s = uid \<and> st_campaign s = cid
                     then s\<lparr>st_total_score := q, st_approved := int (length (posts_of ''approved'' uid cid db))\<rparr> else s) (stat_rows db1)\<rparr>)))"

definition stats_row :: "nat \<Rightarrow> nat \<Rightarrow> 'a score_db_scheme \<Rightarrow> 'a score_db_scheme" where
  "stats_row uid cid db = (case find_stat uid cid db of Some _ \<Rightarrow> db | None \<Rightarrow> db\<lparr>stat_rows := stat_rows db @ [new_stat uid cid]\<rparr>)"

section \<open>The moderators' endpoints\<close>

datatype verdict =
    Approve pynum "pynum option" "pynum option"
  | Reject
  | Other_action

definition reply_of :: "exn option \<times> 'b \<Rightarrow> score_reply \<times> 'b" where
  "reply_of r = (case fst r of None \<Rightarrow> S_done | Some x \<Rightarrow> S_raised x, snd r)"

definition approved_values :: "legacy_settings \<Rightarrow> pynum \<Rightarrow> pynum option \<Rightarrow> pynum option \<Rightarrow> score_values \<Rightarrow> score_values" where
  "approved_values l cr ql th v =
     v\<lparr>iv_creativity := capped_points (max_creativity l) cr,
       iv_quality := capped_points (max_quality l) (case ql of None \<Rightarrow> Flt (max_quality l * 7 / 10) | Some x \<Rightarrow> x),
       iv_theme := capped_points (max_theme l) (case th of None \<Rightarrow> Flt (max_theme l / 2) | Some x \<Rightarrow> x)\<rparr>"

definition admin_moderate_post :: "nat \<Rightarrow> verdict \<Rightarrow> 'a score_db_scheme \<Rightarrow> score_reply \<times> 'a score_db_scheme" where
  "admin_moderate_post i act db =
     (if length (post_scores db) \<le> i then (S_not_found, db)
      else (let p = post_scores db ! i; cid = sc_campaign p; uid = sc_user p; v = loaded (score_rows db ! i)
            in case act of
                 Other_action \<Rightarrow> (S_invalid, db)
               | Reject \<Rightarrow> reply_of (refresh_stats uid cid (stats_row uid cid (store_score i ''rejected'' (score_rows db ! i) db)))
               | Approve cr ql th \<Rightarrow>
                   (case update_engagement_score i ''approved'' (approved_values (legacy db cid) cr ql th v) (config_row cid db) of
                      (Some x, db1) \<Rightarrow> (S_raised x, db1)
                    | (None, db1) \<Rightarrow> reply_of (refresh_stats uid cid (stats_row uid cid db1)))))"

definition given_float :: "rat \<Rightarrow> rat option \<Rightarrow> pynum \<Rightarrow> pynum" where
  "given_float m x old = (case x of None \<Rightarrow> old | Some y \<Rightarrow> Flt (min m y))"

definition admin_update_post_scores ::
  "nat \<Rightarrow> rat option \<Rightarrow> rat option \<Rightarrow> rat option \<Rightarrow> 'a score_db_scheme \<Rightarrow> score_reply \<times> 'a score_db_scheme" where
  "admin_update_post_scores i cr ql th db =
     (if length (post_scores db) \<le> i then (S_not_found, db)
      else (let p = post_scores db ! i; cid = sc_campaign p; uid = sc_user p; v = loaded (score_rows db ! i);
                l = legacy db cid; db1 = config_row cid db;
                v1 = v\<lparr>iv_creativity := given_float (max_creativity l) cr (iv_creativity v),
                       iv_quality := given_float (max_quality l) ql (iv_quality v),
                       iv_theme := given_float (max_theme l) th (iv_theme v)\<rparr>
            in case calculate_total_score i (sc_moderation p) v1 db1 of
                 (Some x, db2) \<Rightarrow> (S_raised x, db2)
               | (None, db2) \<Rightarrow> reply_of (refresh_stats uid cid (stats_row uid cid db2))))"

section \<open>Refreshing the scores of a campaign\<close>

definition campaign_posts :: "nat \<Rightarrow> 'a score_db_scheme \<Rightarrow> nat list" where
  "campaign_posts cid db =
     filter (\<lambda>i. sc_campaign (post_scores db ! i) = cid \<and> sc_moderation (post_scores db ! i) = ''approved'') [0..<length (post_scores db)]"

text \<open>Each post and each row of statistics has a handler of its own: an exception is counted and the loop goes on.\<close>

fun refresh_posts :: "nat list \<Rightarrow> 'a score_db_scheme \<Rightarrow> nat \<times> exn list \<times> 'a score_db_scheme" where
  "refresh_posts [] db = (0, [], db)"
| "refresh_posts (i # is) db =
     (case update_engagement_score i (sc_moderation (post_scores db ! i)) (loaded (score_rows db ! i)) db of
        (x, db1) \<Rightarrow> (case refresh_posts is db1 of (n, es, db2) \<Rightarrow>
          (case x of None \<Rightarrow> (n + 1, es, db2) | Some e \<Rightarrow> (n, e # es, db2))))"

fun refresh_all_stats :: "(nat \<times> nat) list \<Rightarrow> 'a score_db_scheme \<Rightarrow> nat \<times> exn list \<times> 'a score_db_scheme" where
  "refresh_all_stats [] db = (0, [], db)"
| "refresh_all_stats ((uid, cid) # ks) db =
     (case refresh_stats uid cid db of (x, db1) \<Rightarrow> (case refresh_all_stats ks db1 of (n, es, db2) \<Rightarrow>
        (case x of None \<Rightarrow> (n + 1, es, db2) | Some e \<Rightarrow> (n, e # es, db2))))"

definition update_engagement_scores :: "nat \<Rightarrow> 'a score_db_scheme \<Rightarrow> (nat \<times> nat \<times> exn list) \<times> 'a score_db_scheme" where
  "update_engagement_scores cid db =
     (case refresh_posts (campaign_posts cid db) db of (n, es, db1) \<Rightarrow>
     (case refresh_all_stats (map (\<lambda>s. (st_user s, st_campaign s)) (standing_stats cid db1)) db1 of (k, fs, db2) \<Rightarrow>
        ((n, k, es @ fs), db2)))"

definition consistency_points :: "legacy_settings \<Rightarrow> user_campaign_stats \<Rightarrow> rat" where
  "consistency_points l st =
     (let most = max_consistency l;
          streak = min (most / 2) (of_nat (current_streak st) * streak_points l);
          participation = min (most / 2) (of_nat (days_participated st) * participation_points l)
      in min most (streak + participation))"

definition calculate_consistency_score :: "nat \<Rightarrow> nat \<Rightarrow> 'a score_db_scheme \<Rightarrow> rat" where
  "calculate_consistency_score uid cid db =
     (case find_stat uid cid db of None \<Rightarrow> 0 | Some _ \<Rightarrow> consistency_points (legacy db cid) (stats_of uid cid db))"

fun recalculate :: "nat list \<Rightarrow> 'a score_db_scheme \<Rightarrow> exn option \<times> 'a score_db_scheme" where
  "recalculate [] db = (None, db)"
| "recalculate (i # is) db =
     (case calculate_total_score i (sc_moderation (post_scores db ! i)) (loaded (score_rows db ! i)) db of
        (Some x, db1) \<Rightarrow> (Some x, db1)
      | (None, db1) \<Rightarrow> recalculate is db1)"

definition set_consistency :: "nat list \<Rightarrow> rat \<Rightarrow> 'a score_db_scheme \<Rightarrow> 'a score_db_scheme" where
  "set_consistency is q db =
     db\<lparr>score_rows := fold (\<lambda>i rows. rows[i := (rows ! i)\<lparr>sv_consistency := q\<rparr>]) is (score_rows db)\<rparr>"

definition consistency_for :: "nat \<Rightarrow> nat \<Rightarrow> 'a score_db_scheme \<Rightarrow> exn option \<times> 'a score_db_scheme" where
  "consistency_for cid uid db =
     (let db1 = (if find_stat uid cid db = None then db else config_row cid db); posts = posts_of ''approved'' uid cid db
      in case column 3 (calculate_consistency_score uid cid db) of
           Inl x \<Rightarrow> (Some x, db1)
         | Inr q \<Rightarrow> recalculate posts (set_consistency posts q db1))"

fun consistency_each :: "nat \<Rightarrow> nat list \<Rightarrow> 'a score_db_scheme \<Rightarrow> exn option \<times> 'a score_db_scheme" where
  "consistency_each cid [] db = (None, db)"
| "consistency_each cid (uid # us) db =
     (case consistency_for cid uid db of (Some x, db1) \<Rightarrow> (Some x, db1) | (None, db1) \<Rightarrow> consistency_each cid us db1)"

definition update_consistency_scores :: "nat \<Rightarrow> 'a score_db_scheme \<Rightarrow> score_reply \<times> 'a score_db_scheme" where
  "update_consistency_scores cid db =
     (if entry_campaigns db cid = None then (S_not_found, db)
      else reply_of (consistency_each cid (remdups (map (\<lambda>i. sc_user (post_scores db ! i)) (campaign_posts cid db))) db))"

section \<open>Adding a float to a column\<close>

definition json_number :: "pynum \<Rightarrow> bool" where
  "json_number x \<longleftrightarrow> (case x of Dcm _ \<Rightarrow> False | _ \<Rightarrow> True)"

lemma capped_points_json: "json_number x \<Longrightarrow> json_number (capped_points m x)"
  by (simp add: capped_points_def json_number_def)

lemma total_with_float:
  assumes "json_number (iv_creativity v)" "iv_engagement v = Flt e" "iv_consistency v = Dcm c"
  shows "total_of v = Inl operand_error"
  using assms by (cases "iv_creativity v") (auto simp: total_of_def num_add_def json_number_def)

lemma total_column_float:
  assumes "iv_creativity v = Dcm c" "iv_engagement v = Flt e"
  shows "total_of v = Inl operand_error"
  using assms by (simp add: total_of_def num_add_def)

lemma store_score_keeps [simp]:
  "stat_rows (store_score i w c db) = stat_rows db" "scoring_configs (store_score i w c db) = scoring_configs db"
  "length (post_scores (store_score i w c db)) = length (post_scores db)"
  by (simp_all add: store_score_def)

lemma config_row_keeps [simp]:
  "stat_rows (config_row cid db) = stat_rows db" "post_scores (config_row cid db) = post_scores db" "score_rows (config_row cid db) = score_rows db"
  "legacy (config_row cid db) = legacy db" "vote_rows (config_row cid db) = vote_rows db" "comment_rows (config_row cid db) = comment_rows db"
  "campaign_stats (config_row cid db) = campaign_stats db"
  by (simp_all add: config_row_def split: option.split)

lemma engagement_float: "\<exists>e. engagement_points l rid db = Flt e"
  by (simp add: engagement_points_def Let_def)

text \<open>
  C23. Approving a post always answers with an error: whatever the moderator sends, the engagement computed in floats is added to a decimal
  column, and Python raises. When that is the error, the post is left approved, and the statistics of its author are never updated.
\<close>

theorem approval_always_raises:
  assumes "i < length (post_scores db)" "length (score_rows db) = length (post_scores db)" "json_number cr"
  shows "\<exists>x. fst (admin_moderate_post i (Approve cr ql th) db) = S_raised x \<and>
    stat_rows (snd (admin_moderate_post i (Approve cr ql th) db)) = stat_rows db \<and>
    (x = operand_error \<longrightarrow> sc_moderation (post_scores (snd (admin_moderate_post i (Approve cr ql th) db)) ! i) = ''approved'')"
proof -
  define cid where "cid = sc_campaign (post_scores db ! i)"
  define db0 where "db0 = config_row cid db"
  define v where "v = approved_values (legacy db cid) cr ql th (loaded (score_rows db ! i))"
  define v1 where "v1 = v\<lparr>iv_engagement := engagement_points (legacy db cid) (sv_reel (score_rows db ! i)) db0\<rparr>"
  have "json_number (iv_creativity v1)" by (simp add: v1_def v_def approved_values_def capped_points_json assms(3))
  moreover obtain e where "iv_engagement v1 = Flt e" using engagement_float by (fastforce simp: v1_def)
  moreover have "iv_consistency v1 = Dcm (sv_consistency (score_rows db ! i))" by (simp add: v1_def v_def approved_values_def loaded_def)
  ultimately have t: "total_of v1 = Inl operand_error" by (rule total_with_float)
  have v1: "v1 = v\<lparr>iv_engagement := engagement_points (legacy db0 (sc_campaign (post_scores db0 ! i))) (sv_reel (score_rows db0 ! i)) db0\<rparr>"
    by (simp add: v1_def cid_def db0_def)
  have u: "update_engagement_score i ''approved'' v db0 =
    (case saved (sv_reel (score_rows db ! i)) v1 of Inl x \<Rightarrow> (Some x, config_row cid db0)
     | Inr c \<Rightarrow> (Some operand_error, store_score i ''approved'' c (config_row cid db0)))"
    unfolding update_engagement_score_def Let_def v1 [symmetric]
    by (simp add: calculate_total_score_def t db0_def cid_def split: sum.split)
  have m: "admin_moderate_post i (Approve cr ql th) db =
    (case update_engagement_score i ''approved'' v db0 of
       (Some x, db1) \<Rightarrow> (S_raised x, db1)
     | (None, db1) \<Rightarrow> reply_of (refresh_stats (sc_user (post_scores db ! i)) cid (stats_row (sc_user (post_scores db ! i)) cid db1)))"
    unfolding cid_def db0_def v_def using assms(1) by (simp add: admin_moderate_post_def Let_def)
  show ?thesis
  proof (cases "saved (sv_reel (score_rows db ! i)) v1")
    case (Inl x)
    then have "x \<noteq> operand_error" by (auto simp: saved_def bind_result_Inl_iff column_def Let_def operand_error_def split: if_splits)
    then show ?thesis unfolding m u by (simp add: Inl db0_def)
  next
    case (Inr c)
    then show ?thesis unfolding m u using assms(1) by (simp add: db0_def store_score_def)
  qed
qed

lemma engagement_refresh_raises:
  "fst (update_engagement_score i w (loaded r) db) \<noteq> None"
proof -
  obtain e where e: "engagement_points (legacy db (sc_campaign (post_scores db ! i))) (sv_reel (score_rows db ! i)) db = Flt e"
    using engagement_float by blast
  have "total_of ((loaded r)\<lparr>iv_engagement := Flt e\<rparr>) = Inl operand_error" by (rule total_column_float) (simp_all add: loaded_def)
  then show ?thesis by (simp add: update_engagement_score_def Let_def e calculate_total_score_def split: sum.split)
qed

text \<open>The refresh of a campaign reports an error for every post and updates none.\<close>

lemma engagement_refresh_updates_no_post: "fst (fst (update_engagement_scores cid db)) = 0"
proof -
  have "fst (refresh_posts is db) = 0" for "is" and db :: "'a score_db_scheme"
  proof (induction "is" arbitrary: db)
    case (Cons i "is")
    obtain x db1 where u: "update_engagement_score i (sc_moderation (post_scores db ! i)) (loaded (score_rows db ! i)) db = (x, db1)" by fastforce
    then have "x \<noteq> None" using engagement_refresh_raises [of i _ "score_rows db ! i" db] by (metis fst_conv)
    moreover obtain n es db2 where "refresh_posts is db1 = (n, es, db2)" by (cases "refresh_posts is db1") auto
    ultimately show ?case using Cons.IH [of db1] u by auto
  qed simp
  then show ?thesis by (simp add: update_engagement_scores_def split_beta)
qed

section \<open>The consistency refresh\<close>

definition five_sum :: "score_columns \<Rightarrow> rat" where
  "five_sum c = sv_creativity c + sv_engagement c + sv_consistency c + sv_quality c + sv_theme c"

definition cents :: "rat \<Rightarrow> bool" where
  "cents x \<longleftrightarrow> (\<exists>n. x = of_int n / 100)"

definition score_row_ok :: "score_columns \<Rightarrow> bool" where
  "score_row_ok c \<longleftrightarrow> cents (sv_creativity c) \<and> cents (sv_engagement c) \<and> cents (sv_consistency c) \<and> cents (sv_quality c) \<and> cents (sv_theme c)"

lemma column_value: "column d x = Inr y \<Longrightarrow> y = of_int (half_even (x * 100)) / 100"
  by (simp add: column_def Let_def split: if_splits)

lemma column_cents: "column d x = Inr y \<Longrightarrow> cents y"
  unfolding cents_def by (blast dest: column_value)

lemma column_exact: "column d x = Inr y \<Longrightarrow> cents x \<Longrightarrow> y = x"
  by (auto simp: cents_def dest!: column_value)

lemma cents_add: "cents x \<Longrightarrow> cents y \<Longrightarrow> cents (x + y)"
proof -
  assume "cents x" "cents y"
  then obtain m n where "x = of_int m / 100" "y = of_int n / 100" by (auto simp: cents_def)
  then have "x + y = of_int (m + n) / 100" by (simp add: add_divide_distrib)
  then show "cents (x + y)" unfolding cents_def by blast
qed

lemma total_loaded: "total_of (loaded c) = Inr (Dcm (five_sum c))"
  by (simp add: total_of_def loaded_def num_add_def five_sum_def)

lemma recalculate_one:
  assumes "calculate_total_score i (sc_moderation (post_scores db ! i)) (loaded (score_rows db ! i)) db = (None, db')" "score_row_ok (score_rows db ! i)"
  shows "db' = db\<lparr>score_rows := (score_rows db)[i := (score_rows db ! i)\<lparr>sv_total := five_sum (score_rows db ! i)\<rparr>]\<rparr>"
proof -
  let ?r = "score_rows db ! i"
  obtain c where s: "saved (sv_reel ?r) ((loaded ?r)\<lparr>iv_total := Dcm (five_sum ?r)\<rparr>) = Inr c"
    and db': "db' = store_score i (sc_moderation (post_scores db ! i)) c db"
    using assms(1) by (auto simp: calculate_total_score_def total_loaded split: sum.splits)
  have "cents (five_sum ?r)" using assms(2) by (simp add: five_sum_def score_row_ok_def cents_add)
  moreover obtain c1 c2 c3 c4 c5 c6 where "column 3 (sv_creativity ?r) = Inr c1" "column 3 (sv_engagement ?r) = Inr c2"
    "column 3 (sv_consistency ?r) = Inr c3" "column 3 (sv_quality ?r) = Inr c4" "column 3 (sv_theme ?r) = Inr c5"
    "column 3 (five_sum ?r) = Inr c6"
    "c = \<lparr>sv_reel = sv_reel ?r, sv_creativity = c1, sv_engagement = c2, sv_consistency = c3, sv_quality = c4, sv_theme = c5, sv_total = c6\<rparr>"
    using s unfolding saved_def loaded_def bind_result_Inr_iff by auto
  ultimately have "c = ?r\<lparr>sv_total := five_sum ?r\<rparr>"
    using assms(2) column_exact unfolding score_row_ok_def by simp
  then show ?thesis by (simp add: db' store_score_def)
qed

lemma recalculate_spec:
  assumes "recalculate is db = (None, db')" "distinct is" "list_all score_row_ok (score_rows db)" "\<forall>i \<in> set is. i < length (score_rows db)"
  shows "\<exists>rows. db' = db\<lparr>score_rows := rows\<rparr> \<and> length rows = length (score_rows db) \<and>
    (\<forall>j < length rows. rows ! j = (if j \<in> set is then (score_rows db ! j)\<lparr>sv_total := five_sum (score_rows db ! j)\<rparr> else score_rows db ! j))"
  using assms
proof (induction "is" arbitrary: db)
  case Nil
  then have "db' = db\<lparr>score_rows := score_rows db\<rparr>" by simp
  then show ?case by (intro exI [of _ "score_rows db"]) simp
next
  case (Cons i "is")
  obtain db1 where 1: "calculate_total_score i (sc_moderation (post_scores db ! i)) (loaded (score_rows db ! i)) db = (None, db1)"
    and 2: "recalculate is db1 = (None, db')"
    using Cons.prems(1) by (auto split: prod.splits option.splits)
  have "score_row_ok (score_rows db ! i)" using Cons.prems(3,4) by (simp add: list_all_length)
  note db1 = recalculate_one [OF 1 this]
  have ok: "list_all score_row_ok (score_rows db1)" using Cons.prems(3,4) by (simp add: db1 list_all_length nth_list_update score_row_ok_def)
  have "distinct is" "\<forall>i \<in> set is. i < length (score_rows db1)" "i \<notin> set is" using Cons.prems(2,4) by (simp_all add: db1)
  with Cons.IH [OF 2 _ ok] obtain rows where rows: "db' = db1\<lparr>score_rows := rows\<rparr>" "length rows = length (score_rows db1)"
    "\<And>j. j < length rows \<Longrightarrow> rows ! j = (if j \<in> set is then (score_rows db1 ! j)\<lparr>sv_total := five_sum (score_rows db1 ! j)\<rparr> else score_rows db1 ! j)"
    by blast
  have l: "length rows = length (score_rows db)" "i < length (score_rows db)" using rows(2) Cons.prems(4) by (simp_all add: db1)
  have "rows ! j = (if j \<in> set (i # is) then (score_rows db ! j)\<lparr>sv_total := five_sum (score_rows db ! j)\<rparr> else score_rows db ! j)"
    if "j < length rows" for j
    using rows(3) [OF that] \<open>i \<notin> set is\<close> l that by (cases "j = i") (simp_all add: db1)
  moreover have "db' = db\<lparr>score_rows := rows\<rparr>" by (simp add: rows(1) db1)
  ultimately show ?case using l by blast
qed

lemma set_consistency_rows:
  assumes "distinct is" "\<forall>i \<in> set is. i < length rows"
  shows "length (fold (\<lambda>i rows. rows[i := (rows ! i)\<lparr>sv_consistency := q\<rparr>]) is rows) = length rows \<and>
    (\<forall>j < length rows. fold (\<lambda>i rows. rows[i := (rows ! i)\<lparr>sv_consistency := q\<rparr>]) is rows ! j =
      (if j \<in> set is then (rows ! j)\<lparr>sv_consistency := q\<rparr> else rows ! j))"
  using assms by (induction "is" arbitrary: rows) (auto simp: nth_list_update)

text \<open>The row of a post after the refresh: the formula at two decimals, and the total that goes with it.\<close>

definition refreshed :: "nat \<Rightarrow> 'a score_db_scheme \<Rightarrow> nat \<Rightarrow> score_columns" where
  "refreshed cid db j =
     (let c = (score_rows db ! j)\<lparr>sv_consistency := of_int (half_even (calculate_consistency_score (sc_user (post_scores db ! j)) cid db * 100)) / 100\<rparr>
      in c\<lparr>sv_total := five_sum c\<rparr>)"

definition only_scores :: "'a score_db_scheme \<Rightarrow> 'a score_db_scheme \<Rightarrow> bool" where
  "only_scores db db' \<longleftrightarrow> post_scores db' = post_scores db \<and> stat_rows db' = stat_rows db \<and>
     campaign_stats db' = campaign_stats db \<and> legacy db' = legacy db \<and>
     length (score_rows db') = length (score_rows db)"

definition scores_ok :: "'a score_db_scheme \<Rightarrow> bool" where
  "scores_ok db \<longleftrightarrow> length (score_rows db) = length (post_scores db) \<and> list_all score_row_ok (score_rows db)"

lemma posts_of_distinct: "distinct (posts_of w uid cid db)"
  by (simp add: posts_of_def)

lemma posts_of_bound: "\<forall>j \<in> set (posts_of w uid cid db). j < length (post_scores db)"
  by (simp add: posts_of_def)

lemma consistency_for_spec:
  assumes "consistency_for cid uid db = (None, db')" "scores_ok db"
  shows "only_scores db db' \<and> (\<forall>j < length (score_rows db).
    score_rows db' ! j = (if j \<in> set (posts_of ''approved'' uid cid db) then refreshed cid db j else score_rows db ! j))"
proof -
  let ?p = "posts_of ''approved'' uid cid db" and ?s = "calculate_consistency_score uid cid db"
  define db1 where "db1 = (if find_stat uid cid db = None then db else config_row cid db)"
  have keeps: "post_scores db1 = post_scores db" "campaign_stats db1 = campaign_stats db" "stat_rows db1 = stat_rows db" "legacy db1 = legacy db" "score_rows db1 = score_rows db"
    by (simp_all add: db1_def)
  obtain q where q: "column 3 ?s = Inr q" and r: "recalculate ?p (set_consistency ?p q db1) = (None, db')"
    using assms(1) unfolding consistency_for_def Let_def db1_def [symmetric] by (auto split: sum.splits)
  let ?rows = "score_rows (set_consistency ?p q db1)"
  have bound: "\<forall>j \<in> set ?p. j < length (score_rows db)" using posts_of_bound assms(2) by (simp add: scores_ok_def)
  have set: "length ?rows = length (score_rows db)"
    "\<And>j. j < length (score_rows db) \<Longrightarrow> ?rows ! j = (if j \<in> set ?p then (score_rows db ! j)\<lparr>sv_consistency := q\<rparr> else score_rows db ! j)"
    using set_consistency_rows [OF posts_of_distinct bound, of q] by (simp_all add: set_consistency_def keeps)
  have ok: "list_all score_row_ok ?rows"
    using assms(2) column_cents [OF q] by (simp add: list_all_length set scores_ok_def score_row_ok_def)
  obtain rows where rows: "db' = (set_consistency ?p q db1)\<lparr>score_rows := rows\<rparr>" "length rows = length ?rows"
    "\<And>j. j < length rows \<Longrightarrow> rows ! j = (if j \<in> set ?p then (?rows ! j)\<lparr>sv_total := five_sum (?rows ! j)\<rparr> else ?rows ! j)"
    using recalculate_spec [OF r posts_of_distinct ok] bound by (auto simp: set)
  have "rows ! j = (if j \<in> set ?p then refreshed cid db j else score_rows db ! j)" if "j < length (score_rows db)" for j
  proof -
    have "refreshed cid db j = (?rows ! j)\<lparr>sv_total := five_sum (?rows ! j)\<rparr>" if j: "j \<in> set ?p"
    proof -
      have "sc_user (post_scores db ! j) = uid" using j by (simp add: posts_of_def)
      then show ?thesis using set(2) [OF \<open>j < length (score_rows db)\<close>] j by (simp add: refreshed_def Let_def column_value [OF q])
    qed
    then show ?thesis using rows(2) rows(3) [of j] set that by simp
  qed
  then show ?thesis using rows(1,2) set(1) by (simp add: only_scores_def set_consistency_def keeps)
qed

lemma refreshed_score_ok: "scores_ok db \<Longrightarrow> j < length (score_rows db) \<Longrightarrow> score_row_ok (refreshed cid db j)"
  unfolding scores_ok_def refreshed_def Let_def by (auto simp: score_row_ok_def list_all_length cents_def)

lemma only_scores_same:
  assumes "only_scores db db'"
  shows "posts_of w uid cid db' = posts_of w uid cid db" "calculate_consistency_score uid cid db' = calculate_consistency_score uid cid db"
  using assms by (simp_all add: only_scores_def posts_of_def calculate_consistency_score_def find_stat_def stats_of_def split: option.split)

lemma consistency_each_spec:
  assumes "consistency_each cid us db = (None, db')" "scores_ok db" "distinct us"
  shows "only_scores db db' \<and> (\<forall>j < length (score_rows db).
    score_rows db' ! j = (if \<exists>uid \<in> set us. j \<in> set (posts_of ''approved'' uid cid db) then refreshed cid db j else score_rows db ! j))"
  using assms
proof (induction us arbitrary: db)
  case Nil
  then show ?case by (simp add: only_scores_def)
next
  case (Cons uid us)
  obtain db1 where 1: "consistency_for cid uid db = (None, db1)" and 2: "consistency_each cid us db1 = (None, db')"
    using Cons.prems(1) by (auto split: prod.splits option.splits)
  note f = consistency_for_spec [OF 1 Cons.prems(2)]
  then have o1: "only_scores db db1" by simp
  have ok1: "scores_ok db1"
    using f Cons.prems(2) refreshed_score_ok [OF Cons.prems(2)] by (simp add: only_scores_def scores_ok_def list_all_length)
  have g: "only_scores db1 db'" "\<And>j. j < length (score_rows db1) \<Longrightarrow>
    score_rows db' ! j = (if \<exists>u \<in> set us. j \<in> set (posts_of ''approved'' u cid db1) then refreshed cid db1 j else score_rows db1 ! j)"
    using Cons.IH [OF 2 ok1] Cons.prems(3) by simp_all
  have "score_rows db' ! j = (if \<exists>u \<in> set (uid # us). j \<in> set (posts_of ''approved'' u cid db) then refreshed cid db j else score_rows db ! j)"
    if j: "j < length (score_rows db)" for j
  proof -
    have "j < length (score_rows db1)" using o1 j by (simp add: only_scores_def)
    then have "score_rows db' ! j = (if \<exists>u \<in> set us. j \<in> set (posts_of ''approved'' u cid db) then refreshed cid db1 j else score_rows db1 ! j)"
      using g(2) by (simp add: only_scores_same [OF o1])
    moreover have "score_rows db1 ! j = (if j \<in> set (posts_of ''approved'' uid cid db) then refreshed cid db j else score_rows db ! j)"
      using f j by simp
    moreover have "refreshed cid db1 j = refreshed cid db j" if "j \<notin> set (posts_of ''approved'' uid cid db)"
      using that calculation(2) o1 by (simp add: refreshed_def Let_def only_scores_same [OF o1]) (simp add: only_scores_def)
    moreover have "j \<notin> set (posts_of ''approved'' uid cid db)" if "u \<in> set us" "j \<in> set (posts_of ''approved'' u cid db)" for u
      using that Cons.prems(3) by (auto simp: posts_of_def)
    ultimately show ?thesis by auto
  qed
  moreover have "only_scores db db'" using o1 g(1) by (simp add: only_scores_def)
  ultimately show ?case by blast
qed


section \<open>A concrete campaign\<close>

definition score_demo :: score_db where
  "score_demo = winner_db.extend
     (demo\<lparr>campaign_stats := (\<lambda>_ _. None)(1 := [5 \<mapsto> \<lparr>days_participated = 30, current_streak = 4, longest_streak = 9, last_post_date = None\<rparr>])\<rparr>)
     \<lparr>score_rows = [\<lparr>sv_reel = 10, sv_creativity = 20, sv_engagement = 5 / 2, sv_consistency = 0, sv_quality = 21 / 2, sv_theme = 5, sv_total = 38\<rparr>,
        \<lparr>sv_reel = 11, sv_creativity = 1, sv_engagement = 0, sv_consistency = 7, sv_quality = 0, sv_theme = 5, sv_total = 1\<rparr>],
      legacy = (\<lambda>_. default_legacy)\<rparr>"

lemma score_demo_refresh:
  "fst (update_consistency_scores 5 score_demo) = S_done"
  by code_simp

lemma score_demo_rows:
  "map (\<lambda>c. (sv_consistency c, sv_total c)) (score_rows (snd (update_consistency_scores 5 score_demo))) = [(14, 52), (0, 6)]"
  by code_simp

lemma score_demo_ok: "scores_ok score_demo"
proof -
  have "cents (of_int n)" for n unfolding cents_def by (rule exI [of _ "n * 100"]) simp
  then have "cents 0" "cents 20" "cents 5" "cents 1" "cents 7" by (metis of_int_0, metis of_int_numeral, metis of_int_numeral, metis of_int_1, metis of_int_numeral)
  moreover have "cents (5 / 2)" "cents (21 / 2)" unfolding cents_def by (rule exI [of _ 250], simp, rule exI [of _ 1050], simp)
  ultimately show ?thesis
    by (simp add: scores_ok_def score_demo_def score_row_ok_def winner_db.extend_def demo_def engage_db.extend_def)
qed


theorem approval_always_raises_witness:
  "fst (admin_moderate_post 0 (Approve (Whole 12) None None) score_demo) = S_raised operand_error \<and>
   stat_rows (snd (admin_moderate_post 0 (Approve (Whole 12) None None) score_demo)) = stat_rows score_demo"
proof -
  have "length (post_scores score_demo) = 2" "length (score_rows score_demo) = 2"
    by (simp_all add: score_demo_def winner_db.extend_def demo_def engage_db.extend_def)
  then have "stat_rows (snd (admin_moderate_post 0 (Approve (Whole 12) None None) score_demo)) = stat_rows score_demo"
    using approval_always_raises [of 0 score_demo "Whole 12" None None] by (auto simp: json_number_def)
  moreover have "fst (admin_moderate_post 0 (Approve (Whole 12) None None) score_demo) = S_raised operand_error" by code_simp
  ultimately show ?thesis by blast
qed

end
