(* ===== verification/Spec2Isabelle.thy ===== *)
theory Spec2Isabelle
  imports Payment_Status Withdrawal Coin_Orders Points_Expiry Gifting Validators Media_Serving Otp Renewal Campaign_Workflow Boost
    Grand_Final Post_Scoring
begin

text \<open>
  A verification library for the server side of a short-video contest platform (the Django project under
  \<open>src/\<close>; paths below are relative to \<open>src/api/\<close> unless they begin with \<open>common/\<close>). The theories model
  the parts of the program that hold value or decide who may do what; this root theory collects them.

  \<^bold>\<open>The program and how its parts interact.\<close> Users post reels, enter them into campaigns and engage with
  each other's posts. Two currencies move: coins, held in a wallet of three buckets (\<open>UserCoinBalance\<close>), and
  points, held in the profile (\<open>UserProfile\<close>); both are written only by a few model methods that also append
  a ledger row. Coins come in from telebirr orders (checkout or USSD push), from airtime charges over TIMWE,
  and from the subscription gift; they go out by engagement, campaign entry and gifts, which turn them into
  points of the recipient. Points leave by withdrawals paid over telebirr, by reinvestment and by expiry.
  Subscriptions are paid over USSD or renewed by airtime, and open the features of the platform. Organizations
  run campaigns under a maker/checker workflow; a finished campaign awards prizes that are delivered as data
  bundles by the CRM or as cash by telebirr. Everything reads its rates and limits from \<open>WalletConfig\<close>.

  \<^bold>\<open>The theories.\<close>
  \<^item> \<open>Prelude\<close>: exceptions and results of fallible requests, the sequencing of requests, bounded integer
    columns, the stable descending sort, and the locale \<open>ledger\<close>: a state whose operations keep an invariant
    and move a balance by what they log. Its lemmas (runs keep the invariant, runs reconcile) are used through
    the interpretations \<open>coin_wallet\<close>, \<open>order_wallet\<close>, \<open>engagement_wallet\<close> and \<open>point_wallet\<close>.
  \<^item> \<open>Py_Strings\<close>: the string methods, regular-expression classes and number formatting the code uses.
  \<^item> \<open>Decimal28\<close>: Python decimals under the default context (28 digits, half-even).
  \<^item> \<open>Payment_Status\<close>: \<open>services/payment_status.py\<close>.
  \<^item> \<open>Coin_Balance\<close>: the wallet, ledger and packages of \<open>models/contest.py\<close>.
  \<^item> \<open>Points\<close>: the balances of \<open>models/core.py\<close> with the profile signal of \<open>signals.py\<close>.
  \<^item> \<open>Wallet_Config\<close>: \<open>WalletConfig\<close> of \<open>models/wallet.py\<close> and its arithmetic.
  \<^item> \<open>Withdrawal\<close>: \<open>WithdrawalRequest\<close>, the withdrawal handlers of \<open>views/wallet.py\<close> and the withdrawal
    part of the B2C callback in \<open>views/direct_debit.py\<close>.
  \<^item> \<open>Coin_Pricing\<close>: \<open>services/coin_pricing.py\<close>, \<open>coin_packages.py\<close>, \<open>coin_purchase.py\<close>.
  \<^item> \<open>Coin_Orders\<close>: the telebirr checkout and USSD purchase of \<open>views/wallet.py\<close>, with the subscriber that a
    USSD payment of \<open>views/subscription.py\<close> may create.
  \<^item> \<open>Subscription\<close>, \<open>Subscription_Gift\<close>: \<open>models/subscription.py\<close>, \<open>services/subscription_access.py\<close>,
    \<open>services/subscription_gift.py\<close>, \<open>services/subscription_daily_gift.py\<close>.
  \<^item> \<open>Timwe_Client\<close>, \<open>Timwe_Charging\<close>, \<open>Renewal\<close>: \<open>integrations/timwe/charge.py\<close> and \<open>errors.py\<close>,
    \<open>services/timwe_charging.py\<close>, \<open>services/airtime_purchase.py\<close>, \<open>views/charging.py\<close>,
    \<open>services/subscription_renewal.py\<close> and its tasks.
  \<^item> \<open>Points_Expiry\<close>: \<open>services/points_expiry.py\<close>, \<open>tasks/points.py\<close>.
  \<^item> \<open>Gifting\<close>: \<open>send_gift\<close> of \<open>views/gift.py\<close>, its serializer and \<open>services/contribution_limits.py\<close>.
  \<^item> \<open>Campaign_Workflow\<close>: \<open>services/realms.py\<close>, \<open>services/campaign_workflow.py\<close>,
    \<open>views/organization_campaigns.py\<close>.
  \<^item> \<open>Campaign_Eligibility\<close>: \<open>services/campaign_eligibility.py\<close>.
  \<^item> \<open>Engagement\<close>: \<open>services/campaign_charges.py\<close>, the vote, share and comment actions of \<open>views/core.py\<close> with
    their signals, the score of \<open>services/scoring/leaderboard.py\<close>, \<open>create_campaign_post\<close> of
    \<open>views/campaign_user.py\<close>.
  \<^item> \<open>Prizes\<close>: \<open>services/prize_structure.py\<close>, \<open>services/prize_delivery.py\<close>, \<open>tasks/prizes.py\<close>, the
    \<open>WinnerGiftTransaction\<close> of \<open>models/gift.py\<close>, and the winner part of the B2C callback.
  \<^item> \<open>Boost\<close>: paid promotion of posts, \<open>services/boost_tiers.py\<close>, \<open>models/boost.py\<close>, \<open>views/boost.py\<close>,
    \<open>tasks/boost.py\<close> and \<open>boost_post\<close> of \<open>views/contest.py\<close>.
  \<^item> \<open>Scoring\<close>: the scores of \<open>services/scoring/engine.py\<close> with \<open>CampaignScoringConfig\<close>, and the totals and the
    ranking of \<open>services/scoring/leaderboard.py\<close>.
  \<^item> \<open>Winners\<close>: the selectors of \<open>services/scoring/engine.py\<close> with \<open>WinnerFrequencyRecord\<close>, and the tasks of
    \<open>tasks/leaderboards.py\<close>, joined to the points ledger and to the prizes.
  \<^item> \<open>Grand_Final\<close>: finalists, judges, the public vote and the final ranking of \<open>views/scoring.py\<close>.
  \<^item> \<open>Post_Scoring\<close>: \<open>PostScore\<close> and \<open>UserCampaignStats\<close> of \<open>models/campaign_extended.py\<close>, the moderation of
    \<open>views/campaign_admin.py\<close> and the refresh of engagement and consistency in \<open>views/campaign_user.py\<close>.
  \<^item> \<open>Otp\<close>: \<open>services/otp.py\<close>, \<open>services/payment_otp.py\<close> and \<open>views/payment_verification.py\<close>; its locale
    \<open>expiring_store\<close> states what the code needs of the cache and is interpreted on the modelled cache.
  \<^item> \<open>Validators\<close>: \<open>common/validators/\<close> and \<open>common/security/pin_policy.py\<close>.
  \<^item> \<open>Media_Serving\<close>: \<open>common/http/ranges.py\<close> and \<open>views/media.py\<close>.

  \<^bold>\<open>How state and operations correspond to the code.\<close> A table is a map from keys to records, or a list of
  rows in order of creation where the code depends on the order; a model class is a record with the columns the
  code reads or writes. A handler is one function from the request and the state to a reply and a new state; a
  raised exception is an \<open>Inl\<close> value and what \<open>transaction.atomic\<close> rolls back is not in the state returned.
  Where two requests can overlap, the model has the pieces the code has between its commits: a withdrawal
  begins in one transaction and finishes in another, a charge is recorded before the provider is asked, a
  prize is delivered from a row read earlier, and histories interleave those pieces freely.

  \<^bold>\<open>What the lemmas show.\<close> For each holder of value: its invariant and that every operation keeps it, that
  balances move by exactly what the ledger records, and that a confirmation, an order, a gift of a day, a
  subscription period, a session, a selection of winners, or a prize takes effect at most once however often it
  is repeated. For each
  decision: the exact condition under which it is taken (quotes, fees, limits, access, eligibility,
  approvals). For texts: round trips and the agreement of different spellings. For optimised or batched code:
  equivalence with a plain reference, such as the reassembled chunks of a byte range or a scheduled run as
  single deliveries. Each theorem whose statement has a hypothesis is followed by a use at a concrete input.

  \<^bold>\<open>Bounds and termination.\<close> Every definition is total; recursion is structural or has a termination proof by
  a measure (chunks by remaining bytes, days of a schedule, digits of a number), so no fuel is used. Integer
  columns are bounded as the database declares them; Python integers are \<open>int\<close> or, where never negative, \<open>nat\<close>.

  \<^bold>\<open>Idealisations.\<close> Text is ASCII. Time is a number of microseconds read once per request; years do not end.
  Birr with two decimals is counted in hundredths, prize money in whole birr as the prize table has it. Keys
  that the database draws are numbers. Wording that the code only shows to a person is a template.
  Scores, which the code keeps as floats, are rationals. What lies
  outside the repository is an argument or part of the event: answers of telebirr, the CRM and TIMWE, parsed
  XML, random codes and the hash, the file store, the message broker, the validation of an uploaded file.

  \<^bold>\<open>Not modelled.\<close> The other endpoints of \<open>views/core.py\<close> and \<open>views/subscription.py\<close> (queries and
  serialisation), messaging and presence (\<open>websockets/\<close>), media processing (\<open>tasks/media.py\<close>: calls of
  external tools), the HTTP and SOAP clients of \<open>integrations/telebirr/\<close> (signing and transport), administration
  pages, migrations and settings.
\<close>

end
